(* ===== verification/Prelude.thy ===== *)
theory Prelude
  imports Main "HOL-Library.Word" "HOL-Library.Char_ord" "HOL-Library.List_Lexorder"
    "HOL-Library.Sublist"
begin

text \<open>
  What the components share: the types of bytes, machine integers and text, the pieces of
  Rust's standard library the sources use on text and lists (splitting, trimming, hexadecimal
  numbers, UTF-8), the monad-free combinators on results, and the generic lemmas about them.

  Text is kept in two forms. A \<open>string\<close> (a list of 8-bit characters) is a Rust string as its
  UTF-8 bytes, for code that only compares, splits or joins at ASCII characters: identifiers,
  paths, hexadecimal digits. A \<open>ustring\<close> (a list of code points) is a Rust string as its
  \<open>chars()\<close>, for code that counts or classifies characters: previews, file names.
\<close>

section \<open>Types and collections\<close>

type_synonym byte = "8 word"
type_synonym bytes = "8 word list"
type_synonym u8 = "8 word"
type_synonym u32 = "32 word"
type_synonym u64 = "64 word"
type_synonym uchar = nat
type_synonym ustring = "nat list"

text \<open>An instant, as \<open>chrono::DateTime<Utc>\<close>: nanoseconds since the Unix epoch.\<close>

type_synonym datetime = int

named_theorems result_simps \<open>unfolding of the combinators on results\<close>
named_theorems text_simps \<open>splitting, trimming and joining text\<close>

section \<open>Results\<close>

text \<open>A Rust \<open>Result<T, E>\<close> is \<open>'e + 't\<close>, with \<open>Inl\<close> for \<open>Err\<close>.\<close>

definition and_then :: "'e + 'a \<Rightarrow> ('a \<Rightarrow> 'e + 'b) \<Rightarrow> 'e + 'b" where
  "and_then r f = (case r of Inl e \<Rightarrow> Inl e | Inr x \<Rightarrow> f x)"

definition map_err :: "('e \<Rightarrow> 'f) \<Rightarrow> 'e + 'a \<Rightarrow> 'f + 'a" where
  "map_err f r = (case r of Inl e \<Rightarrow> Inl (f e) | Inr x \<Rightarrow> Inr x)"

definition ok_or :: "'a option \<Rightarrow> 'e \<Rightarrow> 'e + 'a" where
  "ok_or x e = (case x of None \<Rightarrow> Inl e | Some v \<Rightarrow> Inr v)"

definition is_ok :: "'e + 'a \<Rightarrow> bool" where
  "is_ok r = (case r of Inl _ \<Rightarrow> False | Inr _ \<Rightarrow> True)"

fun try_fold :: "('b \<Rightarrow> 'a \<Rightarrow> 'e + 'b) \<Rightarrow> 'b \<Rightarrow> 'a list \<Rightarrow> 'e + 'b" where
  "try_fold f acc [] = Inr acc"
| "try_fold f acc (x # xs) = (case f acc x of Inl e \<Rightarrow> Inl e | Inr acc' \<Rightarrow> try_fold f acc' xs)"

lemma and_then_simps [simp, result_simps]:
  "and_then (Inl e) f = Inl e" "and_then (Inr x) f = f x"
  by (simp_all add: and_then_def)

lemma map_err_simps [simp, result_simps]:
  "map_err f (Inl e) = Inl (f e)" "map_err f (Inr x) = Inr x"
  by (simp_all add: map_err_def)

lemma ok_or_simps [simp, result_simps]: "ok_or None e = Inl e" "ok_or (Some v) e = Inr v"
  by (simp_all add: ok_or_def)

lemma is_ok_simps [simp, result_simps]: "\<not> is_ok (Inl e)" "is_ok (Inr x)"
  by (simp_all add: is_ok_def)

lemma and_then_eq_Inr [result_simps]: "and_then r f = Inr y \<longleftrightarrow> (\<exists>x. r = Inr x \<and> f x = Inr y)"
  by (cases r) simp_all

lemma map_err_eq_Inr [simp, result_simps]: "map_err f r = Inr y \<longleftrightarrow> r = Inr y"
  by (cases r) simp_all

lemma ok_or_eq_Inr [simp, result_simps]: "ok_or x e = Inr y \<longleftrightarrow> x = Some y"
  by (cases x) simp_all

section \<open>Splitting and trimming text\<close>

text \<open>\<open>str::split\<close>: the pieces between separators; never empty.\<close>

fun split_by :: "('a \<Rightarrow> bool) \<Rightarrow> 'a list \<Rightarrow> 'a list list" where
  "split_by p [] = [[]]"
| "split_by p (x # xs) =
     (if p x then [] # split_by p xs
      else (x # hd (split_by p xs)) # tl (split_by p xs))"

text \<open>\<open>str::split_once\<close>: around the first separator; \<open>rsplit_once\<close>: around the last.\<close>

definition split_once :: "'a \<Rightarrow> 'a list \<Rightarrow> ('a list \<times> 'a list) option" where
  "split_once c xs =
     (case dropWhile (\<lambda>x. x \<noteq> c) xs of
        [] \<Rightarrow> None
      | _ # rest \<Rightarrow> Some (takeWhile (\<lambda>x. x \<noteq> c) xs, rest))"

definition rsplit_once :: "'a \<Rightarrow> 'a list \<Rightarrow> ('a list \<times> 'a list) option" where
  "rsplit_once c xs =
     (case split_once c (rev xs) of
        None \<Rightarrow> None
      | Some (after_rev, before_rev) \<Rightarrow> Some (rev before_rev, rev after_rev))"

definition trim_start :: "('a \<Rightarrow> bool) \<Rightarrow> 'a list \<Rightarrow> 'a list" where
  "trim_start p xs = dropWhile p xs"

definition trim_end :: "('a \<Rightarrow> bool) \<Rightarrow> 'a list \<Rightarrow> 'a list" where
  "trim_end p xs = rev (dropWhile p (rev xs))"

definition trim_both :: "('a \<Rightarrow> bool) \<Rightarrow> 'a list \<Rightarrow> 'a list" where
  "trim_both p xs = trim_end p (trim_start p xs)"

definition starts_with :: "'a list \<Rightarrow> 'a list \<Rightarrow> bool" where
  "starts_with xs ys = (take (length ys) xs = ys)"

definition ends_with :: "'a list \<Rightarrow> 'a list \<Rightarrow> bool" where
  "ends_with xs ys = (length ys \<le> length xs \<and> drop (length xs - length ys) xs = ys)"

definition strip_prefix :: "'a list \<Rightarrow> 'a list \<Rightarrow> 'a list option" where
  "strip_prefix ys xs = (if starts_with xs ys then Some (drop (length ys) xs) else None)"

definition strip_suffix :: "'a list \<Rightarrow> 'a list \<Rightarrow> 'a list option" where
  "strip_suffix ys xs = (if ends_with xs ys then Some (take (length xs - length ys) xs) else None)"

fun join_with :: "'a list \<Rightarrow> 'a list list \<Rightarrow> 'a list" where
  "join_with sep [] = []"
| "join_with sep [x] = x"
| "join_with sep (x # y # zs) = x @ sep @ join_with sep (y # zs)"

text \<open>\<open>str::contains\<close> for a text needle.\<close>

fun contains :: "'a list \<Rightarrow> 'a list \<Rightarrow> bool" where
  "contains [] needle = (needle = [])"
| "contains (x # xs) needle = (starts_with (x # xs) needle \<or> contains xs needle)"

lemma split_by_nonempty [simp, text_simps]: "split_by p xs \<noteq> []"
  by (cases xs) simp_all

lemma split_by_no_sep [text_simps]: "ys \<in> set (split_by p xs) \<Longrightarrow> y \<in> set ys \<Longrightarrow> \<not> p y"
proof (induction xs arbitrary: ys)
  case Nil
  then show ?case by simp
next
  case (Cons x xs)
  show ?case
  proof (cases "p x")
    case True
    with Cons show ?thesis by (cases "ys = []") auto
  next
    case False
    have hd: "hd (split_by p xs) \<in> set (split_by p xs)" by simp
    from False Cons.prems consider "ys = x # hd (split_by p xs)" | "ys \<in> set (tl (split_by p xs))"
      by auto
    then show ?thesis
    proof cases
      case 1
      with Cons.prems(2) False Cons.IH [OF hd] show ?thesis by auto
    next
      case 2
      then have "ys \<in> set (split_by p xs)" by (rule list.set_sel(2) [OF split_by_nonempty])
      then show ?thesis using Cons.IH Cons.prems(2) by blast
    qed
  qed
qed

lemma split_by_single: "(\<And>x. x \<in> set xs \<Longrightarrow> \<not> p x) \<Longrightarrow> split_by p xs = [xs]"
  by (induction xs) simp_all

lemma split_by_append_sep:
  "p c \<Longrightarrow> split_by p (xs @ c # ys) = split_by p xs @ split_by p ys"
proof (induction xs)
  case Nil
  then show ?case by simp
next
  case (Cons x xs)
  then show ?case by (cases "split_by p xs") simp_all
qed

lemma split_by_elems: "ys \<in> set (split_by p xs) \<Longrightarrow> set ys \<subseteq> set xs"
proof (induction xs arbitrary: ys)
  case Nil
  then show ?case by simp
next
  case (Cons x xs)
  have hd: "set (hd (split_by p xs)) \<subseteq> set xs" by (rule Cons.IH) simp
  have tl: "\<And>zs. zs \<in> set (tl (split_by p xs)) \<Longrightarrow> set zs \<subseteq> set xs"
    by (rule Cons.IH) (rule list.set_sel(2) [OF split_by_nonempty])
  show ?case
  proof (cases "p x")
    case True
    with Cons show ?thesis by auto
  next
    case False
    with Cons.prems consider "ys = x # hd (split_by p xs)" | "ys \<in> set (tl (split_by p xs))"
      by auto
    then show ?thesis using hd tl by cases auto
  qed
qed

lemma split_once_Some:
  "split_once c xs = Some (a, b) \<longleftrightarrow> xs = a @ c # b \<and> c \<notin> set a"
proof
  assume h: "split_once c xs = Some (a, b)"
  then obtain d where dw: "dropWhile (\<lambda>x. x \<noteq> c) xs = d # b" and a: "a = takeWhile (\<lambda>x. x \<noteq> c) xs"
    by (auto simp: split_once_def split: list.splits)
  from dw have "dropWhile (\<lambda>x. x \<noteq> c) xs \<noteq> []" by simp
  from hd_dropWhile [OF this] dw have "d = c" by simp
  with dw a have "xs = a @ c # b" by (metis takeWhile_dropWhile_id)
  moreover have "c \<notin> set a" using a set_takeWhileD by fastforce
  ultimately show "xs = a @ c # b \<and> c \<notin> set a" ..
next
  assume h: "xs = a @ c # b \<and> c \<notin> set a"
  then have p: "\<And>x. x \<in> set a \<Longrightarrow> x \<noteq> c" by auto
  have "dropWhile (\<lambda>x. x \<noteq> c) (a @ c # b) = c # b"
    using p by (simp add: dropWhile_append2)
  moreover have "takeWhile (\<lambda>x. x \<noteq> c) (a @ c # b) = a"
    using p by (simp add: takeWhile_append2)
  ultimately show "split_once c xs = Some (a, b)" using h by (simp add: split_once_def)
qed

lemma trim_start_hd: "trim_start p xs \<noteq> [] \<Longrightarrow> \<not> p (hd (trim_start p xs))"
  unfolding trim_start_def by (rule hd_dropWhile)

lemma trim_end_last: "trim_end p xs \<noteq> [] \<Longrightarrow> \<not> p (last (trim_end p xs))"
  unfolding trim_end_def by (simp add: last_rev hd_dropWhile)

lemma set_trim_start: "set (trim_start p xs) \<subseteq> set xs"
  unfolding trim_start_def by (auto dest: set_dropWhileD)

lemma set_trim_end: "set (trim_end p xs) \<subseteq> set xs"
  unfolding trim_end_def by (auto dest: set_dropWhileD)

lemma set_trim_both: "set (trim_both p xs) \<subseteq> set xs"
  unfolding trim_both_def using set_trim_end set_trim_start by fast

lemma starts_with_append [simp]: "starts_with (xs @ ys) xs"
  by (simp add: starts_with_def)

lemma starts_with_prefix: "starts_with xs ys \<longleftrightarrow> prefix ys xs"
  by (metis append_eq_conv_conj append_take_drop_id prefix_def starts_with_def)

lemma strip_prefix_Some: "strip_prefix ys xs = Some zs \<longleftrightarrow> xs = ys @ zs"
  unfolding strip_prefix_def starts_with_def by (auto, metis append_take_drop_id)

section \<open>Hexadecimal numbers\<close>

text \<open>\<open>char::to_digit(16)\<close>, \<open>u32::from_str_radix(_, 16)\<close> and the format \<open>{:0w$x}\<close>.\<close>

definition hex_val :: "char \<Rightarrow> nat option" where
  "hex_val c =
     (let n = of_char c :: nat in
      if 48 \<le> n \<and> n \<le> 57 then Some (n - 48)
      else if 97 \<le> n \<and> n \<le> 102 then Some (n - 87)
      else if 65 \<le> n \<and> n \<le> 70 then Some (n - 55)
      else None)"

definition hex_char :: "nat \<Rightarrow> char" where
  "hex_char d = (if d < 10 then char_of (48 + d) else char_of (87 + d))"

fun hex_digits_val :: "nat \<Rightarrow> string \<Rightarrow> nat option" where
  "hex_digits_val acc [] = Some acc"
| "hex_digits_val acc (c # cs) =
     (case hex_val c of None \<Rightarrow> None | Some d \<Rightarrow> hex_digits_val (16 * acc + d) cs)"

definition u32_from_str_radix16 :: "string \<Rightarrow> u32 option" where
  "u32_from_str_radix16 s =
     (let digits = (if starts_with s ''+'' then drop 1 s else s) in
      if digits = [] then None
      else (case hex_digits_val 0 digits of
              None \<Rightarrow> None
            | Some n \<Rightarrow> if n < 2 ^ 32 then Some (of_nat n) else None))"

fun to_hex :: "nat \<Rightarrow> string" where
  "to_hex n = (if n < 16 then [hex_char n] else to_hex (n div 16) @ [hex_char (n mod 16)])"

declare to_hex.simps [simp del]

definition hex_pad :: "nat \<Rightarrow> nat \<Rightarrow> string" where
  "hex_pad w n = replicate (w - length (to_hex n)) (CHR ''0'') @ to_hex n"

definition is_lower_hex_char :: "char \<Rightarrow> bool" where
  "is_lower_hex_char c =
     (let n = of_char c :: nat in (48 \<le> n \<and> n \<le> 57) \<or> (97 \<le> n \<and> n \<le> 102))"

lemma of_char_char_of_nat: "n < 256 \<Longrightarrow> (of_char (char_of n :: char) :: nat) = n"
  by simp

lemma of_hex_char: "d < 16 \<Longrightarrow> (of_char (hex_char d) :: nat) = (if d < 10 then 48 + d else 87 + d)"
  by (simp add: hex_char_def)

lemma hex_val_hex_char [simp]: "d < 16 \<Longrightarrow> hex_val (hex_char d) = Some d"
  by (simp add: hex_val_def of_hex_char Let_def)

lemma hex_char_lower [simp]: "d < 16 \<Longrightarrow> is_lower_hex_char (hex_char d)"
  by (simp add: is_lower_hex_char_def of_hex_char Let_def)

lemma hex_val_lower: "is_lower_hex_char c \<Longrightarrow> \<exists>d. hex_val c = Some d \<and> d < 16 \<and> hex_char d = c"
proof -
  assume h: "is_lower_hex_char c"
  define n where "n = (of_char c :: nat)"
  have c: "c = char_of n" by (simp add: n_def)
  from h have "(48 \<le> n \<and> n \<le> 57) \<or> (97 \<le> n \<and> n \<le> 102)"
    by (simp add: is_lower_hex_char_def n_def Let_def)
  then show ?thesis
  proof
    assume r: "48 \<le> n \<and> n \<le> 57"
    then have "hex_val c = Some (n - 48)" by (simp add: hex_val_def n_def [symmetric])
    moreover have "hex_char (n - 48) = c" using r c by (auto simp: hex_char_def)
    ultimately show ?thesis using r by (intro exI [of _ "n - 48"]) auto
  next
    assume r: "97 \<le> n \<and> n \<le> 102"
    then have "hex_val c = Some (n - 87)" by (simp add: hex_val_def n_def [symmetric])
    moreover have "hex_char (n - 87) = c" using r c by (auto simp: hex_char_def)
    ultimately show ?thesis using r by (intro exI [of _ "n - 87"]) auto
  qed
qed

lemma hex_char_less: "a < 16 \<Longrightarrow> b < 16 \<Longrightarrow> hex_char a < hex_char b \<longleftrightarrow> a < b"
  by (auto simp: less_char_def of_hex_char)

abbreviation lower_hex :: "string \<Rightarrow> bool" where
  "lower_hex s \<equiv> (\<forall>c \<in> set s. is_lower_hex_char c)"

lemma lower_hexD: "lower_hex s \<Longrightarrow> c \<in> set s \<Longrightarrow> is_lower_hex_char c"
  by blast

lemma hex_digits_val_acc:
  "hex_digits_val acc s = map_option (\<lambda>v. acc * 16 ^ length s + v) (hex_digits_val 0 s)"
proof (induction s arbitrary: acc)
  case Nil
  then show ?case by simp
next
  case (Cons c cs)
  show ?case
  proof (cases "hex_val c")
    case None
    then show ?thesis by simp
  next
    case (Some d)
    have "hex_digits_val acc (c # cs) =
        map_option (\<lambda>v. (16 * acc + d) * 16 ^ length cs + v) (hex_digits_val 0 cs)"
      using Some Cons.IH [of "16 * acc + d"] by simp
    moreover have "hex_digits_val 0 (c # cs) =
        map_option (\<lambda>v. d * 16 ^ length cs + v) (hex_digits_val 0 cs)"
      using Some Cons.IH [of d] by simp
    ultimately show ?thesis
      by (simp add: option.map_comp comp_def algebra_simps)
  qed
qed

lemma hex_digits_val_Cons:
  "hex_val c = Some d \<Longrightarrow>
   hex_digits_val 0 (c # cs) = map_option (\<lambda>v. d * 16 ^ length cs + v) (hex_digits_val 0 cs)"
  using hex_digits_val_acc [of d cs] by simp

lemma hex_digits_val_append:
  "hex_digits_val acc (s @ t) =
     (case hex_digits_val acc s of None \<Rightarrow> None | Some v \<Rightarrow> hex_digits_val v t)"
  by (induction s arbitrary: acc) (auto split: option.splits)

lemma lower_hex_value:
  "lower_hex s \<Longrightarrow> \<exists>v. hex_digits_val 0 s = Some v \<and> v < 16 ^ length s"
proof (induction s)
  case Nil
  then show ?case by simp
next
  case (Cons c cs)
  then obtain v where v: "hex_digits_val 0 cs = Some v" "v < 16 ^ length cs" by auto
  from Cons.prems obtain d where d: "hex_val c = Some d" "d < 16"
    using hex_val_lower [of c] by auto
  have "d * 16 ^ length cs + v < (d + 1) * 16 ^ length cs" using v by simp
  also have "\<dots> \<le> 16 * 16 ^ length cs" using d(2) by (intro mult_le_mono1) simp
  finally show ?case using v d by (simp add: hex_digits_val_Cons del: hex_digits_val.simps(2))
qed

text \<open>
  Strings of lower-case hexadecimal digits of one length are ordered as their numbers are:
  the reason identifiers of a fixed width sort chronologically.
\<close>

lemma lower_hex_order:
  assumes "lower_hex s" "lower_hex t" "length s = length t"
    and "hex_digits_val 0 s = Some v" "hex_digits_val 0 t = Some w"
  shows "s < t \<longleftrightarrow> v < w"
  using assms(3,1,2,4,5)
proof (induction s t arbitrary: v w rule: list_induct2)
  case Nil
  then show ?case by simp
next
  case (Cons x xs y ys)
  from Cons.prems obtain a b where
    a: "hex_val x = Some a" "a < 16" "hex_char a = x" and
    b: "hex_val y = Some b" "b < 16" "hex_char b = y"
    using hex_val_lower [of x] hex_val_lower [of y] by auto
  from Cons.prems obtain v' w' where
    v': "hex_digits_val 0 xs = Some v'" "v' < 16 ^ length xs" and
    w': "hex_digits_val 0 ys = Some w'" "w' < 16 ^ length ys"
    using lower_hex_value [of xs] lower_hex_value [of ys] by auto
  have v: "v = a * 16 ^ length xs + v'" and w: "w = b * 16 ^ length xs + w'"
    using Cons.prems Cons.hyps a b v' w'
    by (simp_all add: hex_digits_val_Cons del: hex_digits_val.simps(2))
  have IH: "xs < ys \<longleftrightarrow> v' < w'" using Cons v'(1) w'(1) by simp
  have step: "p * k + r < q * k + t" if "p < q" "r < k" for p q k r t :: nat
  proof -
    have "p * k + r < (p + 1) * k" using that(2) by simp
    also have "\<dots> \<le> q * k" using that(1) by (intro mult_le_mono1) simp
    finally show ?thesis by simp
  qed
  have xy: "x < y \<longleftrightarrow> a < b" using a b hex_char_less by metis
  consider "a < b" | "a = b" | "b < a" by linarith
  then show ?case
  proof cases
    case 1
    then have "v < w" using step v'(2) v w by blast
    then show ?thesis using 1 xy by simp
  next
    case 2
    then have "x = y" using a b by simp
    then show ?thesis using 2 IH v w by simp
  next
    case 3
    then have "w < v" using step w'(2) Cons.hyps v w by metis
    moreover have "\<not> x < y" "x \<noteq> y" using 3 xy a b by auto
    ultimately show ?thesis by simp
  qed
qed

lemma lower_hex_inj:
  assumes "lower_hex s" "lower_hex t" "length s = length t"
    and "hex_digits_val 0 s = Some v" "hex_digits_val 0 t = Some v"
  shows "s = t"
  using lower_hex_order [OF assms] lower_hex_order [OF assms(2,1) assms(3)[symmetric] assms(5,4)]
  by (metis less_irrefl linorder_less_linear)

lemma to_hex_lower: "lower_hex (to_hex n)"
proof (induction n rule: to_hex.induct)
  case (1 n)
  then show ?case by (cases "n < 16") (auto simp: to_hex.simps [of n])
qed

lemma to_hex_value: "hex_digits_val 0 (to_hex n) = Some n"
proof (induction n rule: to_hex.induct)
  case (1 n)
  then show ?case
    by (cases "n < 16") (auto simp: to_hex.simps [of n] hex_digits_val_append)
qed

lemma to_hex_length: "n < 16 ^ Suc k \<Longrightarrow> length (to_hex n) \<le> Suc k"
proof (induction k arbitrary: n)
  case 0
  then show ?case by (simp add: to_hex.simps [of n])
next
  case (Suc k)
  show ?case
  proof (cases "n < 16")
    case True
    then show ?thesis by (simp add: to_hex.simps [of n])
  next
    case False
    have "n div 16 < 16 ^ Suc k" using Suc.prems by (simp add: less_mult_imp_div_less)
    then have "length (to_hex (n div 16)) \<le> Suc k" by (rule Suc.IH)
    with False show ?thesis by (simp add: to_hex.simps [of n])
  qed
qed

lemma hex_digits_val_zeros: "hex_digits_val 0 (replicate k (CHR ''0'') @ s) = hex_digits_val 0 s"
proof (induction k)
  case 0
  then show ?case by simp
next
  case (Suc k)
  have "hex_val (CHR ''0'') = Some 0" by (simp add: hex_val_def)
  with Suc show ?case by simp
qed

lemma hex_pad_value: "hex_digits_val 0 (hex_pad w n) = Some n"
  by (simp add: hex_pad_def hex_digits_val_zeros to_hex_value)

lemma hex_pad_lower: "lower_hex (hex_pad w n)"
  using to_hex_lower [of n] by (auto simp: hex_pad_def is_lower_hex_char_def)

lemma hex_pad_length: "n < 16 ^ w \<Longrightarrow> 0 < w \<Longrightarrow> length (hex_pad w n) = w"
  using to_hex_length [of n "w - 1"] by (simp add: hex_pad_def)


section \<open>Characters\<close>

lemma of_char_less_256: "(of_char c :: nat) < 256"
  by (cases c) (simp add: of_char_def horner_sum_bit_eq_take_bit)

section \<open>Sorting\<close>

lemma strictly_sort_key:
  assumes "distinct (map f xs)"
  shows "sorted_wrt (\<lambda>a b. f a < f b) (sort_key f xs)"
proof -
  have "distinct (map f (sort_key f xs))" using assms by (simp add: distinct_map)
  then have "sorted_wrt (<) (map f (sort_key f xs))"
    by (simp add: strict_sorted_iff)
  then show ?thesis by (simp add: sorted_wrt_map)
qed

end
