(* ===== verification/Utf8.thy ===== *)
theory Utf8
  imports Prelude
begin

text \<open>
  UTF-8 as Rust's standard library reads and writes it: \<open>String::as_bytes\<close>,
  \<open>str::from_utf8\<close> and the position \<open>Utf8Error::valid_up_to\<close>. Decoding follows the table of
  well-formed byte sequences (no overlong forms, no surrogates, nothing above U+10FFFF). The
  lemmas: encoding and decoding are inverse, and the longest valid prefix of a text cut at any
  byte is a prefix of the text.
\<close>

section \<open>Encoding\<close>

definition is_scalar :: "uchar \<Rightarrow> bool" where
  "is_scalar c = (c < 0xD800 \<or> (0xE000 \<le> c \<and> c < 0x110000))"

definition byte_of :: "nat \<Rightarrow> byte" where
  "byte_of n = of_nat n"

definition utf8_char :: "uchar \<Rightarrow> bytes" where
  "utf8_char c =
     (if c < 0x80 then [byte_of c]
      else if c < 0x800 then [byte_of (0xC0 + c div 64), byte_of (0x80 + c mod 64)]
      else if c < 0x10000 then
        [byte_of (0xE0 + c div 4096), byte_of (0x80 + c div 64 mod 64), byte_of (0x80 + c mod 64)]
      else
        [byte_of (0xF0 + c div 262144), byte_of (0x80 + c div 4096 mod 64),
         byte_of (0x80 + c div 64 mod 64), byte_of (0x80 + c mod 64)])"

definition utf8_encode :: "ustring \<Rightarrow> bytes" where
  "utf8_encode t = concat (map utf8_char t)"

section \<open>Decoding\<close>

definition is_cont :: "byte \<Rightarrow> bool" where
  "is_cont b = (0x80 \<le> unat b \<and> unat b < 0xC0)"

definition cont_val :: "byte \<Rightarrow> nat" where
  "cont_val b = unat b - 0x80"

text \<open>The first character of a byte sequence, and what follows it.\<close>

definition utf8_next :: "bytes \<Rightarrow> (uchar \<times> bytes) option" where
  "utf8_next bs =
     (case bs of
        [] \<Rightarrow> None
      | b0 # rest \<Rightarrow>
          if unat b0 < 0x80 then Some (unat b0, rest)
          else if 0xC2 \<le> unat b0 \<and> unat b0 < 0xE0 then
            (case rest of
               b1 # rest1 \<Rightarrow>
                 if is_cont b1 then Some ((unat b0 - 0xC0) * 64 + cont_val b1, rest1) else None
             | _ \<Rightarrow> None)
          else if 0xE0 \<le> unat b0 \<and> unat b0 < 0xF0 then
            (case rest of
               b1 # b2 # rest2 \<Rightarrow>
                 if is_cont b1 \<and> is_cont b2
                    \<and> (unat b0 = 0xE0 \<longrightarrow> 0xA0 \<le> unat b1) \<and> (unat b0 = 0xED \<longrightarrow> unat b1 < 0xA0)
                 then Some ((unat b0 - 0xE0) * 4096 + cont_val b1 * 64 + cont_val b2, rest2)
                 else None
             | _ \<Rightarrow> None)
          else if 0xF0 \<le> unat b0 \<and> unat b0 < 0xF5 then
            (case rest of
               b1 # b2 # b3 # rest3 \<Rightarrow>
                 if is_cont b1 \<and> is_cont b2 \<and> is_cont b3
                    \<and> (unat b0 = 0xF0 \<longrightarrow> 0x90 \<le> unat b1) \<and> (unat b0 = 0xF4 \<longrightarrow> unat b1 < 0x90)
                 then Some ((unat b0 - 0xF0) * 262144 + cont_val b1 * 4096 + cont_val b2 * 64
                            + cont_val b3, rest3)
                 else None
             | _ \<Rightarrow> None)
          else None)"

lemma utf8_next_shorter: "utf8_next bs = Some (c, rest) \<Longrightarrow> length rest < length bs"
  by (auto simp: utf8_next_def split: list.splits if_splits)

text \<open>The characters of the longest valid prefix, and the bytes after it.\<close>

function utf8_decode :: "bytes \<Rightarrow> ustring \<times> bytes" where
  "utf8_decode bs =
     (case utf8_next bs of
        None \<Rightarrow> ([], bs)
      | Some (c, rest) \<Rightarrow> (case utf8_decode rest of (cs, left) \<Rightarrow> (c # cs, left)))"
  by pat_completeness auto
termination
  by (relation "measure length") (auto simp: utf8_next_shorter)

declare utf8_decode.simps [simp del]

text \<open>\<open>str::from_utf8(bytes)\<close>, and its fallback to \<open>bytes[..err.valid_up_to()]\<close>.\<close>

definition from_utf8 :: "bytes \<Rightarrow> ustring option" where
  "from_utf8 bs = (case utf8_decode bs of (t, []) \<Rightarrow> Some t | (_, _ # _) \<Rightarrow> None)"

section \<open>Round trip\<close>

lemma unat_byte: "n < 256 \<Longrightarrow> unat (byte_of n) = n"
  by (simp add: byte_of_def unat_of_nat)

text \<open>The digits of a code point in base 64.\<close>

lemma base64_digits:
  fixes c :: nat
  shows "c div 64 * 64 + c mod 64 = c"
    and "c div 4096 * 4096 + c div 64 mod 64 * 64 + c mod 64 = c"
    and "c div 262144 * 262144 + c div 4096 mod 64 * 4096 + c div 64 mod 64 * 64 + c mod 64 = c"
proof -
  have a: "c div 64 * 64 + c mod 64 = c" by simp
  have b: "c div 4096 * 64 + c div 64 mod 64 = c div 64"
    using div_mult_mod_eq [of "c div 64" 64] by (simp add: div_mult2_eq [symmetric])
  have d: "c div 262144 * 64 + c div 4096 mod 64 = c div 4096"
    using div_mult_mod_eq [of "c div 4096" 64] by (simp add: div_mult2_eq [symmetric])
  show "c div 64 * 64 + c mod 64 = c" by (rule a)
  show "c div 4096 * 4096 + c div 64 mod 64 * 64 + c mod 64 = c"
    using a b by linarith
  show "c div 262144 * 262144 + c div 4096 mod 64 * 4096 + c div 64 mod 64 * 64 + c mod 64 = c"
    using a b d by linarith
qed

text \<open>What \<^const>\<open>utf8_next\<close> reads from the bytes of given base-64 digits.\<close>

lemma utf8_next_2: "2 \<le> p \<Longrightarrow> p < 32 \<Longrightarrow> q < 64 \<Longrightarrow>
  utf8_next (byte_of (0xC0 + p) # byte_of (0x80 + q) # rest) = Some (p * 64 + q, rest)"
  by (simp add: utf8_next_def unat_byte is_cont_def cont_val_def)

lemma utf8_next_3: "p < 16 \<Longrightarrow> q < 64 \<Longrightarrow> r < 64 \<Longrightarrow> (p = 0 \<longrightarrow> 32 \<le> q) \<Longrightarrow> (p = 13 \<longrightarrow> q < 32) \<Longrightarrow>
  utf8_next (byte_of (0xE0 + p) # byte_of (0x80 + q) # byte_of (0x80 + r) # rest) =
  Some (p * 4096 + q * 64 + r, rest)"
  by (simp add: utf8_next_def unat_byte is_cont_def cont_val_def)

lemma utf8_next_4:
  "p < 5 \<Longrightarrow> q < 64 \<Longrightarrow> r < 64 \<Longrightarrow> s < 64 \<Longrightarrow> (p = 0 \<longrightarrow> 16 \<le> q) \<Longrightarrow> (p = 4 \<longrightarrow> q < 16) \<Longrightarrow>
  utf8_next (byte_of (0xF0 + p) # byte_of (0x80 + q) # byte_of (0x80 + r) # byte_of (0x80 + s) # rest) =
  Some (p * 262144 + q * 4096 + r * 64 + s, rest)"
  by (simp add: utf8_next_def unat_byte is_cont_def cont_val_def)

lemma utf8_next_char: "is_scalar c \<Longrightarrow> utf8_next (utf8_char c @ rest) = Some (c, rest)"
proof -
  assume sc: "is_scalar c"
  have dm: "c mod 64 < 64" "c div 64 mod 64 < 64" "c div 4096 mod 64 < 64" by simp_all
  consider "c < 0x80" | "0x80 \<le> c" "c < 0x800" | "0x800 \<le> c" "c < 0x10000" | "0x10000 \<le> c"
    by linarith
  then show ?thesis
  proof cases
    case 1
    then show ?thesis by (simp add: utf8_char_def utf8_next_def unat_byte)
  next
    case 2
    then have "2 \<le> c div 64" "c div 64 < 32" by auto
    from utf8_next_2 [OF this dm(1)] 2 show ?thesis
      using base64_digits(1) [of c] by (simp add: utf8_char_def)
  next
    case 3
    then have r: "c div 4096 < 16" by auto
    have lo: "c div 4096 = 0 \<longrightarrow> 32 \<le> c div 64 mod 64"
      using 3 base64_digits(2) [of c] dm by linarith
    have hi: "c div 4096 = 13 \<longrightarrow> c div 64 mod 64 < 32"
      using sc [unfolded is_scalar_def] 3 base64_digits(2) [of c] dm by linarith
    from utf8_next_3 [OF r dm(2,1) lo hi] 3 show ?thesis
      using base64_digits(2) [of c] by (simp add: utf8_char_def)
  next
    case 4
    then have r: "c div 262144 < 5" using sc by (auto simp: is_scalar_def)
    have lo: "c div 262144 = 0 \<longrightarrow> 16 \<le> c div 4096 mod 64"
      using 4 base64_digits(3) [of c] dm by linarith
    have hi: "c div 262144 = 4 \<longrightarrow> c div 4096 mod 64 < 16"
      using sc [unfolded is_scalar_def] 4 base64_digits(3) [of c] dm by linarith
    from utf8_next_4 [OF r dm(3,2,1) lo hi] 4 show ?thesis
      using base64_digits(3) [of c] by (simp add: utf8_char_def)
  qed
qed

lemma utf8_char_nonempty [simp]: "utf8_char c \<noteq> []"
  by (simp add: utf8_char_def)

lemma utf8_encode_Nil [simp]: "utf8_encode [] = []"
  by (simp add: utf8_encode_def)

lemma utf8_encode_Cons: "utf8_encode (c # t) = utf8_char c @ utf8_encode t"
  by (simp add: utf8_encode_def)

lemma utf8_decode_Nil [simp]: "utf8_decode [] = ([], [])"
  by (simp add: utf8_decode.simps [of "[]"] utf8_next_def)

lemma utf8_decode_Cons:
  "is_scalar c \<Longrightarrow>
   utf8_decode (utf8_char c @ bs) = (c # fst (utf8_decode bs), snd (utf8_decode bs))"
  by (subst utf8_decode.simps) (simp add: utf8_next_char split: prod.splits)

lemma utf8_decode_encode:
  "\<forall>c \<in> set t. is_scalar c \<Longrightarrow> utf8_decode (utf8_encode t) = (t, [])"
  by (induction t) (simp_all add: utf8_encode_Cons utf8_decode_Cons)

lemma from_utf8_encode: "\<forall>c \<in> set t. is_scalar c \<Longrightarrow> from_utf8 (utf8_encode t) = Some t"
  by (simp add: from_utf8_def utf8_decode_encode)

text \<open>A character cut short does not decode.\<close>

lemma utf8_next_cut:
  assumes sc: "is_scalar c" and k: "k < length (utf8_char c)"
  shows "utf8_next (take k (utf8_char c)) = None"
proof -
  note defs = utf8_char_def utf8_next_def unat_byte
  have two: "Suc 0 < 2" "Suc (Suc 0) = 2" by simp_all
  consider "c < 0x80" | "0x80 \<le> c" "c < 0x800" | "0x800 \<le> c" "c < 0x10000" | "0x10000 \<le> c"
    by linarith
  then show ?thesis
  proof cases
    case 1
    with k show ?thesis by (simp add: defs)
  next
    case 2
    then have "c div 64 < 32" by auto
    moreover have "k = 0 \<or> k = 1" using k 2 by (auto simp: utf8_char_def)
    ultimately show ?thesis using 2 by (elim disjE) (simp_all add: defs)
  next
    case 3
    then have "c div 4096 < 16" by auto
    moreover have "k = 0 \<or> k = 1 \<or> k = 2" using k 3 by (auto simp: utf8_char_def)
    ultimately show ?thesis using 3 by (elim disjE) (simp_all add: defs)
  next
    case 4
    then have "c div 262144 < 5" using sc by (auto simp: is_scalar_def)
    moreover have "k = 0 \<or> k = 1 \<or> k = 2 \<or> k = 3" using k 4 by (auto simp: utf8_char_def)
    ultimately show ?thesis using 4 by (elim disjE) (simp_all add: defs)
  qed
qed

text \<open>Cut at any byte, the longest valid prefix of an encoded text is a prefix of the text.\<close>

lemma utf8_decode_take:
  "\<forall>c \<in> set t. is_scalar c \<Longrightarrow>
   \<exists>k. fst (utf8_decode (take n (utf8_encode t))) = take k t \<and> length (utf8_encode (take k t)) \<le> n"
proof (induction t arbitrary: n)
  case Nil
  then show ?case by simp
next
  case (Cons c t)
  show ?case
  proof (cases "n < length (utf8_char c)")
    case True
    then have "take n (utf8_encode (c # t)) = take n (utf8_char c)"
      by (simp add: utf8_encode_Cons)
    moreover have "utf8_next (take n (utf8_char c)) = None"
      using Cons.prems True by (simp add: utf8_next_cut)
    ultimately show ?thesis
      by (intro exI [of _ 0]) (simp add: utf8_decode.simps [of "take n (utf8_char c)"])
  next
    case False
    let ?m = "n - length (utf8_char c)"
    obtain k where k: "fst (utf8_decode (take ?m (utf8_encode t))) = take k t"
      "length (utf8_encode (take k t)) \<le> ?m"
      using Cons by auto
    have "take n (utf8_encode (c # t)) = utf8_char c @ take ?m (utf8_encode t)"
      using False by (simp add: utf8_encode_Cons)
    then have "fst (utf8_decode (take n (utf8_encode (c # t)))) = take (Suc k) (c # t)"
      using Cons.prems k by (simp add: utf8_decode_Cons)
    moreover have "length (utf8_encode (take (Suc k) (c # t))) \<le> n"
      using False k by (simp add: utf8_encode_Cons)
    ultimately show ?thesis by blast
  qed
qed

end
