(* ===== verification/Model.thy ===== *)
theory Model
  imports Utf8
begin

text \<open>
  The item model of \<^verbatim>\<open>passalong-core/src/model.rs\<close>: content keys, time-sortable item
  identifiers, item metadata, and the two functions that make untrusted or arbitrary text safe
  to show and to create files with. The lemmas: identifiers and text determine each other, the
  text order of identifiers is chronological, previews are one bounded line, and sanitised file
  names are usable on every platform.

  The record \<open>ext\<close> holds what the sources take from third-party crates: SHA-256, the
  \<^verbatim>\<open>hex\<close> crate, the MIME table, and chrono's formatting. Every definition that uses one of them
  takes the record as an argument; later theories extend it.
\<close>

section \<open>Third-party functions\<close>

record ext =
  x_sha256 :: "bytes \<Rightarrow> bytes"
  x_hex_encode :: "bytes \<Rightarrow> string"
  x_hex_decode :: "string \<Rightarrow> bytes option"
  x_mime_guess :: "ustring \<Rightarrow> ustring"
  x_clipboard_name :: "datetime \<Rightarrow> ustring"

text \<open>What the \<^verbatim>\<open>hex\<close> and \<^verbatim>\<open>sha2\<close> crates document.\<close>

definition hex_laws :: "'z ext_scheme \<Rightarrow> bool" where
  "hex_laws E \<longleftrightarrow>
     (\<forall>b. length (x_hex_encode E b) = 2 * length b \<and> lower_hex (x_hex_encode E b)
          \<and> x_hex_decode E (x_hex_encode E b) = Some b)"

definition sha256_laws :: "'z ext_scheme \<Rightarrow> bool" where
  "sha256_laws E \<longleftrightarrow> (\<forall>b. length (x_sha256 E b) = 32)"

lemma hex_lawsD:
  assumes "hex_laws E"
  shows "length (x_hex_encode E b) = 2 * length b" "lower_hex (x_hex_encode E b)"
    "x_hex_decode E (x_hex_encode E b) = Some b"
  using assms by (simp_all add: hex_laws_def)

lemma hex_encode_inj: "hex_laws E \<Longrightarrow> x_hex_encode E a = x_hex_encode E b \<Longrightarrow> a = b"
  by (metis hex_lawsD(3) option.inject)

section \<open>Errors\<close>

datatype model_error =
    InvalidItemId string
  | InvalidContentKey string
  | TimestampOutOfRange datetime
  | InvalidFileName ustring

definition KEY_HEX_LEN :: nat where "KEY_HEX_LEN = 12"
definition TIMESTAMP_HEX_LEN :: nat where "TIMESTAMP_HEX_LEN = 8"
definition PREVIEW_CHARS :: nat where "PREVIEW_CHARS = 80"

definition ustr :: "string \<Rightarrow> ustring" where
  "ustr s = map of_char s"

definition TEXT_MIME :: ustring where "TEXT_MIME = ustr ''text/plain; charset=utf-8''"
definition IMAGE_MIME :: ustring where "IMAGE_MIME = ustr ''image/png''"

definition is_lower_hex :: "string \<Rightarrow> nat \<Rightarrow> bool" where
  "is_lower_hex text len = (length text = len \<and> list_all is_lower_hex_char text)"

section \<open>Hashing\<close>

text \<open>
  The incremental hasher: the bytes fed so far stand for the state of \<^verbatim>\<open>Sha256\<close>, whose
  \<open>finalize\<close> is SHA-256 of everything fed. The size is a \<open>u64\<close>.
\<close>

record content_hasher =
  ch_inner :: bytes
  ch_size :: u64

record content_digest =
  cd_sha256 :: bytes
  cd_size :: u64

definition hasher_new :: content_hasher where
  "hasher_new = \<lparr>ch_inner = [], ch_size = 0\<rparr>"

definition hasher_update :: "bytes \<Rightarrow> content_hasher \<Rightarrow> content_hasher" where
  "hasher_update b h = h\<lparr>ch_inner := ch_inner h @ b, ch_size := ch_size h + of_nat (length b)\<rparr>"

definition hasher_finalize :: "'z ext_scheme \<Rightarrow> content_hasher \<Rightarrow> content_digest" where
  "hasher_finalize E h = \<lparr>cd_sha256 = x_sha256 E (ch_inner h), cd_size = ch_size h\<rparr>"

definition digest_of :: "'z ext_scheme \<Rightarrow> bytes \<Rightarrow> content_digest" where
  "digest_of E b = \<lparr>cd_sha256 = x_sha256 E b, cd_size = of_nat (length b)\<rparr>"

definition sha256_hex :: "'z ext_scheme \<Rightarrow> content_digest \<Rightarrow> string" where
  "sha256_hex E d = x_hex_encode E (cd_sha256 d)"

lemma hasher_fold:
  "hasher_finalize E (fold hasher_update chunks hasher_new) = digest_of E (concat chunks)"
proof -
  have "fold hasher_update chunks h =
      h\<lparr>ch_inner := ch_inner h @ concat chunks, ch_size := ch_size h + of_nat (length (concat chunks))\<rparr>"
    for h
    by (induction chunks arbitrary: h) (simp_all add: hasher_update_def)
  then show ?thesis
    by (simp add: hasher_finalize_def digest_of_def hasher_new_def)
qed

section \<open>Content keys and item identifiers\<close>

datatype content_key = ContentKey (key_str: string)

definition key_from_sha256 :: "'z ext_scheme \<Rightarrow> bytes \<Rightarrow> content_key" where
  "key_from_sha256 E sha = ContentKey (x_hex_encode E (take (KEY_HEX_LEN div 2) sha))"

definition key_parse :: "string \<Rightarrow> model_error + content_key" where
  "key_parse text =
     (if is_lower_hex text KEY_HEX_LEN then Inr (ContentKey text) else Inl (InvalidContentKey text))"

definition digest_content_key :: "'z ext_scheme \<Rightarrow> content_digest \<Rightarrow> content_key" where
  "digest_content_key E d = key_from_sha256 E (cd_sha256 d)"

text \<open>The field order is the code's: the derived order compares the text first.\<close>

datatype item_id = ItemId (id_repr: string) (id_secs: u32) (id_key: content_key)

definition datetime_secs :: "datetime \<Rightarrow> int" where
  "datetime_secs t = t div 1000000000"

definition from_secs :: "int \<Rightarrow> datetime" where
  "from_secs s = s * 1000000000"

definition item_id_new :: "datetime \<Rightarrow> content_key \<Rightarrow> model_error + item_id" where
  "item_id_new created_at key =
     (let s = datetime_secs created_at in
      if 0 \<le> s \<and> s < 2 ^ 32 then
        let secs = (word_of_int s :: u32) in
        Inr (ItemId (hex_pad TIMESTAMP_HEX_LEN (unat secs) @ CHR ''-'' # key_str key) secs key)
      else Inl (TimestampOutOfRange created_at))"

definition item_id_parse :: "string \<Rightarrow> model_error + item_id" where
  "item_id_parse text =
     (case split_once (CHR ''-'') text of
        None \<Rightarrow> Inl (InvalidItemId text)
      | Some (ts, key) \<Rightarrow>
          if \<not> is_lower_hex ts TIMESTAMP_HEX_LEN \<or> \<not> is_lower_hex key KEY_HEX_LEN
          then Inl (InvalidItemId text)
          else (case u32_from_str_radix16 ts of
                  None \<Rightarrow> Inl (InvalidItemId text)
                | Some secs \<Rightarrow> Inr (ItemId text secs (ContentKey key))))"

definition id_timestamp :: "item_id \<Rightarrow> datetime" where
  "id_timestamp i = from_secs (uint (id_secs i))"

text \<open>The orders the code derives, as instances of the library's class.\<close>

instantiation content_key :: linorder
begin

definition less_eq_content_key :: "content_key \<Rightarrow> content_key \<Rightarrow> bool" where
  "less_eq_content_key a b = (key_str a \<le> key_str b)"

definition less_content_key :: "content_key \<Rightarrow> content_key \<Rightarrow> bool" where
  "less_content_key a b = (key_str a < key_str b)"

instance
  by intro_classes (auto simp: less_eq_content_key_def less_content_key_def content_key.expand)

end

instantiation item_id :: linorder
begin

definition less_eq_item_id :: "item_id \<Rightarrow> item_id \<Rightarrow> bool" where
  "less_eq_item_id a b =
     (id_repr a < id_repr b
      \<or> (id_repr a = id_repr b
         \<and> (id_secs a < id_secs b \<or> (id_secs a = id_secs b \<and> id_key a \<le> id_key b))))"

definition less_item_id :: "item_id \<Rightarrow> item_id \<Rightarrow> bool" where
  "less_item_id a b = (a \<le> b \<and> \<not> b \<le> (a :: item_id))"

instance
proof
  fix x y z :: item_id
  show "(x < y) = (x \<le> y \<and> \<not> y \<le> x)" by (simp add: less_item_id_def)
  show "x \<le> x" by (simp add: less_eq_item_id_def)
  show "x \<le> z" if a: "x \<le> y" "y \<le> z"
    using a unfolding less_eq_item_id_def by (elim disjE conjE) (auto intro: order.trans dest: order.strict_trans)
  show "x = y" if a: "x \<le> y" "y \<le> x"
    using a unfolding less_eq_item_id_def by (auto intro!: item_id.expand)
  show "x \<le> y \<or> y \<le> x"
    unfolding less_eq_item_id_def by (auto simp: not_less_iff_gr_or_eq)
qed

end

text \<open>Well-formed keys and identifiers: what parsing and building produce.\<close>

definition key_wf :: "content_key \<Rightarrow> bool" where
  "key_wf k = is_lower_hex (key_str k) KEY_HEX_LEN"

definition id_wf :: "item_id \<Rightarrow> bool" where
  "id_wf i \<longleftrightarrow>
     id_repr i = hex_pad TIMESTAMP_HEX_LEN (unat (id_secs i)) @ CHR ''-'' # key_str (id_key i)
     \<and> key_wf (id_key i)"


lemma lower_hex_list_all [text_simps]: "is_lower_hex s n \<longleftrightarrow> length s = n \<and> lower_hex s"
  by (simp add: is_lower_hex_def list_all_iff)

lemma dash_not_hex [simp]: "\<not> is_lower_hex_char (CHR ''-'')"
  by (simp add: is_lower_hex_char_def)

lemma plus_not_hex [simp]: "\<not> is_lower_hex_char (CHR ''+'')"
  by (simp add: is_lower_hex_char_def)

lemma lower_hex_no_dash: "lower_hex s \<Longrightarrow> CHR ''-'' \<notin> set s"
  using dash_not_hex by blast

lemma uint_lt_2p_32: "unat (w :: u32) < 2 ^ 32"
  using unsigned_less [of w, where ?'a = nat] by simp

lemma ts_hex_of_u32:
  "length (hex_pad TIMESTAMP_HEX_LEN (unat (w :: u32))) = 8"
  "lower_hex (hex_pad TIMESTAMP_HEX_LEN (unat w))"
proof -
  have "unat w < 16 ^ 8" using uint_lt_2p_32 [of w] by simp
  then show "length (hex_pad TIMESTAMP_HEX_LEN (unat w)) = 8"
    by (simp add: TIMESTAMP_HEX_LEN_def hex_pad_length)
  show "lower_hex (hex_pad TIMESTAMP_HEX_LEN (unat w))" by (rule hex_pad_lower)
qed

lemma u32_radix16_lower_hex:
  assumes "lower_hex s" "length s = 8"
  shows "\<exists>w. u32_from_str_radix16 s = Some w \<and> hex_digits_val 0 s = Some (unat w)
    \<and> hex_pad TIMESTAMP_HEX_LEN (unat w) = s"
proof -
  from assms(1) obtain v where v: "hex_digits_val 0 s = Some v" "v < 16 ^ length s"
    using lower_hex_value by blast
  have v32: "v < 2 ^ 32" using v(2) assms(2) by simp
  have np: "\<not> starts_with s ''+''"
    using assms by (cases s) (auto simp: starts_with_def)
  have w: "u32_from_str_radix16 s = Some (of_nat v)"
    using assms(2) v(1) v32 np by (auto simp: u32_from_str_radix16_def)
  have u: "unat (of_nat v :: u32) = v" using v32 by (simp add: unat_of_nat)
  have "hex_pad TIMESTAMP_HEX_LEN v = s"
    by (rule lower_hex_inj [OF hex_pad_lower assms(1) _ hex_pad_value v(1)])
      (use ts_hex_of_u32(1) [of "of_nat v"] u assms(2) in simp)
  with w u v(1) show ?thesis by auto
qed

lemma u32_radix16_pad: "u32_from_str_radix16 (hex_pad TIMESTAMP_HEX_LEN (unat (w :: u32))) = Some w"
proof -
  obtain w' where w': "u32_from_str_radix16 (hex_pad TIMESTAMP_HEX_LEN (unat w)) = Some w'"
    "hex_digits_val 0 (hex_pad TIMESTAMP_HEX_LEN (unat w)) = Some (unat w')"
    using u32_radix16_lower_hex [OF ts_hex_of_u32(2,1)] by blast
  then have "unat w = unat w'" by (simp add: hex_pad_value)
  then have "w' = w" by (simp only: word_unat_eq_iff)
  with w'(1) show ?thesis by simp
qed

lemma item_id_parse_repr: "id_wf i \<Longrightarrow> item_id_parse (id_repr i) = Inr i"
proof -
  assume wf: "id_wf i"
  let ?ts = "hex_pad TIMESTAMP_HEX_LEN (unat (id_secs i))"
  have "split_once (CHR ''-'') (id_repr i) = Some (?ts, key_str (id_key i))"
    using wf lower_hex_no_dash [OF ts_hex_of_u32(2)] by (simp add: split_once_Some id_wf_def)
  moreover have "is_lower_hex ?ts TIMESTAMP_HEX_LEN"
    using ts_hex_of_u32 by (simp add: lower_hex_list_all TIMESTAMP_HEX_LEN_def)
  ultimately show ?thesis
    using wf by (cases i) (simp add: item_id_parse_def u32_radix16_pad id_wf_def key_wf_def)
qed

lemma item_id_parse_wf: "item_id_parse text = Inr i \<Longrightarrow> id_wf i \<and> id_repr i = text"
proof -
  assume "item_id_parse text = Inr i"
  then obtain ts key secs where h: "split_once (CHR ''-'') text = Some (ts, key)"
    "is_lower_hex ts TIMESTAMP_HEX_LEN" "is_lower_hex key KEY_HEX_LEN"
    "u32_from_str_radix16 ts = Some secs" "i = ItemId text secs (ContentKey key)"
    by (auto simp: item_id_parse_def split: option.splits if_splits)
  have "hex_pad TIMESTAMP_HEX_LEN (unat secs) = ts"
    using u32_radix16_lower_hex [of ts] h by (auto simp: lower_hex_list_all TIMESTAMP_HEX_LEN_def)
  then show ?thesis using h by (simp add: id_wf_def key_wf_def split_once_Some)
qed

lemma id_repr_inj: "id_wf i \<Longrightarrow> id_wf j \<Longrightarrow> id_repr i = id_repr j \<Longrightarrow> i = j"
  by (metis item_id_parse_repr sum.inject(2))

lemma id_repr_chars:
  "id_wf i \<Longrightarrow> length (id_repr i) = 21 \<and> (\<forall>c \<in> set (id_repr i). is_lower_hex_char c \<or> c = CHR ''-'')"
  using ts_hex_of_u32 [of "id_secs i"]
  by (auto simp: id_wf_def key_wf_def lower_hex_list_all KEY_HEX_LEN_def)

lemma item_id_new_cases:
  "item_id_new t k =
     (if 0 \<le> t \<and> t < 2 ^ 32 * 1000000000
      then Inr (ItemId (hex_pad TIMESTAMP_HEX_LEN (nat (datetime_secs t)) @ CHR ''-'' # key_str k)
                  (word_of_int (datetime_secs t)) k)
      else Inl (TimestampOutOfRange t))"
proof -
  have r: "0 \<le> datetime_secs t \<and> datetime_secs t < 2 ^ 32 \<longleftrightarrow> 0 \<le> t \<and> t < 2 ^ 32 * 1000000000"
    unfolding datetime_secs_def by auto
  have "unat (word_of_int (datetime_secs t) :: u32) = nat (datetime_secs t)"
    if "0 \<le> datetime_secs t" "datetime_secs t < 2 ^ 32"
    using that by (simp add: unat_eq_nat_uint uint_word_of_int)
  then have u: "0 \<le> t \<and> t < 2 ^ 32 * 1000000000 \<Longrightarrow>
      unat (word_of_int (datetime_secs t) :: u32) = nat (datetime_secs t)"
    using r by blast
  show ?thesis
    unfolding item_id_new_def Let_def r using u by simp
qed

lemma item_id_new_wf: "item_id_new t k = Inr i \<Longrightarrow> key_wf k \<Longrightarrow> id_wf i \<and> id_key i = k"
  by (auto simp: item_id_new_def id_wf_def Let_def split: if_splits)

lemma item_id_new_timestamp: "item_id_new t k = Inr i \<Longrightarrow> id_timestamp i = from_secs (datetime_secs t)"
  by (auto simp: item_id_new_def id_timestamp_def Let_def uint_word_of_int split: if_splits)

lemma append_less_same_length:
  fixes xs ys us vs :: string
  assumes "length xs = length us"
  shows "xs @ ys < us @ vs \<longleftrightarrow> xs < us \<or> xs = us \<and> ys < vs"
  using assms by (induction xs us rule: list_induct2) auto

lemma id_order: 
  assumes "id_wf i" "id_wf j"
  shows "i < j \<longleftrightarrow> id_secs i < id_secs j \<or> (id_secs i = id_secs j \<and> key_str (id_key i) < key_str (id_key j))"
proof -
  have "i < j \<longleftrightarrow> id_repr i < id_repr j"
  proof (cases "id_repr i = id_repr j")
    case True
    then show ?thesis using id_repr_inj [OF assms] by simp
  next
    case False
    then show ?thesis
      unfolding less_item_id_def less_eq_item_id_def by (metis less_asym linorder_less_linear)
  qed
  moreover have "hex_pad TIMESTAMP_HEX_LEN (unat (id_secs i)) < hex_pad TIMESTAMP_HEX_LEN (unat (id_secs j))
      \<longleftrightarrow> id_secs i < id_secs j"
    unfolding word_less_nat_alt
    by (rule lower_hex_order [OF hex_pad_lower hex_pad_lower _ hex_pad_value hex_pad_value])
      (simp add: ts_hex_of_u32(1))
  moreover have "hex_pad TIMESTAMP_HEX_LEN (unat (id_secs i)) = hex_pad TIMESTAMP_HEX_LEN (unat (id_secs j))
      \<longleftrightarrow> id_secs i = id_secs j"
    by (metis u32_radix16_pad option.inject)
  ultimately show ?thesis
    using assms ts_hex_of_u32(1) by (simp add: id_wf_def append_less_same_length)
qed

lemma key_from_sha256_wf: "hex_laws E \<Longrightarrow> sha256_laws E \<Longrightarrow> key_wf (key_from_sha256 E (x_sha256 E b))"
  using hex_lawsD(1,2) [of E "take 6 (x_sha256 E b)"]
  by (simp add: key_wf_def key_from_sha256_def lower_hex_list_all KEY_HEX_LEN_def sha256_laws_def)


section \<open>Properties\<close>

text \<open>Parsing an identifier accepts exactly the text of a well-formed identifier, and returns that
  identifier.\<close>

theorem item_id_parse_iff: "item_id_parse s = Inr i \<longleftrightarrow> id_wf i \<and> id_repr i = s"
  using item_id_parse_repr item_id_parse_wf by blast

text \<open>Building an identifier fails exactly outside 1970 to 2106, and otherwise its text parses back
  to it, it keeps the content key, and its timestamp is the time cut to the second.\<close>

theorem item_id_new_spec:
  assumes "key_wf k"
  shows "if 0 \<le> t \<and> t < 2 ^ 32 * 1000000000
    then \<exists>i. item_id_new t k = Inr i \<and> item_id_parse (id_repr i) = Inr i \<and> id_key i = k
           \<and> id_timestamp i = from_secs (t div 1000000000)
    else item_id_new t k = Inl (TimestampOutOfRange t)"
proof (cases "0 \<le> t \<and> t < 2 ^ 32 * 1000000000")
  case True
  then obtain i where i: "item_id_new t k = Inr i" by (auto simp: item_id_new_cases)
  with item_id_new_wf [OF i assms] item_id_parse_repr item_id_new_timestamp [OF i] True
  show ?thesis by (auto simp: datetime_secs_def)
next
  case False
  then show ?thesis by (simp only: if_False item_id_new_cases simp_thms)
qed

lemma item_id_new_spec_witness:
  "\<exists>i. item_id_new 1789200647500000000 (ContentKey ''2cf24dba5fb0'') = Inr i
     \<and> id_timestamp i = from_secs 1789200647"
proof -
  have "key_wf (ContentKey ''2cf24dba5fb0'')"
    by (simp add: key_wf_def is_lower_hex_def is_lower_hex_char_def KEY_HEX_LEN_def)
  from item_id_new_spec [OF this, of 1789200647500000000] show ?thesis by auto
qed

text \<open>The text order of identifiers is their order, and it is chronological to the second, with
  ties broken by the content key.\<close>

theorem item_id_order_chronological:
  assumes "item_id_parse s = Inr i" and "item_id_parse t = Inr j"
  shows "(s < t \<longleftrightarrow> i < j)
    \<and> (i < j \<longleftrightarrow> id_timestamp i < id_timestamp j
                \<or> (id_timestamp i = id_timestamp j \<and> id_key i < id_key j))"
proof -
  have wf: "id_wf i" "id_wf j" "id_repr i = s" "id_repr j = t"
    using assms item_id_parse_wf by blast+
  have ts: "id_timestamp i < id_timestamp j \<longleftrightarrow> id_secs i < id_secs j"
    "id_timestamp i = id_timestamp j \<longleftrightarrow> id_secs i = id_secs j"
    by (simp_all add: id_timestamp_def from_secs_def word_less_def word_uint_eq_iff)
  have "s < t \<longleftrightarrow> i < j"
  proof (cases "s = t")
    case True
    then show ?thesis using wf id_repr_inj by auto
  next
    case False
    then show ?thesis
      using wf unfolding less_item_id_def less_eq_item_id_def by (metis less_asym linorder_less_linear)
  qed
  with id_order [OF wf(1,2)] ts show ?thesis by (simp add: less_content_key_def)
qed

lemma item_id_order_chronological_witness:
  "''6aa52107-2cf24dba5fb0'' < ''6aa52108-000000000000''
   \<and> (\<exists>i j. item_id_parse ''6aa52107-2cf24dba5fb0'' = Inr i
        \<and> item_id_parse ''6aa52108-000000000000'' = Inr j \<and> i < j)"
proof -
  have "is_lower_hex ''6aa52107'' 8 \<and> is_lower_hex ''2cf24dba5fb0'' 12 \<and> is_lower_hex ''6aa52108'' 8
      \<and> is_lower_hex ''000000000000'' 12"
    by (simp add: is_lower_hex_def is_lower_hex_char_def)
  then obtain i j where ij: "item_id_parse ''6aa52107-2cf24dba5fb0'' = Inr i"
    "item_id_parse ''6aa52108-000000000000'' = Inr j"
    by (auto simp: item_id_parse_def split_once_def TIMESTAMP_HEX_LEN_def KEY_HEX_LEN_def
        u32_from_str_radix16_def starts_with_def hex_val_def)
  have less: "''6aa52107-2cf24dba5fb0'' < ''6aa52108-000000000000''"
    by (simp add: less_char_def)
  with item_id_order_chronological [OF ij] ij show ?thesis by blast
qed

end
