(* ===== verification/Item.thy ===== *)
theory Item
  imports Model
begin

text \<open>
  Item metadata, previews and file names: the second half of
  \<^verbatim>\<open>passalong-core/src/model.rs\<close>. The lemmas: what completing an item records, that previews
  are one bounded line, and that a sanitised name can be created in a directory of any platform
  without leaving it.
\<close>

section \<open>Metadata\<close>

datatype item_kind = KText | KFile

datatype item_origin = OClipboard

record item_meta =
  meta_schema :: u32
  meta_id :: item_id
  meta_kind :: item_kind
  meta_name :: "ustring option"
  meta_mime :: ustring
  meta_size :: u64
  meta_sha256 :: string
  meta_created_at :: datetime
  meta_device :: ustring
  meta_preview :: "ustring option"
  meta_origin :: "item_origin option"

definition SCHEMA_VERSION :: u32 where "SCHEMA_VERSION = 1"

definition is_clipboard_image :: "item_meta \<Rightarrow> bool" where
  "is_clipboard_image m = (meta_origin m = Some OClipboard \<and> meta_mime m = IMAGE_MIME)"

record new_item =
  ni_kind :: item_kind
  ni_name :: "ustring option"
  ni_mime :: ustring
  ni_device :: ustring
  ni_origin :: "item_origin option"

definition mime_for_file_name :: "'z ext_scheme \<Rightarrow> ustring \<Rightarrow> ustring" where
  "mime_for_file_name E name = x_mime_guess E name"

definition new_text :: "ustring \<Rightarrow> new_item" where
  "new_text device =
     \<lparr>ni_kind = KText, ni_name = None, ni_mime = TEXT_MIME, ni_device = device, ni_origin = None\<rparr>"

definition new_file :: "'z ext_scheme \<Rightarrow> ustring \<Rightarrow> ustring \<Rightarrow> new_item" where
  "new_file E name device =
     \<lparr>ni_kind = KFile, ni_name = Some name, ni_mime = mime_for_file_name E name,
      ni_device = device, ni_origin = None\<rparr>"

definition new_clipboard_image :: "'z ext_scheme \<Rightarrow> ustring \<Rightarrow> datetime \<Rightarrow> new_item" where
  "new_clipboard_image E device created_at =
     \<lparr>ni_kind = KFile, ni_name = Some (x_clipboard_name E created_at), ni_mime = IMAGE_MIME,
      ni_device = device, ni_origin = Some OClipboard\<rparr>"

definition finish_keyed ::
  "'z ext_scheme \<Rightarrow> new_item \<Rightarrow> datetime \<Rightarrow> content_digest \<Rightarrow> content_key \<Rightarrow> ustring option
   \<Rightarrow> model_error + item_meta" where
  "finish_keyed E ni created_at d key preview =
     and_then (item_id_new created_at key) (\<lambda>i.
       Inr \<lparr>meta_schema = SCHEMA_VERSION, meta_id = i, meta_kind = ni_kind ni,
            meta_name = ni_name ni, meta_mime = ni_mime ni, meta_size = cd_size d,
            meta_sha256 = sha256_hex E d, meta_created_at = id_timestamp i,
            meta_device = ni_device ni, meta_preview = preview, meta_origin = ni_origin ni\<rparr>)"

definition finish ::
  "'z ext_scheme \<Rightarrow> new_item \<Rightarrow> datetime \<Rightarrow> content_digest \<Rightarrow> ustring option
   \<Rightarrow> model_error + item_meta" where
  "finish E ni created_at d preview =
     finish_keyed E ni created_at d (digest_content_key E d) preview"

section \<open>Character classes\<close>

text \<open>\<open>char::is_whitespace\<close> (the White\_Space property) and \<open>char::is_control\<close> (category Cc).\<close>

definition is_whitespace :: "uchar \<Rightarrow> bool" where
  "is_whitespace c =
     ((0x9 \<le> c \<and> c \<le> 0xD) \<or> c = 0x20 \<or> c = 0x85 \<or> c = 0xA0 \<or> c = 0x1680
      \<or> (0x2000 \<le> c \<and> c \<le> 0x200A) \<or> c = 0x2028 \<or> c = 0x2029 \<or> c = 0x202F
      \<or> c = 0x205F \<or> c = 0x3000)"

definition is_control :: "uchar \<Rightarrow> bool" where
  "is_control c = (c < 0x20 \<or> (0x7F \<le> c \<and> c < 0xA0))"

definition to_ascii_uppercase :: "ustring \<Rightarrow> ustring" where
  "to_ascii_uppercase t = map (\<lambda>c. if 97 \<le> c \<and> c \<le> 122 then c - 32 else c) t"

section \<open>Previews\<close>

definition split_whitespace :: "ustring \<Rightarrow> ustring list" where
  "split_whitespace t = filter (\<lambda>w. w \<noteq> []) (split_by is_whitespace t)"

definition preview_of :: "ustring \<Rightarrow> ustring" where
  "preview_of t =
     (let collapsed = join_with [32] (split_whitespace t) in
      if length collapsed \<le> PREVIEW_CHARS then collapsed
      else take (PREVIEW_CHARS - 1) collapsed @ [0x2026])"

section \<open>File names\<close>

definition is_separator :: "uchar \<Rightarrow> bool" where
  "is_separator c = (c = 47 \<or> c = 92)"

text \<open>The characters Windows cannot store: less, greater, colon, quote, bar, question, star.\<close>

definition is_windows_forbidden :: "uchar \<Rightarrow> bool" where
  "is_windows_forbidden c = (c \<in> {60, 62, 58, 34, 124, 63, 42})"

definition is_reserved_on_windows :: "ustring \<Rightarrow> bool" where
  "is_reserved_on_windows name =
     (let stem = to_ascii_uppercase (trim_end is_whitespace (hd (split_by (\<lambda>c. c = 46) name))) in
      if stem \<in> {ustr ''CON'', ustr ''PRN'', ustr ''AUX'', ustr ''NUL''} then True
      else (let bytes = utf8_encode stem in
            length bytes = 4
            \<and> (starts_with stem (ustr ''COM'') \<or> starts_with stem (ustr ''LPT''))
            \<and> 49 \<le> unat (bytes ! 3) \<and> unat (bytes ! 3) \<le> 57))"

definition sanitise_file_name :: "ustring \<Rightarrow> model_error + ustring" where
  "sanitise_file_name name =
     (let last_part = last (split_by is_separator name);
          cleaned = map (\<lambda>c. if is_windows_forbidden c then 95 else c)
                      (filter (\<lambda>c. \<not> is_control c) last_part);
          trimmed = trim_end (\<lambda>c. c = 46 \<or> c = 32) (trim_both is_whitespace cleaned)
      in if trimmed = [] then Inl (InvalidFileName name)
         else if is_reserved_on_windows trimmed then Inr (95 # trimmed)
         else Inr trimmed)"

section \<open>Lemmas\<close>

lemma finish_keyed_Inr:
  "finish_keyed E ni t d key preview = Inr m \<longleftrightarrow>
     (\<exists>i. item_id_new t key = Inr i
        \<and> m = \<lparr>meta_schema = SCHEMA_VERSION, meta_id = i, meta_kind = ni_kind ni,
            meta_name = ni_name ni, meta_mime = ni_mime ni, meta_size = cd_size d,
            meta_sha256 = sha256_hex E d, meta_created_at = id_timestamp i,
            meta_device = ni_device ni, meta_preview = preview, meta_origin = ni_origin ni\<rparr>)"
  by (auto simp: finish_keyed_def and_then_eq_Inr)

lemma split_whitespace_words:
  "w \<in> set (split_whitespace t) \<Longrightarrow> w \<noteq> [] \<and> (\<forall>c \<in> set w. \<not> is_whitespace c)"
  using split_by_no_sep [of w is_whitespace t] by (auto simp: split_whitespace_def)

lemma set_join_with: "set (join_with sep ws) \<subseteq> set sep \<union> \<Union> (set ` set ws)"
  by (induction sep ws rule: join_with.induct) auto

lemma join_words_chars:
  "c \<in> set (join_with [32] (split_whitespace t)) \<Longrightarrow> is_whitespace c \<Longrightarrow> c = 32"
  using set_join_with [of "[32]" "split_whitespace t"] split_whitespace_words by fastforce

lemma split_by_join_words:
  assumes "\<And>w c. w \<in> set ws \<Longrightarrow> c \<in> set w \<Longrightarrow> \<not> p c" "p s"
  shows "ws \<noteq> [] \<Longrightarrow> split_by p (join_with [s] ws) = ws"
  using assms(1)
proof (induction "[s]" ws rule: join_with.induct)
  case 1
  then show ?case by simp
next
  case (2 x)
  then show ?case by (simp add: split_by_single)
next
  case (3 x y zs)
  have "split_by p (x @ s # join_with [s] (y # zs)) = split_by p x @ split_by p (join_with [s] (y # zs))"
    using assms(2) by (rule split_by_append_sep)
  moreover have "split_by p x = [x]" by (rule split_by_single) (use 3(3) [of x] in auto)
  moreover have "split_by p (join_with [s] (y # zs)) = y # zs"
    by (rule 3(1)) (use 3(3) in auto)
  ultimately show ?case by simp
qed

lemma space_is_whitespace [simp]: "is_whitespace 32"
  by (simp add: is_whitespace_def)

lemma split_whitespace_join: "split_whitespace (join_with [32] (split_whitespace t)) = split_whitespace t"
proof (cases "split_whitespace t = []")
  case True
  then show ?thesis by (simp add: split_whitespace_def)
next
  case False
  have "split_by is_whitespace (join_with [32] (split_whitespace t)) = split_whitespace t"
    by (rule split_by_join_words) (use split_whitespace_words False in auto)
  then show ?thesis by (simp add: split_whitespace_def)
qed

lemma trim_both_elems: "c \<in> set (trim_both p xs) \<Longrightarrow> c \<in> set xs"
  using set_trim_both by fast

lemma trim_end_elems: "c \<in> set (trim_end p xs) \<Longrightarrow> c \<in> set xs"
  using set_trim_end by fast

lemma trim_end_keeps: "xs \<noteq> [] \<Longrightarrow> \<not> p (last xs) \<Longrightarrow> trim_end p xs = xs"
  by (cases xs rule: rev_cases) (simp_all add: trim_end_def)

lemma trim_end_Cons: "\<not> p x \<Longrightarrow> trim_end p (x # xs) = x # trim_end p xs"
  by (simp add: trim_end_def dropWhile_append)

lemma reserved_names:
  "ustr ''CON'' = [67, 79, 78]" "ustr ''PRN'' = [80, 82, 78]" "ustr ''AUX'' = [65, 85, 88]"
  "ustr ''NUL'' = [78, 85, 76]" "ustr ''COM'' = [67, 79, 77]" "ustr ''LPT'' = [76, 80, 84]"
  by code_simp+

lemma underscore_not_reserved: "\<not> is_reserved_on_windows (95 # name)"
proof -
  have "\<not> is_whitespace 95" by (simp add: is_whitespace_def)
  then have "trim_end is_whitespace (hd (split_by (\<lambda>c. c = 46) (95 # name))) =
      95 # trim_end is_whitespace (hd (split_by (\<lambda>c. c = 46) name))"
    by (simp add: trim_end_Cons)
  then obtain zs where
    z: "to_ascii_uppercase (trim_end is_whitespace (hd (split_by (\<lambda>c. c = 46) (95 # name)))) = 95 # zs"
    by (simp add: to_ascii_uppercase_def)
  show ?thesis
    unfolding is_reserved_on_windows_def Let_def z reserved_names
    by (simp add: starts_with_def)
qed


lemma sanitised_elems:
  assumes "sanitise_file_name name = Inr r" "c \<in> set r"
  shows "\<not> is_separator c \<and> \<not> is_control c \<and> \<not> is_windows_forbidden c"
proof -
  let ?last = "last (split_by is_separator name)"
  let ?cleaned = "map (\<lambda>c. if is_windows_forbidden c then 95 else c)
      (filter (\<lambda>c. \<not> is_control c) ?last)"
  let ?trimmed = "trim_end (\<lambda>c. c = 46 \<or> c = 32) (trim_both is_whitespace ?cleaned)"
  have us: "\<not> is_separator 95" "\<not> is_control 95" "\<not> is_windows_forbidden 95"
    by (simp_all add: is_separator_def is_control_def is_windows_forbidden_def)
  have "c \<in> set (95 # ?trimmed)"
    using assms by (auto simp: sanitise_file_name_def Let_def split: if_splits)
  then have "c = 95 \<or> c \<in> set ?trimmed" by simp
  then consider "c = 95" | "c \<in> set ?cleaned"
  proof
    assume "c \<in> set ?trimmed"
    from trim_both_elems [OF trim_end_elems [OF this]] show thesis by (rule that(2))
  qed (rule that(1))
  then show ?thesis
  proof cases
    case 2
    then obtain d where d: "d \<in> set ?last" "\<not> is_control d"
      "c = (if is_windows_forbidden d then 95 else d)"
      by auto
    have "\<not> is_separator d"
      using split_by_no_sep [OF last_in_set [OF split_by_nonempty] d(1)] .
    with d us show ?thesis by auto
  qed (use us in simp)
qed

lemma sanitised_shape:
  assumes "sanitise_file_name name = Inr r"
  shows "r \<noteq> [] \<and> last r \<noteq> 46 \<and> last r \<noteq> 32 \<and> \<not> is_reserved_on_windows r"
proof -
  let ?cleaned = "map (\<lambda>c. if is_windows_forbidden c then 95 else c)
      (filter (\<lambda>c. \<not> is_control c) (last (split_by is_separator name)))"
  define trimmed where
    "trimmed = trim_end (\<lambda>c. c = 46 \<or> c = 32) (trim_both is_whitespace ?cleaned)"
  from assms have ne: "trimmed \<noteq> []"
    and r: "r = (if is_reserved_on_windows trimmed then 95 # trimmed else trimmed)"
    by (auto simp: sanitise_file_name_def Let_def trimmed_def split: if_splits)
  have "\<not> (last trimmed = 46 \<or> last trimmed = 32)"
    using trim_end_last [of "\<lambda>c. c = 46 \<or> c = 32"] ne unfolding trimmed_def by blast
  with ne r underscore_not_reserved show ?thesis by auto
qed


section \<open>Properties\<close>

text \<open>C39: A preview is at most 80 characters, holds no whitespace but single spaces, and is the text's
  words joined by spaces, cut and marked with an ellipsis only when they do not fit.\<close>

theorem preview_one_line:
  "length (preview_of t) \<le> 80
   \<and> (\<forall>c. c \<in> set (preview_of t) \<and> is_whitespace c \<longrightarrow> c = 32)
   \<and> (if length (join_with [32] (split_whitespace t)) \<le> 80
      then split_whitespace (preview_of t) = split_whitespace t
      else last (preview_of t) = 0x2026
           \<and> butlast (preview_of t) = take 79 (join_with [32] (split_whitespace t)))"
proof -
  have "\<not> is_whitespace 0x2026" by (simp add: is_whitespace_def)
  then have "\<forall>c. c \<in> set (preview_of t) \<and> is_whitespace c \<longrightarrow> c = 32"
    using join_words_chars [of _ t] by (auto simp: preview_of_def Let_def dest: in_set_takeD)
  then show ?thesis
    by (simp add: preview_of_def Let_def PREVIEW_CHARS_def split_whitespace_join)
qed

lemma preview_one_line_witness: "length (preview_of (replicate 100 233)) \<le> 80"
  using preview_one_line [of "replicate 100 233"] by blast



end
