(* ===== verification/Retention.thy ===== *)
theory Retention
  imports Item "HOL-Library.Multiset"
begin

text \<open>
  Choosing what \<^verbatim>\<open>prune\<close> deletes: \<^verbatim>\<open>passalong-core/src/retention.rs\<close>. Ages are text of the
  command line, so \<open>parse_age\<close> is modelled with the panic of \<open>str::split_at\<close> as a result of
  its own; \<open>select\<close> is shown to delete exactly what both rules give up.
\<close>

section \<open>Ages\<close>

text \<open>What a call does: it returns, or it panics.\<close>

datatype 'a outcome = Returned 'a | Panicked

datatype invalid_age = InvalidAge ustring

text \<open>\<open>str::split_at\<close> on the UTF-8 bytes: panics when the index is inside a character.\<close>

definition is_char_boundary :: "bytes \<Rightarrow> nat \<Rightarrow> bool" where
  "is_char_boundary bs i \<longleftrightarrow> i = 0 \<or> i = length bs \<or> (i < length bs \<and> \<not> is_cont (bs ! i))"

definition split_at :: "nat \<Rightarrow> bytes \<Rightarrow> (bytes \<times> bytes) outcome" where
  "split_at i bs =
     (if is_char_boundary bs i then Returned (take i bs, drop i bs) else Panicked)"

definition unit_secs :: "bytes \<Rightarrow> nat option" where
  "unit_secs unit =
     (if unit = [109] then Some 60
      else if unit = [104] then Some 3600
      else if unit = [100] then Some 86400
      else if unit = [119] then Some 604800
      else None)"

definition is_ascii_digit :: "byte \<Rightarrow> bool" where
  "is_ascii_digit b = (48 \<le> b \<and> b \<le> 57)"

text \<open>\<open>u64::parse\<close> of a text of digits: \<open>None\<close> beyond \<open>u64::MAX\<close>.\<close>

definition digits_val :: "bytes \<Rightarrow> nat" where
  "digits_val ds = fold (\<lambda>b n. 10 * n + (unat b - 48)) ds 0"

definition parse_u64 :: "bytes \<Rightarrow> nat option" where
  "parse_u64 ds = (if digits_val ds < 2 ^ 64 then Some (digits_val ds) else None)"

text \<open>\<open>TimeDelta::try_seconds\<close> takes seconds up to \<open>i64::MAX\<close> milliseconds.\<close>

definition max_delta_secs :: nat where "max_delta_secs = 9223372036854775"

text \<open>The age, in seconds.\<close>

definition parse_age :: "ustring \<Rightarrow> (invalid_age + nat) outcome" where
  "parse_age text =
     (let bs = utf8_encode text; invalid = Returned (Inl (InvalidAge text)) in
      case split_at (length bs - 1) bs of
        Panicked \<Rightarrow> Panicked
      | Returned (number, unit) \<Rightarrow>
          (case unit_secs unit of
             None \<Rightarrow> invalid
           | Some us \<Rightarrow>
               if number = [] \<or> \<not> list_all is_ascii_digit number then invalid
               else (case parse_u64 number of
                       None \<Rightarrow> invalid
                     | Some n \<Rightarrow>
                         if n * us < 2 ^ 64 \<and> 0 < n * us \<and> n * us \<le> max_delta_secs
                         then Returned (Inr (n * us))
                         else invalid)))"

section \<open>Selection\<close>

text \<open>
  Ages are durations in nanoseconds; \<open>min_utc\<close> is chrono's earliest instant, the cutoff when
  the subtraction leaves chrono's range. The code's sort is unstable; identifiers of a listing
  are distinct, so the order of equal ones does not arise.
\<close>

definition cutoff_of :: "datetime \<Rightarrow> datetime \<Rightarrow> nat \<Rightarrow> datetime" where
  "cutoff_of min_utc now age =
     (if age \<le> 9223372036854775807 * 1000000 \<and> min_utc \<le> now - int age
      then now - int age else min_utc)"

definition newest_first :: "item_meta list \<Rightarrow> item_meta list" where
  "newest_first items = rev (sort_key meta_id items)"

definition select ::
  "datetime \<Rightarrow> item_meta list \<Rightarrow> datetime \<Rightarrow> nat option \<Rightarrow> nat option \<Rightarrow> item_id list" where
  "select min_utc items now older_than keep =
     (if older_than = None \<and> keep = None then []
      else
        let cutoff = map_option (cutoff_of min_utc now) older_than in
        map (\<lambda>(index, m). meta_id m)
          (filter (\<lambda>(index, m).
              (case keep of None \<Rightarrow> True | Some k \<Rightarrow> k \<le> index)
              \<and> (case cutoff of None \<Rightarrow> True | Some c \<Rightarrow> meta_created_at m < c))
            (enumerate 0 (newest_first items))))"

section \<open>Lemmas\<close>

lemma set_newest_first [simp]: "set (newest_first items) = set items"
  by (simp add: newest_first_def)

text \<open>In a strictly descending list, the index of an element counts the larger ones.\<close>

lemma index_counts_newer:
  assumes s: "sorted_wrt (\<lambda>a b. f b < f a) xs" and i: "i < length xs"
  shows "card {x \<in> set xs. f (xs ! i) < (f x :: 'b :: linorder)} = i"
proof -
  have "{x \<in> set xs. f (xs ! i) < f x} = (\<lambda>j. xs ! j) ` {..<i}"
  proof (rule set_eqI, rule iffI)
    fix x assume "x \<in> {x \<in> set xs. f (xs ! i) < f x}"
    then obtain j where j: "j < length xs" "x = xs ! j" "f (xs ! i) < f (xs ! j)"
      by (auto simp: in_set_conv_nth)
    have "j < i"
    proof (rule ccontr)
      assume "\<not> j < i"
      with j have "i < j \<or> i = j" by linarith
      then show False
        using j s i by (auto dest: sorted_wrt_nth_less)
    qed
    with j show "x \<in> (\<lambda>j. xs ! j) ` {..<i}" by blast
  next
    fix x assume "x \<in> (\<lambda>j. xs ! j) ` {..<i}"
    then obtain j where "j < i" "x = xs ! j" by blast
    then show "x \<in> {x \<in> set xs. f (xs ! i) < f x}"
      using s i sorted_wrt_nth_less [OF s] by auto
  qed
  moreover have "inj_on (\<lambda>j. xs ! j) {..<i}"
  proof (rule inj_onI)
    fix a b assume ab: "a \<in> {..<i}" "b \<in> {..<i}" "xs ! a = xs ! b"
    then show "a = b"
      using sorted_wrt_nth_less [OF s, of a b] sorted_wrt_nth_less [OF s, of b a] i
      by (cases a b rule: linorder_cases) auto
  qed
  ultimately show ?thesis by (simp add: card_image)
qed

lemma strictly_newest_first:
  "distinct (map meta_id items) \<Longrightarrow> sorted_wrt (\<lambda>a b. meta_id b < meta_id a) (newest_first items)"
  unfolding newest_first_def sorted_wrt_rev by (rule strictly_sort_key)

lemma enumerate_filter_mem:
  "x \<in> set (map (\<lambda>(i, m). g m) (filter (\<lambda>(i, m). P i m) (enumerate 0 xs))) \<longleftrightarrow>
   (\<exists>i < length xs. P i (xs ! i) \<and> x = g (xs ! i))"
  by (auto simp: in_set_enumerate_eq)

lemma sorted_wrt_map_filter_enumerate:
  "sorted_wrt R xs \<Longrightarrow>
   sorted_wrt (\<lambda>p q. R (snd p) (snd q)) (filter Q (enumerate n xs))"
proof (rule sorted_wrt_filter)
  assume "sorted_wrt R xs"
  then have "sorted_wrt R (map snd (enumerate n xs))" by simp
  then show "sorted_wrt (\<lambda>p q. R (snd p) (snd q)) (enumerate n xs)"
    unfolding sorted_wrt_map .
qed

lemma select_sorted:
  assumes "distinct (map meta_id items)"
  shows "sorted_wrt (\<lambda>a b. b < a) (select min_utc items now older_than keep)"
proof -
  have "sorted_wrt (\<lambda>p q. meta_id (snd q) < meta_id (snd p)) (filter Q (enumerate 0 (newest_first items)))"
    for Q :: "nat \<times> item_meta \<Rightarrow> bool"
    by (rule sorted_wrt_map_filter_enumerate [OF strictly_newest_first [OF assms]])
  then show ?thesis
    by (simp add: select_def Let_def sorted_wrt_map case_prod_beta')
qed

lemma select_mem:
  assumes "distinct (map meta_id items)"
  shows "i \<in> set (select min_utc items now older_than keep) \<longleftrightarrow>
    (older_than \<noteq> None \<or> keep \<noteq> None)
    \<and> (\<exists>m \<in> set items. meta_id m = i
        \<and> (case keep of None \<Rightarrow> True
           | Some k \<Rightarrow> k \<le> card {n \<in> set items. meta_id m < meta_id n})
        \<and> (case older_than of None \<Rightarrow> True
           | Some age \<Rightarrow> meta_created_at m < cutoff_of min_utc now age))"
    (is "_ \<longleftrightarrow> _ \<and> ?rhs")
proof (cases "older_than = None \<and> keep = None")
  case True
  then show ?thesis by (simp add: select_def)
next
  case False
  let ?xs = "newest_first items"
  have idx: "card {n \<in> set items. meta_id (?xs ! j) < meta_id n} = j" if "j < length ?xs" for j
    using index_counts_newer [OF strictly_newest_first [OF assms] that] by simp
  have "i \<in> set (select min_utc items now older_than keep) \<longleftrightarrow>
      (\<exists>j < length ?xs.
          ((case keep of None \<Rightarrow> True | Some k \<Rightarrow> k \<le> j)
           \<and> (case map_option (cutoff_of min_utc now) older_than of None \<Rightarrow> True
              | Some c \<Rightarrow> meta_created_at (?xs ! j) < c))
          \<and> i = meta_id (?xs ! j))"
    using False unfolding select_def Let_def if_not_P [OF False] enumerate_filter_mem by blast
  also have "\<dots> \<longleftrightarrow> ?rhs"
  proof
    assume "\<exists>j < length ?xs.
          ((case keep of None \<Rightarrow> True | Some k \<Rightarrow> k \<le> j)
           \<and> (case map_option (cutoff_of min_utc now) older_than of None \<Rightarrow> True
              | Some c \<Rightarrow> meta_created_at (?xs ! j) < c))
          \<and> i = meta_id (?xs ! j)"
    then obtain j where j: "j < length ?xs" "case keep of None \<Rightarrow> True | Some k \<Rightarrow> k \<le> j"
      "case map_option (cutoff_of min_utc now) older_than of None \<Rightarrow> True
       | Some c \<Rightarrow> meta_created_at (?xs ! j) < c" "i = meta_id (?xs ! j)"
      by blast
    have "?xs ! j \<in> set items" using j(1) nth_mem by fastforce
    with j idx [OF j(1)] show ?rhs
      by (intro bexI [of _ "?xs ! j"]) (auto split: option.splits)
  next
    assume ?rhs
    then obtain m where m: "m \<in> set items" "meta_id m = i"
      "case keep of None \<Rightarrow> True | Some k \<Rightarrow> k \<le> card {n \<in> set items. meta_id m < meta_id n}"
      "case older_than of None \<Rightarrow> True | Some age \<Rightarrow> meta_created_at m < cutoff_of min_utc now age"
      by blast
    then obtain j where j: "j < length ?xs" "?xs ! j = m"
      by (metis in_set_conv_nth set_newest_first)
    with m idx [OF j(1)] show "\<exists>j < length ?xs.
          ((case keep of None \<Rightarrow> True | Some k \<Rightarrow> k \<le> j)
           \<and> (case map_option (cutoff_of min_utc now) older_than of None \<Rightarrow> True
              | Some c \<Rightarrow> meta_created_at (?xs ! j) < c))
          \<and> i = meta_id (?xs ! j)"
      by (intro exI [of _ j]) (auto split: option.splits)
  qed
  finally have e: "i \<in> set (select min_utc items now older_than keep) \<longleftrightarrow> ?rhs" .
  from False have "(older_than \<noteq> None \<or> keep \<noteq> None) = True" by simp
  with e show ?thesis by (simp only: simp_thms)
qed


lemma utf8_char_last: "is_scalar c \<Longrightarrow> is_cont (last (utf8_char c)) \<longleftrightarrow> 0x80 \<le> c"
proof -
  assume "is_scalar c"
  have "unat (byte_of (0x80 + c mod 64)) = 0x80 + c mod 64" by (rule unat_byte) (simp add: less_le_trans [OF mod_less_divisor])
  moreover have "c < 0x80 \<Longrightarrow> unat (byte_of c) = c" by (rule unat_byte) simp
  ultimately show ?thesis
    by (simp add: utf8_char_def is_cont_def)
qed

lemma utf8_encode_append: "utf8_encode (s @ t) = utf8_encode s @ utf8_encode t"
  by (simp add: utf8_encode_def)

lemma parse_age_split:
  assumes "\<forall>c \<in> set text. is_scalar c"
  shows "split_at (length (utf8_encode text) - 1) (utf8_encode text) = Panicked
    \<longleftrightarrow> text \<noteq> [] \<and> 0x80 \<le> last text"
proof (cases "text" rule: rev_cases)
  case Nil
  then show ?thesis by (simp add: split_at_def is_char_boundary_def)
next
  case (snoc t c)
  let ?bs = "utf8_encode t @ utf8_char c"
  have e: "utf8_encode text = ?bs" using snoc by (simp add: utf8_encode_append utf8_encode_def)
  obtain ys y where y: "utf8_char c = ys @ [y]"
    by (cases "utf8_char c" rule: rev_cases) simp_all
  have l: "?bs ! (length ?bs - 1) = last (utf8_char c)" "length ?bs - 1 < length ?bs"
    by (simp_all add: y nth_append)
  have z: "length ?bs - 1 = 0 \<Longrightarrow> c < 0x80"
    by (cases "c < 0x80") (auto simp: utf8_char_def split: if_splits)
  show ?thesis
    using utf8_char_last [of c] assms snoc l less_imp_neq [OF l(2)] z unfolding e split_at_def is_char_boundary_def
    by auto
qed

text \<open>C40: \<open>parse_age\<close> reads a positive number of seconds from digits and a unit within the range
  of date arithmetic, refuses everything else, and panics exactly when the text ends in a character
  that is more than one byte long.\<close>

theorem parse_age_spec:
  assumes "\<forall>c \<in> set text. is_scalar c"
  shows "(parse_age text = Panicked \<longleftrightarrow> text \<noteq> [] \<and> 0x80 \<le> last text)
    \<and> (\<forall>secs. parse_age text = Returned (Inr secs) \<longleftrightarrow>
         (\<exists>number unit us. utf8_encode text = number @ [unit] \<and> unit_secs [unit] = Some us
            \<and> number \<noteq> [] \<and> list_all is_ascii_digit number \<and> secs = digits_val number * us
            \<and> 0 < secs \<and> secs \<le> max_delta_secs))
    \<and> (\<forall>e. parse_age text = Returned (Inl e) \<longrightarrow> e = InvalidAge text)"
proof (intro conjI allI)
  show "parse_age text = Panicked \<longleftrightarrow> text \<noteq> [] \<and> 0x80 \<le> last text"
    unfolding parse_age_split [OF assms, symmetric]
    by (auto simp: parse_age_def Let_def split: outcome.splits option.splits)
  fix e
  show "parse_age text = Returned (Inl e) \<longrightarrow> e = InvalidAge text"
    by (auto simp: parse_age_def Let_def split: outcome.splits option.splits if_splits)
next
  fix secs
  let ?bs = "utf8_encode text"
  have us: "us \<in> {60, 3600, 86400, 604800}" if "unit_secs u = Some us" for u us
    using that by (auto simp: unit_secs_def split: if_splits)
  have bound: "n * us < 2 ^ 64 \<and> n < 2 ^ 64" if "0 < us" "n * us \<le> max_delta_secs" for n us :: nat
  proof -
    have "n * 1 \<le> n * us" by (rule mult_le_mono2) (use that(1) in simp)
    with that(2) have "n \<le> max_delta_secs" by linarith
    with that(2) show ?thesis by (simp add: max_delta_secs_def)
  qed
  show "parse_age text = Returned (Inr secs) \<longleftrightarrow>
         (\<exists>number unit us. ?bs = number @ [unit] \<and> unit_secs [unit] = Some us
            \<and> number \<noteq> [] \<and> list_all is_ascii_digit number \<and> secs = digits_val number * us
            \<and> 0 < secs \<and> secs \<le> max_delta_secs)" (is "_ \<longleftrightarrow> ?rhs")
  proof
    assume "parse_age text = Returned (Inr secs)"
    then obtain number unit us where h: "number = take (length ?bs - 1) ?bs"
      "unit = drop (length ?bs - 1) ?bs" "unit_secs unit = Some us" "number \<noteq> []"
      "list_all is_ascii_digit number" "secs = digits_val number * us" "0 < secs" "secs \<le> max_delta_secs"
      by (auto simp: parse_age_def Let_def split_at_def parse_u64_def
          split: outcome.splits option.splits if_splits)
    have "length unit = 1" using h(1,2,4) by (cases ?bs) auto
    then obtain u where u: "unit = [u]" by (cases unit) auto
    have "?bs = number @ [u]" using h(1,2) u by (metis append_take_drop_id)
    with h u show ?rhs by (intro exI [of _ number] exI [of _ u] exI [of _ us]) simp
  next
    assume ?rhs
    then obtain number u us where h: "?bs = number @ [u]" "unit_secs [u] = Some us" "number \<noteq> []"
      "list_all is_ascii_digit number" "secs = digits_val number * us" "0 < secs" "secs \<le> max_delta_secs"
      by blast
    have u: "\<not> is_cont u" using h(2) by (auto simp: unit_secs_def is_cont_def split: if_splits)
    then have "split_at (length ?bs - 1) ?bs = Returned (number, [u])"
      by (simp add: split_at_def is_char_boundary_def h(1))
    with h bound [of us "digits_val number"] us [OF h(2)] show "parse_age text = Returned (Inr secs)"
      by (auto simp: parse_age_def Let_def parse_u64_def)
  qed
qed

lemma parse_age_spec_witness:
  "parse_age [51, 48, 0xE9] = Panicked \<and> parse_age [51, 48, 100] = Returned (Inr 2592000)"
proof
  show "parse_age [51, 48, 0xE9] = Panicked"
    using parse_age_spec [of "[51, 48, 0xE9]"] by (simp add: is_scalar_def)
  have "utf8_encode [51, 48, 100] = [51, 48] @ [100]" "unit_secs [100] = Some 86400"
    "list_all is_ascii_digit [51, 48]" "2592000 = digits_val [51, 48] * 86400"
    "(2592000::nat) \<le> max_delta_secs"
    by (simp_all add: utf8_encode_def utf8_char_def byte_of_def unit_secs_def is_ascii_digit_def
        digits_val_def max_delta_secs_def)
  then have "\<exists>number unit us. utf8_encode [51, 48, 100] = number @ [unit] \<and> unit_secs [unit] = Some us
      \<and> number \<noteq> [] \<and> list_all is_ascii_digit number \<and> 2592000 = digits_val number * us
      \<and> 0 < (2592000::nat) \<and> 2592000 \<le> max_delta_secs"
    by (intro exI [of _ "[51, 48]"] exI [of _ 100] exI [of _ 86400]) simp
  moreover have "\<forall>c \<in> set [51, 48, 100]. is_scalar c" by (simp add: is_scalar_def)
  ultimately show "parse_age [51, 48, 100] = Returned (Inr 2592000)"
    by (intro parse_age_spec [THEN conjunct2, THEN conjunct1, rule_format, THEN iffD2]) blast+
qed

text \<open>C36: \<open>select\<close> deletes exactly the items neither rule protects: beyond the newest \<open>keep\<close>, and
  created before the cutoff; with no rule, none. The result is newest first.\<close>

theorem select_exact:
  assumes "distinct (map meta_id items)"
  shows "sorted_wrt (\<lambda>a b. b < a) (select min_utc items now older_than keep)
    \<and> (\<forall>i. i \<in> set (select min_utc items now older_than keep) \<longleftrightarrow>
      (older_than \<noteq> None \<or> keep \<noteq> None)
      \<and> (\<exists>m \<in> set items. meta_id m = i
          \<and> (case keep of None \<Rightarrow> True
             | Some k \<Rightarrow> k \<le> card {n \<in> set items. meta_id m < meta_id n})
          \<and> (case older_than of None \<Rightarrow> True
             | Some age \<Rightarrow> meta_created_at m < cutoff_of min_utc now age)))"
  using select_sorted [OF assms] select_mem [OF assms] by blast

definition sample_meta :: "nat \<Rightarrow> item_meta" where
  "sample_meta n =
     \<lparr>meta_schema = 1, meta_id = ItemId ''x'' (of_nat n) (ContentKey ''k''), meta_kind = KText,
      meta_name = None, meta_mime = [], meta_size = 0, meta_sha256 = [],
      meta_created_at = int n, meta_device = [], meta_preview = None, meta_origin = None\<rparr>"

lemma select_exact_witness:
  "meta_id (sample_meta 1) \<in> set (select 0 [sample_meta 1, sample_meta 2] 9 (Some 7) (Some 1))"
proof -
  have "meta_id (sample_meta 1) < meta_id (sample_meta 2)"
    by (simp add: sample_meta_def less_item_id_def less_eq_item_id_def)
  then have c: "{n \<in> set [sample_meta 1, sample_meta 2]. meta_id (sample_meta 1) < meta_id n} = {sample_meta 2}"
    by auto
  have d: "distinct (map meta_id [sample_meta 1, sample_meta 2])" by (simp add: sample_meta_def)
  have m: "meta_created_at (sample_meta 1) < cutoff_of 0 9 7"
    by (simp add: sample_meta_def cutoff_of_def)
  have k: "1 \<le> card {n \<in> set [sample_meta 1, sample_meta 2]. meta_id (sample_meta 1) < meta_id n}"
    unfolding c by simp
  have "\<exists>m' \<in> set [sample_meta 1, sample_meta 2]. meta_id m' = meta_id (sample_meta 1)
      \<and> (case Some 1 of None \<Rightarrow> True
         | Some k \<Rightarrow> k \<le> card {n \<in> set [sample_meta 1, sample_meta 2]. meta_id m' < meta_id n})
      \<and> (case Some 7 of None \<Rightarrow> True | Some age \<Rightarrow> meta_created_at m' < cutoff_of 0 9 age)"
    by (rule bexI [of _ "sample_meta 1"]) (use k m in simp_all)
  then show ?thesis
    using select_exact [OF d, of 0 9 "Some 7" "Some 1"] by blast
qed

end
