(* ===== verification/Remote_Path.thy ===== *)
theory Remote_Path
  imports Prelude
begin

text \<open>
  Paths relative to a backend's root: \<open>RemotePath\<close> of \<^verbatim>\<open>passalong-core/src/fs/mod.rs\<close>. A path is
  kept as \<^verbatim>\<open>/\<close>-separated text, as in the code; \<open>comps\<close> is its list of components, the view the
  file-system model uses. The lemmas: joining validates its component, so no path built by
  \<open>rp_new\<close> and \<open>rp_join\<close> can name anything outside the root, and the text operations
  are the list operations on components.
\<close>

datatype fs_error =
    FsNotFound string
  | FsAlreadyExists string
  | FsPermissionDenied string
  | FsInvalidPath string
  | FsOther string string

datatype remote_path = RemotePath (rp_str: string)

definition rp_root :: remote_path where
  "rp_root = RemotePath []"

definition slash :: char where "slash = CHR ''/''"

definition invalid_component :: "string \<Rightarrow> bool" where
  "invalid_component c =
     (c = [] \<or> c = ''.'' \<or> c = ''..''
      \<or> (\<exists>x \<in> set c. x = CHR ''/'' \<or> x = CHR 0x5C \<or> x = CHR 0x00))"

definition rp_join :: "remote_path \<Rightarrow> string \<Rightarrow> fs_error + remote_path" where
  "rp_join p c =
     (if invalid_component c then Inl (FsInvalidPath c)
      else Inr (RemotePath (if rp_str p = [] then c else rp_str p @ slash # c)))"

definition rp_new :: "string \<Rightarrow> fs_error + remote_path" where
  "rp_new path =
     (if path = [] then Inr rp_root
      else try_fold rp_join rp_root (split_by (\<lambda>x. x = slash) path))"

definition is_root :: "remote_path \<Rightarrow> bool" where
  "is_root p = (rp_str p = [])"

definition comps :: "remote_path \<Rightarrow> string list" where
  "comps p = filter (\<lambda>part. part \<noteq> []) (split_by (\<lambda>x. x = slash) (rp_str p))"

definition file_name :: "remote_path \<Rightarrow> string option" where
  "file_name p = (if comps p = [] then None else Some (last (comps p)))"

definition parent :: "remote_path \<Rightarrow> remote_path option" where
  "parent p =
     (if is_root p then None
      else Some (case rsplit_once slash (rp_str p) of
                   Some (up, _) \<Rightarrow> RemotePath up
                 | None \<Rightarrow> rp_root))"

definition rp_display :: "remote_path \<Rightarrow> string" where
  "rp_display p = (if is_root p then ''.'' else rp_str p)"

section \<open>Well-formed paths\<close>

text \<open>The paths the constructors build: valid components joined by slashes.\<close>

definition rp_of :: "string list \<Rightarrow> remote_path" where
  "rp_of cs = RemotePath (join_with [slash] cs)"

definition valid_comps :: "string list \<Rightarrow> bool" where
  "valid_comps cs \<longleftrightarrow> (\<forall>c \<in> set cs. \<not> invalid_component c)"

definition rp_wf :: "remote_path \<Rightarrow> bool" where
  "rp_wf p \<longleftrightarrow> (\<exists>cs. valid_comps cs \<and> p = rp_of cs)"

lemma valid_comps_simps [simp]:
  "valid_comps []" "valid_comps (c # cs) \<longleftrightarrow> \<not> invalid_component c \<and> valid_comps cs"
  "valid_comps (cs @ ds) \<longleftrightarrow> valid_comps cs \<and> valid_comps ds"
  by (auto simp: valid_comps_def)

lemma valid_component_no_slash: "\<not> invalid_component c \<Longrightarrow> c \<noteq> [] \<and> slash \<notin> set c"
  by (auto simp: invalid_component_def slash_def)

lemma join_with_eq_Nil: "valid_comps cs \<Longrightarrow> join_with [slash] cs = [] \<longleftrightarrow> cs = []"
  by (induction "[slash]" cs rule: join_with.induct) (auto simp: invalid_component_def)

lemma join_with_snoc: "join_with sep (cs @ [c]) = (if cs = [] then c else join_with sep cs @ sep @ c)"
  by (induction sep cs rule: join_with.induct) (auto split: if_splits)

lemma split_join_slash:
  "valid_comps cs \<Longrightarrow> cs \<noteq> [] \<Longrightarrow> split_by (\<lambda>x. x = slash) (join_with [slash] cs) = cs"
proof (induction "[slash]" cs rule: join_with.induct)
  case (2 x)
  then show ?case using valid_component_no_slash by (auto intro: split_by_single)
next
  case (3 x y zs)
  have "split_by (\<lambda>x. x = slash) x = [x]"
    by (rule split_by_single) (use 3 valid_component_no_slash in auto)
  then show ?case using 3 by (simp add: split_by_append_sep)
qed simp

lemma comps_rp_of [simp]: "valid_comps cs \<Longrightarrow> comps (rp_of cs) = cs"
proof (cases "cs = []")
  case True
  then show ?thesis by (simp add: comps_def rp_of_def)
next
  case False
  assume v: "valid_comps cs"
  then have "filter (\<lambda>part. part \<noteq> []) cs = cs"
    by (intro filter_True) (auto simp: valid_comps_def dest: valid_component_no_slash)
  with v False show ?thesis by (simp add: comps_def rp_of_def split_join_slash)
qed

lemma rp_of_Nil [simp]: "rp_of [] = rp_root"
  by (simp add: rp_of_def rp_root_def)

lemma comps_root [simp]: "comps rp_root = []"
  by (simp add: comps_def rp_root_def)

lemma rp_join_of:
  "valid_comps cs \<Longrightarrow>
   rp_join (rp_of cs) c = (if invalid_component c then Inl (FsInvalidPath c) else Inr (rp_of (cs @ [c])))"
  by (simp add: rp_join_def rp_of_def join_with_eq_Nil join_with_snoc)

lemma rp_wf_of [simp, intro]: "valid_comps cs \<Longrightarrow> rp_wf (rp_of cs)"
  by (auto simp: rp_wf_def)

lemma rp_wf_cases: "rp_wf p \<Longrightarrow> (\<And>cs. valid_comps cs \<Longrightarrow> p = rp_of cs \<Longrightarrow> thesis) \<Longrightarrow> thesis"
  by (auto simp: rp_wf_def)

lemma rp_of_comps: "rp_wf p \<Longrightarrow> rp_of (comps p) = p"
  by (auto elim: rp_wf_cases)

lemma try_fold_join:
  "valid_comps ds \<Longrightarrow>
   try_fold rp_join (rp_of ds) cs =
     (case find invalid_component cs of Some c \<Rightarrow> Inl (FsInvalidPath c) | None \<Rightarrow> Inr (rp_of (ds @ cs)))"
  by (induction cs arbitrary: ds) (auto simp: rp_join_of split: option.splits)

lemma find_None_valid: "find invalid_component cs = None \<longleftrightarrow> valid_comps cs"
  by (auto simp: find_None_iff valid_comps_def)

lemma rp_new_of: "valid_comps cs \<Longrightarrow> cs \<noteq> [] \<Longrightarrow> rp_new (join_with [slash] cs) = Inr (rp_of cs)"
proof -
  assume v: "valid_comps cs" "cs \<noteq> []"
  then have "try_fold rp_join (rp_of []) cs = Inr (rp_of cs)"
    using find_None_valid [of cs] by (subst try_fold_join) simp_all
  with v show ?thesis by (simp add: rp_new_def join_with_eq_Nil split_join_slash)
qed

lemma rp_new_Inr: "rp_new path = Inr p \<Longrightarrow> rp_wf p \<and> rp_str p = path"
proof (cases "path = []")
  case True
  then show "rp_new path = Inr p \<Longrightarrow> ?thesis"
    using rp_wf_of [of "[]"] by (auto simp: rp_new_def rp_root_def rp_of_def)
next
  case False
  let ?cs = "split_by (\<lambda>x. x = slash) path"
  assume "rp_new path = Inr p"
  then have "try_fold rp_join (rp_of []) ?cs = Inr p" using False by (simp add: rp_new_def)
  then have h: "valid_comps ?cs" "p = rp_of ?cs"
    using find_None_valid [of ?cs] try_fold_join [of "[]" ?cs]
    by (auto simp del: rp_of_Nil split: option.splits)
  have "join_with [slash] (split_by (\<lambda>x. x = slash) xs) = xs" for xs
  proof (induction xs)
    case (Cons x xs)
    have ne: "split_by (\<lambda>x. x = slash) xs \<noteq> []" by simp
    then obtain y ys where "split_by (\<lambda>x. x = slash) xs = y # ys" by (cases "split_by (\<lambda>x. x = slash) xs") auto
    with Cons show ?case by (cases ys) auto
  qed simp
  with h show ?thesis by (simp add: rp_of_def) (metis rp_of_def rp_wf_of)
qed

lemma parent_of: "valid_comps cs \<Longrightarrow> parent (rp_of cs) = (if cs = [] then None else Some (rp_of (butlast cs)))"
proof (cases cs rule: rev_cases)
  case Nil
  then show ?thesis by (simp add: parent_def is_root_def rp_root_def)
next
  case (snoc ds c)
  assume v: "valid_comps cs"
  then have c: "slash \<notin> set c" "c \<noteq> []" using snoc valid_component_no_slash by auto
  show ?thesis
  proof (cases "ds = []")
    case True
    have "split_once slash (rev c) = None"
    proof (cases "split_once slash (rev c)")
      case (Some ab)
      then have "slash \<in> set (rev c)" by (cases ab) (simp add: split_once_Some)
      with c(1) show ?thesis by simp
    qed
    with True snoc c show ?thesis
      by (simp add: parent_def is_root_def rp_of_def rsplit_once_def rp_root_def)
  next
    case False
    have "split_once slash (rev (join_with [slash] ds @ slash # c)) = Some (rev c, rev (join_with [slash] ds))"
      using c(1) by (simp add: split_once_Some)
    with False snoc show ?thesis
      by (simp add: parent_def is_root_def rp_of_def rsplit_once_def join_with_snoc)
  qed
qed

section \<open>Properties\<close>



end
