(* ===== verification/Remote_Fs.thy ===== *)
theory Remote_Fs
  imports Remote_Path
begin

text \<open>
  The file-system interface of \<^verbatim>\<open>passalong-core/src/fs/mod.rs\<close> and programs over it.

  An \<open>async\<close> function of the sources that uses a \<open>RemoteFs\<close>, the clock or random numbers is a
  value of type \<open>'a prog\<close>: a tree whose nodes are the calls it makes, in order, each with the
  continuation of its result. What a backend may answer, and do to the stored files, is the
  contract \<open>fs_spec\<close>; \<open>safe\<close> says that a program keeps an invariant at every moment and ends
  in a postcondition, whatever a backend that honours the contract answers (including failures
  that hide whether a call took effect, and writes cut short) and whatever other clients do in
  between. The lemmas are the rules by which the components' proofs step through their programs.
\<close>

section \<open>Data\<close>

datatype io_kind = IoNotFound | IoAlreadyExists | IoPermissionDenied | IoInvalidData | IoUnsupported | IoOther

datatype io_error = IoError (io_kind_of: io_kind) (io_message: string)

definition from_io :: "remote_path \<Rightarrow> io_error \<Rightarrow> fs_error" where
  "from_io path err =
     (let p = rp_display path in
      case io_kind_of err of
        IoNotFound \<Rightarrow> FsNotFound p
      | IoAlreadyExists \<Rightarrow> FsAlreadyExists p
      | IoPermissionDenied \<Rightarrow> FsPermissionDenied p
      | _ \<Rightarrow> FsOther p (io_message err))"

record dir_entry =
  de_name :: string
  de_is_dir :: bool

record metadata =
  md_is_dir :: bool
  md_size :: u64
  md_modified :: "datetime option"

text \<open>
  A stream being read (\<open>BoxRead\<close>): the pieces it still yields, and the error it then ends in,
  if any. A stream being written (\<open>BoxWrite\<close>) is the path it was opened for.
\<close>

record box_read =
  br_pieces :: "bytes list"
  br_end :: "io_error option"

definition reader_of :: "bytes \<Rightarrow> box_read" where
  "reader_of b = \<lparr>br_pieces = [b], br_end = None\<rparr>"

text \<open>One \<open>read(buf)\<close> with room for \<open>n\<close> bytes: no bytes means the end.\<close>

definition rd_read :: "nat \<Rightarrow> box_read \<Rightarrow> (io_error + bytes) \<times> box_read" where
  "rd_read n r =
     (case dropWhile (\<lambda>p. p = []) (br_pieces r) of
        [] \<Rightarrow> (case br_end r of None \<Rightarrow> Inr [] | Some e \<Rightarrow> Inl e, r\<lparr>br_pieces := []\<rparr>)
      | p # ps \<Rightarrow> (Inr (take n p), r\<lparr>br_pieces := drop n p # ps\<rparr>))"

text \<open>\<open>read_to_end\<close>, and the same through \<open>take(n)\<close>.\<close>

definition br_bytes :: "box_read \<Rightarrow> bytes" where
  "br_bytes r = concat (br_pieces r)"

definition rd_to_end :: "box_read \<Rightarrow> io_error + bytes" where
  "rd_to_end r = (case br_end r of None \<Rightarrow> Inr (br_bytes r) | Some e \<Rightarrow> Inl e)"

definition rd_take_to_end :: "nat \<Rightarrow> box_read \<Rightarrow> io_error + bytes" where
  "rd_take_to_end n r =
     (if n \<le> length (br_bytes r) then Inr (take n (br_bytes r)) else rd_to_end r)"

section \<open>Programs\<close>

text \<open>
  The operations of the trait \<open>RemoteFs\<close>, the writer's two, and the two sources of
  nondeterminism the components take as traits: \<open>Clock\<close> and \<open>RandomSource\<close> (with the system
  generator behind \<open>random_bytes\<close>).
\<close>

datatype 'a prog =
    Done 'a
  | CreateDirAll remote_path "fs_error + unit \<Rightarrow> 'a prog"
  | ReadDir remote_path "fs_error + dir_entry list \<Rightarrow> 'a prog"
  | OpenRead remote_path "fs_error + box_read \<Rightarrow> 'a prog"
  | OpenWrite remote_path "fs_error + unit \<Rightarrow> 'a prog"
  | WriteAll remote_path bytes "io_error + unit \<Rightarrow> 'a prog"
  | Shutdown remote_path "io_error + unit \<Rightarrow> 'a prog"
  | Rename remote_path remote_path "fs_error + unit \<Rightarrow> 'a prog"
  | RemoveDirAll remote_path "fs_error + unit \<Rightarrow> 'a prog"
  | Stat remote_path "fs_error + metadata option \<Rightarrow> 'a prog"
  | CreateDir remote_path "fs_error + unit \<Rightarrow> 'a prog"
  | RemoveFile remote_path "fs_error + unit \<Rightarrow> 'a prog"
  | Now "datetime \<Rightarrow> 'a prog"
  | NextU64 "u64 \<Rightarrow> 'a prog"
  | RandomBytes nat "string + bytes \<Rightarrow> 'a prog"

primrec bind :: "'a prog \<Rightarrow> ('a \<Rightarrow> 'b prog) \<Rightarrow> 'b prog" where
  "bind (Done a) g = g a"
| "bind (CreateDirAll p k) g = CreateDirAll p (\<lambda>r. bind (k r) g)"
| "bind (ReadDir p k) g = ReadDir p (\<lambda>r. bind (k r) g)"
| "bind (OpenRead p k) g = OpenRead p (\<lambda>r. bind (k r) g)"
| "bind (OpenWrite p k) g = OpenWrite p (\<lambda>r. bind (k r) g)"
| "bind (WriteAll p b k) g = WriteAll p b (\<lambda>r. bind (k r) g)"
| "bind (Shutdown p k) g = Shutdown p (\<lambda>r. bind (k r) g)"
| "bind (Rename p q k) g = Rename p q (\<lambda>r. bind (k r) g)"
| "bind (RemoveDirAll p k) g = RemoveDirAll p (\<lambda>r. bind (k r) g)"
| "bind (Stat p k) g = Stat p (\<lambda>r. bind (k r) g)"
| "bind (CreateDir p k) g = CreateDir p (\<lambda>r. bind (k r) g)"
| "bind (RemoveFile p k) g = RemoveFile p (\<lambda>r. bind (k r) g)"
| "bind (Now k) g = Now (\<lambda>r. bind (k r) g)"
| "bind (NextU64 k) g = NextU64 (\<lambda>r. bind (k r) g)"
| "bind (RandomBytes n k) g = RandomBytes n (\<lambda>r. bind (k r) g)"

text \<open>\<open>m.await.map_err(conv)?\<close> followed by the rest of the function.\<close>

definition try_as :: "('e \<Rightarrow> 'f) \<Rightarrow> ('e + 'a) prog \<Rightarrow> ('a \<Rightarrow> ('f + 'b) prog) \<Rightarrow> ('f + 'b) prog" where
  "try_as conv m g = bind m (\<lambda>r. case r of Inl e \<Rightarrow> Done (Inl (conv e)) | Inr x \<Rightarrow> g x)"

text \<open>\<open>?\<close> on a plain result.\<close>

definition try_res :: "('e \<Rightarrow> 'f) \<Rightarrow> 'e + 'a \<Rightarrow> ('a \<Rightarrow> ('f + 'b) prog) \<Rightarrow> ('f + 'b) prog" where
  "try_res conv r g = (case r of Inl e \<Rightarrow> Done (Inl (conv e)) | Inr x \<Rightarrow> g x)"

abbreviation tryP :: "('e + 'a) prog \<Rightarrow> ('a \<Rightarrow> ('e + 'b) prog) \<Rightarrow> ('e + 'b) prog" where
  "tryP \<equiv> try_as (\<lambda>e. e)"

lemma bind_assoc: "bind (bind m g) h = bind m (\<lambda>x. bind (g x) h)"
  by (induction m) simp_all

lemma bind_Done [simp]: "bind m Done = m"
  by (induction m) simp_all

lemma try_res_simps [simp, result_simps]:
  "try_res c (Inl e) g = Done (Inl (c e))" "try_res c (Inr x) g = g x"
  by (simp_all add: try_res_def)

section \<open>Stored files and the contract of a backend\<close>

datatype vnode = VDir | VFile (vbytes: bytes)

type_synonym fsview = "string list \<Rightarrow> vnode option"

definition fs_wf :: "fsview \<Rightarrow> bool" where
  "fs_wf v \<longleftrightarrow> v [] = Some VDir \<and> (\<forall>p c. v (p @ [c]) \<noteq> None \<longrightarrow> v p = Some VDir)"

definition is_under :: "string list \<Rightarrow> string list \<Rightarrow> bool" where
  "is_under p q \<longleftrightarrow> take (length p) q = p"

definition mk_dirs :: "string list \<Rightarrow> fsview \<Rightarrow> fsview" where
  "mk_dirs p v = (\<lambda>q. if v q = None \<and> is_under q p then Some VDir else v q)"

definition cut_tree :: "string list \<Rightarrow> fsview \<Rightarrow> fsview" where
  "cut_tree p v = (\<lambda>q. if is_under p q then None else v q)"

definition move_tree :: "string list \<Rightarrow> string list \<Rightarrow> fsview \<Rightarrow> fsview" where
  "move_tree a b v =
     (\<lambda>q. if is_under b q then v (a @ drop (length b) q) else if is_under a q then None else v q)"

definition entries_of :: "fsview \<Rightarrow> string list \<Rightarrow> dir_entry list \<Rightarrow> bool" where
  "entries_of v p es \<longleftrightarrow>
     sorted_wrt (\<lambda>a b. de_name a < de_name b) es
     \<and> (\<forall>n d. (\<exists>e \<in> set es. de_name e = n \<and> de_is_dir e = d)
           \<longleftrightarrow> (\<exists>x. v (p @ [n]) = Some x \<and> d = (x = VDir)))"

text \<open>
  With \<open>faulty\<close>, every call may fail: before it did anything, or after it took effect, or (for a
  tree removed or a write) part-way. Without, a call fails only when what it asks for is not
  there.
\<close>

definition create_dir_all_spec :: "bool \<Rightarrow> string list \<Rightarrow> fsview \<Rightarrow> fs_error + unit \<Rightarrow> fsview \<Rightarrow> bool" where
  "create_dir_all_spec faulty p v r v' \<longleftrightarrow>
     (case r of
        Inr _ \<Rightarrow> v' = mk_dirs p v \<and> (\<forall>q b. is_under q p \<longrightarrow> v q \<noteq> Some (VFile b))
      | Inl e \<Rightarrow> (\<exists>q. is_under q p \<and> v' = mk_dirs q v \<and> (\<forall>q' b. is_under q' q \<longrightarrow> v q' \<noteq> Some (VFile b)))
          \<and> (\<not> faulty \<longrightarrow> (\<exists>q b. is_under q p \<and> v q = Some (VFile b))))"

definition read_dir_spec :: "bool \<Rightarrow> string list \<Rightarrow> fsview \<Rightarrow> fs_error + dir_entry list \<Rightarrow> bool" where
  "read_dir_spec faulty p v r \<longleftrightarrow>
     (case r of
        Inr es \<Rightarrow> v p = Some VDir \<and> entries_of v p es
      | Inl (FsNotFound _) \<Rightarrow> v p = None
      | Inl _ \<Rightarrow> \<not> faulty \<longrightarrow> (\<exists>b. v p = Some (VFile b)))"

definition reads :: "bool \<Rightarrow> box_read \<Rightarrow> vnode \<Rightarrow> bool" where
  "reads faulty rd n \<longleftrightarrow>
     (case n of
        VDir \<Rightarrow> br_pieces rd = [] \<and> br_end rd \<noteq> None
      | VFile b \<Rightarrow> (case br_end rd of
                     None \<Rightarrow> br_bytes rd = b
                   | Some _ \<Rightarrow> faulty \<and> (\<exists>k. br_bytes rd = take k b)))"

definition open_read_spec :: "bool \<Rightarrow> string list \<Rightarrow> fsview \<Rightarrow> fs_error + box_read \<Rightarrow> bool" where
  "open_read_spec faulty p v r \<longleftrightarrow>
     (case r of
        Inr rd \<Rightarrow> (\<exists>n. v p = Some n \<and> reads faulty rd n)
      | Inl (FsNotFound _) \<Rightarrow> v p = None
      | Inl _ \<Rightarrow> \<not> faulty \<longrightarrow> v p = Some VDir)"

definition can_hold_file :: "fsview \<Rightarrow> string list \<Rightarrow> bool" where
  "can_hold_file v p \<longleftrightarrow> p \<noteq> [] \<and> v (butlast p) = Some VDir \<and> v p \<noteq> Some VDir"

definition open_write_spec :: "bool \<Rightarrow> string list \<Rightarrow> fsview \<Rightarrow> fs_error + unit \<Rightarrow> fsview \<Rightarrow> bool" where
  "open_write_spec faulty p v r v' \<longleftrightarrow>
     (case r of
        Inr _ \<Rightarrow> can_hold_file v p \<and> v' = v(p \<mapsto> VFile [])
      | Inl e \<Rightarrow> (v' = v \<or> (faulty \<and> can_hold_file v p \<and> v' = v(p \<mapsto> VFile [])))
          \<and> (\<not> faulty \<longrightarrow> \<not> can_hold_file v p))"

text \<open>A writer appends to its file; when the file is gone, what it writes is lost with it.\<close>

definition append_file :: "string list \<Rightarrow> bytes \<Rightarrow> fsview \<Rightarrow> fsview" where
  "append_file p b v =
     (case v p of Some (VFile old) \<Rightarrow> v(p \<mapsto> VFile (old @ b)) | _ \<Rightarrow> v)"

definition write_all_spec :: "bool \<Rightarrow> string list \<Rightarrow> bytes \<Rightarrow> fsview \<Rightarrow> io_error + unit \<Rightarrow> fsview \<Rightarrow> bool" where
  "write_all_spec faulty p b v r v' \<longleftrightarrow>
     (case r of
        Inr _ \<Rightarrow> v' = append_file p b v
      | Inl _ \<Rightarrow> faulty \<and> (\<exists>k. v' = append_file p (take k b) v))"

definition shutdown_spec :: "bool \<Rightarrow> fsview \<Rightarrow> io_error + unit \<Rightarrow> fsview \<Rightarrow> bool" where
  "shutdown_spec faulty v r v' \<longleftrightarrow> v' = v \<and> (case r of Inr _ \<Rightarrow> True | Inl _ \<Rightarrow> faulty)"

definition can_rename :: "fsview \<Rightarrow> string list \<Rightarrow> string list \<Rightarrow> bool" where
  "can_rename v a b \<longleftrightarrow>
     v a \<noteq> None \<and> v b = None \<and> b \<noteq> [] \<and> v (butlast b) = Some VDir \<and> \<not> is_under a b"

definition rename_spec :: "bool \<Rightarrow> string list \<Rightarrow> string list \<Rightarrow> fsview \<Rightarrow> fs_error + unit \<Rightarrow> fsview \<Rightarrow> bool" where
  "rename_spec faulty a b v r v' \<longleftrightarrow>
     (case r of
        Inr _ \<Rightarrow> can_rename v a b \<and> v' = move_tree a b v
      | Inl e \<Rightarrow> (v' = v \<or> (faulty \<and> (\<exists>p m. e = FsOther p m) \<and> can_rename v a b \<and> v' = move_tree a b v))
          \<and> (\<not> faulty \<longrightarrow> \<not> can_rename v a b)
          \<and> (\<not> faulty \<and> v b \<noteq> None \<longrightarrow> (\<exists>p. e = FsAlreadyExists p))
          \<and> ((\<exists>p. e = FsAlreadyExists p) \<longrightarrow> v b \<noteq> None)
          \<and> ((\<exists>p. e = FsNotFound p) \<longrightarrow> v a = None \<or> v (butlast b) = None))"

definition remove_dir_all_spec :: "bool \<Rightarrow> string list \<Rightarrow> fsview \<Rightarrow> fs_error + unit \<Rightarrow> fsview \<Rightarrow> bool" where
  "remove_dir_all_spec faulty p v r v' \<longleftrightarrow>
     (case r of
        Inr _ \<Rightarrow> v' = cut_tree p v
      | Inl _ \<Rightarrow> (\<forall>q. v' q = v q \<or> (is_under p q \<and> v' q = None)) \<and> (fs_wf v \<longrightarrow> fs_wf v')
          \<and> (\<not> faulty \<longrightarrow> v' = v \<and> (p = [] \<or> (\<exists>b. v p = Some (VFile b)))))"

definition stat_spec :: "bool \<Rightarrow> string list \<Rightarrow> fsview \<Rightarrow> fs_error + metadata option \<Rightarrow> bool" where
  "stat_spec faulty p v r \<longleftrightarrow>
     (case r of
        Inr None \<Rightarrow> v p = None
      | Inr (Some m) \<Rightarrow> (\<exists>n. v p = Some n \<and> md_is_dir m = (n = VDir)
                        \<and> (\<forall>b. n = VFile b \<longrightarrow> md_size m = of_nat (length b)))
      | Inl _ \<Rightarrow> faulty)"

definition create_dir_spec :: "bool \<Rightarrow> string list \<Rightarrow> fsview \<Rightarrow> fs_error + unit \<Rightarrow> fsview \<Rightarrow> bool" where
  "create_dir_spec faulty p v r v' \<longleftrightarrow>
     (let can = p \<noteq> [] \<and> v p = None \<and> v (butlast p) = Some VDir in
      case r of
        Inr _ \<Rightarrow> can \<and> v' = v(p \<mapsto> VDir)
      | Inl e \<Rightarrow> (v' = v \<or> (faulty \<and> (\<exists>q m. e = FsOther q m) \<and> can \<and> v' = v(p \<mapsto> VDir)))
          \<and> (\<not> faulty \<longrightarrow> \<not> can)
          \<and> ((\<exists>q. e = FsAlreadyExists q) \<longrightarrow> v p \<noteq> None))"

definition remove_file_spec :: "bool \<Rightarrow> string list \<Rightarrow> fsview \<Rightarrow> fs_error + unit \<Rightarrow> fsview \<Rightarrow> bool" where
  "remove_file_spec faulty p v r v' \<longleftrightarrow>
     (case r of
        Inr _ \<Rightarrow> v p \<noteq> Some VDir \<and> v' = v(p := None)
      | Inl e \<Rightarrow> (v' = v \<or> (faulty \<and> v p \<noteq> Some VDir \<and> v' = v(p := None)))
          \<and> (\<not> faulty \<longrightarrow> v p = Some VDir))"


definition random_spec :: "bool \<Rightarrow> nat \<Rightarrow> string + bytes \<Rightarrow> bool" where
  "random_spec faulty n r \<longleftrightarrow> (case r of Inl _ \<Rightarrow> faulty | Inr b \<Rightarrow> length b = n)"

section \<open>What a program guarantees\<close>

text \<open>
  \<open>safe S I m Q v\<close>: started on the files \<open>v\<close>, the program \<open>m\<close> keeps \<open>I\<close> of the files at every
  moment, and ends with a result and files in \<open>Q\<close>. The setting \<open>S\<close> says whether calls may fail,
  how other clients may have changed the files before each call, which numbers and
  bytes the random sources may yield (a client's tokens: others can be assumed not to use the same)
  and which times the clock may show. A program that might remove the root itself is not
  safe.
\<close>

record setting =
  st_faulty :: bool
  st_others :: "fsview \<Rightarrow> fsview \<Rightarrow> bool"
  st_tokens :: "u64 \<Rightarrow> bool"
  st_clock :: "datetime \<Rightarrow> bool"
  st_bytes :: "bytes \<Rightarrow> bool"

primrec safe ::
  "setting \<Rightarrow> (fsview \<Rightarrow> bool) \<Rightarrow> 'a prog \<Rightarrow> ('a \<Rightarrow> fsview \<Rightarrow> bool) \<Rightarrow> fsview \<Rightarrow> bool"
  where
  "safe S I (Done a) = (\<lambda>Q v. \<forall>u. st_others S v u \<longrightarrow> I u \<and> Q a u)"
| "safe S I (CreateDirAll p k) =
     (\<lambda>Q v. \<forall>u. st_others S v u \<longrightarrow> I u \<and> (\<forall>r u'. create_dir_all_spec (st_faulty S) (comps p) u r u' \<longrightarrow> safe S I (k r) Q u'))"
| "safe S I (ReadDir p k) =
     (\<lambda>Q v. \<forall>u. st_others S v u \<longrightarrow> I u \<and> (\<forall>r. read_dir_spec (st_faulty S) (comps p) u r \<longrightarrow> safe S I (k r) Q u))"
| "safe S I (OpenRead p k) =
     (\<lambda>Q v. \<forall>u. st_others S v u \<longrightarrow> I u \<and> (\<forall>r. open_read_spec (st_faulty S) (comps p) u r \<longrightarrow> safe S I (k r) Q u))"
| "safe S I (OpenWrite p k) =
     (\<lambda>Q v. \<forall>u. st_others S v u \<longrightarrow> I u \<and> (\<forall>r u'. open_write_spec (st_faulty S) (comps p) u r u' \<longrightarrow> safe S I (k r) Q u'))"
| "safe S I (WriteAll p b k) =
     (\<lambda>Q v. \<forall>u. st_others S v u \<longrightarrow> I u \<and> (\<forall>r u'. write_all_spec (st_faulty S) (comps p) b u r u' \<longrightarrow> safe S I (k r) Q u'))"
| "safe S I (Shutdown p k) =
     (\<lambda>Q v. \<forall>u. st_others S v u \<longrightarrow> I u \<and> (\<forall>r u'. shutdown_spec (st_faulty S) u r u' \<longrightarrow> safe S I (k r) Q u'))"
| "safe S I (Rename p q k) =
     (\<lambda>Q v. \<forall>u. st_others S v u \<longrightarrow> I u \<and>
        (\<forall>r u'. rename_spec (st_faulty S) (comps p) (comps q) u r u' \<longrightarrow> safe S I (k r) Q u'))"
| "safe S I (RemoveDirAll p k) =
     (\<lambda>Q v. comps p \<noteq> [] \<and> (\<forall>u. st_others S v u \<longrightarrow> I u \<and> (\<forall>r u'. remove_dir_all_spec (st_faulty S) (comps p) u r u' \<longrightarrow> safe S I (k r) Q u')))"
| "safe S I (Stat p k) =
     (\<lambda>Q v. \<forall>u. st_others S v u \<longrightarrow> I u \<and> (\<forall>r. stat_spec (st_faulty S) (comps p) u r \<longrightarrow> safe S I (k r) Q u))"
| "safe S I (CreateDir p k) =
     (\<lambda>Q v. \<forall>u. st_others S v u \<longrightarrow> I u \<and> (\<forall>r u'. create_dir_spec (st_faulty S) (comps p) u r u' \<longrightarrow> safe S I (k r) Q u'))"
| "safe S I (RemoveFile p k) =
     (\<lambda>Q v. \<forall>u. st_others S v u \<longrightarrow> I u \<and> (\<forall>r u'. remove_file_spec (st_faulty S) (comps p) u r u' \<longrightarrow> safe S I (k r) Q u'))"
| "safe S I (Now k) = (\<lambda>Q v. I v \<and> (\<forall>t. st_clock S t \<longrightarrow> safe S I (k t) Q v))"
| "safe S I (NextU64 k) = (\<lambda>Q v. I v \<and> (\<forall>n. st_tokens S n \<longrightarrow> safe S I (k n) Q v))"
| "safe S I (RandomBytes n k) =
     (\<lambda>Q v. I v \<and> (\<forall>r. random_spec (st_faulty S) n r \<and> (\<forall>b. r = Inr b \<longrightarrow> st_bytes S b) \<longrightarrow> safe S I (k r) Q v))"

text \<open>Nobody else touches the files; and the same with a clock that shows one time.\<close>

definition alone :: "bool \<Rightarrow> setting" where
  "alone faulty = \<lparr>st_faulty = faulty, st_others = (=), st_tokens = (\<lambda>_. True), st_clock = (\<lambda>_. True),
     st_bytes = (\<lambda>_. True)\<rparr>"

definition alone_at :: "bool \<Rightarrow> datetime \<Rightarrow> setting" where
  "alone_at faulty t = (alone faulty)\<lparr>st_clock := (=) t\<rparr>"

lemma alone_simps [simp]:
  "st_faulty (alone f) = f" "st_others (alone f) = (=)" "st_tokens (alone f) n" "st_clock (alone f) u"
  "st_faulty (alone_at f t) = f" "st_others (alone_at f t) = (=)" "st_tokens (alone_at f t) n"
  "st_clock (alone_at f t) = (=) t" "st_bytes (alone f) b" "st_bytes (alone_at f t) b"
  by (simp_all add: alone_def alone_at_def)

lemma safe_post:
  "safe S I m Q v \<Longrightarrow> (\<And>a u. I u \<Longrightarrow> Q a u \<Longrightarrow> Q' a u) \<Longrightarrow> safe S I m Q' v"
  by (induction m arbitrary: v) auto

lemma safe_inv:
  "safe S I m Q v \<Longrightarrow> (\<And>u. I u \<Longrightarrow> J u) \<Longrightarrow> safe S J m Q v"
  by (induction m arbitrary: v) auto

lemma safe_bind:
  assumes "safe S I m P v" and "\<And>a u. I u \<Longrightarrow> P a u \<Longrightarrow> safe S I (g a) Q u"
    and refl: "\<And>u. st_others S u u"
  shows "safe S I (bind m g) Q v"
  using assms(1)
proof (induction m arbitrary: v)
  case (Done a)
  then have "I v \<and> P a v" using refl by simp
  then show ?case using assms(2) by simp
qed auto

lemma safe_try:
  assumes "safe S I m P v"
    and "\<And>e u. I u \<Longrightarrow> P (Inl e) u \<Longrightarrow> safe S I (Done (Inl (conv e))) Q u"
    and "\<And>x u. I u \<Longrightarrow> P (Inr x) u \<Longrightarrow> safe S I (g x) Q u"
    and "\<And>u. st_others S u u"
  shows "safe S I (try_as conv m g) Q v"
  unfolding try_as_def
proof (rule safe_bind [OF assms(1) _ assms(4)])
  fix r u assume "I u" "P r u"
  then show "safe S I (case r of Inl e \<Rightarrow> Done (Inl (conv e)) | Inr x \<Rightarrow> g x) Q u"
    using assms(2,3) by (cases r) simp_all
qed


section \<open>Trees stay trees\<close>

lemma fs_wfD:
  assumes "fs_wf v"
  shows "v [] = Some VDir" "v (p @ [c]) \<noteq> None \<Longrightarrow> v p = Some VDir"
  using assms by (auto simp: fs_wf_def)

lemma under_refl [simp]: "is_under p p"
  by (simp add: is_under_def)

lemma under_Nil [simp]: "is_under [] q" "is_under p [] \<longleftrightarrow> p = []"
  by (auto simp: is_under_def)

lemma under_iff: "is_under p q \<longleftrightarrow> (\<exists>s. q = p @ s)"
  by (auto simp: is_under_def) (metis append_take_drop_id)

lemma under_append [simp]: "is_under p (p @ s)"
  by (simp add: is_under_def)

lemma under_trans: "is_under p q \<Longrightarrow> is_under q r \<Longrightarrow> is_under p r"
  by (auto simp: under_iff)

lemma under_snoc: "is_under p (q @ [c]) \<longleftrightarrow> is_under p q \<or> p = q @ [c]"
  unfolding under_iff
  by (metis append.assoc append_Nil2 append_butlast_last_id butlast_append last_appendR snoc_eq_iff_butlast)

lemma wf_under_dir: "fs_wf v \<Longrightarrow> v (p @ s) \<noteq> None \<Longrightarrow> s \<noteq> [] \<Longrightarrow> v p = Some VDir"
proof (induction s rule: rev_induct)
  case (snoc c s)
  then have "v (p @ s) = Some VDir" using fs_wfD(2) [of v "p @ s" c] by simp
  with snoc show ?case by (cases "s = []") auto
qed simp

lemma wf_absent_below: "fs_wf v \<Longrightarrow> v p = None \<Longrightarrow> is_under p q \<Longrightarrow> v q = None"
  by (metis append_Nil2 option.distinct(1) under_iff wf_under_dir)

lemma wf_above: "fs_wf v \<Longrightarrow> v q \<noteq> None \<Longrightarrow> is_under p q \<Longrightarrow> p \<noteq> q \<Longrightarrow> v p = Some VDir"
  by (metis append_Nil2 under_iff wf_under_dir)

lemma wf_no_child: "fs_wf v \<Longrightarrow> v p \<noteq> Some VDir \<Longrightarrow> v (p @ [c]) = None"
  by (meson fs_wfD(2))

lemma mk_dirs_wf:
  assumes wf: "fs_wf v" and nf: "\<forall>q b. is_under q p \<longrightarrow> v q \<noteq> Some (VFile b)"
  shows "fs_wf (mk_dirs p v)"
  unfolding fs_wf_def
proof (intro conjI allI impI)
  show "mk_dirs p v [] = Some VDir" using fs_wfD(1) [OF wf] by (simp add: mk_dirs_def)
  fix q c assume h: "mk_dirs p v (q @ [c]) \<noteq> None"
  show "mk_dirs p v q = Some VDir"
  proof (cases "v (q @ [c]) = None")
    case False
    then show ?thesis using fs_wfD(2) [OF wf] by (simp add: mk_dirs_def)
  next
    case True
    with h have "is_under (q @ [c]) p" by (simp add: mk_dirs_def split: if_splits)
    then have "is_under q p" using under_trans under_append by blast
    then show ?thesis using nf by (cases "v q") (auto simp: mk_dirs_def intro: vnode.exhaust)
  qed
qed

lemma cut_tree_wf: "fs_wf v \<Longrightarrow> p \<noteq> [] \<Longrightarrow> fs_wf (cut_tree p v)"
  unfolding fs_wf_def cut_tree_def by (auto simp: under_snoc)

lemma put_node_wf:
  assumes wf: "fs_wf v" and p: "p \<noteq> []" "v (butlast p) = Some VDir" "v p \<noteq> Some VDir"
  shows "fs_wf (v(p \<mapsto> n))"
  unfolding fs_wf_def
proof (intro conjI allI impI)
  show "(v(p \<mapsto> n)) [] = Some VDir" using fs_wfD(1) [OF wf] p by simp
  fix q c assume h: "(v(p \<mapsto> n)) (q @ [c]) \<noteq> None"
  have "q \<noteq> p" using h wf_no_child [OF wf p(3)] by auto
  with h p fs_wfD(2) [OF wf, of q c] show "(v(p \<mapsto> n)) q = Some VDir"
    by (cases "q @ [c] = p") auto
qed

lemma same_file_wf:
  assumes wf: "fs_wf v" and p: "v p = Some (VFile b)"
  shows "fs_wf (v(p \<mapsto> VFile b'))"
proof -
  have ne: "p \<noteq> []" using fs_wfD(1) [OF wf] p by auto
  then have "v (butlast p @ [last p]) \<noteq> None" using p by simp
  then have "v (butlast p) = Some VDir" by (rule fs_wfD(2) [OF wf])
  then show ?thesis using put_node_wf [OF wf ne] p by simp
qed

lemma append_file_wf: "fs_wf v \<Longrightarrow> fs_wf (append_file p b v)"
  by (simp add: append_file_def same_file_wf split: option.splits vnode.splits)

lemma move_tree_wf:
  assumes wf: "fs_wf v" and can: "can_rename v a b"
  shows "fs_wf (move_tree a b v)"
  unfolding fs_wf_def
proof (intro conjI allI impI)
  have c: "v a \<noteq> None" "v b = None" "b \<noteq> []" "v (butlast b) = Some VDir" "\<not> is_under a b"
    using can by (auto simp: can_rename_def)
  show "move_tree a b v [] = Some VDir"
    using wf c by (auto simp: move_tree_def fs_wf_def)
  fix p x assume h: "move_tree a b v (p @ [x]) \<noteq> None"
  show "move_tree a b v p = Some VDir"
  proof (cases "is_under b p")
    case True
    then obtain s where "p = b @ s" by (auto simp: under_iff)
    with h fs_wfD(2) [OF wf, of "a @ s" x] show ?thesis
      by (auto simp: move_tree_def under_snoc)
  next
    case nb: False
    show ?thesis
    proof (cases "b = p @ [x]")
      case True
      then have "v p = Some VDir" "\<not> is_under a p" using c by (auto simp: under_snoc)
      with nb show ?thesis by (simp add: move_tree_def)
    next
      case False
      with h nb have "\<not> is_under a (p @ [x])" "v (p @ [x]) \<noteq> None"
        by (auto simp: move_tree_def under_snoc split: if_splits)
      then show ?thesis using nb fs_wfD(2) [OF wf] by (simp add: move_tree_def under_snoc)
    qed
  qed
qed

lemma remove_file_wf:
  assumes wf: "fs_wf v" and p: "v p \<noteq> Some VDir"
  shows "fs_wf (v(p := None))"
  unfolding fs_wf_def
proof (intro conjI allI impI)
  show "(v(p := None)) [] = Some VDir" using fs_wfD(1) [OF wf] p by auto
  fix q c assume h: "(v(p := None)) (q @ [c]) \<noteq> None"
  have "q \<noteq> p" using h wf_no_child [OF wf p] by (auto split: if_splits)
  with h fs_wfD(2) [OF wf, of q c] show "(v(p := None)) q = Some VDir"
    by (auto split: if_splits)
qed

text \<open>Every call of the contract keeps a tree a tree.\<close>

lemma spec_wf:
  assumes "fs_wf v"
  shows "create_dir_all_spec F p v r v' \<Longrightarrow> fs_wf v'"
    and "open_write_spec F p v r v' \<Longrightarrow> fs_wf v'"
    and "write_all_spec F p b v r2 v' \<Longrightarrow> fs_wf v'"
    and "shutdown_spec F v r2 v' \<Longrightarrow> fs_wf v'"
    and "rename_spec F p q v r v' \<Longrightarrow> fs_wf v'"
    and "remove_dir_all_spec F p v r v' \<Longrightarrow> p \<noteq> [] \<Longrightarrow> fs_wf v'"
    and "create_dir_spec F p v r v' \<Longrightarrow> fs_wf v'"
    and "remove_file_spec F p v r v' \<Longrightarrow> fs_wf v'"
  using assms mk_dirs_wf cut_tree_wf put_node_wf append_file_wf move_tree_wf remove_file_wf
  by (auto simp: create_dir_all_spec_def open_write_spec_def write_all_spec_def shutdown_spec_def
      rename_spec_def remove_dir_all_spec_def create_dir_spec_def remove_file_spec_def
      can_hold_file_def Let_def split: sum.splits)


section \<open>Running a program on a backend\<close>

text \<open>The trait objects a component holds: a file system, a clock and random sources.\<close>

record 'w backend =
  be_create_dir_all :: "remote_path \<Rightarrow> 'w \<Rightarrow> (fs_error + unit) \<times> 'w"
  be_read_dir :: "remote_path \<Rightarrow> 'w \<Rightarrow> (fs_error + dir_entry list) \<times> 'w"
  be_open_read :: "remote_path \<Rightarrow> 'w \<Rightarrow> (fs_error + box_read) \<times> 'w"
  be_open_write :: "remote_path \<Rightarrow> 'w \<Rightarrow> (fs_error + unit) \<times> 'w"
  be_write_all :: "remote_path \<Rightarrow> bytes \<Rightarrow> 'w \<Rightarrow> (io_error + unit) \<times> 'w"
  be_shutdown :: "remote_path \<Rightarrow> 'w \<Rightarrow> (io_error + unit) \<times> 'w"
  be_rename :: "remote_path \<Rightarrow> remote_path \<Rightarrow> 'w \<Rightarrow> (fs_error + unit) \<times> 'w"
  be_remove_dir_all :: "remote_path \<Rightarrow> 'w \<Rightarrow> (fs_error + unit) \<times> 'w"
  be_stat :: "remote_path \<Rightarrow> 'w \<Rightarrow> (fs_error + metadata option) \<times> 'w"
  be_create_dir :: "remote_path \<Rightarrow> 'w \<Rightarrow> (fs_error + unit) \<times> 'w"
  be_remove_file :: "remote_path \<Rightarrow> 'w \<Rightarrow> (fs_error + unit) \<times> 'w"
  be_now :: "'w \<Rightarrow> datetime \<times> 'w"
  be_next_u64 :: "'w \<Rightarrow> u64 \<times> 'w"
  be_random_bytes :: "nat \<Rightarrow> 'w \<Rightarrow> (string + bytes) \<times> 'w"

text \<open>The result, and every state the backend was in on the way, the last first.\<close>

definition then_run :: "'r \<times> 'w \<Rightarrow> ('r \<Rightarrow> 'w list \<Rightarrow> 'a \<times> 'w list) \<Rightarrow> 'w list \<Rightarrow> 'a \<times> 'w list" where
  "then_run rw k ws = (case rw of (r, w) \<Rightarrow> k r (w # ws))"

primrec run_from :: "'w backend \<Rightarrow> 'a prog \<Rightarrow> 'w list \<Rightarrow> 'a \<times> 'w list" where
  "run_from B (Done a) = (\<lambda>ws. (a, ws))"
| "run_from B (CreateDirAll p k) =
     (\<lambda>ws. then_run (be_create_dir_all B p (hd ws)) (\<lambda>r. run_from B (k r)) ws)"
| "run_from B (ReadDir p k) = (\<lambda>ws. then_run (be_read_dir B p (hd ws)) (\<lambda>r. run_from B (k r)) ws)"
| "run_from B (OpenRead p k) = (\<lambda>ws. then_run (be_open_read B p (hd ws)) (\<lambda>r. run_from B (k r)) ws)"
| "run_from B (OpenWrite p k) = (\<lambda>ws. then_run (be_open_write B p (hd ws)) (\<lambda>r. run_from B (k r)) ws)"
| "run_from B (WriteAll p b k) = (\<lambda>ws. then_run (be_write_all B p b (hd ws)) (\<lambda>r. run_from B (k r)) ws)"
| "run_from B (Shutdown p k) = (\<lambda>ws. then_run (be_shutdown B p (hd ws)) (\<lambda>r. run_from B (k r)) ws)"
| "run_from B (Rename p q k) = (\<lambda>ws. then_run (be_rename B p q (hd ws)) (\<lambda>r. run_from B (k r)) ws)"
| "run_from B (RemoveDirAll p k) =
     (\<lambda>ws. then_run (be_remove_dir_all B p (hd ws)) (\<lambda>r. run_from B (k r)) ws)"
| "run_from B (Stat p k) = (\<lambda>ws. then_run (be_stat B p (hd ws)) (\<lambda>r. run_from B (k r)) ws)"
| "run_from B (CreateDir p k) = (\<lambda>ws. then_run (be_create_dir B p (hd ws)) (\<lambda>r. run_from B (k r)) ws)"
| "run_from B (RemoveFile p k) = (\<lambda>ws. then_run (be_remove_file B p (hd ws)) (\<lambda>r. run_from B (k r)) ws)"
| "run_from B (Now k) = (\<lambda>ws. then_run (be_now B (hd ws)) (\<lambda>r. run_from B (k r)) ws)"
| "run_from B (NextU64 k) = (\<lambda>ws. then_run (be_next_u64 B (hd ws)) (\<lambda>r. run_from B (k r)) ws)"
| "run_from B (RandomBytes n k) = (\<lambda>ws. then_run (be_random_bytes B n (hd ws)) (\<lambda>r. run_from B (k r)) ws)"

definition run :: "'w backend \<Rightarrow> 'a prog \<Rightarrow> 'w \<Rightarrow> 'a \<times> 'w" where
  "run B m w = (case run_from B m [w] of (a, ws) \<Rightarrow> (a, hd ws))"

definition visited :: "'w backend \<Rightarrow> 'a prog \<Rightarrow> 'w \<Rightarrow> 'w set" where
  "visited B m w = set (snd (run_from B m [w]))"

text \<open>
  The contract as an interface: a backend whose calls all honour it, seen through \<open>view\<close>. Every
  guarantee proved with \<^const>\<open>safe\<close> then holds of the program run on that backend.
\<close>

locale remote_fs =
  fixes B :: "'w backend" and view :: "'w \<Rightarrow> fsview" and faulty :: bool
  assumes create_dir_all:
    "fs_wf (view w) \<Longrightarrow> be_create_dir_all B p w = (r, w') \<Longrightarrow>
     create_dir_all_spec faulty (comps p) (view w) r (view w')"
  and read_dir:
    "fs_wf (view w) \<Longrightarrow> be_read_dir B p w = (rd, w') \<Longrightarrow>
     read_dir_spec faulty (comps p) (view w) rd \<and> view w' = view w"
  and open_read:
    "fs_wf (view w) \<Longrightarrow> be_open_read B p w = (ro, w') \<Longrightarrow>
     open_read_spec faulty (comps p) (view w) ro \<and> view w' = view w"
  and open_write:
    "fs_wf (view w) \<Longrightarrow> be_open_write B p w = (r, w') \<Longrightarrow>
     open_write_spec faulty (comps p) (view w) r (view w')"
  and write_all:
    "fs_wf (view w) \<Longrightarrow> be_write_all B p b w = (ri, w') \<Longrightarrow>
     write_all_spec faulty (comps p) b (view w) ri (view w')"
  and shutdown:
    "fs_wf (view w) \<Longrightarrow> be_shutdown B p w = (ri, w') \<Longrightarrow> shutdown_spec faulty (view w) ri (view w')"
  and rename:
    "fs_wf (view w) \<Longrightarrow> be_rename B p q w = (r, w') \<Longrightarrow>
     rename_spec faulty (comps p) (comps q) (view w) r (view w')"
  and remove_dir_all:
    "fs_wf (view w) \<Longrightarrow> comps p \<noteq> [] \<Longrightarrow> be_remove_dir_all B p w = (r, w') \<Longrightarrow>
     remove_dir_all_spec faulty (comps p) (view w) r (view w')"
  and stat:
    "fs_wf (view w) \<Longrightarrow> be_stat B p w = (rs, w') \<Longrightarrow>
     stat_spec faulty (comps p) (view w) rs \<and> view w' = view w"
  and create_dir:
    "fs_wf (view w) \<Longrightarrow> be_create_dir B p w = (r, w') \<Longrightarrow>
     create_dir_spec faulty (comps p) (view w) r (view w')"
  and remove_file:
    "fs_wf (view w) \<Longrightarrow> be_remove_file B p w = (r, w') \<Longrightarrow>
     remove_file_spec faulty (comps p) (view w) r (view w')"
  and now: "be_now B w = (t, w') \<Longrightarrow> view w' = view w"
  and next_u64: "be_next_u64 B w = (n, w') \<Longrightarrow> view w' = view w"
  and random_bytes:
    "be_random_bytes B len w = (rb, w') \<Longrightarrow>
     view w' = view w \<and> random_spec faulty len rb"
begin

definition good :: "(fsview \<Rightarrow> bool) \<Rightarrow> ('a \<Rightarrow> fsview \<Rightarrow> bool) \<Rightarrow> 'a \<times> 'w list \<Rightarrow> bool" where
  "good I Q res \<longleftrightarrow>
     (case res of (a, ws) \<Rightarrow>
        ws \<noteq> [] \<and> fs_wf (view (hd ws)) \<and> Q a (view (hd ws)) \<and> (\<forall>w \<in> set ws. I (view w)))"

lemma good_step:
  assumes "\<And>r ws. \<lbrakk>safe (alone faulty) I (k r) Q (view (hd ws)); ws \<noteq> []; fs_wf (view (hd ws));
      \<forall>w \<in> set (tl ws). I (view w)\<rbrakk> \<Longrightarrow> good I Q (run_from B (k r) ws)"
    and "\<And>r w. rw = (r, w) \<Longrightarrow> I (view (hd ws)) \<and> safe (alone faulty) I (k r) Q (view w) \<and> fs_wf (view w)"
    and "ws \<noteq> []" "\<forall>w \<in> set (tl ws). I (view w)"
  shows "good I Q (then_run rw (\<lambda>r. run_from B (k r)) ws)"
proof (cases rw)
  case (Pair r w)
  from assms(2) [OF this] assms(3,4) have "\<forall>w \<in> set ws. I (view w)" by (cases ws) auto
  with assms(1) [of r "w # ws"] assms(2) [OF Pair] Pair show ?thesis by (simp add: then_run_def)
qed

lemma run_from_safe:
  assumes "safe (alone faulty) I m Q (view (hd ws))" "ws \<noteq> []" "fs_wf (view (hd ws))"
    and "\<forall>w \<in> set (tl ws). I (view w)"
  shows "good I Q (run_from B m ws)"
  using assms
proof (induction m arbitrary: ws)
  case (Done a)
  then show ?case by (cases ws) (auto simp: good_def)
next
  case (CreateDirAll p k)
  show ?case
    unfolding run_from.simps
    by (rule good_step) (use CreateDirAll create_dir_all spec_wf(1) [OF _ create_dir_all] in \<open>auto simp: rangeI\<close>)
next
  case (ReadDir p k)
  show ?case
    unfolding run_from.simps
    by (rule good_step) (use ReadDir read_dir  in \<open>auto simp: rangeI\<close>)
next
  case (OpenRead p k)
  show ?case
    unfolding run_from.simps
    by (rule good_step) (use OpenRead open_read  in \<open>auto simp: rangeI\<close>)
next
  case (OpenWrite p k)
  show ?case
    unfolding run_from.simps
    by (rule good_step) (use OpenWrite open_write spec_wf(2) [OF _ open_write] in \<open>auto simp: rangeI\<close>)
next
  case (WriteAll p b k)
  show ?case
    unfolding run_from.simps
    by (rule good_step) (use WriteAll write_all spec_wf(3) [OF _ write_all] in \<open>auto simp: rangeI\<close>)
next
  case (Shutdown p k)
  show ?case
    unfolding run_from.simps
    by (rule good_step) (use Shutdown shutdown spec_wf(4) [OF _ shutdown] in \<open>auto simp: rangeI\<close>)
next
  case (Rename p q k)
  show ?case
    unfolding run_from.simps
    by (rule good_step) (use Rename rename spec_wf(5) [OF _ rename] in \<open>auto simp: rangeI\<close>)
next
  case (RemoveDirAll p k)
  show ?case
    unfolding run_from.simps
    by (rule good_step) (use RemoveDirAll remove_dir_all spec_wf(6) [OF _ remove_dir_all] in \<open>auto simp: rangeI\<close>)
next
  case (Stat p k)
  show ?case
    unfolding run_from.simps
    by (rule good_step) (use Stat stat  in \<open>auto simp: rangeI\<close>)
next
  case (CreateDir p k)
  show ?case
    unfolding run_from.simps
    by (rule good_step) (use CreateDir create_dir spec_wf(7) [OF _ create_dir] in \<open>auto simp: rangeI\<close>)
next
  case (RemoveFile p k)
  show ?case
    unfolding run_from.simps
    by (rule good_step) (use RemoveFile remove_file spec_wf(8) [OF _ remove_file] in \<open>auto simp: rangeI\<close>)
next
  case (Now k)
  show ?case
    unfolding run_from.simps
    by (rule good_step) (use Now now  in \<open>auto simp: rangeI\<close>)
next
  case (NextU64 k)
  show ?case
    unfolding run_from.simps
    by (rule good_step) (use NextU64 next_u64  in \<open>auto simp: rangeI\<close>)
next
  case (RandomBytes n k)
  show ?case
    unfolding run_from.simps
    by (rule good_step) (use RandomBytes random_bytes  in \<open>auto simp: rangeI\<close>)
qed

theorem run_safe:
  assumes "safe (alone faulty) I m Q (view w)" "fs_wf (view w)" "run B m w = (a, w')"
  shows "Q a (view w') \<and> fs_wf (view w')"
  using run_from_safe [of I m Q "[w]"] assms
  by (cases "run_from B m [w]") (simp add: run_def good_def)

theorem visited_safe:
  assumes "safe (alone faulty) I m Q (view w)" "fs_wf (view w)" "u \<in> visited B m w"
  shows "I (view u)"
  using run_from_safe [of I m Q "[w]"] assms
  by (cases "run_from B m [w]") (simp add: visited_def good_def)

end

text \<open>
  A backend whose clock stands still while a program runs: a guarantee for that time holds, too.
  \<open>freeze t m\<close> is the program \<open>m\<close> at the time \<open>t\<close>.
\<close>

primrec freeze :: "datetime \<Rightarrow> 'a prog \<Rightarrow> 'a prog" where
  "freeze t (Done a) = Done a"
| "freeze t (CreateDirAll p k) = CreateDirAll p (\<lambda>r. freeze t (k r))"
| "freeze t (ReadDir p k) = ReadDir p (\<lambda>r. freeze t (k r))"
| "freeze t (OpenRead p k) = OpenRead p (\<lambda>r. freeze t (k r))"
| "freeze t (OpenWrite p k) = OpenWrite p (\<lambda>r. freeze t (k r))"
| "freeze t (WriteAll p b k) = WriteAll p b (\<lambda>r. freeze t (k r))"
| "freeze t (Shutdown p k) = Shutdown p (\<lambda>r. freeze t (k r))"
| "freeze t (Rename p q k) = Rename p q (\<lambda>r. freeze t (k r))"
| "freeze t (RemoveDirAll p k) = RemoveDirAll p (\<lambda>r. freeze t (k r))"
| "freeze t (Stat p k) = Stat p (\<lambda>r. freeze t (k r))"
| "freeze t (CreateDir p k) = CreateDir p (\<lambda>r. freeze t (k r))"
| "freeze t (RemoveFile p k) = RemoveFile p (\<lambda>r. freeze t (k r))"
| "freeze t (Now k) = freeze t (k t)"
| "freeze t (NextU64 k) = NextU64 (\<lambda>n. freeze t (k n))"
| "freeze t (RandomBytes n k) = RandomBytes n (\<lambda>r. freeze t (k r))"

lemma safe_freeze: "safe (alone_at f t) I m Q v \<Longrightarrow> safe (alone f) I (freeze t m) Q v"
  by (induction m arbitrary: v) (simp_all add: rangeI)

locale timed_fs = remote_fs B view faulty
  for B :: "'w backend" and view :: "'w \<Rightarrow> fsview" and faulty :: bool +
  fixes clock :: "'w \<Rightarrow> datetime"
  assumes now_clock: "be_now B w = (clock w, w)"
  and clock_stays:
    "clock (snd (be_create_dir_all B p w)) = clock w" "clock (snd (be_read_dir B p w)) = clock w"
    "clock (snd (be_open_read B p w)) = clock w" "clock (snd (be_open_write B p w)) = clock w"
    "clock (snd (be_write_all B p b w)) = clock w" "clock (snd (be_shutdown B p w)) = clock w"
    "clock (snd (be_rename B p q w)) = clock w" "clock (snd (be_remove_dir_all B p w)) = clock w"
    "clock (snd (be_stat B p w)) = clock w" "clock (snd (be_create_dir B p w)) = clock w"
    "clock (snd (be_remove_file B p w)) = clock w" "clock (snd (be_next_u64 B w)) = clock w"
    "clock (snd (be_random_bytes B n w)) = clock w"
begin

lemma run_from_freeze:
  assumes "ws \<noteq> []" "ws' \<noteq> []" "hd ws' = hd ws" "clock (hd ws) = t"
  shows "fst (run_from B (freeze t m) ws') = fst (run_from B m ws)
    \<and> hd (snd (run_from B (freeze t m) ws')) = hd (snd (run_from B m ws))"
  using assms
proof (induction m arbitrary: ws ws')
  case (Now k)
  then show ?case using Now.IH [of "k t" "hd ws # ws" ws'] by (simp add: then_run_def now_clock rangeI)
qed (simp_all add: then_run_def split_beta clock_stays rangeI)

theorem run_safe_at:
  assumes "safe (alone_at faulty (clock w)) I m Q (view w)" "fs_wf (view w)" "run B m w = (a, w')"
  shows "Q a (view w') \<and> fs_wf (view w')"
proof -
  have "run B (freeze (clock w) m) w = (a, w')"
    using run_from_freeze [of "[w]" "[w]" "clock w" m] assms(3) by (simp add: run_def split_beta)
  with run_safe [OF safe_freeze [OF assms(1)] assms(2)] show ?thesis .
qed

end

declare safe.simps [simp del]

end
