(* ===== verification/Local_Fs.thy ===== *)
theory Local_Fs
  imports Remote_Fs "HOL-Library.AList"
begin

text \<open>
  The local file system of \<^verbatim>\<open>passalong-core/src/fs/local.rs\<close> over an executable model of the calls
  it makes of the operating system, the wrapper that fails chosen calls
  (\<open>FaultyFs\<close> of \<^verbatim>\<open>testing.rs\<close>), and the view of a subtree (\<open>SubFs\<close> of \<^verbatim>\<open>fs/mod.rs\<close>). The
  interpretations at the end show that all three honour the contract of a backend, so every
  guarantee of a program holds when it runs on them.
\<close>

section \<open>The operating system's files\<close>

type_synonym os_files = "(string list \<times> vnode \<times> datetime) list"

record local_world =
  lw_files :: os_files
  lw_clock :: datetime
  lw_seed :: u64

definition lookup :: "os_files \<Rightarrow> string list \<Rightarrow> vnode option" where
  "lookup fs p = map_option fst (map_of fs p)"

definition touch :: "string list \<Rightarrow> datetime \<Rightarrow> os_files \<Rightarrow> os_files" where
  "touch p t fs = map (\<lambda>(q, n, s). (q, n, if q = p then t else s)) fs"

definition put_node :: "string list \<Rightarrow> vnode \<Rightarrow> datetime \<Rightarrow> os_files \<Rightarrow> os_files" where
  "put_node p n t fs = touch (butlast p) t (AList.update p (n, t) fs)"

definition drop_tree :: "string list \<Rightarrow> datetime \<Rightarrow> os_files \<Rightarrow> os_files" where
  "drop_tree p t fs = touch (butlast p) t (filter (\<lambda>(q, _). \<not> is_under p q) fs)"

definition prefixes_of :: "string list \<Rightarrow> string list list" where
  "prefixes_of p = map (\<lambda>k. take k p) [1..<Suc (length p)]"

definition os_create_dir_all :: "string list \<Rightarrow> datetime \<Rightarrow> os_files \<Rightarrow> io_error + os_files" where
  "os_create_dir_all p t fs =
     (if \<exists>q \<in> set (prefixes_of p). \<exists>n \<in> set_option (lookup fs q). n \<noteq> VDir
      then Inl (IoError IoOther ''Not a directory'')
      else Inr (fold (\<lambda>q fs. if lookup fs q = None then put_node q VDir t fs else fs) (prefixes_of p) fs))"

definition os_create_dir :: "string list \<Rightarrow> datetime \<Rightarrow> os_files \<Rightarrow> io_error + os_files" where
  "os_create_dir p t fs =
     (if p = [] \<or> lookup fs p \<noteq> None then Inl (IoError IoAlreadyExists ''File exists'')
      else (case lookup fs (butlast p) of
              None \<Rightarrow> Inl (IoError IoNotFound ''No such file or directory'')
            | Some (VFile _) \<Rightarrow> Inl (IoError IoOther ''Not a directory'')
            | Some VDir \<Rightarrow> Inr (put_node p VDir t fs)))"

definition os_remove_file :: "string list \<Rightarrow> datetime \<Rightarrow> os_files \<Rightarrow> io_error + os_files" where
  "os_remove_file p t fs =
     (case lookup fs p of
        None \<Rightarrow> Inl (IoError IoNotFound ''No such file or directory'')
      | Some VDir \<Rightarrow> Inl (IoError IoOther ''Is a directory'')
      | Some (VFile _) \<Rightarrow> Inr (drop_tree p t fs))"

definition os_remove_dir_all :: "string list \<Rightarrow> datetime \<Rightarrow> os_files \<Rightarrow> io_error + os_files" where
  "os_remove_dir_all p t fs =
     (case lookup fs p of
        None \<Rightarrow> Inl (IoError IoNotFound ''No such file or directory'')
      | Some (VFile _) \<Rightarrow> Inl (IoError IoOther ''Not a directory'')
      | Some VDir \<Rightarrow> Inr (drop_tree p t fs))"

definition os_read_dir :: "string list \<Rightarrow> os_files \<Rightarrow> io_error + (string \<times> bool) list" where
  "os_read_dir p fs =
     (case lookup fs p of
        None \<Rightarrow> Inl (IoError IoNotFound ''No such file or directory'')
      | Some (VFile _) \<Rightarrow> Inl (IoError IoOther ''Not a directory'')
      | Some VDir \<Rightarrow>
          Inr (map (\<lambda>n. (n, lookup fs (p @ [n]) = Some VDir))
                 (remdups (map last (filter (\<lambda>q. q \<noteq> [] \<and> butlast q = p) (map fst fs))))))"

definition os_open :: "string list \<Rightarrow> os_files \<Rightarrow> io_error + box_read" where
  "os_open p fs =
     (case lookup fs p of
        None \<Rightarrow> Inl (IoError IoNotFound ''No such file or directory'')
      | Some VDir \<Rightarrow> Inr \<lparr>br_pieces = [], br_end = Some (IoError IoOther ''Is a directory'')\<rparr>
      | Some (VFile b) \<Rightarrow> Inr (reader_of b))"

definition os_create :: "string list \<Rightarrow> datetime \<Rightarrow> os_files \<Rightarrow> io_error + os_files" where
  "os_create p t fs =
     (if p = [] \<or> lookup fs p = Some VDir then Inl (IoError IoOther ''Is a directory'')
      else (case lookup fs (butlast p) of
              None \<Rightarrow> Inl (IoError IoNotFound ''No such file or directory'')
            | Some (VFile _) \<Rightarrow> Inl (IoError IoOther ''Not a directory'')
            | Some VDir \<Rightarrow> Inr (put_node p (VFile []) t fs)))"

definition os_append :: "string list \<Rightarrow> bytes \<Rightarrow> datetime \<Rightarrow> os_files \<Rightarrow> os_files" where
  "os_append p b t fs =
     (case lookup fs p of
        Some (VFile old) \<Rightarrow> AList.update p (VFile (old @ b), t) fs
      | _ \<Rightarrow> fs)"

definition os_rename :: "string list \<Rightarrow> string list \<Rightarrow> datetime \<Rightarrow> os_files \<Rightarrow> io_error + os_files" where
  "os_rename a b t fs =
     (if lookup fs a = None \<or> b = [] \<or> lookup fs (butlast b) = None
      then Inl (IoError IoNotFound ''No such file or directory'')
      else if lookup fs (butlast b) \<noteq> Some VDir then Inl (IoError IoOther ''Not a directory'')
      else if is_under a b then Inl (IoError IoOther ''Invalid argument'')
      else Inr (touch (butlast a) t (touch (butlast b) t
                 (map (\<lambda>(q, n). (if is_under a q then b @ drop (length a) q else q, n))
                    (filter (\<lambda>(q, _). \<not> is_under b q) fs)))))"

section \<open>LocalFs\<close>

definition resolve_path :: "remote_path \<Rightarrow> string list" where
  "resolve_path p = fold (\<lambda>part acc. acc @ [part]) (comps p) []"

definition update_files :: "remote_path \<Rightarrow> io_error + os_files \<Rightarrow> local_world \<Rightarrow> (fs_error + unit) \<times> local_world" where
  "update_files p r w =
     (case r of Inl e \<Rightarrow> (Inl (from_io p e), w) | Inr fs \<Rightarrow> (Inr (), w\<lparr>lw_files := fs\<rparr>))"

definition local_create_dir_all :: "remote_path \<Rightarrow> local_world \<Rightarrow> (fs_error + unit) \<times> local_world" where
  "local_create_dir_all p w =
     update_files p (os_create_dir_all (resolve_path p) (lw_clock w) (lw_files w)) w"

definition local_create_dir :: "remote_path \<Rightarrow> local_world \<Rightarrow> (fs_error + unit) \<times> local_world" where
  "local_create_dir p w = update_files p (os_create_dir (resolve_path p) (lw_clock w) (lw_files w)) w"

definition local_remove_file :: "remote_path \<Rightarrow> local_world \<Rightarrow> (fs_error + unit) \<times> local_world" where
  "local_remove_file p w =
     (case os_remove_file (resolve_path p) (lw_clock w) (lw_files w) of
        Inl e \<Rightarrow> (if io_kind_of e \<noteq> IoNotFound then Inl (from_io p e) else Inr (), w)
      | Inr fs \<Rightarrow> (Inr (), w\<lparr>lw_files := fs\<rparr>))"

definition local_read_dir :: "remote_path \<Rightarrow> local_world \<Rightarrow> (fs_error + dir_entry list) \<times> local_world" where
  "local_read_dir p w =
     (case os_read_dir (resolve_path p) (lw_files w) of
        Inl e \<Rightarrow> Inl (from_io p e)
      | Inr es \<Rightarrow> Inr (sort_key de_name (map (\<lambda>(n, d). \<lparr>de_name = n, de_is_dir = d\<rparr>) es)), w)"

definition local_open_read :: "remote_path \<Rightarrow> local_world \<Rightarrow> (fs_error + box_read) \<times> local_world" where
  "local_open_read p w = (map_err (from_io p) (os_open (resolve_path p) (lw_files w)), w)"

definition local_open_write :: "remote_path \<Rightarrow> local_world \<Rightarrow> (fs_error + unit) \<times> local_world" where
  "local_open_write p w = update_files p (os_create (resolve_path p) (lw_clock w) (lw_files w)) w"

definition local_write_all :: "remote_path \<Rightarrow> bytes \<Rightarrow> local_world \<Rightarrow> (io_error + unit) \<times> local_world" where
  "local_write_all p b w =
     (Inr (), w\<lparr>lw_files := os_append (resolve_path p) b (lw_clock w) (lw_files w)\<rparr>)"

definition local_rename :: "remote_path \<Rightarrow> remote_path \<Rightarrow> local_world \<Rightarrow> (fs_error + unit) \<times> local_world" where
  "local_rename from to w =
     (if lookup (lw_files w) (resolve_path to) \<noteq> None
      then (Inl (FsAlreadyExists (rp_display to)), w)
      else update_files from
             (os_rename (resolve_path from) (resolve_path to) (lw_clock w) (lw_files w)) w)"

definition local_remove_dir_all :: "remote_path \<Rightarrow> local_world \<Rightarrow> (fs_error + unit) \<times> local_world" where
  "local_remove_dir_all p w =
     (case os_remove_dir_all (resolve_path p) (lw_clock w) (lw_files w) of
        Inl e \<Rightarrow> (if io_kind_of e \<noteq> IoNotFound then Inl (from_io p e) else Inr (), w)
      | Inr fs \<Rightarrow> (Inr (), w\<lparr>lw_files := fs\<rparr>))"

definition local_stat :: "remote_path \<Rightarrow> local_world \<Rightarrow> (fs_error + metadata option) \<times> local_world" where
  "local_stat p w =
     (case map_of (lw_files w) (resolve_path p) of
        None \<Rightarrow> Inr None
      | Some (n, t) \<Rightarrow>
          Inr (Some \<lparr>md_is_dir = (n = VDir),
                     md_size = (case n of VDir \<Rightarrow> 4096 | VFile b \<Rightarrow> of_nat (length b)),
                     md_modified = Some t\<rparr>), w)"

definition local_fs :: "local_world backend" where
  "local_fs =
     \<lparr>be_create_dir_all = local_create_dir_all, be_read_dir = local_read_dir,
      be_open_read = local_open_read, be_open_write = local_open_write,
      be_write_all = local_write_all, be_shutdown = (\<lambda>p w. (Inr (), w)),
      be_rename = local_rename, be_remove_dir_all = local_remove_dir_all,
      be_stat = local_stat, be_create_dir = local_create_dir, be_remove_file = local_remove_file,
      be_now = (\<lambda>w. (lw_clock w, w)),
      be_next_u64 = (\<lambda>w. (lw_seed w, w\<lparr>lw_seed := lw_seed w + 1\<rparr>)),
      be_random_bytes =
        (\<lambda>n w. (Inr (replicate n (ucast (lw_seed w))), w\<lparr>lw_seed := lw_seed w + 1\<rparr>))\<rparr>"

definition local_view :: "local_world \<Rightarrow> fsview" where
  "local_view w = lookup (lw_files w)"

section \<open>LocalFs honours the contract\<close>

lemma resolve_path_comps [simp]: "resolve_path p = comps p"
proof -
  have "fold (\<lambda>part acc. acc @ [part]) xs ys = ys @ xs" for xs ys :: "string list"
    by (induction xs arbitrary: ys) simp_all
  then show ?thesis by (simp add: resolve_path_def)
qed

lemma lookup_touch [simp]: "lookup (touch p t fs) = lookup fs"
proof
  fix q show "lookup (touch p t fs) q = lookup fs q"
    by (induction fs) (auto simp: lookup_def touch_def)
qed

lemma lookup_update [simp]: "lookup (AList.update p (n, t) fs) = (lookup fs)(p \<mapsto> n)"
  by (rule ext) (simp add: lookup_def update_conv')

lemma lookup_put_node [simp]: "lookup (put_node p n t fs) = (lookup fs)(p \<mapsto> n)"
  by (simp add: put_node_def)

lemma lookup_drop_tree [simp]: "lookup (drop_tree p t fs) = cut_tree p (lookup fs)"
proof
  fix q show "lookup (drop_tree p t fs) q = cut_tree p (lookup fs) q"
    unfolding drop_tree_def lookup_touch
    by (induction fs) (auto simp: lookup_def cut_tree_def)
qed

lemma lookup_append [simp]: "lookup (os_append p b t fs) = append_file p b (lookup fs)"
  by (auto simp: os_append_def append_file_def split: option.splits vnode.splits)


lemma prefixes_of_mem: "q \<in> set (prefixes_of p) \<longleftrightarrow> q \<noteq> [] \<and> is_under q p"
proof
  assume "q \<in> set (prefixes_of p)"
  then obtain k where "k \<in> {1..<Suc (length p)}" "q = take k p"
    unfolding prefixes_of_def set_map set_upt by blast
  then show "q \<noteq> [] \<and> is_under q p" by (auto simp: is_under_def min_def)
next
  assume h: "q \<noteq> [] \<and> is_under q p"
  then have "q = take (length q) p" "0 < length q" by (simp_all add: is_under_def)
  moreover have "length q \<le> length p" using h by (auto simp: under_iff)
  ultimately show "q \<in> set (prefixes_of p)" unfolding prefixes_of_def
    by (metis (no_types, lifting) One_nat_def Suc_leI atLeastLessThan_iff image_eqI le_imp_less_Suc list.set_map set_upt)
qed

lemma lookup_add_dirs:
  "lookup (fold (\<lambda>q fs. if lookup fs q = None then put_node q VDir t fs else fs) qs fs) =
   (\<lambda>q. if lookup fs q = None \<and> q \<in> set qs then Some VDir else lookup fs q)"
  by (induction qs arbitrary: fs) (auto simp: fun_eq_iff)

lemma os_create_dir_all_view:
  assumes wf: "fs_wf (lookup fs)"
  shows "case os_create_dir_all p t fs of
      Inl e \<Rightarrow> \<exists>q b. is_under q p \<and> lookup fs q = Some (VFile b)
    | Inr fs' \<Rightarrow> lookup fs' = mk_dirs p (lookup fs) \<and> (\<forall>q b. is_under q p \<longrightarrow> lookup fs q \<noteq> Some (VFile b))"
proof (cases "\<exists>q \<in> set (prefixes_of p). \<exists>n \<in> set_option (lookup fs q). n \<noteq> VDir")
  case True
  then obtain q n where "is_under q p" "lookup fs q = Some n" "n \<noteq> VDir"
    by (auto simp: prefixes_of_mem)
  with True show ?thesis by (cases n) (auto simp: os_create_dir_all_def)
next
  case False
  have nf: "lookup fs q \<noteq> Some (VFile b)" if "is_under q p" for q b
    using that False fs_wfD(1) [OF wf] by (cases "q = []") (auto simp: prefixes_of_mem)
  have "lookup (fold (\<lambda>q fs. if lookup fs q = None then put_node q VDir t fs else fs) (prefixes_of p) fs)
      = mk_dirs p (lookup fs)"
    unfolding lookup_add_dirs mk_dirs_def
    using fs_wfD(1) [OF wf] by (auto simp: fun_eq_iff prefixes_of_mem)
  with False nf show ?thesis by (simp add: os_create_dir_all_def)
qed

lemma mem_keys_lookup: "q \<in> fst ` set fs \<longleftrightarrow> lookup fs q \<noteq> None"
  by (simp add: lookup_def map_of_eq_None_iff)

lemma os_read_dir_entries:
  assumes "os_read_dir p fs = Inr es"
  shows "lookup fs p = Some VDir
    \<and> entries_of (lookup fs) p (sort_key de_name (map (\<lambda>(n, d). \<lparr>de_name = n, de_is_dir = d\<rparr>) es))"
proof -
  let ?names = "remdups (map last (filter (\<lambda>q. q \<noteq> [] \<and> butlast q = p) (map fst fs)))"
  from assms have d: "lookup fs p = Some VDir"
    and es: "es = map (\<lambda>n. (n, lookup fs (p @ [n]) = Some VDir)) ?names"
    by (auto simp: os_read_dir_def split: option.splits vnode.splits)
  have names: "n \<in> set ?names \<longleftrightarrow> lookup fs (p @ [n]) \<noteq> None" for n
  proof -
    have "n \<in> set ?names \<longleftrightarrow> p @ [n] \<in> fst ` set fs"
      by (auto simp: image_iff) (metis append_butlast_last_id fst_conv, force)
    then show ?thesis by (simp add: mem_keys_lookup)
  qed
  let ?mk = "\<lambda>n. \<lparr>de_name = n, de_is_dir = (lookup fs (p @ [n]) = Some VDir)\<rparr>"
  have e: "map (\<lambda>(n, d). \<lparr>de_name = n, de_is_dir = d\<rparr>) es = map ?mk ?names"
    by (simp add: es)
  have "map de_name (map ?mk ?names) = ?names" by (simp add: comp_def)
  then have "distinct (map de_name (map ?mk ?names))" by (metis distinct_remdups)
  then have "sorted_wrt (\<lambda>a b. de_name a < de_name b) (sort_key de_name (map ?mk ?names))"
    by (rule strictly_sort_key)
  moreover have "(\<exists>e \<in> set (sort_key de_name (map ?mk ?names)). de_name e = n \<and> de_is_dir e = d)
      \<longleftrightarrow> (\<exists>x. lookup fs (p @ [n]) = Some x \<and> d = (x = VDir))" for n d
    using names [of n] by (auto simp del: set_remdups)
  ultimately show ?thesis using d unfolding e entries_of_def by blast
qed

lemma lookup_rename:
  assumes "os_rename a b t fs = Inr fs'" "lookup fs b = None" "fs_wf (lookup fs)"
  shows "can_rename (lookup fs) a b \<and> lookup fs' = move_tree a b (lookup fs)"
proof -
  let ?moved = "map (\<lambda>(q, n). (if is_under a q then b @ drop (length a) q else q, n))
      (filter (\<lambda>(q, _). \<not> is_under b q) fs)"
  have c: "lookup fs a \<noteq> None" "b \<noteq> []" "lookup fs (butlast b) = Some VDir" "\<not> is_under a b"
    using assms(1) by (simp_all add: os_rename_def split: if_splits)
  then obtain y where "lookup fs a = Some y" "b \<noteq> []" "lookup fs (butlast b) = Some VDir" "\<not> is_under a b"
    by blast
  then have "fs' = touch (butlast a) t (touch (butlast b) t ?moved)"
    using assms(1) by (simp add: os_rename_def)
  then have fs': "lookup fs' = lookup ?moved" by (simp only: lookup_touch)
  have nb: "\<not> is_under b q" if "lookup fs q \<noteq> None" for q
    using wf_absent_below [OF assms(3,2), of q] that by (rule contrapos_nn [rotated])
  have keep: "filter (\<lambda>(q, _). \<not> is_under b q) fs = fs"
  proof (intro filter_True ballI)
    fix x assume "x \<in> set fs"
    then have "fst x \<in> fst ` set fs" by (rule imageI)
    with nb show "case x of (q, _) \<Rightarrow> \<not> is_under b q" by (auto simp: mem_keys_lookup)
  qed
  have mo: "lookup (map (\<lambda>(q, n). (if is_under a q then b @ drop (length a) q else q, n)) xs) q
      = move_tree a b (lookup xs) q" if "\<forall>k \<in> fst ` set xs. \<not> is_under b k" for xs q
    using that
  proof (induction xs)
    case Nil
    then show ?case by (simp add: lookup_def move_tree_def)
  next
    case (Cons x xs)
    obtain k n where x: "x = (k, n)" by (cases x)
    have k: "\<not> is_under b k" using Cons.prems x by simp
    have l: "lookup (x # xs) q' = (if q' = k then Some (fst n) else lookup xs q')" for q'
      by (simp add: lookup_def x)
    have "b @ drop (length a) k = q \<longleftrightarrow> is_under b q \<and> k = a @ drop (length b) q" if "is_under a k"
      using that by (auto simp: under_iff)
    moreover have "lookup (map (\<lambda>(q, n). (if is_under a q then b @ drop (length a) q else q, n)) (x # xs)) q =
        (if (if is_under a k then b @ drop (length a) k else k) = q then Some (fst n)
         else lookup (map (\<lambda>(q, n). (if is_under a q then b @ drop (length a) q else q, n)) xs) q)"
      by (simp add: lookup_def x)
    moreover have "lookup (map (\<lambda>(q, n). (if is_under a q then b @ drop (length a) q else q, n)) xs) q =
        move_tree a b (lookup xs) q"
      using Cons by auto
    ultimately show ?case
      using k by (auto simp: l move_tree_def under_iff)
  qed
  have "lookup fs' = move_tree a b (lookup fs)"
    unfolding fs' keep
  proof (rule ext, rule mo)
    show "\<forall>k \<in> fst ` set fs. \<not> is_under b k" using nb mem_keys_lookup by blast
  qed
  with c assms(2) show ?thesis by (simp add: can_rename_def)
qed


lemma cut_tree_leaf: "fs_wf v \<Longrightarrow> v p \<noteq> Some VDir \<Longrightarrow> cut_tree p v = v(p := None)"
  by (auto simp: cut_tree_def fun_eq_iff under_iff dest: wf_under_dir) (metis append_Nil2 wf_under_dir)+

lemma local_view_update [simp]: "local_view (w\<lparr>lw_files := fs\<rparr>) = lookup fs"
  by (simp add: local_view_def)

lemma from_io_kinds:
  "from_io p e = FsNotFound s \<longleftrightarrow> io_kind_of e = IoNotFound \<and> s = rp_display p"
  "from_io p e = FsAlreadyExists s \<longleftrightarrow> io_kind_of e = IoAlreadyExists \<and> s = rp_display p"
  by (auto simp: from_io_def Let_def split: io_kind.splits)

lemma lookup_local: "lookup (lw_files w) = local_view w"
  by (simp add: local_view_def)

interpretation lfs: remote_fs local_fs local_view False
proof
  fix w :: local_world and p :: remote_path and r :: "fs_error + unit" and w'
  assume wf: "fs_wf (local_view w)"
  {
    assume "be_create_dir_all local_fs p w = (r, w')"
    then show "create_dir_all_spec False (comps p) (local_view w) r (local_view w')"
      using os_create_dir_all_view [OF wf [unfolded local_view_def], of "comps p" "lw_clock w"]
        fs_wfD(1) [OF wf]
      by (auto simp: local_fs_def local_create_dir_all_def update_files_def create_dir_all_spec_def
          lookup_local mk_dirs_def fun_eq_iff intro!: exI [of _ "[]"] split: sum.splits)
  next
    assume "be_open_write local_fs p w = (r, w')"
    then show "open_write_spec False (comps p) (local_view w) r (local_view w')"
      by (auto simp: local_fs_def local_open_write_def update_files_def open_write_spec_def
          os_create_def can_hold_file_def lookup_local split: sum.splits if_splits option.splits vnode.splits)
  next
    assume "comps p \<noteq> []" "be_remove_dir_all local_fs p w = (r, w')"
    then show "remove_dir_all_spec False (comps p) (local_view w) r (local_view w')"
      using wf_absent_below [OF wf, of "comps p"]
      by (auto simp: local_fs_def local_remove_dir_all_def remove_dir_all_spec_def os_remove_dir_all_def
          lookup_local cut_tree_def fun_eq_iff split: sum.splits if_splits option.splits vnode.splits)
  next
    assume "be_create_dir local_fs p w = (r, w')"
    then show "create_dir_spec False (comps p) (local_view w) r (local_view w')"
      using fs_wfD(1) [OF wf]
      by (auto simp: local_fs_def local_create_dir_def update_files_def create_dir_spec_def from_io_kinds
          os_create_dir_def Let_def lookup_local split: sum.splits if_splits option.splits vnode.splits)
  next
    assume "be_remove_file local_fs p w = (r, w')"
    then show "remove_file_spec False (comps p) (local_view w) r (local_view w')"
      using cut_tree_leaf [OF wf, of "comps p"]
      by (auto simp: local_fs_def local_remove_file_def remove_file_spec_def os_remove_file_def
          lookup_local
          split: sum.splits if_splits option.splits vnode.splits)
  }
next
  fix w :: local_world and p q :: remote_path and r :: "fs_error + unit" and w'
  assume wf: "fs_wf (local_view w)" and r: "be_rename local_fs p q w = (r, w')"
  show "rename_spec False (comps p) (comps q) (local_view w) r (local_view w')"
  proof (cases "local_view w (comps q) = None")
    case False
    with r show ?thesis
      by (auto simp: local_fs_def local_rename_def rename_spec_def can_rename_def lookup_local)
  next
    case True
    show ?thesis
    proof (cases "os_rename (comps p) (comps q) (lw_clock w) (lw_files w)")
      case (Inl e)
      with r True have "r = Inl (from_io p e)" "w' = w"
        by (auto simp: local_fs_def local_rename_def update_files_def lookup_local)
      with Inl True show ?thesis
        by (auto simp: rename_spec_def can_rename_def os_rename_def from_io_kinds lookup_local
            split: if_splits)
    next
      case (Inr fs)
      with r True have "r = Inr ()" "local_view w' = lookup fs"
        by (auto simp: local_fs_def local_rename_def update_files_def lookup_local)
      with lookup_rename [OF Inr] True wf show ?thesis by (simp add: rename_spec_def lookup_local)
    qed
  qed
next
  fix w :: local_world and p :: remote_path and rd and w'
  assume "be_read_dir local_fs p w = (rd, w')"
  then show "read_dir_spec False (comps p) (local_view w) rd \<and> local_view w' = local_view w"
    using os_read_dir_entries [of "comps p" "lw_files w"]
    by (auto simp: local_fs_def local_read_dir_def read_dir_spec_def os_read_dir_def from_io_def Let_def
        lookup_local split: sum.splits option.splits vnode.splits)
next
  fix w :: local_world and p :: remote_path and ro and w'
  assume "be_open_read local_fs p w = (ro, w')"
  then show "open_read_spec False (comps p) (local_view w) ro \<and> local_view w' = local_view w"
    by (auto simp: local_fs_def local_open_read_def open_read_spec_def os_open_def from_io_def Let_def
        reads_def reader_of_def br_bytes_def lookup_local split: sum.splits option.splits vnode.splits)
next
  fix w :: local_world and p :: remote_path and b and ri and w'
  assume "be_write_all local_fs p b w = (ri, w')"
  then show "write_all_spec False (comps p) b (local_view w) ri (local_view w')"
    by (auto simp: local_fs_def local_write_all_def write_all_spec_def lookup_local)
next
  fix w :: local_world and p :: remote_path and rs and w'
  assume "be_stat local_fs p w = (rs, w')"
  then show "stat_spec False (comps p) (local_view w) rs \<and> local_view w' = local_view w"
    by (auto simp: local_fs_def local_stat_def stat_spec_def local_view_def lookup_def
        split: option.splits)
qed (auto simp: local_fs_def shutdown_spec_def random_spec_def local_view_def)


section \<open>Weaker contracts\<close>

lemma spec_faulty:
  "create_dir_all_spec F p v r v' \<Longrightarrow> create_dir_all_spec True p v r v'"
  "read_dir_spec F p v rd \<Longrightarrow> read_dir_spec True p v rd"
  "open_read_spec F p v ro \<Longrightarrow> open_read_spec True p v ro"
  "open_write_spec F p v r v' \<Longrightarrow> open_write_spec True p v r v'"
  "write_all_spec F p b v ri v' \<Longrightarrow> write_all_spec True p b v ri v'"
  "shutdown_spec F v ri v' \<Longrightarrow> shutdown_spec True v ri v'"
  "rename_spec F p q v r v' \<Longrightarrow> rename_spec True p q v r v'"
  "remove_dir_all_spec F p v r v' \<Longrightarrow> remove_dir_all_spec True p v r v'"
  "stat_spec F p v rs \<Longrightarrow> stat_spec True p v rs"
  "create_dir_spec F p v r v' \<Longrightarrow> create_dir_spec True p v r v'"
  "remove_file_spec F p v r v' \<Longrightarrow> remove_file_spec True p v r v'"
  by (auto simp: create_dir_all_spec_def read_dir_spec_def open_read_spec_def open_write_spec_def
      write_all_spec_def shutdown_spec_def rename_spec_def remove_dir_all_spec_def stat_spec_def
      create_dir_spec_def remove_file_spec_def reads_def Let_def
      split: sum.splits fs_error.splits vnode.splits option.splits)

section \<open>FaultyFs\<close>

datatype fs_op =
    OpCreateDirAll | OpReadDir | OpOpenRead | OpOpenWrite | OpRename | OpRemoveDirAll | OpStat
  | OpCreateDir | OpRemoveFile

text \<open>The wrapped files, the calls so far, the calls chosen to fail, the writers to cut, and the
  bytes the open cut writers still take.\<close>

record 'w faulty_world =
  fw_inner :: 'w
  fw_calls :: "fs_op \<Rightarrow> nat"
  fw_failing :: "(fs_op \<times> nat) list"
  fw_cuts :: "(nat \<times> nat) list"
  fw_writers :: "(string list \<times> nat) list"

definition fail_nth :: "fs_op \<Rightarrow> nat \<Rightarrow> 'w faulty_world \<Rightarrow> 'w faulty_world" where
  "fail_nth op n w = w\<lparr>fw_failing := (op, n) # fw_failing w\<rparr>"

definition fail_next :: "fs_op \<Rightarrow> nat \<Rightarrow> 'w faulty_world \<Rightarrow> 'w faulty_world" where
  "fail_next op k w =
     w\<lparr>fw_failing := map (\<lambda>i. (op, fw_calls w op + i)) [1..<Suc k] @ fw_failing w\<rparr>"

definition cut_nth_write :: "nat \<Rightarrow> nat \<Rightarrow> 'w faulty_world \<Rightarrow> 'w faulty_world" where
  "cut_nth_write n left w = w\<lparr>fw_cuts := AList.update n left (fw_cuts w)\<rparr>"

definition fault_check :: "fs_op \<Rightarrow> remote_path \<Rightarrow> 'w faulty_world \<Rightarrow> (fs_error + nat) \<times> 'w faulty_world" where
  "fault_check op p w =
     (let call = fw_calls w op + 1; w' = w\<lparr>fw_calls := (fw_calls w)(op := call)\<rparr> in
      if (op, call) \<in> set (fw_failing w)
      then (Inl (FsOther (rp_display p) ''injected failure''),
            w'\<lparr>fw_failing := removeAll (op, call) (fw_failing w)\<rparr>)
      else (Inr call, w'))"

definition on_inner :: "('w \<Rightarrow> 'r \<times> 'w) \<Rightarrow> 'w faulty_world \<Rightarrow> 'r \<times> 'w faulty_world" where
  "on_inner f w = (case f (fw_inner w) of (r, i) \<Rightarrow> (r, w\<lparr>fw_inner := i\<rparr>))"

definition faulted ::
  "fs_op \<Rightarrow> remote_path \<Rightarrow> ('w \<Rightarrow> (fs_error + 'r) \<times> 'w) \<Rightarrow> 'w faulty_world \<Rightarrow> (fs_error + 'r) \<times> 'w faulty_world"
  where
  "faulted op p f w =
     (case fault_check op p w of (Inl e, w') \<Rightarrow> (Inl e, w') | (Inr _, w') \<Rightarrow> on_inner f w')"

definition faulty_open_write ::
  "'w backend \<Rightarrow> remote_path \<Rightarrow> 'w faulty_world \<Rightarrow> (fs_error + unit) \<times> 'w faulty_world" where
  "faulty_open_write B p w =
     (case fault_check OpOpenWrite p w of
        (Inl e, w1) \<Rightarrow> (Inl e, w1)
      | (Inr call, w1) \<Rightarrow>
          (case on_inner (be_open_write B p) w1 of
             (Inl e, w2) \<Rightarrow> (Inl e, w2)
           | (Inr _, w2) \<Rightarrow>
               (Inr (),
                (case map_of (fw_cuts w2) call of
                   Some left \<Rightarrow>
                     w2\<lparr>fw_cuts := AList.delete call (fw_cuts w2),
                        fw_writers := AList.update (comps p) left (fw_writers w2)\<rparr>
                 | None \<Rightarrow> w2\<lparr>fw_writers := AList.delete (comps p) (fw_writers w2)\<rparr>))))"

definition cut_error :: io_error where
  "cut_error = IoError IoOther ''injected write failure''"

text \<open>\<open>write_all\<close> through a \<open>CutWriter\<close>: the bytes it still takes, then the failure.\<close>

definition faulty_write_all ::
  "'w backend \<Rightarrow> remote_path \<Rightarrow> bytes \<Rightarrow> 'w faulty_world \<Rightarrow> (io_error + unit) \<times> 'w faulty_world" where
  "faulty_write_all B p b w =
     (case map_of (fw_writers w) (comps p) of
        None \<Rightarrow> on_inner (be_write_all B p b) w
      | Some left \<Rightarrow>
          if length b \<le> left
          then on_inner (be_write_all B p b)
                 (w\<lparr>fw_writers := AList.update (comps p) (left - length b) (fw_writers w)\<rparr>)
          else (case on_inner (be_write_all B p (take left b))
                       (w\<lparr>fw_writers := AList.update (comps p) 0 (fw_writers w)\<rparr>) of
                  (Inl e, w1) \<Rightarrow> (Inl e, w1)
                | (Inr _, w1) \<Rightarrow> (Inl cut_error, w1)))"

definition faulty_shutdown ::
  "'w backend \<Rightarrow> remote_path \<Rightarrow> 'w faulty_world \<Rightarrow> (io_error + unit) \<times> 'w faulty_world" where
  "faulty_shutdown B p w =
     (case map_of (fw_writers w) (comps p) of
        None \<Rightarrow> on_inner (be_shutdown B p) w
      | Some _ \<Rightarrow> (case on_inner (be_shutdown B p) w of (_, w1) \<Rightarrow> (Inl cut_error, w1)))"

definition faulty_fs :: "'w backend \<Rightarrow> 'w faulty_world backend" where
  "faulty_fs B =
     \<lparr>be_create_dir_all = (\<lambda>p. faulted OpCreateDirAll p (be_create_dir_all B p)),
      be_read_dir = (\<lambda>p. faulted OpReadDir p (be_read_dir B p)),
      be_open_read = (\<lambda>p. faulted OpOpenRead p (be_open_read B p)),
      be_open_write = faulty_open_write B,
      be_write_all = faulty_write_all B,
      be_shutdown = faulty_shutdown B,
      be_rename = (\<lambda>p q. faulted OpRename p (be_rename B p q)),
      be_remove_dir_all = (\<lambda>p. faulted OpRemoveDirAll p (be_remove_dir_all B p)),
      be_stat = (\<lambda>p. faulted OpStat p (be_stat B p)),
      be_create_dir = (\<lambda>p. faulted OpCreateDir p (be_create_dir B p)),
      be_remove_file = (\<lambda>p. faulted OpRemoveFile p (be_remove_file B p)),
      be_now = on_inner (be_now B),
      be_next_u64 = on_inner (be_next_u64 B),
      be_random_bytes = (\<lambda>n. on_inner (be_random_bytes B n))\<rparr>"

lemma fault_checkD:
  "fault_check op p w = (Inl e, w') \<Longrightarrow> fw_inner w' = fw_inner w \<and> (\<exists>m. e = FsOther (rp_display p) m)"
  "fault_check op p w = (Inr c, w') \<Longrightarrow> fw_inner w' = fw_inner w"
  by (auto simp: fault_check_def Let_def split: if_splits)

text \<open>A wrapped call either fails with nothing done or is the call itself.\<close>

lemma faulted_law:
  assumes "faulted op p f w = (r, w')"
    and "\<And>m. P (Inl (FsOther (rp_display p) m)) (fw_inner w)"
    and "\<And>r i. f (fw_inner w) = (r, i) \<Longrightarrow> P r i"
  shows "P r (fw_inner w')"
proof (cases "fault_check op p w")
  case (Pair c w1)
  show ?thesis
  proof (cases c)
    case (Inl e)
    with Pair assms(1,2) fault_checkD(1) [of op p w e w1] show ?thesis
      by (auto simp: faulted_def)
  next
    case (Inr n)
    obtain r' i where "f (fw_inner w) = (r', i)" by (cases "f (fw_inner w)")
    with Inr Pair assms(1) assms(3) [OF this] fault_checkD(2) [of op p w n w1] show ?thesis
      by (auto simp: faulted_def on_inner_def)
  qed
qed

lemma on_inner_law:
  assumes "on_inner f w = (r, w')" and "\<And>r i. f (fw_inner w) = (r, i) \<Longrightarrow> P r i"
  shows "P r (fw_inner w')"
  using assms by (auto simp: on_inner_def split: prod.splits)

lemma faulty_open_write_law:
  assumes "faulty_open_write B p w = (r, w')"
    and "\<And>m. P (Inl (FsOther (rp_display p) m)) (fw_inner w)"
    and "\<And>r i. be_open_write B p (fw_inner w) = (r, i) \<Longrightarrow> P r i"
  shows "P r (fw_inner w')"
proof (cases "fault_check OpOpenWrite p w")
  case (Pair c w1)
  show ?thesis
  proof (cases c)
    case (Inl e)
    with Pair assms(1,2) fault_checkD(1) [of OpOpenWrite p w e w1] show ?thesis
      by (auto simp: faulty_open_write_def)
  next
    case (Inr n)
    obtain r' i where "be_open_write B p (fw_inner w) = (r', i)"
      by (cases "be_open_write B p (fw_inner w)")
    with Inr Pair assms(1) assms(3) [OF this] fault_checkD(2) [of OpOpenWrite p w n w1] show ?thesis
      by (auto simp: faulty_open_write_def on_inner_def split: sum.splits option.splits)
  qed
qed

lemma spec_fails:
  "fs_wf v \<Longrightarrow> create_dir_all_spec True p v (Inl e) v"
  "read_dir_spec True p v (Inl (FsOther s m))"
  "open_read_spec True p v (Inl (FsOther s m))"
  "open_write_spec True p v (Inl e) v"
  "rename_spec True p q v (Inl (FsOther s m)) v"
  "remove_dir_all_spec True p v (Inl e) v"
  "stat_spec True p v (Inl e)"
  "create_dir_spec True p v (Inl (FsOther s m)) v"
  "remove_file_spec True p v (Inl e) v"
proof -
  show "create_dir_all_spec True p v (Inl e) v" if "fs_wf v"
    using fs_wfD(1) [OF that]
    by (auto simp: create_dir_all_spec_def mk_dirs_def fun_eq_iff intro!: exI [of _ "[]"])
qed (auto simp: read_dir_spec_def open_read_spec_def open_write_spec_def
      rename_spec_def remove_dir_all_spec_def stat_spec_def create_dir_spec_def remove_file_spec_def
      Let_def)

lemma write_all_cut: "write_all_spec True p (take k b) v ri v' \<Longrightarrow> write_all_spec True p b v (Inl e) v'"
  by (auto simp: write_all_spec_def split: sum.splits)

text \<open>Over any backend that honours the contract, the wrapper honours the one with faults.\<close>

lemma faulty_fs_refines:
  assumes "remote_fs B view F"
  shows "remote_fs (faulty_fs B) (\<lambda>w. view (fw_inner w)) True"
proof
  note law = remote_fs.create_dir_all [OF assms] remote_fs.read_dir [OF assms]
    remote_fs.open_read [OF assms] remote_fs.open_write [OF assms] remote_fs.write_all [OF assms]
    remote_fs.shutdown [OF assms] remote_fs.rename [OF assms] remote_fs.remove_dir_all [OF assms]
    remote_fs.stat [OF assms] remote_fs.create_dir [OF assms] remote_fs.remove_file [OF assms]
  fix w :: "'a faulty_world" and p q :: remote_path and r :: "fs_error + unit" and w' b
    and rd :: "fs_error + dir_entry list" and ro :: "fs_error + box_read" and ri :: "io_error + unit"
    and rs :: "fs_error + metadata option"
  assume wf: "fs_wf (view (fw_inner w))"
  show "create_dir_all_spec True (comps p) (view (fw_inner w)) r (view (fw_inner w'))"
    if "be_create_dir_all (faulty_fs B) p w = (r, w')"
    by (rule faulted_law [where P = "\<lambda>r i. create_dir_all_spec True (comps p) (view (fw_inner w)) r (view i)"])
      (use that wf in \<open>auto simp: faulty_fs_def intro: spec_fails spec_faulty(1) law(1)\<close>)
  show "read_dir_spec True (comps p) (view (fw_inner w)) rd \<and> view (fw_inner w') = view (fw_inner w)"
    if "be_read_dir (faulty_fs B) p w = (rd, w')"
    by (rule faulted_law [where P = "\<lambda>r i. read_dir_spec True (comps p) (view (fw_inner w)) r
          \<and> view i = view (fw_inner w)"])
      (use that wf in \<open>auto simp: faulty_fs_def dest!: law(2) [OF wf] intro: spec_fails spec_faulty(2)\<close>)
  show "open_read_spec True (comps p) (view (fw_inner w)) ro \<and> view (fw_inner w') = view (fw_inner w)"
    if "be_open_read (faulty_fs B) p w = (ro, w')"
    by (rule faulted_law [where P = "\<lambda>r i. open_read_spec True (comps p) (view (fw_inner w)) r
          \<and> view i = view (fw_inner w)"])
      (use that wf in \<open>auto simp: faulty_fs_def dest!: law(3) [OF wf] intro: spec_fails spec_faulty(3)\<close>)
  show "open_write_spec True (comps p) (view (fw_inner w)) r (view (fw_inner w'))"
    if "be_open_write (faulty_fs B) p w = (r, w')"
    by (rule faulty_open_write_law [where P = "\<lambda>r i. open_write_spec True (comps p) (view (fw_inner w)) r (view i)"])
      (use that wf in \<open>auto simp: faulty_fs_def intro: spec_fails spec_faulty(4) law(4)\<close>)
  show "rename_spec True (comps p) (comps q) (view (fw_inner w)) r (view (fw_inner w'))"
    if "be_rename (faulty_fs B) p q w = (r, w')"
    by (rule faulted_law [where P = "\<lambda>r i. rename_spec True (comps p) (comps q) (view (fw_inner w)) r (view i)"])
      (use that wf in \<open>auto simp: faulty_fs_def intro: spec_fails spec_faulty(7) law(7)\<close>)
  show "remove_dir_all_spec True (comps p) (view (fw_inner w)) r (view (fw_inner w'))"
    if "comps p \<noteq> []" "be_remove_dir_all (faulty_fs B) p w = (r, w')"
    by (rule faulted_law [where P = "\<lambda>r i. remove_dir_all_spec True (comps p) (view (fw_inner w)) r (view i)"])
      (use that wf in \<open>auto simp: faulty_fs_def intro: spec_fails spec_faulty(8) law(8)\<close>)
  show "stat_spec True (comps p) (view (fw_inner w)) rs \<and> view (fw_inner w') = view (fw_inner w)"
    if "be_stat (faulty_fs B) p w = (rs, w')"
    by (rule faulted_law [where P = "\<lambda>r i. stat_spec True (comps p) (view (fw_inner w)) r
          \<and> view i = view (fw_inner w)"])
      (use that wf in \<open>auto simp: faulty_fs_def dest!: law(9) [OF wf] intro: spec_fails spec_faulty(9)\<close>)
  show "create_dir_spec True (comps p) (view (fw_inner w)) r (view (fw_inner w'))"
    if "be_create_dir (faulty_fs B) p w = (r, w')"
    by (rule faulted_law [where P = "\<lambda>r i. create_dir_spec True (comps p) (view (fw_inner w)) r (view i)"])
      (use that wf in \<open>auto simp: faulty_fs_def intro: spec_fails spec_faulty(10) law(10)\<close>)
  show "remove_file_spec True (comps p) (view (fw_inner w)) r (view (fw_inner w'))"
    if "be_remove_file (faulty_fs B) p w = (r, w')"
    by (rule faulted_law [where P = "\<lambda>r i. remove_file_spec True (comps p) (view (fw_inner w)) r (view i)"])
      (use that wf in \<open>auto simp: faulty_fs_def intro: spec_fails spec_faulty(11) law(11)\<close>)
  show "write_all_spec True (comps p) b (view (fw_inner w)) ri (view (fw_inner w'))"
    if "be_write_all (faulty_fs B) p b w = (ri, w')"
    using that wf spec_faulty(5) [OF law(5) [OF wf]] write_all_cut [OF spec_faulty(5) [OF law(5) [OF wf]]]
    by (auto simp: faulty_fs_def faulty_write_all_def on_inner_def
        split: option.splits if_splits prod.splits sum.splits)
  show "shutdown_spec True (view (fw_inner w)) ri (view (fw_inner w'))"
    if "be_shutdown (faulty_fs B) p w = (ri, w')"
    using that wf law(6) [OF wf]
    by (auto simp: faulty_fs_def faulty_shutdown_def on_inner_def shutdown_spec_def
        split: option.splits prod.splits sum.splits)
next
  fix w :: "'a faulty_world" and t w'
  assume "be_now (faulty_fs B) w = (t, w')"
  then show "view (fw_inner w') = view (fw_inner w)"
    using remote_fs.now [OF assms] by (auto simp: faulty_fs_def on_inner_def split: prod.splits)
next
  fix w :: "'a faulty_world" and t w'
  assume "be_next_u64 (faulty_fs B) w = (t, w')"
  then show "view (fw_inner w') = view (fw_inner w)"
    using remote_fs.next_u64 [OF assms] by (auto simp: faulty_fs_def on_inner_def split: prod.splits)
next
  fix w :: "'a faulty_world" and len rb w'
  assume "be_random_bytes (faulty_fs B) len w = (rb, w')"
  then have "be_random_bytes B len (fw_inner w) = (rb, fw_inner w')"
    by (auto simp: faulty_fs_def on_inner_def split: prod.splits)
  from remote_fs.random_bytes [OF assms this] show "view (fw_inner w') = view (fw_inner w)
      \<and> random_spec True len rb"
    by (auto simp: random_spec_def split: sum.splits)
qed

interpretation ltfs: timed_fs local_fs local_view False lw_clock
  by unfold_locales
    (auto simp: local_fs_def local_create_dir_all_def local_read_dir_def local_open_read_def local_open_write_def
      local_write_all_def local_rename_def local_remove_dir_all_def local_stat_def local_create_dir_def
      local_remove_file_def update_files_def split: sum.splits)

interpretation flfs: remote_fs "faulty_fs local_fs" "\<lambda>w. local_view (fw_inner w)" True
  by (rule faulty_fs_refines) (rule lfs.remote_fs_axioms)

end
