(* ===== verification/Sub_Fs.thy ===== *)
theory Sub_Fs
  imports Local_Fs
begin

text \<open>
  \<open>SubFs\<close> of \<^verbatim>\<open>passalong-core/src/fs/mod.rs\<close>: a file system rooted at a folder of another, such as
  the \<^verbatim>\<open>plain/\<close> folder of an encrypted store. It honours the contract of a backend on the subtree
  it shows, and never touches anything outside the folder.
\<close>

section \<open>Operations\<close>

definition sub_under :: "remote_path \<Rightarrow> remote_path \<Rightarrow> fs_error + remote_path" where
  "sub_under pre p = try_fold rp_join pre (comps p)"

definition at_under ::
  "remote_path \<Rightarrow> remote_path \<Rightarrow> (remote_path \<Rightarrow> 'w \<Rightarrow> (fs_error + 'r) \<times> 'w) \<Rightarrow> 'w \<Rightarrow> (fs_error + 'r) \<times> 'w"
  where
  "at_under pre p f w = (case sub_under pre p of Inl e \<Rightarrow> (Inl e, w) | Inr q \<Rightarrow> f q w)"

text \<open>A writer is the inner file system's own, so its calls go where it was opened.\<close>

definition writer_under ::
  "remote_path \<Rightarrow> remote_path \<Rightarrow> (remote_path \<Rightarrow> 'w \<Rightarrow> (io_error + unit) \<times> 'w) \<Rightarrow> 'w \<Rightarrow> (io_error + unit) \<times> 'w"
  where
  "writer_under pre p f w =
     (case sub_under pre p of
        Inl e \<Rightarrow> (Inl (IoError IoOther ''never opened''), w)
      | Inr q \<Rightarrow> f q w)"

definition sub_fs :: "'w backend \<Rightarrow> remote_path \<Rightarrow> 'w backend" where
  "sub_fs B pre =
     B\<lparr>be_create_dir_all := (\<lambda>p. at_under pre p (be_create_dir_all B)),
       be_read_dir := (\<lambda>p. at_under pre p (be_read_dir B)),
       be_open_read := (\<lambda>p. at_under pre p (be_open_read B)),
       be_open_write := (\<lambda>p. at_under pre p (be_open_write B)),
       be_write_all := (\<lambda>p b. writer_under pre p (\<lambda>q. be_write_all B q b)),
       be_shutdown := (\<lambda>p. writer_under pre p (be_shutdown B)),
       be_rename :=
         (\<lambda>p q. at_under pre p (\<lambda>p' w. at_under pre q (\<lambda>q'. be_rename B p' q') w)),
       be_remove_dir_all := (\<lambda>p. at_under pre p (be_remove_dir_all B)),
       be_stat := (\<lambda>p. at_under pre p (be_stat B)),
       be_create_dir := (\<lambda>p. at_under pre p (be_create_dir B)),
       be_remove_file := (\<lambda>p. at_under pre p (be_remove_file B))\<rparr>"

section \<open>Contract\<close>

definition sub_view :: "('w \<Rightarrow> fsview) \<Rightarrow> string list \<Rightarrow> 'w \<Rightarrow> fsview" where
  "sub_view view pre w = (if fs_wf (view w) then \<lambda>p. view w (pre @ p) else (\<lambda>_. None))"

lemma sub_under_eq:
  "rp_wf pre \<Longrightarrow>
   sub_under pre p = (case find invalid_component (comps p) of
       Some c \<Rightarrow> Inl (FsInvalidPath c)
     | None \<Rightarrow> Inr (rp_of (comps pre @ comps p)))"
  by (auto elim!: rp_wf_cases simp: sub_under_def try_fold_join split: option.splits)

lemma sub_under_Inl: "rp_wf pre \<Longrightarrow> sub_under pre p = Inl e \<Longrightarrow> \<exists>c. e = FsInvalidPath c"
  by (auto simp: sub_under_eq split: option.splits)

lemma sub_under_Inr: "rp_wf pre \<Longrightarrow> sub_under pre p = Inr q \<Longrightarrow> comps q = comps pre @ comps p"
  using find_None_valid [of "comps p"]
  by (auto elim!: rp_wf_cases simp: sub_under_eq split: option.splits)

lemma is_under_same [simp]: "is_under (a @ p) (a @ q) \<longleftrightarrow> is_under p q"
  by (auto simp: is_under_def)

lemma sub_specs:
  fixes pre :: "string list"
  defines "sub \<equiv> (\<lambda>v p. v (pre @ p)) :: fsview \<Rightarrow> fsview"
  assumes wf: "fs_wf (sub v)" and wfv: "fs_wf v"
  shows "create_dir_all_spec F (pre @ p) v r v' \<Longrightarrow> create_dir_all_spec True p (sub v) r (sub v')"
    and "read_dir_spec F (pre @ p) v rd \<Longrightarrow> read_dir_spec True p (sub v) rd"
    and "open_read_spec F (pre @ p) v ro \<Longrightarrow> open_read_spec True p (sub v) ro"
    and "open_write_spec F (pre @ p) v r v' \<Longrightarrow> open_write_spec True p (sub v) r (sub v')"
    and "write_all_spec F (pre @ p) b v ri v' \<Longrightarrow> write_all_spec True p b (sub v) ri (sub v')"
    and "rename_spec F (pre @ p) (pre @ q) v r v' \<Longrightarrow> rename_spec True p q (sub v) r (sub v')"
    and "stat_spec F (pre @ p) v rs \<Longrightarrow> stat_spec True p (sub v) rs"
    and "create_dir_spec F (pre @ p) v r v' \<Longrightarrow> create_dir_spec True p (sub v) r (sub v')"
    and "remove_file_spec F (pre @ p) v r v' \<Longrightarrow> remove_file_spec True p (sub v) r (sub v')"
proof -
  have root: "v pre = Some VDir" using fs_wfD(1) [OF wf] by (simp add: sub_def)
  have above: "v (butlast pre) \<noteq> None"
    using root fs_wfD(2) [OF wfv, of "butlast pre" "last pre"] by (cases "pre = []") auto
  have upd: "sub (v(pre @ x \<mapsto> n)) = (sub v)(x \<mapsto> n)" "sub (v(pre @ x := None)) = (sub v)(x := None)" for x n
    by (auto simp: sub_def fun_eq_iff)
  have hold: "can_hold_file v (pre @ p) \<longleftrightarrow> can_hold_file (sub v) p"
    using root by (cases "p = []") (auto simp: can_hold_file_def sub_def butlast_append)
  have ren: "can_rename v (pre @ p) (pre @ q) \<longleftrightarrow> can_rename (sub v) p q"
    using root by (cases "q = []") (auto simp: can_rename_def sub_def butlast_append)
  have mv: "sub (move_tree (pre @ p) (pre @ q) v) = move_tree p q (sub v)"
    by (auto simp: sub_def move_tree_def fun_eq_iff)
  have app: "sub (append_file (pre @ p) b v) = append_file p b (sub v)" for b
    using upd(1) by (auto simp: append_file_def sub_def split: option.splits vnode.splits)
  have mk: "sub (mk_dirs (pre @ x) v) = mk_dirs x (sub v)" for x
    by (auto simp: mk_dirs_def sub_def fun_eq_iff)
  have mk_above: "sub (mk_dirs x v) = mk_dirs [] (sub v)" if "is_under x (pre @ p)" "\<not> is_under pre x" for x
    using that root by (auto simp: mk_dirs_def sub_def fun_eq_iff under_iff append_eq_append_conv2)
  show "create_dir_all_spec F (pre @ p) v r v' \<Longrightarrow> create_dir_all_spec True p (sub v) r (sub v')"
  proof (cases r)
    case (Inl e)
    assume s: "create_dir_all_spec F (pre @ p) v r v'"
    with Inl obtain x where x: "is_under x (pre @ p)" "v' = mk_dirs x v"
      "\<forall>y b. is_under y x \<longrightarrow> v y \<noteq> Some (VFile b)"
      by (auto simp: create_dir_all_spec_def)
    show ?thesis
    proof (cases "is_under pre x")
      case True
      then obtain y where "x = pre @ y" by (auto simp: under_iff)
      with x Inl mk [of y] show ?thesis
        by (auto simp: create_dir_all_spec_def sub_def intro!: exI [of _ y])
    next
      case False
      with x Inl mk_above [OF x(1) False] root show ?thesis
        by (auto simp: create_dir_all_spec_def sub_def intro!: exI [of _ "[]"])
    qed
  next
    case (Inr u)
    assume "create_dir_all_spec F (pre @ p) v r v'"
    with Inr mk [of p] show ?thesis
      by (auto simp: create_dir_all_spec_def sub_def)
  qed
  show "read_dir_spec F (pre @ p) v rd \<Longrightarrow> read_dir_spec True p (sub v) rd"
    by (auto simp: read_dir_spec_def entries_of_def sub_def split: sum.splits fs_error.splits)
  show "open_read_spec F (pre @ p) v ro \<Longrightarrow> open_read_spec True p (sub v) ro"
    by (auto simp: open_read_spec_def reads_def sub_def split: sum.splits fs_error.splits vnode.splits option.splits)
  show "open_write_spec F (pre @ p) v r v' \<Longrightarrow> open_write_spec True p (sub v) r (sub v')"
    using hold upd by (auto simp: open_write_spec_def split: sum.splits)
  show "write_all_spec F (pre @ p) b v ri v' \<Longrightarrow> write_all_spec True p b (sub v) ri (sub v')"
    using app by (auto simp: write_all_spec_def split: sum.splits)
  show "rename_spec F (pre @ p) (pre @ q) v r v' \<Longrightarrow> rename_spec True p q (sub v) r (sub v')"
    using ren mv root above by (cases "q = []") (auto simp: rename_spec_def sub_def butlast_append split: sum.splits)
  show "stat_spec F (pre @ p) v rs \<Longrightarrow> stat_spec True p (sub v) rs"
    by (auto simp: stat_spec_def sub_def split: sum.splits option.splits)
  show "create_dir_spec F (pre @ p) v r v' \<Longrightarrow> create_dir_spec True p (sub v) r (sub v')"
    using upd(1) root by (cases "p = []") (auto simp: create_dir_spec_def sub_def butlast_append Let_def split: sum.splits)
  show "remove_file_spec F (pre @ p) v r v' \<Longrightarrow> remove_file_spec True p (sub v) r (sub v')"
    using upd(2) by (auto simp: remove_file_spec_def sub_def split: sum.splits)
qed


lemma sub_remove:
  assumes s: "remove_dir_all_spec F (pre @ p) v r v'" and wf: "fs_wf (\<lambda>x. v (pre @ x))"
    and wfv: "fs_wf v" and p: "p \<noteq> []"
  shows "remove_dir_all_spec True p (\<lambda>x. v (pre @ x)) r (\<lambda>x. v' (pre @ x))"
proof -
  have root: "v pre = Some VDir" using fs_wfD(1) [OF wf] by simp
  have "fs_wf (\<lambda>x. v' (pre @ x))" if "fs_wf v'" "v' pre = Some VDir"
    unfolding fs_wf_def
  proof (intro conjI allI impI)
    fix x c assume "v' (pre @ x @ [c]) \<noteq> None"
    then show "v' (pre @ x) = Some VDir" using fs_wfD(2) [OF that(1), of "pre @ x" c] by simp
  qed (simp add: that)
  moreover have "v' pre = Some VDir" if "\<forall>q. v' q = v q \<or> (is_under (pre @ p) q \<and> v' q = None)"
  proof -
    have "\<not> is_under (pre @ p) pre" using p by (auto simp: under_iff)
    with that root show ?thesis by metis
  qed
  ultimately show ?thesis
    using s wfv by (auto simp: remove_dir_all_spec_def cut_tree_def split: sum.splits)
qed

lemma at_under_law:
  assumes "at_under pre p f w = (r, w')" "rp_wf pre"
    and "\<And>c. P (Inl (FsInvalidPath c)) w"
    and "\<And>q r w'. comps q = comps pre @ comps p \<Longrightarrow> f q w = (r, w') \<Longrightarrow> P r w'"
  shows "P r w'"
  using assms sub_under_Inl [OF assms(2), of p] sub_under_Inr [OF assms(2), of p]
  by (cases "sub_under pre p") (auto simp: at_under_def)

lemma writer_under_law:
  assumes "writer_under pre p f w = (r, w')" "rp_wf pre"
    and "P (Inl (IoError IoOther ''never opened'')) w"
    and "\<And>q r w'. comps q = comps pre @ comps p \<Longrightarrow> f q w = (r, w') \<Longrightarrow> P r w'"
  shows "P r w'"
  using assms sub_under_Inr [OF assms(2), of p]
  by (cases "sub_under pre p") (auto simp: writer_under_def)

lemma spec_invalid:
  "read_dir_spec True p v (Inl (FsInvalidPath c))"
  "open_read_spec True p v (Inl (FsInvalidPath c))"
  "rename_spec True p q v (Inl (FsInvalidPath c)) v"
  "create_dir_spec True p v (Inl (FsInvalidPath c)) v"
  "write_all_spec True p b v (Inl ie) v"
  "shutdown_spec True v (Inl ie) v"
  by (auto simp: read_dir_spec_def open_read_spec_def rename_spec_def create_dir_spec_def Let_def
      write_all_spec_def shutdown_spec_def append_file_def fun_eq_iff
      intro!: exI [of _ 0] split: option.splits vnode.splits)

text \<open>Seen through the folder, every call honours the contract, with the failure of an invalid path
  added.\<close>

lemma sub_fs_refines:
  assumes "remote_fs B view F" and pre: "rp_wf pre"
  shows "remote_fs (sub_fs B pre) (sub_view view (comps pre)) True"
proof
  note law = remote_fs.create_dir_all [OF assms(1)] remote_fs.read_dir [OF assms(1)]
    remote_fs.open_read [OF assms(1)] remote_fs.open_write [OF assms(1)] remote_fs.write_all [OF assms(1)]
    remote_fs.shutdown [OF assms(1)] remote_fs.rename [OF assms(1)] remote_fs.remove_dir_all [OF assms(1)]
    remote_fs.stat [OF assms(1)] remote_fs.create_dir [OF assms(1)] remote_fs.remove_file [OF assms(1)]
  let ?v = "sub_view view (comps pre)"
  fix w :: 'a and p q :: remote_path and r :: "fs_error + unit" and w' b
    and rd :: "fs_error + dir_entry list" and ro :: "fs_error + box_read" and ri :: "io_error + unit"
    and rs :: "fs_error + metadata option"
  assume wfs: "fs_wf (?v w)"
  have wf: "fs_wf (view w)"
  proof (rule ccontr)
    assume "\<not> fs_wf (view w)"
    then have "?v w = (\<lambda>_. None)" by (simp add: sub_view_def)
    with wfs show False by (simp add: fs_wf_def)
  qed
  have vw: "?v w = (\<lambda>x. view w (comps pre @ x))" using wf by (simp add: sub_view_def)
  have vw': "?v u = (\<lambda>x. view u (comps pre @ x))" if "fs_wf (view u)" for u
    using that by (simp add: sub_view_def)
  note sub = sub_specs [where v = "view w" and pre = "comps pre", OF wfs [unfolded vw] wf]
  note wf' = spec_wf [OF wf]
  show "create_dir_all_spec True (comps p) (?v w) r (?v w')"
    if "be_create_dir_all (sub_fs B pre) p w = (r, w')"
    by (rule at_under_law [where P = "\<lambda>r i. create_dir_all_spec True (comps p) (?v w) r (?v i)", OF _ pre])
      (use that wfs in \<open>auto simp: sub_fs_def vw vw' wf'(1) intro: spec_fails sub(1)
          dest!: law(1) [OF wf]\<close>)
  show "read_dir_spec True (comps p) (?v w) rd \<and> ?v w' = ?v w"
    if "be_read_dir (sub_fs B pre) p w = (rd, w')"
    by (rule at_under_law [where P = "\<lambda>r i. read_dir_spec True (comps p) (?v w) r \<and> ?v i = ?v w", OF _ pre])
      (use that wf in \<open>auto simp: sub_fs_def vw vw' sub_view_def intro: spec_invalid sub(2)
          dest!: law(2) [OF wf]\<close>)
  show "open_read_spec True (comps p) (?v w) ro \<and> ?v w' = ?v w"
    if "be_open_read (sub_fs B pre) p w = (ro, w')"
    by (rule at_under_law [where P = "\<lambda>r i. open_read_spec True (comps p) (?v w) r \<and> ?v i = ?v w", OF _ pre])
      (use that wf in \<open>auto simp: sub_fs_def vw vw' sub_view_def intro: spec_invalid sub(3)
          dest!: law(3) [OF wf]\<close>)
  show "open_write_spec True (comps p) (?v w) r (?v w')"
    if "be_open_write (sub_fs B pre) p w = (r, w')"
    by (rule at_under_law [where P = "\<lambda>r i. open_write_spec True (comps p) (?v w) r (?v i)", OF _ pre])
      (use that wfs in \<open>auto simp: sub_fs_def vw vw' wf'(2) intro: spec_fails sub(4)
          dest!: law(4) [OF wf]\<close>)
  show "write_all_spec True (comps p) b (?v w) ri (?v w')"
    if "be_write_all (sub_fs B pre) p b w = (ri, w')"
    by (rule writer_under_law [where P = "\<lambda>r i. write_all_spec True (comps p) b (?v w) r (?v i)", OF _ pre])
      (use that wfs in \<open>auto simp: sub_fs_def vw vw' wf'(3) intro: spec_invalid sub(5)
          dest!: law(5) [OF wf]\<close>)
  show "shutdown_spec True (?v w) ri (?v w')"
    if "be_shutdown (sub_fs B pre) p w = (ri, w')"
    by (rule writer_under_law [where P = "\<lambda>r i. shutdown_spec True (?v w) r (?v i)", OF _ pre])
      (use that wfs in \<open>auto simp: sub_fs_def vw vw' wf'(4) shutdown_spec_def sub_view_def
          dest!: law(6) [OF wf] split: sum.splits\<close>)
  show "remove_dir_all_spec True (comps p) (?v w) r (?v w')"
    if ne: "comps p \<noteq> []" and "be_remove_dir_all (sub_fs B pre) p w = (r, w')"
  proof (rule at_under_law [where P = "\<lambda>r i. remove_dir_all_spec True (comps p) (?v w) r (?v i)", OF _ pre])
    show "at_under pre p (be_remove_dir_all B) w = (r, w')" using that(2) by (simp add: sub_fs_def)
    fix q r w' assume q: "comps q = comps pre @ comps p" and c: "be_remove_dir_all B q w = (r, w')"
    have neq: "comps q \<noteq> []" using ne q by simp
    note s = law(8) [OF wf neq c]
    show "remove_dir_all_spec True (comps p) (?v w) r (?v w')"
      using sub_remove [OF s [unfolded q] wfs [unfolded vw] wf ne] wf'(6) [OF s neq] by (simp add: vw vw')
  qed (simp add: spec_fails)
  show "stat_spec True (comps p) (?v w) rs \<and> ?v w' = ?v w"
    if "be_stat (sub_fs B pre) p w = (rs, w')"
    by (rule at_under_law [where P = "\<lambda>r i. stat_spec True (comps p) (?v w) r \<and> ?v i = ?v w", OF _ pre])
      (use that wf in \<open>auto simp: sub_fs_def vw vw' sub_view_def intro: spec_fails sub(7)
          dest!: law(9) [OF wf]\<close>)
  show "create_dir_spec True (comps p) (?v w) r (?v w')"
    if "be_create_dir (sub_fs B pre) p w = (r, w')"
    by (rule at_under_law [where P = "\<lambda>r i. create_dir_spec True (comps p) (?v w) r (?v i)", OF _ pre])
      (use that wfs in \<open>auto simp: sub_fs_def vw vw' wf'(7) intro: spec_invalid sub(8)
          dest!: law(10) [OF wf]\<close>)
  show "remove_file_spec True (comps p) (?v w) r (?v w')"
    if "be_remove_file (sub_fs B pre) p w = (r, w')"
    by (rule at_under_law [where P = "\<lambda>r i. remove_file_spec True (comps p) (?v w) r (?v i)", OF _ pre])
      (use that wfs in \<open>auto simp: sub_fs_def vw vw' wf'(8) intro: spec_fails sub(9)
          dest!: law(11) [OF wf]\<close>)
  show "rename_spec True (comps p) (comps q) (?v w) r (?v w')"
    if r: "be_rename (sub_fs B pre) p q w = (r, w')"
  proof (rule at_under_law [where P = "\<lambda>r i. rename_spec True (comps p) (comps q) (?v w) r (?v i)", OF _ pre])
    show "at_under pre p (\<lambda>p' w. at_under pre q (\<lambda>q'. be_rename B p' q') w) w = (r, w')"
      using r by (simp add: sub_fs_def)
    fix p' r w'
    assume p': "comps p' = comps pre @ comps p" and c: "at_under pre q (\<lambda>q'. be_rename B p' q') w = (r, w')"
    show "rename_spec True (comps p) (comps q) (?v w) r (?v w')"
      by (rule at_under_law [where P = "\<lambda>r i. rename_spec True (comps p) (comps q) (?v w) r (?v i)", OF c pre])
        (use p' wfs in \<open>auto simp: vw vw' wf'(5) intro: spec_invalid sub(6) dest!: law(7) [OF wf]\<close>)
  qed (simp add: vw spec_invalid)
next
  fix w t w' assume "be_now (sub_fs B pre) w = (t, w')"
  then show "sub_view view (comps pre) w' = sub_view view (comps pre) w"
    using remote_fs.now [OF assms(1), of w t w'] by (simp add: sub_fs_def sub_view_def)
next
  fix w n w' assume "be_next_u64 (sub_fs B pre) w = (n, w')"
  then show "sub_view view (comps pre) w' = sub_view view (comps pre) w"
    using remote_fs.next_u64 [OF assms(1), of w n w'] by (simp add: sub_fs_def sub_view_def)
next
  fix len w rb w' assume "be_random_bytes (sub_fs B pre) len w = (rb, w')"
  then show "sub_view view (comps pre) w' = sub_view view (comps pre) w
      \<and> random_spec True len rb"
    using remote_fs.random_bytes [OF assms(1), of len w rb w']
    by (auto simp: sub_fs_def sub_view_def random_spec_def split: sum.splits)
qed

interpretation plain_fs: remote_fs "sub_fs local_fs (RemotePath ''plain'')"
  "sub_view local_view (comps (RemotePath ''plain''))" True
proof (rule sub_fs_refines [OF lfs.remote_fs_axioms])
  have "RemotePath ''plain'' = rp_of [''plain'']" by (simp add: rp_of_def)
  then show "rp_wf (RemotePath ''plain'')" by (simp add: rp_wf_of invalid_component_def)
qed

end
