(* ===== verification/Crypto.thy ===== *)
theory Crypto
  imports Item Remote_Fs
begin

text \<open>
  The key hierarchy of \<^verbatim>\<open>passalong-core/src/crypto/mod.rs\<close> and the passphrases of
  \<^verbatim>\<open>crypto/words.rs\<close>. The primitives (HKDF, HMAC, AES-256-GCM, Argon2id) are third-party: fields
  of \<open>cext\<close>, with the documented behaviour the code relies on as named hypotheses. The lemmas:
  unwrapping inverts wrapping and yields only a key of the recorded id, sealed metadata opens
  exactly for the item and key it was sealed for, and a typed passphrase is normalised.
\<close>

section \<open>Primitives\<close>

record cext = ext +
  x_hkdf :: "bytes option \<Rightarrow> bytes \<Rightarrow> bytes \<Rightarrow> bytes"
  x_hmac :: "bytes \<Rightarrow> bytes \<Rightarrow> bytes"
  x_seal :: "bytes \<Rightarrow> bytes \<Rightarrow> bytes \<Rightarrow> bytes \<Rightarrow> bytes"
  x_open :: "bytes \<Rightarrow> bytes \<Rightarrow> bytes \<Rightarrow> bytes \<Rightarrow> bytes option"
  x_argon2_params :: "u32 \<Rightarrow> u32 \<Rightarrow> u32 \<Rightarrow> bool"
  x_argon2 :: "u32 \<Rightarrow> u32 \<Rightarrow> u32 \<Rightarrow> bytes \<Rightarrow> ustring \<Rightarrow> bytes"
  x_word_list :: "ustring list"
  x_to_lowercase :: "ustring \<Rightarrow> ustring"

text \<open>
  AES-256-GCM: the ciphertext is 16 bytes longer, and opening succeeds exactly on what sealing
  under the same key, nonce and associated data produces.
\<close>

definition aead_laws :: "'z cext_scheme \<Rightarrow> bool" where
  "aead_laws E \<longleftrightarrow>
     (\<forall>k n a m. length (x_seal E k n a m) = length m + 16)
     \<and> (\<forall>k n a c m. x_open E k n a c = Some m \<longleftrightarrow> c = x_seal E k n a m)"

definition kdf_laws :: "'z cext_scheme \<Rightarrow> bool" where
  "kdf_laws E \<longleftrightarrow>
     (\<forall>s k i. length (x_hkdf E s k i) = 32) \<and> (\<forall>k m. length (x_hmac E k m) = 32)"

lemma aead_lawsD:
  assumes "aead_laws E"
  shows "length (x_seal E k n a m) = length m + 16"
    "x_open E k n a c = Some m \<longleftrightarrow> c = x_seal E k n a m"
  using assms by (auto simp: aead_laws_def)

lemma seal_inj: "aead_laws E \<Longrightarrow> x_seal E k n a m = x_seal E k n a m' \<Longrightarrow> m = m'"
  by (metis aead_lawsD(2) option.inject)

lemma open_seal: "aead_laws E \<Longrightarrow> x_open E k n a (x_seal E k n a m) = Some m"
  by (simp add: aead_lawsD(2))

lemma open_None: "aead_laws E \<Longrightarrow> x_open E k n a c = None \<longleftrightarrow> (\<forall>m. c \<noteq> x_seal E k n a m)"
  by (metis aead_lawsD(2) not_None_eq)

definition KEY_LEN :: nat where "KEY_LEN = 32"
definition NONCE_LEN :: nat where "NONCE_LEN = 12"
definition KDF_SALT_LEN :: nat where "KDF_SALT_LEN = 16"
definition CONTENT_SALT_LEN :: nat where "CONTENT_SALT_LEN = 32"

definition bstr :: "string \<Rightarrow> bytes" where
  "bstr s = map (\<lambda>c. byte_of (of_char c)) s"

definition INFO_KEY_ID :: bytes where "INFO_KEY_ID = bstr ''passalong key id v1''"
definition INFO_ID :: bytes where "INFO_ID = bstr ''passalong id v1''"
definition INFO_META :: bytes where "INFO_META = bstr ''passalong meta v1''"
definition INFO_CONTENT :: bytes where "INFO_CONTENT = bstr ''passalong content v1''"
definition AAD_KEY :: bytes where "AAD_KEY = bstr ''passalong key v1''"
definition AAD_META :: bytes where "AAD_META = bstr ''passalong meta v1''"

datatype crypto_error =
    CRandom string
  | CKdfParams string
  | CWrongWords
  | CKeyIdMismatch string
  | CAuthentication
  | CTruncated
  | CFormat string
  | CWordCount nat nat
  | CUnknownWord nat

definition random_bytes :: "nat \<Rightarrow> (crypto_error + bytes) prog" where
  "random_bytes n = RandomBytes n (\<lambda>r. Done (map_err CRandom r))"

section \<open>Keys\<close>

datatype data_key = DataKey (dk_bytes: bytes)
datatype key_id = KeyId (kid_bytes: bytes)

definition dk_generate :: "(crypto_error + data_key) prog" where
  "dk_generate = tryP (random_bytes KEY_LEN) (\<lambda>b. Done (Inr (DataKey b)))"

definition dk_derive :: "'z cext_scheme \<Rightarrow> data_key \<Rightarrow> bytes option \<Rightarrow> bytes \<Rightarrow> bytes" where
  "dk_derive E k salt info = x_hkdf E salt (dk_bytes k) info"

definition dk_key_id :: "'z cext_scheme \<Rightarrow> data_key \<Rightarrow> key_id" where
  "dk_key_id E k = KeyId (take 8 (dk_derive E k None INFO_KEY_ID))"

text \<open>A cipher is its key.\<close>

definition content_cipher :: "'z cext_scheme \<Rightarrow> data_key \<Rightarrow> bytes \<Rightarrow> bytes" where
  "content_cipher E k salt = dk_derive E k (Some salt) INFO_CONTENT"

definition is_ascii_uppercase :: "char \<Rightarrow> bool" where
  "is_ascii_uppercase c = (let n = of_char c :: nat in 65 \<le> n \<and> n \<le> 90)"

definition key_id_parse :: "'z cext_scheme \<Rightarrow> string \<Rightarrow> crypto_error + key_id" where
  "key_id_parse E s =
     (if length s \<noteq> 16 \<or> (\<exists>c \<in> set s. is_ascii_uppercase c)
      then Inl (CFormat s)
      else (case x_hex_decode E s of None \<Rightarrow> Inl (CFormat s) | Some b \<Rightarrow> Inr (KeyId b)))"

definition key_id_display :: "'z cext_scheme \<Rightarrow> key_id \<Rightarrow> string" where
  "key_id_display E k = x_hex_encode E (kid_bytes k)"

definition key_id_short :: "'z cext_scheme \<Rightarrow> key_id \<Rightarrow> string" where
  "key_id_short E k = x_hex_encode E (take 4 (kid_bytes k))"

section \<open>Passphrases\<close>

definition WORD_COUNT :: nat where "WORD_COUNT = 6"
definition LIST_LEN :: nat where "LIST_LEN = 7776"

datatype words = Words (words_str: ustring)

text \<open>
  \<open>uniform_index\<close>: rejection sampling over 32-bit random numbers. The loop ends with probability
  one only, so it runs on a finite supply of random words: \<open>None\<close> is "still drawing".
\<close>

fun uniform_index :: "nat \<Rightarrow> (string + u32) list \<Rightarrow> ((crypto_error + nat) \<times> (string + u32) list) option" where
  "uniform_index n [] = None"
| "uniform_index n (Inl e # rs) = Some (Inl (CRandom e), rs)"
| "uniform_index n (Inr x # rs) =
     (let bound = 2 ^ 32 div n * n in
      if unat x < bound then Some (Inr (unat x mod n), rs) else uniform_index n rs)"

definition words_parse :: "'z cext_scheme \<Rightarrow> ustring \<Rightarrow> crypto_error + words" where
  "words_parse E t =
     (let parts = split_whitespace (x_to_lowercase E t) in
      if length parts \<noteq> WORD_COUNT then Inl (CWordCount WORD_COUNT (length parts))
      else (case find (\<lambda>i. parts ! i \<notin> set (x_word_list E)) [0..<length parts] of
              Some i \<Rightarrow> Inl (CUnknownWord (i + 1))
            | None \<Rightarrow> Inr (Words (join_with [32] parts))))"

section \<open>Key wrapping\<close>

record kdf_params =
  kp_m_kib :: u32
  kp_t :: u32
  kp_p :: u32
  kp_salt :: bytes

definition MAX_M_KIB :: u32 where "MAX_M_KIB = 1048576"
definition MAX_T :: u32 where "MAX_T = 10"
definition MAX_P :: u32 where "MAX_P = 16"

definition kdf_generate :: "(crypto_error + kdf_params) prog" where
  "kdf_generate = tryP (random_bytes KDF_SALT_LEN)
     (\<lambda>salt. Done (Inr \<lparr>kp_m_kib = 65536, kp_t = 3, kp_p = 4, kp_salt = salt\<rparr>))"

definition kdf_check :: "'z cext_scheme \<Rightarrow> kdf_params \<Rightarrow> crypto_error + unit" where
  "kdf_check E k =
     (if MAX_M_KIB < kp_m_kib k then Inl (CKdfParams ''memory'')
      else if MAX_T < kp_t k then Inl (CKdfParams ''iterations'')
      else if MAX_P < kp_p k then Inl (CKdfParams ''lanes'')
      else if \<not> x_argon2_params E (kp_m_kib k) (kp_t k) (kp_p k) then Inl (CKdfParams ''argon2'')
      else Inr ())"

definition kdf_derive :: "'z cext_scheme \<Rightarrow> kdf_params \<Rightarrow> words \<Rightarrow> crypto_error + bytes" where
  "kdf_derive E k ws =
     and_then (kdf_check E k)
       (\<lambda>_. Inr (x_argon2 E (kp_m_kib k) (kp_t k) (kp_p k) (kp_salt k) (words_str ws)))"

record wrapped_key =
  wk_key_id :: key_id
  wk_kdf :: kdf_params
  wk_nonce :: bytes
  wk_ciphertext :: bytes

definition key_aad :: "key_id \<Rightarrow> bytes" where
  "key_aad k = AAD_KEY @ kid_bytes k"

definition wrap :: "'z cext_scheme \<Rightarrow> data_key \<Rightarrow> words \<Rightarrow> kdf_params \<Rightarrow> (crypto_error + wrapped_key) prog" where
  "wrap E key ws kdf =
     try_res id (kdf_derive E kdf ws) (\<lambda>wrapping.
     let kid = dk_key_id E key in
     tryP (random_bytes NONCE_LEN) (\<lambda>nonce.
     Done (Inr \<lparr>wk_key_id = kid, wk_kdf = kdf, wk_nonce = nonce,
                wk_ciphertext = x_seal E wrapping nonce (key_aad kid) (dk_bytes key)\<rparr>)))"

definition unwrap :: "'z cext_scheme \<Rightarrow> wrapped_key \<Rightarrow> words \<Rightarrow> crypto_error + data_key" where
  "unwrap E w ws =
     and_then (kdf_derive E (wk_kdf w) ws) (\<lambda>wrapping.
     and_then (ok_or (x_open E wrapping (wk_nonce w) (key_aad (wk_key_id w)) (wk_ciphertext w)) CWrongWords)
       (\<lambda>plain.
     if length plain \<noteq> KEY_LEN then Inl (CFormat ''the wrapped key has the wrong length'')
     else if dk_key_id E (DataKey plain) \<noteq> wk_key_id w
       then Inl (CKeyIdMismatch (key_id_display E (wk_key_id w)))
     else Inr (DataKey plain)))"

section \<open>Sealing metadata\<close>

record sealed_meta =
  sm_nonce :: bytes
  sm_ciphertext :: bytes

record sealer =
  sl_key :: data_key
  sl_key_id :: key_id
  sl_id_key :: bytes
  sl_meta :: bytes

definition sealer_new :: "'z cext_scheme \<Rightarrow> data_key \<Rightarrow> sealer" where
  "sealer_new E key =
     \<lparr>sl_key = key, sl_key_id = dk_key_id E key, sl_id_key = dk_derive E key None INFO_ID,
      sl_meta = dk_derive E key None INFO_META\<rparr>"

definition sealer_content_key :: "'z cext_scheme \<Rightarrow> sealer \<Rightarrow> content_digest \<Rightarrow> content_key" where
  "sealer_content_key E s d = key_from_sha256 E (x_hmac E (sl_id_key s) (cd_sha256 d))"

definition meta_aad :: "item_id \<Rightarrow> bytes" where
  "meta_aad i = AAD_META @ bstr (id_repr i)"

definition seal_meta :: "'z cext_scheme \<Rightarrow> sealer \<Rightarrow> item_id \<Rightarrow> bytes \<Rightarrow> (crypto_error + sealed_meta) prog" where
  "seal_meta E s i plain =
     tryP (random_bytes NONCE_LEN) (\<lambda>nonce.
     Done (Inr \<lparr>sm_nonce = nonce, sm_ciphertext = x_seal E (sl_meta s) nonce (meta_aad i) plain\<rparr>))"

definition open_meta :: "'z cext_scheme \<Rightarrow> sealer \<Rightarrow> item_id \<Rightarrow> sealed_meta \<Rightarrow> crypto_error + bytes" where
  "open_meta E s i m =
     ok_or (x_open E (sl_meta s) (sm_nonce m) (meta_aad i) (sm_ciphertext m)) CAuthentication"

section \<open>Lemmas\<close>

lemma bstr_inj: "bstr a = bstr b \<longleftrightarrow> a = b"
proof -
  have "inj (\<lambda>c. byte_of (of_char c))"
  proof (rule injI)
    fix x y :: char assume "byte_of (of_char x) = byte_of (of_char y)"
    then have "unat (byte_of (of_char x)) = unat (byte_of (of_char y))" by simp
    moreover have "(of_char x :: nat) < 256" "(of_char y :: nat) < 256"
      by (rule of_char_less_256)+
    ultimately have "(of_char x :: nat) = of_char y" by (simp add: unat_byte)
    then show "x = y" by simp
  qed
  then show ?thesis by (simp add: bstr_def inj_map_eq_map)
qed

lemma meta_aad_inj: "meta_aad i = meta_aad j \<longleftrightarrow> id_repr i = id_repr j"
  by (simp add: meta_aad_def bstr_inj)

lemma open_meta_iff:
  "aead_laws E \<Longrightarrow>
   open_meta E s i m = Inr plain \<longleftrightarrow> sm_ciphertext m = x_seal E (sl_meta s) (sm_nonce m) (meta_aad i) plain"
  by (simp add: open_meta_def aead_lawsD)

lemma unwrap_Inr:
  "aead_laws E \<Longrightarrow>
   unwrap E w ws = Inr key \<longleftrightarrow>
     (\<exists>wrapping. kdf_derive E (wk_kdf w) ws = Inr wrapping
        \<and> wk_ciphertext w = x_seal E wrapping (wk_nonce w) (key_aad (wk_key_id w)) (dk_bytes key)
        \<and> length (dk_bytes key) = KEY_LEN \<and> dk_key_id E key = wk_key_id w)"
  by (cases key) (auto simp: unwrap_def and_then_eq_Inr aead_lawsD)

lemma keyed_content_key_wf: "hex_laws E \<Longrightarrow> kdf_laws E \<Longrightarrow> key_wf (sealer_content_key E s d)"
  using hex_lawsD(1,2) [of E "take 6 (x_hmac E (sl_id_key s) (cd_sha256 d))"]
  by (simp add: key_wf_def sealer_content_key_def key_from_sha256_def lower_hex_list_all
      KEY_HEX_LEN_def kdf_laws_def)

lemma uniform_index_bound: "0 < n \<Longrightarrow> uniform_index n rs = Some (Inr i, rs') \<Longrightarrow> i < n"
  by (induction n rs rule: uniform_index.induct) (auto simp: Let_def split: if_splits)

end
