(* ===== verification/Sample_Crates.thy ===== *)
theory Sample_Crates
  imports Crypto
begin

text \<open>
  A concrete choice of the third-party functions that satisfies every hypothesis about them. The
  witnesses of the properties instantiate the parameter with it, so no hypothesis is vacuous. It
  has no cryptographic strength and models no crate: only the laws matter.
\<close>

fun sample_hex_encode :: "bytes \<Rightarrow> string" where
  "sample_hex_encode [] = []"
| "sample_hex_encode (b # bs) =
     hex_char (unat b div 16) # hex_char (unat b mod 16) # sample_hex_encode bs"

fun sample_hex_decode :: "string \<Rightarrow> bytes option" where
  "sample_hex_decode [] = Some []"
| "sample_hex_decode [c] = None"
| "sample_hex_decode (c # d # cs) =
     (case (hex_val c, hex_val d, sample_hex_decode cs) of
        (Some x, Some y, Some bs) \<Rightarrow> Some (byte_of (16 * x + y) # bs)
      | _ \<Rightarrow> None)"

definition sample_sha256 :: "bytes \<Rightarrow> bytes" where
  "sample_sha256 b = take 32 (b @ replicate 32 0)"

definition sample_tag :: "bytes \<Rightarrow> bytes \<Rightarrow> bytes \<Rightarrow> bytes" where
  "sample_tag k n a = take 16 (n @ a @ k @ replicate 16 0)"

definition sample_seal :: "bytes \<Rightarrow> bytes \<Rightarrow> bytes \<Rightarrow> bytes \<Rightarrow> bytes" where
  "sample_seal k n a m = sample_tag k n a @ m"

definition sample_open :: "bytes \<Rightarrow> bytes \<Rightarrow> bytes \<Rightarrow> bytes \<Rightarrow> bytes option" where
  "sample_open k n a c = (if take 16 c = sample_tag k n a then Some (drop 16 c) else None)"

definition sample_cext :: cext where
  "sample_cext =
     \<lparr>x_sha256 = sample_sha256, x_hex_encode = sample_hex_encode, x_hex_decode = sample_hex_decode,
      x_mime_guess = (\<lambda>_. ustr ''application/octet-stream''), x_clipboard_name = (\<lambda>_. ustr ''clipboard.png''),
      x_hkdf = (\<lambda>s k i. sample_sha256 (k @ i)), x_hmac = (\<lambda>k m. sample_sha256 (k @ m)),
      x_seal = sample_seal, x_open = sample_open, x_argon2_params = (\<lambda>_ _ _. True),
      x_argon2 = (\<lambda>_ _ _ salt w. sample_sha256 (salt @ utf8_encode w)),
      x_word_list = map ustr [''abacus'', ''zoom''], x_to_lowercase = (\<lambda>t. t)\<rparr>"

lemma sample_hex_laws: "hex_laws sample_cext"
  unfolding hex_laws_def
proof (intro allI)
  fix b :: bytes
  have small: "unat c div 16 < 16" "unat c mod 16 < 16" for c :: byte
    using unsigned_less [of c, where ?'a = nat] by (auto simp: less_mult_imp_div_less)
  have glue: "byte_of (unat c) = c" for c :: byte
    by (simp add: byte_of_def)
  show "length (x_hex_encode sample_cext b) = 2 * length b \<and> lower_hex (x_hex_encode sample_cext b)
      \<and> x_hex_decode sample_cext (x_hex_encode sample_cext b) = Some b"
    by (induction b) (simp_all add: sample_cext_def small glue)
qed

lemma sample_sha256_length: "length (sample_sha256 b) = 32"
  unfolding sample_sha256_def by (simp add: min_def)

lemma sample_sha_laws: "sha256_laws sample_cext"
  by (simp add: sha256_laws_def sample_cext_def sample_sha256_length)

lemma sample_kdf_laws: "kdf_laws sample_cext"
  by (simp add: kdf_laws_def sample_cext_def sample_sha256_length)

lemma sample_tag_length: "length (sample_tag k n a) = 16"
  by (simp add: sample_tag_def)

lemma sample_aead_laws: "aead_laws sample_cext"
  unfolding aead_laws_def
proof (intro conjI allI)
  fix k n a m c
  show "length (x_seal sample_cext k n a m) = length m + 16"
    by (simp add: sample_cext_def sample_seal_def sample_tag_length)
  show "(x_open sample_cext k n a c = Some m) = (c = x_seal sample_cext k n a m)"
    using sample_tag_length [of k n a]
    by (auto simp: sample_cext_def sample_seal_def sample_open_def)
      (metis append_take_drop_id)
qed

lemmas sample_laws = sample_hex_laws sample_sha_laws sample_kdf_laws sample_aead_laws

end
