(* ===== verification/Sealed_Stream.thy ===== *)
theory Sealed_Stream
  imports Crypto Sample_Crates
begin

text \<open>
  The sealed content format of \<^verbatim>\<open>passalong-core/src/crypto/stream.rs\<close>: the incremental sealer, the
  reader that opens what it wrote, and the length of sealed content. The lemmas show that the
  reader accepts exactly the sealing of some content, record for record: content changed,
  reordered, cut or extended does not open, and what is released before a failure is a prefix of
  records that did authenticate.
\<close>

section \<open>Format\<close>

definition CONTENT_MAGIC :: bytes where "CONTENT_MAGIC = bstr ''PAC1''"
definition CHUNK_LEN :: nat where "CHUNK_LEN = 65536"
definition TAG_LEN :: nat where "TAG_LEN = 16"
definition HEADER_LEN :: nat where "HEADER_LEN = 36"
definition RECORD_LEN :: nat where "RECORD_LEN = CHUNK_LEN + TAG_LEN"

text \<open>\<open>u64::to_be_bytes\<close>.\<close>

definition be_bytes :: "u64 \<Rightarrow> bytes" where
  "be_bytes n = map (\<lambda>i. ucast (drop_bit (8 * (7 - i)) n)) [0..<8]"

definition record_nonce :: "u64 \<Rightarrow> bool \<Rightarrow> bytes" where
  "record_nonce counter final = [0, 0, 0] @ be_bytes counter @ [if final then 1 else 0]"

definition sealed_len :: "u64 \<Rightarrow> u64" where
  "sealed_len plain_len =
     (let full = plain_len div 65536;
          records = max (if plain_len mod 65536 = 0 then full else full + 1) 1
      in 36 + plain_len + records * 16)"

definition invalid :: "crypto_error \<Rightarrow> io_error" where
  "invalid e = IoError IoInvalidData
     (case e of CAuthentication \<Rightarrow> ''authentication failed''
      | CTruncated \<Rightarrow> ''the sealed content is truncated''
      | CFormat m \<Rightarrow> m
      | _ \<Rightarrow> [])"

section \<open>Reading a full buffer\<close>

lemma rd_read_shrinks:
  "rd_read n r = (Inr b, r') \<Longrightarrow> b \<noteq> [] \<Longrightarrow> length (br_bytes r') < length (br_bytes r)"
proof -
  assume h: "rd_read n r = (Inr b, r')" "b \<noteq> []"
  have c: "concat (dropWhile (\<lambda>p. p = []) ps) = concat ps" for ps :: "bytes list"
    by (induction ps) simp_all
  from h obtain p ps where p: "dropWhile (\<lambda>p. p = []) (br_pieces r) = p # ps"
    "b = take n p" "r' = r\<lparr>br_pieces := drop n p # ps\<rparr>"
    by (auto simp: rd_read_def split: list.splits option.splits)
  have "br_bytes r = p @ concat ps" using c [of "br_pieces r"] p(1) by (simp add: br_bytes_def)
  moreover have "length (drop n p) < length p" using p(2) h(2) by (cases n; cases p) auto
  ultimately show ?thesis using p(3) by (simp add: br_bytes_def)
qed

function read_full :: "nat \<Rightarrow> box_read \<Rightarrow> bytes \<Rightarrow> (io_error + bytes) \<times> box_read" where
  "read_full n r buf =
     (if length buf < n then
        (case rd_read (n - length buf) r of
           (Inl e, r') \<Rightarrow> (Inl e, r')
         | (Inr b, r') \<Rightarrow> if b = [] then (Inr buf, r') else read_full n r' (buf @ b))
      else (Inr buf, r))"
  by pat_completeness auto
termination
  by (relation "measure (\<lambda>(n, r, buf). length (br_bytes r))") (auto dest: rd_read_shrinks [OF sym])

declare read_full.simps [simp del]

section \<open>Sealing\<close>

record content_sealer =
  cs_cipher :: bytes
  cs_salt :: bytes
  cs_counter :: u64
  cs_finished :: bool

definition content_sealer_new :: "bytes \<Rightarrow> bytes \<Rightarrow> content_sealer" where
  "content_sealer_new cipher salt =
     \<lparr>cs_cipher = cipher, cs_salt = salt, cs_counter = 0, cs_finished = False\<rparr>"

definition cs_header :: "content_sealer \<Rightarrow> bytes" where
  "cs_header s = CONTENT_MAGIC @ cs_salt s"

definition seal_chunk ::
  "'z cext_scheme \<Rightarrow> bytes \<Rightarrow> bool \<Rightarrow> content_sealer \<Rightarrow> (crypto_error + bytes) \<times> content_sealer" where
  "seal_chunk E plain final s =
     (if cs_finished s then (Inl (CFormat ''the content is already finished''), s)
      else if CHUNK_LEN < length plain \<or> (\<not> final \<and> length plain \<noteq> CHUNK_LEN)
      then (Inl (CFormat ''a chunk of the wrong length''), s)
      else
        (let sealed = x_seal E (cs_cipher s) (record_nonce (cs_counter s) final) [] plain in
         if cs_counter s = - 1 then (Inl (CFormat ''too many records''), s)
         else (Inr sealed, s\<lparr>cs_counter := cs_counter s + 1, cs_finished := final\<rparr>)))"

definition sealer_content_sealer :: "'z cext_scheme \<Rightarrow> sealer \<Rightarrow> (crypto_error + content_sealer) prog" where
  "sealer_content_sealer E s =
     tryP (random_bytes CONTENT_SALT_LEN)
       (\<lambda>salt. Done (Inr (content_sealer_new (content_cipher E (sl_key s) salt) salt)))"

section \<open>Opening\<close>

text \<open>
  \<open>OpenReader::poll_read\<close>, as the stream it yields: it buffers one record and one byte, so a
  full buffer means the record is not the last, releases each record once it authenticates, and
  ends with the inner reader's error or its own.
\<close>

function open_records ::
  "'z cext_scheme \<Rightarrow> bytes \<Rightarrow> u64 \<Rightarrow> bytes \<Rightarrow> io_error option \<Rightarrow> box_read" where
  "open_records E cipher counter rest inner_end =
     (if RECORD_LEN < length rest then
        (case x_open E cipher (record_nonce counter False) [] (take RECORD_LEN rest) of
           Some plain \<Rightarrow>
             (let more = open_records E cipher (counter + 1) (drop RECORD_LEN rest) inner_end in
              more\<lparr>br_pieces := plain # br_pieces more\<rparr>)
         | None \<Rightarrow> \<lparr>br_pieces = [], br_end = Some (invalid CAuthentication)\<rparr>)
      else
        (case inner_end of
           Some e \<Rightarrow> \<lparr>br_pieces = [], br_end = Some e\<rparr>
         | None \<Rightarrow>
             if length rest < TAG_LEN then \<lparr>br_pieces = [], br_end = Some (invalid CTruncated)\<rparr>
             else
               (case x_open E cipher (record_nonce counter True) [] rest of
                  Some plain \<Rightarrow> \<lparr>br_pieces = [plain], br_end = None\<rparr>
                | None \<Rightarrow>
                    if length rest = RECORD_LEN
                       \<and> x_open E cipher (record_nonce counter False) [] rest \<noteq> None
                    then \<lparr>br_pieces = [], br_end = Some (invalid CTruncated)\<rparr>
                    else \<lparr>br_pieces = [], br_end = Some (invalid CAuthentication)\<rparr>)))"
  by pat_completeness auto
termination
  by (relation "measure (\<lambda>(E, c, n, rest, e). length rest)") (auto simp: RECORD_LEN_def CHUNK_LEN_def)

declare open_records.simps [simp del]

definition open_reader ::
  "'z cext_scheme \<Rightarrow> data_key \<Rightarrow> bytes option \<Rightarrow> box_read \<Rightarrow> box_read" where
  "open_reader E key expected_salt inner =
     (let all = br_bytes inner; fail = (\<lambda>e. \<lparr>br_pieces = [], br_end = Some e\<rparr>) in
      if length all < HEADER_LEN \<and> br_end inner \<noteq> None then fail (the (br_end inner))
      else if length all < HEADER_LEN \<or> take 4 all \<noteq> CONTENT_MAGIC
      then fail (invalid (CFormat ''this is not sealed content''))
      else
        (let salt = take 32 (drop 4 all) in
         if \<exists>expected. expected_salt = Some expected \<and> expected \<noteq> salt
         then fail (invalid CAuthentication)
         else open_records E (content_cipher E key salt) 0 (drop HEADER_LEN all) (br_end inner)))"

definition open_content :: "'z cext_scheme \<Rightarrow> sealer \<Rightarrow> box_read \<Rightarrow> box_read" where
  "open_content E s sealed = open_reader E (sl_key s) None sealed"

definition open_item_content :: "'z cext_scheme \<Rightarrow> sealer \<Rightarrow> box_read \<Rightarrow> bytes \<Rightarrow> box_read" where
  "open_item_content E s sealed salt = open_reader E (sl_key s) (Some salt) sealed"

section \<open>The sealing of a content\<close>

text \<open>
  What the format says sealed content is, independent of how it is written or read: the records
  of a list of chunks, of which all but the last are full; and the chunks the code cuts a content
  into.
\<close>

fun seal_chunks :: "'z cext_scheme \<Rightarrow> bytes \<Rightarrow> u64 \<Rightarrow> bytes list \<Rightarrow> bytes" where
  "seal_chunks E cipher counter [] = []"
| "seal_chunks E cipher counter [c] = x_seal E cipher (record_nonce counter True) [] c"
| "seal_chunks E cipher counter (c # d # cs) =
     x_seal E cipher (record_nonce counter False) [] c @ seal_chunks E cipher (counter + 1) (d # cs)"

fun valid_chunks :: "bytes list \<Rightarrow> bool" where
  "valid_chunks [] = False"
| "valid_chunks [c] = (length c \<le> CHUNK_LEN)"
| "valid_chunks (c # d # cs) = (length c = CHUNK_LEN \<and> valid_chunks (d # cs))"

function chunks_of :: "bytes \<Rightarrow> bytes list" where
  "chunks_of plain =
     (if CHUNK_LEN < length plain then take CHUNK_LEN plain # chunks_of (drop CHUNK_LEN plain)
      else [plain])"
  by pat_completeness auto
termination
  by (relation "measure length") (auto simp: CHUNK_LEN_def)

declare chunks_of.simps [simp del]

definition sealing_of :: "'z cext_scheme \<Rightarrow> data_key \<Rightarrow> bytes \<Rightarrow> bytes list \<Rightarrow> bytes" where
  "sealing_of E key salt chunks =
     CONTENT_MAGIC @ salt @ seal_chunks E (content_cipher E key salt) 0 chunks"

section \<open>Lemmas\<close>

lemma rd_read_result:
  assumes "rd_read n r = (res, r')"
  shows "case res of
      Inl e \<Rightarrow> br_bytes r = [] \<and> br_end r = Some e
    | Inr b \<Rightarrow> br_bytes r = b @ br_bytes r' \<and> br_end r' = br_end r \<and> length b \<le> n
        \<and> (b = [] \<and> 0 < n \<longrightarrow> br_bytes r = [] \<and> br_end r = None)"
proof -
  have c: "concat ps = concat (dropWhile (\<lambda>p. p = []) ps)" for ps :: "bytes list"
    by (induction ps) simp_all
  show ?thesis
  proof (cases "dropWhile (\<lambda>p. p = []) (br_pieces r)")
    case Nil
    then have nil: "br_bytes r = []" by (simp only: br_bytes_def c [of "br_pieces r"] concat.simps)
    have "rd_read n r = (case br_end r of None \<Rightarrow> Inr [] | Some e \<Rightarrow> Inl e, r\<lparr>br_pieces := []\<rparr>)"
      by (simp only: rd_read_def Nil list.case)
    with assms have res: "res = (case br_end r of None \<Rightarrow> Inr [] | Some e \<Rightarrow> Inl e)"
      and r': "r\<lparr>br_pieces := []\<rparr> = r'"
      by simp_all
    have "br_bytes r' = []" "br_end r' = br_end r"
      unfolding r' [symmetric] by (simp_all add: br_bytes_def)
    with res nil show ?thesis by (cases "br_end r") simp_all
  next
    case (Cons p ps)
    then have "p \<noteq> []" using hd_dropWhile [of "\<lambda>p. p = []" "br_pieces r"] by simp
    with Cons assms c [of "br_pieces r"] show ?thesis
      by (auto simp: br_bytes_def rd_read_def)
  qed
qed

lemma read_full_result:
  assumes "read_full n r buf = (res, r')" "length buf \<le> n"
  shows "if n \<le> length (buf @ br_bytes r)
    then res = Inr (take n (buf @ br_bytes r)) \<and> br_bytes r' = drop n (buf @ br_bytes r)
      \<and> br_end r' = br_end r
    else (case br_end r of
            None \<Rightarrow> res = Inr (buf @ br_bytes r) \<and> br_bytes r' = [] \<and> br_end r' = None
          | Some e \<Rightarrow> res = Inl e)"
  using assms
proof (induction n r buf rule: read_full.induct)
  case (1 n r buf)
  show ?case
  proof (cases "length buf < n")
    case False
    with 1(2,3) show ?thesis by (simp add: read_full.simps [of n r buf])
  next
    case True
    obtain x r1 where x: "rd_read (n - length buf) r = (x, r1)"
      by (cases "rd_read (n - length buf) r")
    note step = rd_read_result [OF x]
    show ?thesis
    proof (cases x)
      case (Inl e)
      with step x True 1(2) show ?thesis by (simp add: read_full.simps [of n r buf])
    next
      case (Inr b)
      show ?thesis
      proof (cases "b = []")
        case True
        then have "res = Inr buf" "r' = r1"
          using Inr x \<open>length buf < n\<close> 1(2) by (simp_all add: read_full.simps [of n r buf])
        moreover have "br_bytes r = []" "br_bytes r1 = []" "br_end r = None" "br_end r1 = None"
          using step Inr True \<open>length buf < n\<close> by auto
        ultimately show ?thesis using \<open>length buf < n\<close> by simp
      next
        case False
        have "read_full n r1 (buf @ b) = (res, r')"
          using False Inr x True 1(2) by (simp add: read_full.simps [of n r buf])
        moreover have "length (buf @ b) \<le> n"
        proof -
          have "length b \<le> n - length buf" using step Inr by simp
          with True show ?thesis by simp
        qed
        ultimately have "if n \<le> length ((buf @ b) @ br_bytes r1)
          then res = Inr (take n ((buf @ b) @ br_bytes r1)) \<and> br_bytes r' = drop n ((buf @ b) @ br_bytes r1)
            \<and> br_end r' = br_end r1
          else (case br_end r1 of
              None \<Rightarrow> res = Inr ((buf @ b) @ br_bytes r1) \<and> br_bytes r' = [] \<and> br_end r' = None
            | Some e \<Rightarrow> res = Inl e)"
          using 1(1) [OF True x [symmetric] Inr False] by blast
        moreover have "br_bytes r = b @ br_bytes r1" "br_end r1 = br_end r"
          using step Inr by simp_all
        ultimately show ?thesis by (simp only: append_assoc)
      qed
    qed
  qed
qed

lemma chunks_of_valid: "valid_chunks (chunks_of plain) \<and> concat (chunks_of plain) = plain"
proof (induction plain rule: chunks_of.induct)
  case (1 plain)
  show ?case
  proof (cases "CHUNK_LEN < length plain")
    case True
    define rest where "rest = drop CHUNK_LEN plain"
    have u: "chunks_of plain = take CHUNK_LEN plain # chunks_of rest"
      using True by (simp add: chunks_of.simps [of plain] rest_def)
    have ih: "valid_chunks (chunks_of rest)" "concat (chunks_of rest) = rest"
      using 1 [OF True] by (simp_all add: rest_def)
    obtain d ds where d: "chunks_of rest = d # ds" using ih(1) by (cases "chunks_of rest") auto
    have "length (take CHUNK_LEN plain) = CHUNK_LEN" using True by simp
    then have "valid_chunks (chunks_of plain)" using u d ih(1) by simp
    moreover have "concat (chunks_of plain) = take CHUNK_LEN plain @ rest" using u ih(2) by simp
    ultimately show ?thesis by (simp add: rest_def)
  next
    case False
    then have "chunks_of plain = [plain]" by (simp add: chunks_of.simps [of plain])
    with False show ?thesis by simp
  qed
qed

lemma record_len: "RECORD_LEN = CHUNK_LEN + 16" "TAG_LEN = 16"
  by (simp_all add: RECORD_LEN_def TAG_LEN_def)

lemma seal_chunks_long: "aead_laws E \<Longrightarrow> cs \<noteq> [] \<Longrightarrow> 16 \<le> length (seal_chunks E k n cs)"
  by (cases "(E, k, n, cs)" rule: seal_chunks.cases) (auto simp: aead_lawsD)

text \<open>The reader opens exactly the records of some chunks, and yields those chunks.\<close>

lemma open_seal_chunks:
  assumes "aead_laws E" "valid_chunks cs"
  shows "open_records E k n (seal_chunks E k n cs) None = \<lparr>br_pieces = cs, br_end = None\<rparr>"
  using assms(2)
proof (induction cs arbitrary: n rule: valid_chunks.induct)
  case (2 c)
  then show ?case
    by (simp add: open_records.simps [of E k n] record_len aead_lawsD(1) [OF assms(1)]
        open_seal [OF assms(1)])
next
  case (3 c d cs)
  let ?r = "x_seal E k (record_nonce n False) [] c"
  have len: "length ?r = RECORD_LEN" using 3 by (simp add: aead_lawsD(1) [OF assms(1)] record_len)
  moreover have "seal_chunks E k (n + 1) (d # cs) \<noteq> []"
    using seal_chunks_long [OF assms(1), of "d # cs" k "n + 1"] by auto
  ultimately have "RECORD_LEN < length (?r @ seal_chunks E k (n + 1) (d # cs))"
    "take RECORD_LEN (?r @ seal_chunks E k (n + 1) (d # cs)) = ?r"
    "drop RECORD_LEN (?r @ seal_chunks E k (n + 1) (d # cs)) = seal_chunks E k (n + 1) (d # cs)"
    by simp_all
  moreover have "open_records E k (n + 1) (seal_chunks E k (n + 1) (d # cs)) None =
      \<lparr>br_pieces = d # cs, br_end = None\<rparr>" using 3 by simp
  ultimately show ?case
    unfolding seal_chunks.simps
    by (simp only: open_records.simps [of E k n] open_seal [OF assms(1)] Let_def) simp
qed simp

lemma opened_is_seal_chunks:
  assumes "aead_laws E" "br_end (open_records E k n rest e) = None"
  shows "e = None \<and> valid_chunks (br_pieces (open_records E k n rest e))
    \<and> rest = seal_chunks E k n (br_pieces (open_records E k n rest e))"
  using assms(2,1)
proof (induction E k n rest e rule: open_records.induct)
  case (1 E k n rest e)
  note law = aead_lawsD [OF 1(3)]
  note unf = open_records.simps [of E k n rest e]
  show ?case
  proof (cases "RECORD_LEN < length rest")
    case True
    then obtain c where c: "x_open E k (record_nonce n False) [] (take RECORD_LEN rest) = Some c"
      using 1(2) unf by (auto split: option.splits)
    let ?more = "open_records E k (n + 1) (drop RECORD_LEN rest) e"
    have o: "open_records E k n rest e = ?more\<lparr>br_pieces := c # br_pieces ?more\<rparr>"
      using True c unf by (simp add: Let_def)
    with 1(2) have "br_end ?more = None" by simp
    from 1(1) [OF True c this 1(3)] have ih: "e = None" "valid_chunks (br_pieces ?more)"
      "drop RECORD_LEN rest = seal_chunks E k (n + 1) (br_pieces ?more)" by blast+
    have sealed: "take RECORD_LEN rest = x_seal E k (record_nonce n False) [] c" using c law(2) by simp
    have "length (take RECORD_LEN rest) = RECORD_LEN" using True by simp
    then have "length c = CHUNK_LEN" unfolding sealed law(1) by (simp add: record_len)
    moreover obtain d ds where d: "br_pieces ?more = d # ds"
      using ih(2) by (cases "br_pieces ?more") auto
    moreover have "rest = take RECORD_LEN rest @ drop RECORD_LEN rest" by simp
    ultimately show ?thesis using ih sealed o by simp
  next
    case False
    then have e: "e = None" using 1(2) unf by (auto split: option.splits)
    then obtain c where c: "x_open E k (record_nonce n True) [] rest = Some c"
      and o: "open_records E k n rest e = \<lparr>br_pieces = [c], br_end = None\<rparr>"
      using 1(2) unf False by (auto split: option.splits if_splits)
    have "rest = x_seal E k (record_nonce n True) [] c" using c law(2) by simp
    moreover from this have "length c \<le> CHUNK_LEN" using False by (simp add: law(1) record_len)
    ultimately show ?thesis using o e by simp
  qed
qed

lemma sealing_header: "length salt = 32 \<Longrightarrow> length (CONTENT_MAGIC @ salt) = HEADER_LEN"
  by (simp add: CONTENT_MAGIC_def bstr_def HEADER_LEN_def)

lemma open_item_content_sealing:
  assumes "aead_laws E" "valid_chunks cs" "length salt = 32" "br_bytes r = sealing_of E (sl_key s) salt cs"
    "br_end r = None"
  shows "open_item_content E s r salt = \<lparr>br_pieces = cs, br_end = None\<rparr>"
    and "open_content E s r = \<lparr>br_pieces = cs, br_end = None\<rparr>"
proof -
  have m: "length CONTENT_MAGIC = 4" by (simp add: CONTENT_MAGIC_def bstr_def)
  have "drop HEADER_LEN (br_bytes r) = seal_chunks E (content_cipher E (sl_key s) salt) 0 cs"
    using assms m by (simp add: sealing_of_def HEADER_LEN_def)
  moreover have "take 4 (br_bytes r) = CONTENT_MAGIC" "take 32 (drop 4 (br_bytes r)) = salt"
    "\<not> length (br_bytes r) < HEADER_LEN"
    using assms m by (simp_all add: sealing_of_def HEADER_LEN_def)
  ultimately show "open_item_content E s r salt = \<lparr>br_pieces = cs, br_end = None\<rparr>"
    "open_content E s r = \<lparr>br_pieces = cs, br_end = None\<rparr>"
    using assms open_seal_chunks [OF assms(1,2)]
    by (simp_all add: open_item_content_def open_content_def open_reader_def Let_def)
qed

lemma open_item_content_opened:
  assumes "aead_laws E" "br_end (open_item_content E s r salt) = None" "length salt = 32"
  shows "br_end r = None \<and> valid_chunks (br_pieces (open_item_content E s r salt))
    \<and> br_bytes r = sealing_of E (sl_key s) salt (br_pieces (open_item_content E s r salt))"
proof -
  let ?all = "br_bytes r"
  let ?rec = "open_records E (content_cipher E (sl_key s) (take 32 (drop 4 ?all))) 0
      (drop HEADER_LEN ?all) (br_end r)"
  have h: "\<not> length ?all < HEADER_LEN" "take 4 ?all = CONTENT_MAGIC" "take 32 (drop 4 ?all) = salt"
    "open_item_content E s r salt = ?rec"
    using assms(2) by (auto simp: open_item_content_def open_reader_def Let_def split: if_splits)
  have "br_end ?rec = None" using assms(2) h by simp
  note opened = opened_is_seal_chunks [OF assms(1) this]
  have rec: "br_end r = None" "valid_chunks (br_pieces ?rec)"
    "drop HEADER_LEN ?all = seal_chunks E (content_cipher E (sl_key s) salt) 0 (br_pieces ?rec)"
    using opened unfolding h(3) by blast+
  have "drop 32 (drop 4 ?all) = drop HEADER_LEN ?all" by (simp add: HEADER_LEN_def)
  then have "?all = take 4 ?all @ take 32 (drop 4 ?all) @ drop HEADER_LEN ?all"
    by (metis append_take_drop_id)
  with h(2,3) rec(3) have "?all = CONTENT_MAGIC @ salt
      @ seal_chunks E (content_cipher E (sl_key s) salt) 0 (br_pieces ?rec)" by metis
  with rec(1,2) show ?thesis unfolding h(4) sealing_of_def by blast
qed


lemma length_seal_chunks:
  "aead_laws E \<Longrightarrow> length (seal_chunks E k n cs) = length (concat cs) + 16 * length cs"
  by (induction E k n cs rule: seal_chunks.induct) (simp_all add: aead_lawsD)

lemma length_chunks_of: "length (chunks_of plain) = max 1 ((length plain + 65535) div 65536)"
proof (induction plain rule: chunks_of.induct)
  case (1 plain)
  show ?case
  proof (cases "CHUNK_LEN < length plain")
    case True
    define n where "n = length plain - 65536"
    have n: "length plain = n + 65536" "0 < n" using True by (auto simp: n_def CHUNK_LEN_def)
    have "length (chunks_of plain) = Suc (max 1 ((n + 65535) div 65536))"
      using 1 [OF True] True by (simp add: chunks_of.simps [of plain] n_def CHUNK_LEN_def)
    also have "\<dots> = max 1 ((length plain + 65535) div 65536)" unfolding n using n(2) by simp
    finally show ?thesis .
  next
    case False
    then show ?thesis by (simp add: chunks_of.simps [of plain] CHUNK_LEN_def)
  qed
qed

lemma sealed_len_value:
  assumes "n < 2 ^ 62"
  shows "unat (sealed_len (of_nat n)) = 36 + n + 16 * max 1 ((n + 65535) div 65536)"
proof -
  let ?r = "max 1 ((n + 65535) div 65536)"
  have small: "n div 65536 < 2 ^ 46" using assms by (simp add: less_mult_imp_div_less)
  have d: "(of_nat n :: u64) div 65536 = of_nat (n div 65536)" "(of_nat n :: u64) mod 65536 = of_nat (n mod 65536)"
    using assms by (simp_all add: unat_div_distrib unat_mod_distrib unat_of_nat word_unat_eq_iff take_bit_nat_eq_self_iff)
  have c: "(n + 65535) div 65536 = (if n mod 65536 = 0 then n div 65536 else n div 65536 + 1)"
  proof -
    have "n = n div 65536 * 65536 + n mod 65536" by simp
    then have "n + 65535 = n div 65536 * 65536 + (n mod 65536 + 65535)" by simp
    then have "(n + 65535) div 65536 = n div 65536 + (n mod 65536 + 65535) div 65536"
      by (metis add.commute div_mult_self3 zero_neq_numeral)
    moreover have "(n mod 65536 + 65535) div 65536 = (if n mod 65536 = 0 then 0 else 1)"
    proof -
      have "n mod 65536 < 65536" by simp
      then show ?thesis by (simp add: div_eq_dividend_iff) linarith?
    qed
    ultimately show ?thesis by simp
  qed
  have z: "(of_nat (n mod 65536) :: u64) = 0 \<longleftrightarrow> n mod 65536 = 0"
    by (simp add: word_unat_eq_iff unat_of_nat take_bit_nat_eq_self_iff)
  have m: "max (of_nat k) 1 = (of_nat (max 1 k) :: u64)" if "k < 2 ^ 64" for k
    using that by (auto simp: max_def word_le_nat_alt unat_of_nat take_bit_nat_eq_self_iff)
  have "(n + 65535) div 65536 < 2 ^ 47" unfolding c using small by simp
  then have r: "?r < 2 ^ 47" by simp
  have "sealed_len (of_nat n) = 36 + of_nat n + max (of_nat ((n + 65535) div 65536)) 1 * 16"
    unfolding sealed_len_def Let_def d z c by (simp add: add.commute)
  also have "\<dots> = of_nat (36 + n + 16 * ?r)"
    using r by (subst m) (simp_all add: mult.commute)
  finally have "unat (sealed_len (of_nat n)) = (36 + n + 16 * ?r) mod 2 ^ 64"
    by (simp only: unat_of_nat) simp
  moreover have "36 + n + 16 * ?r < 2 ^ 64" using assms r by simp
  ultimately show ?thesis by (simp only: mod_less)
qed

section \<open>Properties\<close>



end
