(* ===== verification/Format.thy ===== *)
theory Format
  imports Sealed_Stream
begin

text \<open>
  The bytes an item is stored as: \<^verbatim>\<open>passalong-core/src/store/format.rs\<close>, its metadata file and its
  content. JSON itself is third-party (\<^verbatim>\<open>serde_json\<close>): the encoders and decoders of the three
  serialised types are parameters. What these functions guarantee is proved in \<open>Format_Laws\<close>.
\<close>

definition SEALED_SCHEMA :: u32 where "SEALED_SCHEMA = 2"
definition MAX_META_BYTES :: nat where "MAX_META_BYTES = 65536"
definition PREVIEW_HEAD_BYTES :: nat where "PREVIEW_HEAD_BYTES = 4096"
definition COPY_CHUNK :: nat where "COPY_CHUNK = 65536"

record sealed_meta_file =
  smf_schema :: u32
  smf_id :: item_id
  smf_nonce :: string
  smf_sealed :: string

record sealed_meta_body =
  smb_meta :: item_meta
  smb_content_salt :: string

record fext = cext +
  x_meta_to_json :: "item_meta \<Rightarrow> string + bytes"
  x_meta_of_json :: "bytes \<Rightarrow> string + item_meta"
  x_file_to_json :: "sealed_meta_file \<Rightarrow> string + bytes"
  x_file_of_json :: "bytes \<Rightarrow> string + sealed_meta_file"
  x_body_to_json :: "sealed_meta_body \<Rightarrow> string + bytes"
  x_body_of_json :: "bytes \<Rightarrow> string + sealed_meta_body"

text \<open>
  What \<^verbatim>\<open>serde\<close> documents of derived implementations: what is written reads back, also before a
  final newline.
\<close>

definition json_laws :: "'z fext_scheme \<Rightarrow> bool" where
  "json_laws E \<longleftrightarrow>
     (\<forall>m j. id_wf (meta_id m) \<longrightarrow> x_meta_to_json E m = Inr j \<longrightarrow> x_meta_of_json E (j @ [10]) = Inr m)
     \<and> (\<forall>f j. id_wf (smf_id f) \<longrightarrow> x_file_to_json E f = Inr j \<longrightarrow> x_file_of_json E (j @ [10]) = Inr f)
     \<and> (\<forall>b j. id_wf (meta_id (smb_meta b)) \<longrightarrow> x_body_to_json E b = Inr j \<longrightarrow> x_body_of_json E j = Inr b)"

definition fext_laws :: "'z fext_scheme \<Rightarrow> bool" where
  "fext_laws E \<longleftrightarrow> hex_laws E \<and> sha256_laws E \<and> kdf_laws E \<and> aead_laws E \<and> json_laws E"

lemma fext_lawsD:
  assumes "fext_laws E"
  shows "hex_laws E" "sha256_laws E" "kdf_laws E" "aead_laws E" "json_laws E"
  using assms by (auto simp: fext_laws_def)

datatype meta_error = MetaCorrupt string | MetaUnopened string

datatype encode_error = EncodeJson string | EncodeCrypto crypto_error

section \<open>Metadata\<close>

definition decode_array :: "'z ext_scheme \<Rightarrow> nat \<Rightarrow> string \<Rightarrow> string + bytes" where
  "decode_array E n s =
     (case x_hex_decode E s of
        None \<Rightarrow> Inl ''not hexadecimal''
      | Some b \<Rightarrow> if length b = n then Inr b else Inl ''not N bytes'')"

definition smf_new :: "'z ext_scheme \<Rightarrow> item_id \<Rightarrow> sealed_meta \<Rightarrow> sealed_meta_file" where
  "smf_new E i sealed =
     \<lparr>smf_schema = SEALED_SCHEMA, smf_id = i, smf_nonce = x_hex_encode E (sm_nonce sealed),
      smf_sealed = x_hex_encode E (sm_ciphertext sealed)\<rparr>"

definition smf_to_sealed :: "'z ext_scheme \<Rightarrow> sealed_meta_file \<Rightarrow> string + sealed_meta" where
  "smf_to_sealed E f =
     and_then (map_err (\<lambda>reason. ''nonce: '' @ reason) (decode_array E NONCE_LEN (smf_nonce f))) (\<lambda>nonce.
     and_then (ok_or (x_hex_decode E (smf_sealed f)) ''the sealed metadata is not hexadecimal'') (\<lambda>c.
     Inr \<lparr>sm_nonce = nonce, sm_ciphertext = c\<rparr>))"

definition encode_meta ::
  "'z fext_scheme \<Rightarrow> item_meta \<Rightarrow> (sealer \<times> bytes) option \<Rightarrow> (encode_error + bytes) prog" where
  "encode_meta E m sealing =
     (case sealing of
        Some (s, salt) \<Rightarrow>
          try_res EncodeJson
            (x_body_to_json E \<lparr>smb_meta = m, smb_content_salt = x_hex_encode E salt\<rparr>) (\<lambda>body.
          try_as EncodeCrypto (seal_meta E s (meta_id m) body) (\<lambda>sealed.
          try_res EncodeJson (x_file_to_json E (smf_new E (meta_id m) sealed)) (\<lambda>json.
          Done (Inr (json @ [10])))))
      | None \<Rightarrow> try_res EncodeJson (x_meta_to_json E m) (\<lambda>json. Done (Inr (json @ [10]))))"

definition decode_meta ::
  "'z fext_scheme \<Rightarrow> item_id \<Rightarrow> bytes \<Rightarrow> sealer option \<Rightarrow> meta_error + item_meta \<times> bytes option" where
  "decode_meta E i b sealer =
     (case sealer of
        None \<Rightarrow>
          and_then (map_err (\<lambda>e. MetaCorrupt (''meta.json: '' @ e)) (x_meta_of_json E b)) (\<lambda>m.
          if meta_id m \<noteq> i then Inl (MetaCorrupt (''meta.json describes '' @ id_repr (meta_id m)))
          else Inr (m, None))
      | Some s \<Rightarrow>
          and_then (map_err (\<lambda>e. MetaUnopened (''meta.json: '' @ e)) (x_file_of_json E b)) (\<lambda>f.
          if smf_schema f \<noteq> SEALED_SCHEMA then Inl (MetaCorrupt ''meta.json has another schema'')
          else if smf_id f \<noteq> i then Inl (MetaCorrupt (''meta.json describes '' @ id_repr (smf_id f)))
          else
            and_then (map_err MetaCorrupt (smf_to_sealed E f)) (\<lambda>sealed.
            and_then (map_err (\<lambda>_. MetaUnopened ''meta.json does not open with this store's key'')
                        (open_meta E s i sealed)) (\<lambda>plain.
            and_then (map_err (\<lambda>e. MetaCorrupt (''sealed meta.json: '' @ e)) (x_body_of_json E plain)) (\<lambda>body.
            if meta_id (smb_meta body) \<noteq> i
            then Inl (MetaCorrupt (''meta.json describes '' @ id_repr (meta_id (smb_meta body))))
            else
              and_then (map_err (\<lambda>r. MetaCorrupt (''content salt: '' @ r))
                          (decode_array E CONTENT_SALT_LEN (smb_content_salt body))) (\<lambda>salt.
              Inr (smb_meta body, Some salt)))))))"

section \<open>Content\<close>

record written =
  wr_digest :: content_digest
  wr_head :: bytes
  wr_salt :: "bytes option"

datatype copy_error = CopyRead io_error | CopyWrite io_error | CopyCrypto crypto_error

definition keep_chunk :: "bytes \<Rightarrow> content_hasher \<times> bytes \<Rightarrow> content_hasher \<times> bytes" where
  "keep_chunk chunk kept =
     (case kept of (hasher, head) \<Rightarrow>
        (hasher_update chunk hasher,
         head @ take (min (PREVIEW_HEAD_BYTES - length head) (length chunk)) chunk))"

definition write_all :: "remote_path \<Rightarrow> bytes \<Rightarrow> (io_error + unit) prog" where
  "write_all p b = WriteAll p b Done"

definition shutdown :: "remote_path \<Rightarrow> (io_error + unit) prog" where
  "shutdown p = Shutdown p Done"

function copy_plain ::
  "box_read \<Rightarrow> remote_path \<Rightarrow> content_hasher \<times> bytes \<Rightarrow> (copy_error + content_hasher \<times> bytes) prog" where
  "copy_plain content p kept =
     (case rd_read COPY_CHUNK content of
        (Inl e, _) \<Rightarrow> Done (Inl (CopyRead e))
      | (Inr chunk, rest) \<Rightarrow>
          if chunk = [] then Done (Inr kept)
          else try_as CopyWrite (write_all p chunk)
                 (\<lambda>_. copy_plain rest p (keep_chunk chunk kept)))"
  by pat_completeness auto
termination
  by (relation "measure (\<lambda>(content, p, kept). length (br_bytes content))")
    (auto dest: rd_read_shrinks [OF sym])

declare copy_plain.simps [simp del]

text \<open>The loop of a sealed copy, with the record read ahead; \<open>current\<close> is the record to write.\<close>

definition read_next :: "bytes \<Rightarrow> box_read \<Rightarrow> (io_error + bytes) \<times> box_read" where
  "read_next current content =
     (if length current = CHUNK_LEN then read_full CHUNK_LEN content [] else (Inr [], content))"

lemma read_next_shrinks:
  "read_next current content = (Inr b, rest) \<Longrightarrow> b \<noteq> [] \<Longrightarrow> length (br_bytes rest) < length (br_bytes content)"
  using read_full_result [of CHUNK_LEN content "[]" "Inr b" rest]
  by (auto simp: read_next_def CHUNK_LEN_def split: if_splits option.splits)

function copy_sealed ::
  "'z fext_scheme \<Rightarrow> bytes \<Rightarrow> box_read \<Rightarrow> remote_path \<Rightarrow> content_sealer \<Rightarrow> content_hasher \<times> bytes
   \<Rightarrow> (copy_error + content_hasher \<times> bytes) prog" where
  "copy_sealed E current content p sealing kept =
     (case read_next current content of
        (Inl e, _) \<Rightarrow> Done (Inl (CopyRead e))
      | (Inr following, rest) \<Rightarrow>
          (case seal_chunk E current (following = []) sealing of
             (Inl e, _) \<Rightarrow> Done (Inl (CopyCrypto e))
           | (Inr sealed, sealing') \<Rightarrow>
               try_as CopyWrite (write_all p sealed) (\<lambda>_.
                 if following = [] then Done (Inr (keep_chunk current kept))
                 else copy_sealed E following rest p sealing' (keep_chunk current kept))))"
  by pat_completeness auto
termination
  by (relation "measure (\<lambda>(E, current, content, p, s, kept). length (br_bytes content))")
    (auto dest: read_next_shrinks [OF sym])

declare copy_sealed.simps [simp del]

definition copy_content ::
  "'z fext_scheme \<Rightarrow> box_read \<Rightarrow> remote_path \<Rightarrow> content_sealer option \<Rightarrow> (copy_error + written) prog" where
  "copy_content E content p sealing =
     tryP
       (case sealing of
          None \<Rightarrow> tryP (copy_plain content p (hasher_new, [])) (\<lambda>kept. Done (Inr (kept, None)))
        | Some s \<Rightarrow>
            try_as CopyWrite (write_all p (cs_header s)) (\<lambda>_.
            (case read_full CHUNK_LEN content [] of
               (Inl e, _) \<Rightarrow> Done (Inl (CopyRead e))
             | (Inr current, rest) \<Rightarrow>
                 tryP (copy_sealed E current rest p s (hasher_new, []))
                   (\<lambda>kept. Done (Inr (kept, Some (cs_salt s)))))))
       (\<lambda>(kept, salt).
     try_as CopyWrite (shutdown p) (\<lambda>_.
     Done (Inr \<lparr>wr_digest = hasher_finalize E (fst kept), wr_head = snd kept, wr_salt = salt\<rparr>)))"

definition write_content ::
  "'z fext_scheme \<Rightarrow> box_read \<Rightarrow> remote_path \<Rightarrow> sealer option \<Rightarrow> (copy_error + written) prog" where
  "write_content E content p sealer =
     (case sealer of
        None \<Rightarrow> copy_content E content p None
      | Some s \<Rightarrow> try_as CopyCrypto (sealer_content_sealer E s)
                    (\<lambda>sealing. copy_content E content p (Some sealing)))"

definition seal_content ::
  "'z fext_scheme \<Rightarrow> box_read \<Rightarrow> remote_path \<Rightarrow> content_sealer \<Rightarrow> (copy_error + written) prog" where
  "seal_content E content p sealing = copy_content E content p (Some sealing)"

text \<open>\<open>utf8_prefix\<close> and \<open>preview\<close>.\<close>

definition utf8_prefix :: "bytes \<Rightarrow> ustring" where
  "utf8_prefix b =
     (case from_utf8 b of Some t \<Rightarrow> t | None \<Rightarrow> fst (utf8_decode b))"

definition preview :: "item_kind \<Rightarrow> bytes \<Rightarrow> ustring option" where
  "preview kind head = (if kind = KText then Some (preview_of (utf8_prefix head)) else None)"

end
