(* ===== verification/Store_Error.thy ===== *)
theory Store_Error
  imports Format
begin

text \<open>
  The errors of stores and of encryption, and the names of the folders and files a store is made
  of: \<^verbatim>\<open>encryption/mod.rs\<close>, the error types of \<^verbatim>\<open>encryption/key_file.rs\<close> and of
  \<^verbatim>\<open>store/mod.rs\<close>. Messages that only a person reads are kept as far as they carry data.
\<close>

section \<open>Layout\<close>

definition ENCRYPTION_DIR :: string where "ENCRYPTION_DIR = ''encryption''"
definition HEADER_FILE :: string where "HEADER_FILE = ''header.json''"
definition STOP_FILE :: string where "STOP_FILE = ''items''"
definition REWRITE_DIR :: string where "REWRITE_DIR = ''.rewrite''"
definition PLAIN_DIR :: string where "PLAIN_DIR = ''plain''"
definition ENC_SEALED_TMP_DIR :: string where "ENC_SEALED_TMP_DIR = ''v2/tmp''"

definition STOP_TEXT :: bytes where
  "STOP_TEXT = bstr (''This store is encrypted. Upgrade to passalong 0.2.0 or later.'' @ [CHR 0x0A])"

section \<open>Errors\<close>

datatype key_file_error =
    KfIo string string
  | KfPermissions string
  | KfInGitWorkTree string string string
  | KfGitUnavailable string string string string
  | KfDamaged string string string

datatype encryption_error =
    EnIncomplete string
  | EnCrypto crypto_error
  | EnKeyFile key_file_error
  | EnNoKey
  | EnKeyMismatch string string
  | EnKeyWithoutEncryption
  | EnNotEncrypted
  | EnRewriting "string option"
  | EnRecovering "string option"
  | EnHeaderMissing
  | EnKeyChanged
  | EnAlreadyEncrypted
  | EnHeader string
  | EnLayout string

definition since :: "string option \<Rightarrow> string" where
  "since started = (case started of Some at \<Rightarrow> '' (since '' @ at @ '')'' | None \<Rightarrow> [])"

datatype store_error =
    SeNotFound ustring
  | SeAmbiguous ustring "item_id list"
  | SeInvalidPrefix ustring
  | SeUnsupportedBackend string
  | SeConfig string
  | SeFs fs_error
  | SeContent string
  | SeCorrupt string string
  | SeModel model_error
  | SeBackend string
  | SeEncryption encryption_error
  | SeDenied string

definition crypto_err :: "crypto_error \<Rightarrow> store_error" where
  "crypto_err e = SeEncryption (EnCrypto e)"

definition join_ids :: "item_id list \<Rightarrow> string" where
  "join_ids ids = join_with '', '' (map id_repr ids)"

section \<open>What a store answers\<close>

record put_outcome =
  po_meta :: item_meta
  po_created :: bool

definition PROBE_BYTES :: nat where "PROBE_BYTES = 128"

datatype write_probe = Verified | NotSupported

section \<open>Writing a whole file\<close>

text \<open>
  The sequence the sources repeat for every small file: open it, write the bytes, shut the writer
  down, with the I/O errors named after the path.
\<close>

definition write_file :: "remote_path \<Rightarrow> bytes \<Rightarrow> (fs_error + unit) prog" where
  "write_file p b =
     tryP (OpenWrite p Done) (\<lambda>_.
     try_as (from_io p) (WriteAll p b Done) (\<lambda>_.
     try_as (from_io p) (Shutdown p Done) (\<lambda>_. Done (Inr ()))))"

end
