(* ===== verification/Safe_Rules.thy ===== *)
theory Safe_Rules
  imports Remote_Fs
begin

text \<open>
  Rules for proving \<^const>\<open>safe\<close>. Programs that only look (\<open>reads_only\<close>) keep whatever other clients
  keep. A client's private folder \<open>D\<close> (its staging folder) is described by \<open>tree_at\<close>: what the
  client wrote there stays as it left it, since nobody else touches it (\<open>owns\<close>), and the
  invariant does not look inside.
\<close>

definition stable :: "setting \<Rightarrow> (fsview \<Rightarrow> bool) \<Rightarrow> bool" where
  "stable S J \<longleftrightarrow> (\<forall>u u'. st_others S u u' \<longrightarrow> J u \<longrightarrow> J u') \<and> (\<forall>u. st_others S u u)"

definition tree_at :: "fsview \<Rightarrow> string list \<Rightarrow> fsview \<Rightarrow> bool" where
  "tree_at u D m \<longleftrightarrow> (\<forall>s. u (D @ s) = m s)"

definition owns :: "setting \<Rightarrow> (fsview \<Rightarrow> bool) \<Rightarrow> string list \<Rightarrow> bool" where
  "owns S I D \<longleftrightarrow>
     stable S I
     \<and> (\<forall>u u' s. st_others S u u' \<longrightarrow> u' (D @ s) = u (D @ s))
     \<and> (\<forall>u u'. I u \<longrightarrow> (\<forall>q. \<not> is_under D q \<longrightarrow> u' q = u q) \<longrightarrow> I u')"

lemma stableD: "stable S J \<Longrightarrow> st_others S u u' \<Longrightarrow> J u \<Longrightarrow> J u'"
  by (auto simp: stable_def)

lemma stable_refl: "stable S J \<Longrightarrow> st_others S u u"
  by (auto simp: stable_def)

lemma ownsD:
  assumes "owns S I D"
  shows "stable S I" "st_others S u u"
    "st_others S u u' \<Longrightarrow> tree_at u D m \<Longrightarrow> tree_at u' D m"
    "I u \<Longrightarrow> (\<And>q. \<not> is_under D q \<Longrightarrow> u' q = u q) \<Longrightarrow> I u'"
proof -
  show "stable S I" using assms by (simp add: owns_def)
  then show "st_others S u u" by (simp add: stable_def)
  show "st_others S u u' \<Longrightarrow> tree_at u D m \<Longrightarrow> tree_at u' D m"
    using assms unfolding owns_def tree_at_def by metis
  show "I u \<Longrightarrow> (\<And>q. \<not> is_under D q \<Longrightarrow> u' q = u q) \<Longrightarrow> I u'"
    using assms unfolding owns_def by blast
qed

lemma owns_stable:
  assumes "owns S I D"
  shows "stable S (\<lambda>u. I u \<and> tree_at u D m)"
  unfolding stable_def using ownsD(2,3) [OF assms] stableD [OF ownsD(1) [OF assms]] by blast

lemma stable_conj: "stable S A \<Longrightarrow> stable S B \<Longrightarrow> stable S (\<lambda>u. A u \<and> B u)"
  by (auto simp: stable_def)

lemma alone_stable [simp]: "stable (alone f) J"
  by (simp add: stable_def)

section \<open>Programs that only look\<close>

primrec reads_only :: "'a prog \<Rightarrow> bool" where
  "reads_only (Done a) = True"
| "reads_only (CreateDirAll p k) = False"
| "reads_only (ReadDir p k) = (\<forall>r. reads_only (k r))"
| "reads_only (OpenRead p k) = (\<forall>r. reads_only (k r))"
| "reads_only (OpenWrite p k) = False"
| "reads_only (WriteAll p b k) = False"
| "reads_only (Shutdown p k) = False"
| "reads_only (Rename p q k) = False"
| "reads_only (RemoveDirAll p k) = False"
| "reads_only (Stat p k) = (\<forall>r. reads_only (k r))"
| "reads_only (CreateDir p k) = False"
| "reads_only (RemoveFile p k) = False"
| "reads_only (Now k) = (\<forall>r. reads_only (k r))"
| "reads_only (NextU64 k) = (\<forall>r. reads_only (k r))"
| "reads_only (RandomBytes n k) = (\<forall>r. reads_only (k r))"

named_theorems reads_simps \<open>programs that only look\<close>

lemma reads_only_bind [reads_simps]: "reads_only m \<Longrightarrow> (\<And>x. reads_only (g x)) \<Longrightarrow> reads_only (bind m g)"
  by (induction m) auto

lemma reads_only_try [reads_simps]:
  "reads_only m \<Longrightarrow> (\<And>x. reads_only (g x)) \<Longrightarrow> reads_only (try_as c m g)"
  unfolding try_as_def by (rule reads_only_bind) (auto split: sum.splits)

lemma reads_only_try_res [reads_simps]: "(\<And>x. reads_only (g x)) \<Longrightarrow> reads_only (try_res c r g)"
  by (auto simp: try_res_def split: sum.splits)

lemma safe_reads:
  assumes "stable S J" "\<And>u. J u \<Longrightarrow> I u" "reads_only m" "J v"
  shows "safe S I m (\<lambda>_ u. J u) v"
  using assms(3,4)
  by (induction m arbitrary: v) (auto simp: safe.simps dest: stableD [OF assms(1)] assms(2))

section \<open>Stepping through a program\<close>

named_theorems prog_simps \<open>one call at a time\<close>

lemma try_as_simps [prog_simps]:
  "try_as c (Done r) g = try_res c r g"
  "try_as c (CreateDirAll p k) g = CreateDirAll p (\<lambda>r. try_as c (k r) g)"
  "try_as c (ReadDir p k1) g = ReadDir p (\<lambda>r. try_as c (k1 r) g)"
  "try_as c (OpenRead p k2) g = OpenRead p (\<lambda>r. try_as c (k2 r) g)"
  "try_as c (OpenWrite p k) g = OpenWrite p (\<lambda>r. try_as c (k r) g)"
  "try_as c (WriteAll p b k3) g = WriteAll p b (\<lambda>r. try_as c (k3 r) g)"
  "try_as c (Shutdown p k3) g = Shutdown p (\<lambda>r. try_as c (k3 r) g)"
  "try_as c (Rename p q k) g = Rename p q (\<lambda>r. try_as c (k r) g)"
  "try_as c (RemoveDirAll p k) g = RemoveDirAll p (\<lambda>r. try_as c (k r) g)"
  "try_as c (Stat p k4) g = Stat p (\<lambda>r. try_as c (k4 r) g)"
  "try_as c (CreateDir p k) g = CreateDir p (\<lambda>r. try_as c (k r) g)"
  "try_as c (RemoveFile p k) g = RemoveFile p (\<lambda>r. try_as c (k r) g)"
  "try_as c (Now k5) g = Now (\<lambda>r. try_as c (k5 r) g)"
  "try_as c (NextU64 k6) g = NextU64 (\<lambda>r. try_as c (k6 r) g)"
  "try_as c (RandomBytes n k7) g = RandomBytes n (\<lambda>r. try_as c (k7 r) g)"
  by (simp_all add: try_as_def try_res_def)

lemma try_as_bind [prog_simps]: "try_as c (bind m f) g = bind m (\<lambda>x. try_as c (f x) g)"
  by (simp add: try_as_def bind_assoc)

text \<open>
  Each call under a stable assertion: the assertion holds when the call is made, and what follows
  must be safe for every answer the contract allows.
\<close>

lemma safe_call:
  assumes J: "stable S J" "\<And>u. J u \<Longrightarrow> I u" and v: "J v"
  shows "(\<And>u r u'. J u \<Longrightarrow> create_dir_all_spec (st_faulty S) (comps p) u r u' \<Longrightarrow> safe S I (k r) Q u')
      \<Longrightarrow> safe S I (CreateDirAll p k) Q v"
    and "(\<And>u r. J u \<Longrightarrow> read_dir_spec (st_faulty S) (comps p) u r \<Longrightarrow> safe S I (k1 r) Q u)
      \<Longrightarrow> safe S I (ReadDir p k1) Q v"
    and "(\<And>u r. J u \<Longrightarrow> open_read_spec (st_faulty S) (comps p) u r \<Longrightarrow> safe S I (k2 r) Q u)
      \<Longrightarrow> safe S I (OpenRead p k2) Q v"
    and "(\<And>u r. J u \<Longrightarrow> stat_spec (st_faulty S) (comps p) u r \<Longrightarrow> safe S I (k4 r) Q u)
      \<Longrightarrow> safe S I (Stat p k4) Q v"
    and "(\<And>u r u'. J u \<Longrightarrow> rename_spec (st_faulty S) (comps p) (comps q) u r u' \<Longrightarrow> safe S I (k r) Q u')
      \<Longrightarrow> safe S I (Rename p q k) Q v"
    and "(\<And>u r u'. J u \<Longrightarrow> open_write_spec (st_faulty S) (comps p) u r u' \<Longrightarrow> safe S I (k r) Q u')
      \<Longrightarrow> safe S I (OpenWrite p k) Q v"
    and "(\<And>u r u'. J u \<Longrightarrow> write_all_spec (st_faulty S) (comps p) b u r u' \<Longrightarrow> safe S I (k3 r) Q u')
      \<Longrightarrow> safe S I (WriteAll p b k3) Q v"
    and "(\<And>u r. J u \<Longrightarrow> shutdown_spec (st_faulty S) u r u \<Longrightarrow> safe S I (k3 r) Q u)
      \<Longrightarrow> safe S I (Shutdown p k3) Q v"
    and "comps p \<noteq> [] \<Longrightarrow>
      (\<And>u r u'. J u \<Longrightarrow> remove_dir_all_spec (st_faulty S) (comps p) u r u' \<Longrightarrow> safe S I (k r) Q u')
      \<Longrightarrow> safe S I (RemoveDirAll p k) Q v"
    and "(\<And>t. st_clock S t \<Longrightarrow> safe S I (k5 t) Q v) \<Longrightarrow> safe S I (Now k5) Q v"
    and "(\<And>n. st_tokens S n \<Longrightarrow> safe S I (k6 n) Q v) \<Longrightarrow> safe S I (NextU64 k6) Q v"
    and "(\<And>r. random_spec (st_faulty S) n r \<Longrightarrow> safe S I (k7 r) Q v) \<Longrightarrow> safe S I (RandomBytes n k7) Q v"
proof -
  have o: "J u \<and> I u" if "st_others S v u" for u
    using J(2) v stableD [OF J(1) that] by blast
  have Iv: "I v" using J(2) v by blast
  have sh: "u' = u" if "shutdown_spec (st_faulty S) u r u'" for u r u'
    using that by (simp add: shutdown_spec_def)
  note h = o Iv
  show "(\<And>u r u'. J u \<Longrightarrow> create_dir_all_spec (st_faulty S) (comps p) u r u' \<Longrightarrow> safe S I (k r) Q u')
      \<Longrightarrow> safe S I (CreateDirAll p k) Q v"
    unfolding safe.simps using h by blast
  show "(\<And>u r. J u \<Longrightarrow> read_dir_spec (st_faulty S) (comps p) u r \<Longrightarrow> safe S I (k1 r) Q u)
      \<Longrightarrow> safe S I (ReadDir p k1) Q v"
    unfolding safe.simps using h by blast
  show "(\<And>u r. J u \<Longrightarrow> open_read_spec (st_faulty S) (comps p) u r \<Longrightarrow> safe S I (k2 r) Q u)
      \<Longrightarrow> safe S I (OpenRead p k2) Q v"
    unfolding safe.simps using h by blast
  show "(\<And>u r. J u \<Longrightarrow> stat_spec (st_faulty S) (comps p) u r \<Longrightarrow> safe S I (k4 r) Q u)
      \<Longrightarrow> safe S I (Stat p k4) Q v"
    unfolding safe.simps using h by blast
  show "(\<And>u r u'. J u \<Longrightarrow> rename_spec (st_faulty S) (comps p) (comps q) u r u' \<Longrightarrow> safe S I (k r) Q u')
      \<Longrightarrow> safe S I (Rename p q k) Q v"
    unfolding safe.simps using h by blast
  show "(\<And>u r u'. J u \<Longrightarrow> open_write_spec (st_faulty S) (comps p) u r u' \<Longrightarrow> safe S I (k r) Q u')
      \<Longrightarrow> safe S I (OpenWrite p k) Q v"
    unfolding safe.simps using h by blast
  show "(\<And>u r u'. J u \<Longrightarrow> write_all_spec (st_faulty S) (comps p) b u r u' \<Longrightarrow> safe S I (k3 r) Q u')
      \<Longrightarrow> safe S I (WriteAll p b k3) Q v"
    unfolding safe.simps using h by blast
  show "(\<And>u r. J u \<Longrightarrow> shutdown_spec (st_faulty S) u r u \<Longrightarrow> safe S I (k3 r) Q u)
      \<Longrightarrow> safe S I (Shutdown p k3) Q v"
    unfolding safe.simps using h sh by metis
  show "comps p \<noteq> [] \<Longrightarrow>
      (\<And>u r u'. J u \<Longrightarrow> remove_dir_all_spec (st_faulty S) (comps p) u r u' \<Longrightarrow> safe S I (k r) Q u')
      \<Longrightarrow> safe S I (RemoveDirAll p k) Q v"
    unfolding safe.simps using h by blast
  show "(\<And>t. st_clock S t \<Longrightarrow> safe S I (k5 t) Q v) \<Longrightarrow> safe S I (Now k5) Q v"
    "(\<And>n. st_tokens S n \<Longrightarrow> safe S I (k6 n) Q v) \<Longrightarrow> safe S I (NextU64 k6) Q v"
    "(\<And>r. random_spec (st_faulty S) n r \<Longrightarrow> safe S I (k7 r) Q v) \<Longrightarrow> safe S I (RandomBytes n k7) Q v"
    using Iv by (simp_all add: safe.simps)
qed

lemma safe_random:
  assumes "I v" "\<And>b. length b = n \<Longrightarrow> st_bytes S b \<Longrightarrow> safe S I (k (Inr b)) Q v"
    and "\<And>e. st_faulty S \<Longrightarrow> safe S I (k (Inl e)) Q v"
  shows "safe S I (RandomBytes n k) Q v"
  using assms by (auto simp: safe.simps random_spec_def split: sum.splits)

lemma safe_done:
  assumes "stable S J" "\<And>u. J u \<Longrightarrow> I u \<and> Q a u" "J v"
  shows "safe S I (Done a) Q v"
  using assms stableD [OF assms(1)] by (auto simp: safe.simps)

lemma safe_done_pure:
  assumes "stable S J" "\<And>u. J u \<Longrightarrow> I u" "J v" "P a"
  shows "safe S I (Done a) (\<lambda>r u. J u \<and> P r) v"
  by (rule safe_done [OF assms(1) _ assms(3)]) (use assms(2,4) in auto)

lemma safe_try_res:
  assumes "\<And>e. r = Inl e \<Longrightarrow> safe S I (Done (Inl (c e))) Q v"
    and "\<And>x. r = Inr x \<Longrightarrow> safe S I (g x) Q v"
  shows "safe S I (try_res c r g) Q v"
  using assms by (cases r) simp_all

lemma safe_reads_bind:
  assumes "stable S J" "\<And>u. J u \<Longrightarrow> I u" "reads_only m" "J v"
    and "\<And>x u. J u \<Longrightarrow> safe S I (g x) Q u"
  shows "safe S I (bind m g) Q v"
  by (rule safe_bind [OF safe_reads [OF assms(1-4)]]) (use assms(5) stable_refl [OF assms(1)] in auto)

lemma safe_then:
  assumes "safe S I m P v" "stable S J"
    and "\<And>a u. P a u \<Longrightarrow> safe S I (g a) Q u"
  shows "safe S I (bind m g) Q v"
  by (rule safe_bind [OF assms(1)]) (use assms(3) stable_refl [OF assms(2)] in auto)

lemma safe_then_try:
  assumes "safe S I m P v" "stable S J"
    and "\<And>e u. P (Inl e) u \<Longrightarrow> safe S I (Done (Inl (c e))) Q u"
    and "\<And>x u. P (Inr x) u \<Longrightarrow> safe S I (g x) Q u"
  shows "safe S I (try_as c m g) Q v"
  by (rule safe_try [OF assms(1)]) (use assms(3,4) stable_refl [OF assms(2)] in auto)

section \<open>Steps in a private folder\<close>

lemma append_file_outside:
  "\<not> is_under D q \<Longrightarrow> append_file (D @ s) b u q = u q"
  by (auto simp: append_file_def split: option.splits vnode.splits)

lemma safe_write_all:
  assumes D: "owns S I D" and p: "comps p = D @ s" and v: "I v" "tree_at v D m"
    and f: "m s = Some (VFile old)"
    and ok: "\<And>u. I u \<Longrightarrow> tree_at u D (m(s \<mapsto> VFile (old @ b))) \<Longrightarrow> safe S I (k (Inr ())) Q u"
    and err: "\<And>e u. st_faulty S \<Longrightarrow> I u \<Longrightarrow> safe S I (k (Inl e)) Q u"
  shows "safe S I (WriteAll p b k) Q v"
  unfolding safe.simps
proof (intro allI impI conjI)
  fix u assume o: "st_others S v u"
  then show Iu: "I u" using v stableD [OF ownsD(1) [OF D]] by blast
  have t: "tree_at u D m" using ownsD(3) [OF D o v(2)] .
  fix r u' assume w: "write_all_spec (st_faulty S) (comps p) b u r u'"
  have out: "I (append_file (D @ s) b' u)" for b'
    by (rule ownsD(4) [OF D Iu]) (simp add: append_file_outside)
  have "append_file (D @ s) b u = u(D @ s \<mapsto> VFile (old @ b))"
    using t f by (simp add: append_file_def tree_at_def)
  then have "tree_at (append_file (D @ s) b u) D (m(s \<mapsto> VFile (old @ b)))"
    using t by (simp add: tree_at_def)
  with w p ok [OF out] err [OF _ out] show "safe S I (k r) Q u'"
    by (cases r) (auto simp: write_all_spec_def)
qed

lemma safe_open_write:
  assumes D: "owns S I D" and p: "comps p = D @ s" and s: "s \<noteq> []" and v: "I v" "tree_at v D m"
    and ok: "\<And>u. I u \<Longrightarrow> tree_at u D (m(s \<mapsto> VFile [])) \<Longrightarrow> safe S I (k (Inr ())) Q u"
    and err: "\<And>e u. st_faulty S \<or> m (butlast s) \<noteq> Some VDir \<or> m s = Some VDir \<Longrightarrow> I u
        \<Longrightarrow> safe S I (k (Inl e)) Q u"
  shows "safe S I (OpenWrite p k) Q v"
  unfolding safe.simps
proof (intro allI impI conjI)
  fix u assume o: "st_others S v u"
  then show Iu: "I u" using v stableD [OF ownsD(1) [OF D]] by blast
  have t: "tree_at u D m" using ownsD(3) [OF D o v(2)] .
  fix r u' assume w: "open_write_spec (st_faulty S) (comps p) u r u'"
  have out: "I (u(D @ s \<mapsto> VFile []))"
    by (rule ownsD(4) [OF D Iu]) auto
  have "tree_at (u(D @ s \<mapsto> VFile [])) D (m(s \<mapsto> VFile []))"
    using t by (simp add: tree_at_def)
  then have okk: "safe S I (k (Inr ())) Q (u(D @ s \<mapsto> VFile []))"
    and errk: "\<And>e. st_faulty S \<Longrightarrow> safe S I (k (Inl e)) Q (u(D @ s \<mapsto> VFile []))"
    using ok [OF out] err [OF _ out] by blast+
  have "can_hold_file u (D @ s) \<longleftrightarrow> m (butlast s) = Some VDir \<and> m s \<noteq> Some VDir"
    using t s by (simp add: can_hold_file_def tree_at_def butlast_append)
  with w p okk errk err [OF _ Iu] show "safe S I (k r) Q u'"
    by (cases r) (auto simp: open_write_spec_def)
qed

lemma safe_shutdown:
  assumes J: "stable S J" "\<And>u. J u \<Longrightarrow> I u" and v: "J v"
    and ok: "\<And>u. J u \<Longrightarrow> safe S I (k (Inr ())) Q u"
    and err: "\<And>e u. st_faulty S \<Longrightarrow> J u \<Longrightarrow> safe S I (k (Inl e)) Q u"
  shows "safe S I (Shutdown p k) Q v"
proof (rule safe_call(8) [OF J v])
  fix u r assume "J u" "shutdown_spec (st_faulty S) u r u"
  then show "safe S I (k r) Q u"
    using ok err by (cases r) (auto simp: shutdown_spec_def)
qed

text \<open>Making a folder: what the invariant says must allow new folders on the way to \<open>p\<close>.\<close>

lemma safe_create_dir_all:
  assumes J: "stable S J" "\<And>u. J u \<Longrightarrow> I u" and v: "J v"
    and dirs: "\<And>u q. J u \<Longrightarrow> is_under q (comps p) \<Longrightarrow> \<forall>q' b. is_under q' q \<longrightarrow> u q' \<noteq> Some (VFile b)
        \<Longrightarrow> J (mk_dirs q u)"
    and ok: "\<And>u. J u \<Longrightarrow> u (comps p) = Some VDir \<Longrightarrow> safe S I (k (Inr ())) Q u"
    and err: "\<And>e u. J u \<Longrightarrow> st_faulty S \<or> (\<exists>q b. is_under q (comps p) \<and> u q = Some (VFile b))
        \<Longrightarrow> safe S I (k (Inl e)) Q u"
  shows "safe S I (CreateDirAll p k) Q v"
  unfolding safe.simps
proof (intro allI impI conjI)
  fix u assume o: "st_others S v u"
  then have Ju: "J u" using v stableD [OF J(1)] by blast
  then show "I u" by (rule J(2))
  fix r u' assume w: "create_dir_all_spec (st_faulty S) (comps p) u r u'"
  show "safe S I (k r) Q u'"
  proof (cases r)
    case (Inl e)
    with w obtain q where q: "is_under q (comps p)" "u' = mk_dirs q u"
      "\<forall>q' b. is_under q' q \<longrightarrow> u q' \<noteq> Some (VFile b)"
      by (auto simp: create_dir_all_spec_def)
    have "st_faulty S \<or> (\<exists>q b. is_under q (comps p) \<and> u' q = Some (VFile b))"
    proof (rule disjCI)
      assume "\<not> (\<exists>q b. is_under q (comps p) \<and> u' q = Some (VFile b))"
      then have "\<not> (\<exists>q b. is_under q (comps p) \<and> u q = Some (VFile b))"
        unfolding q(2) mk_dirs_def by auto
      then show "st_faulty S" using w Inl by (auto simp: create_dir_all_spec_def)
    qed
    from err [OF dirs [OF Ju q(1,3)] this [unfolded q(2)]] Inl q(2) show ?thesis by simp
  next
    case (Inr x)
    with w have u': "u' = mk_dirs (comps p) u" and nf: "\<forall>q b. is_under q (comps p) \<longrightarrow> u q \<noteq> Some (VFile b)"
      by (auto simp: create_dir_all_spec_def)
    have "u' (comps p) = Some VDir"
      using nf [rule_format, of "comps p"] u' by (cases "u (comps p)") (auto simp: mk_dirs_def intro: vnode.exhaust)
    with dirs [OF Ju _ nf] ok Inr u' show ?thesis by auto
  qed
qed

lemma safe_remove_dir_all:
  assumes J: "stable S J" "\<And>u. J u \<Longrightarrow> I u" and v: "J v" and ne: "comps p \<noteq> []"
    and cut: "\<And>u u'. J u \<Longrightarrow> \<forall>q. u' q = u q \<or> (is_under (comps p) q \<and> u' q = None) \<Longrightarrow> J u'"
    and k: "\<And>r u. J u \<Longrightarrow> safe S I (k r) Q u"
  shows "safe S I (RemoveDirAll p k) Q v"
  unfolding safe.simps
proof (intro allI impI conjI)
  show "comps p \<noteq> []" by (rule ne)
  fix u assume o: "st_others S v u"
  then have Ju: "J u" using v stableD [OF J(1)] by blast
  then show "I u" by (rule J(2))
  fix r u' assume w: "remove_dir_all_spec (st_faulty S) (comps p) u r u'"
  then have "\<forall>q. u' q = u q \<or> (is_under (comps p) q \<and> u' q = None)"
    by (auto simp: remove_dir_all_spec_def cut_tree_def split: sum.splits)
  with cut [OF Ju] k show "safe S I (k r) Q u'" by blast
qed

lemma safe_rename:
  assumes J: "stable S J" "\<And>u. J u \<Longrightarrow> I u" and v: "J v"
    and moved: "\<And>u. J u \<Longrightarrow> can_rename u (comps p) (comps q) \<Longrightarrow>
        safe S I (k (Inr ())) Q (move_tree (comps p) (comps q) u)
        \<and> (\<forall>a b. st_faulty S \<longrightarrow> safe S I (k (Inl (FsOther a b))) Q (move_tree (comps p) (comps q) u))"
    and stayed: "\<And>e u. J u \<Longrightarrow> (\<And>x. e = FsAlreadyExists x \<Longrightarrow> u (comps q) \<noteq> None) \<Longrightarrow>
        safe S I (k (Inl e)) Q u"
  shows "safe S I (Rename p q k) Q v"
  unfolding safe.simps
proof (intro allI impI conjI)
  fix u assume o: "st_others S v u"
  then have Ju: "J u" using v stableD [OF J(1)] by blast
  then show "I u" by (rule J(2))
  fix r u' assume w: "rename_spec (st_faulty S) (comps p) (comps q) u r u'"
  show "safe S I (k r) Q u'"
  proof (cases r)
    case (Inr x)
    with w moved [OF Ju] show ?thesis by (simp add: rename_spec_def)
  next
    case (Inl e)
    show ?thesis
    proof (cases "u' = u")
      case True
      have "safe S I (k (Inl e)) Q u"
        by (rule stayed [OF Ju]) (use w Inl in \<open>auto simp: rename_spec_def\<close>)
      with True Inl show ?thesis by simp
    next
      case False
      then obtain a b where "st_faulty S" "e = FsOther a b" "can_rename u (comps p) (comps q)"
        "u' = move_tree (comps p) (comps q) u"
        using w Inl unfolding rename_spec_def by auto
      with moved [OF Ju] Inl show ?thesis by simp
    qed
  qed
qed

end
