(* ===== verification/Header.thy ===== *)
theory Header
  imports Store_Error Safe_Rules
begin

text \<open>
  The store header, \<^verbatim>\<open>encryption/header.rs\<close>: its JSON, reading it, creating it in one rename,
  replacing it by swapping folders, and the file that stops old clients.
\<close>

section \<open>The header as JSON\<close>

definition FORMAT :: u32 where "FORMAT = 1"
definition KDF_ALG :: string where "KDF_ALG = ''argon2id''"
definition KDF_VERSION :: u32 where "KDF_VERSION = 0x13"
definition MAX_HEADER_BYTES :: nat where "MAX_HEADER_BYTES = 16384"

datatype store_header = StoreHeader (wrapped: wrapped_key)

record kdf_json =
  kj_alg :: string
  kj_version :: u32
  kj_m_kib :: u32
  kj_t :: u32
  kj_p :: u32
  kj_salt :: string

record wrapped_json =
  wj_nonce :: string
  wj_ciphertext :: string

record header_json =
  hj_format :: u32
  hj_key_id :: string
  hj_kdf :: kdf_json
  hj_wrapped_key :: wrapped_json

text \<open>\<open>FormatOnly\<close> is read as the number it holds.\<close>

record hext = fext +
  x_header_to_json :: "header_json \<Rightarrow> bytes"
  x_header_of_json :: "bytes \<Rightarrow> string + header_json"
  x_format_of_json :: "bytes \<Rightarrow> string + u32"

text \<open>What is written reads back, also before a final newline and by a reader of one field.\<close>

definition header_laws :: "'z hext_scheme \<Rightarrow> bool" where
  "header_laws E \<longleftrightarrow>
     (\<forall>j. x_header_of_json E (x_header_to_json E j @ [10]) = Inr j
        \<and> x_format_of_json E (x_header_to_json E j @ [10]) = Inr (hj_format j))"

definition header_key_id :: "store_header \<Rightarrow> key_id" where
  "header_key_id h = wk_key_id (wrapped h)"

definition decode_field :: "'z ext_scheme \<Rightarrow> nat \<Rightarrow> string \<Rightarrow> string \<Rightarrow> encryption_error + bytes" where
  "decode_field E n field s =
     (case x_hex_decode E s of
        Some b \<Rightarrow> if length b = n then Inr b else Inl (EnHeader (field @ '' is not N bytes of hex''))
      | None \<Rightarrow> Inl (EnHeader (field @ '' is not N bytes of hex'')))"

definition to_json :: "'z hext_scheme \<Rightarrow> store_header \<Rightarrow> bytes" where
  "to_json E h =
     (let w = wrapped h in
      x_header_to_json E
        \<lparr>hj_format = FORMAT, hj_key_id = key_id_display E (wk_key_id w),
         hj_kdf = \<lparr>kj_alg = KDF_ALG, kj_version = KDF_VERSION, kj_m_kib = kp_m_kib (wk_kdf w),
                  kj_t = kp_t (wk_kdf w), kj_p = kp_p (wk_kdf w),
                  kj_salt = x_hex_encode E (kp_salt (wk_kdf w))\<rparr>,
         hj_wrapped_key = \<lparr>wj_nonce = x_hex_encode E (wk_nonce w),
                          wj_ciphertext = x_hex_encode E (wk_ciphertext w)\<rparr>\<rparr> @ [10])"

definition header_parse :: "'z hext_scheme \<Rightarrow> bytes \<Rightarrow> encryption_error + store_header" where
  "header_parse E b =
     and_then (map_err EnHeader (x_format_of_json E b)) (\<lambda>format.
     if format \<noteq> FORMAT then Inl (EnHeader ''the format needs a newer passalong'') else
     and_then (map_err EnHeader (x_header_of_json E b)) (\<lambda>json.
     if kj_alg (hj_kdf json) \<noteq> KDF_ALG \<or> kj_version (hj_kdf json) \<noteq> KDF_VERSION
     then Inl (EnHeader (''key derivation '' @ kj_alg (hj_kdf json) @ '' is not supported'')) else
     and_then (map_err (\<lambda>_. EnHeader ''key id'') (key_id_parse E (hj_key_id json))) (\<lambda>kid.
     and_then (ok_or (x_hex_decode E (wj_ciphertext (hj_wrapped_key json)))
                (EnHeader ''ciphertext is not hex'')) (\<lambda>ciphertext.
     and_then (decode_field E KDF_SALT_LEN ''salt'' (kj_salt (hj_kdf json))) (\<lambda>salt.
     and_then (decode_field E NONCE_LEN ''nonce'' (wj_nonce (hj_wrapped_key json))) (\<lambda>nonce.
     Inr (StoreHeader
       \<lparr>wk_key_id = kid,
        wk_kdf = \<lparr>kp_m_kib = kj_m_kib (hj_kdf json), kp_t = kj_t (hj_kdf json),
                 kp_p = kj_p (hj_kdf json), kp_salt = salt\<rparr>,
        wk_nonce = nonce, wk_ciphertext = ciphertext\<rparr>)))))))"

section \<open>Reading and writing it\<close>

definition encryption_dir :: "fs_error + remote_path" where
  "encryption_dir = rp_new ENCRYPTION_DIR"

definition read_header_in ::
  "'z hext_scheme \<Rightarrow> remote_path \<Rightarrow> (store_error + store_header option) prog" where
  "read_header_in E dir =
     try_res SeFs (rp_join dir HEADER_FILE) (\<lambda>path.
     OpenRead path (\<lambda>r.
       case r of
         Inr reader \<Rightarrow>
           try_res SeEncryption
             (map_err (\<lambda>e. EnHeader (''reading it failed: '' @ io_message e))
                (rd_take_to_end MAX_HEADER_BYTES reader)) (\<lambda>b.
           try_res SeEncryption (header_parse E b) (\<lambda>h. Done (Inr (Some h))))
       | Inl (FsNotFound _) \<Rightarrow> Done (Inr None)
       | Inl e \<Rightarrow> Done (Inl (SeFs e))))"

definition read_header :: "'z hext_scheme \<Rightarrow> (store_error + store_header option) prog" where
  "read_header E = try_res SeFs encryption_dir (read_header_in E)"

definition write_header_in ::
  "'z hext_scheme \<Rightarrow> remote_path \<Rightarrow> store_header \<Rightarrow> (store_error + unit) prog" where
  "write_header_in E dir header =
     try_as SeFs (CreateDirAll dir Done) (\<lambda>_.
     try_res SeFs (rp_join dir HEADER_FILE) (\<lambda>path.
     try_as SeFs (write_file path (to_json E header)) (\<lambda>_. Done (Inr ()))))"

definition stage_header ::
  "'z hext_scheme \<Rightarrow> store_header \<Rightarrow> string \<Rightarrow> (store_error + remote_path) prog" where
  "stage_header E header name =
     try_as crypto_err (random_bytes 8) (\<lambda>token.
     try_res SeFs (rp_new ENC_SEALED_TMP_DIR) (\<lambda>tmp.
     try_res SeFs (rp_join tmp (name @ ''-'' @ x_hex_encode E token)) (\<lambda>dir.
     try_as SeFs (CreateDirAll dir Done) (\<lambda>_.
     try_res SeFs (rp_join dir HEADER_FILE) (\<lambda>path.
     try_as SeFs (write_file path (to_json E header)) (\<lambda>_. Done (Inr dir)))))))"

definition create_header :: "'z hext_scheme \<Rightarrow> store_header \<Rightarrow> (store_error + unit) prog" where
  "create_header E header =
     try_res SeFs encryption_dir (\<lambda>target.
     try_as SeFs (Stat target Done) (\<lambda>found.
     if found \<noteq> None then Done (Inl (SeEncryption EnAlreadyEncrypted)) else
     tryP (stage_header E header ''header'') (\<lambda>staged.
     Rename staged target (\<lambda>r.
       case r of
         Inr _ \<Rightarrow> Done (Inr ())
       | Inl e \<Rightarrow>
           RemoveDirAll staged (\<lambda>_.
           Done (Inl (case e of FsAlreadyExists _ \<Rightarrow> SeEncryption EnAlreadyEncrypted
                              | _ \<Rightarrow> SeFs e)))))))"

definition replace_header :: "'z hext_scheme \<Rightarrow> store_header \<Rightarrow> (store_error + unit) prog" where
  "replace_header E header =
     try_res SeFs encryption_dir (\<lambda>target.
     tryP (stage_header E header ''header'') (\<lambda>staged.
     try_as crypto_err (random_bytes 8) (\<lambda>token.
     try_res SeFs (rp_new ENC_SEALED_TMP_DIR) (\<lambda>tmp.
     try_res SeFs (rp_join tmp (''old-header-'' @ x_hex_encode E token)) (\<lambda>old.
     Rename target old (\<lambda>r.
       case r of
         Inl e \<Rightarrow> RemoveDirAll staged (\<lambda>_. Done (Inl (SeFs e)))
       | Inr _ \<Rightarrow>
           try_as SeFs (Rename staged target Done) (\<lambda>_.
           RemoveDirAll old (\<lambda>_. Done (Inr ())))))))))"

definition write_stop_file :: "(store_error + unit) prog" where
  "write_stop_file =
     try_res SeFs (rp_new STOP_FILE) (\<lambda>path.
     try_as SeFs (Stat path Done) (\<lambda>found.
     if (case found of Some m \<Rightarrow> md_is_dir m | None \<Rightarrow> False)
     then Done (Inl (SeEncryption (EnLayout ''items is a folder; its items must be moved first'')))
     else try_as SeFs (write_file path STOP_TEXT) (\<lambda>_. Done (Inr ()))))"

end
