(* ===== verification/Format_Laws.thy ===== *)
theory Format_Laws
  imports Format Safe_Rules
begin

text \<open>
  What the storage format guarantees: metadata that is encoded decodes to the same metadata and
  salt, and only for the item it was encoded for; copying writes exactly the content, plain or
  sealed, whatever pieces it arrives in, and reports its digest and head.
\<close>

section \<open>Metadata\<close>

lemma decode_array_encode:
  "hex_laws E \<Longrightarrow> length b = n \<Longrightarrow> decode_array E n (x_hex_encode E b) = Inr b"
  by (simp add: decode_array_def hex_lawsD)

lemma smf_to_sealed_new:
  "hex_laws E \<Longrightarrow> length (sm_nonce s) = NONCE_LEN \<Longrightarrow> smf_to_sealed E (smf_new E i s) = Inr s"
  by (simp add: smf_to_sealed_def smf_new_def decode_array_encode hex_lawsD)

definition sealed_json :: "'z fext_scheme \<Rightarrow> item_meta \<Rightarrow> sealer \<Rightarrow> bytes \<Rightarrow> bytes \<Rightarrow> bytes \<Rightarrow> bytes \<Rightarrow> bool" where
  "sealed_json E m s salt nonce body json \<longleftrightarrow>
     x_body_to_json E \<lparr>smb_meta = m, smb_content_salt = x_hex_encode E salt\<rparr> = Inr body
     \<and> (\<exists>j. x_file_to_json E (smf_new E (meta_id m)
           \<lparr>sm_nonce = nonce, sm_ciphertext = x_seal E (sl_meta s) nonce (meta_aad (meta_id m)) body\<rparr>) = Inr j
         \<and> json = j @ [10])"

lemma decode_sealed:
  assumes E: "fext_laws E" and m: "id_wf (meta_id m)" and salt: "length salt = CONTENT_SALT_LEN"
    and nonce: "length nonce = NONCE_LEN" and j: "sealed_json E m s salt nonce body json"
  shows "decode_meta E (meta_id m) json (Some s) = Inr (m, Some salt)"
proof -
  let ?sm = "\<lparr>sm_nonce = nonce, sm_ciphertext = x_seal E (sl_meta s) nonce (meta_aad (meta_id m)) body\<rparr>"
  let ?f = "smf_new E (meta_id m) ?sm"
  from j have b: "x_body_to_json E \<lparr>smb_meta = m, smb_content_salt = x_hex_encode E salt\<rparr> = Inr body"
    by (simp add: sealed_json_def)
  from j obtain j' where j': "x_file_to_json E ?f = Inr j'" "json = j' @ [10]"
    by (auto simp: sealed_json_def)
  note laws = fext_lawsD [OF E]
  have body: "x_body_of_json E body = Inr \<lparr>smb_meta = m, smb_content_salt = x_hex_encode E salt\<rparr>"
    using laws(5) b m unfolding json_laws_def by auto
  have sealed_file: "x_file_of_json E json = Inr ?f"
    using laws(5) j' m unfolding json_laws_def by (auto simp: smf_new_def)
  have "smf_to_sealed E ?f = Inr ?sm"
    by (rule smf_to_sealed_new [OF laws(1)]) (simp add: nonce)
  moreover have "open_meta E s (meta_id m) ?sm = Inr body"
    by (simp add: open_meta_iff laws)
  moreover have "smf_schema ?f = SEALED_SCHEMA" "smf_id ?f = meta_id m"
    by (simp_all add: smf_new_def)
  ultimately show ?thesis
    by (simp add: decode_meta_def sealed_file body decode_array_encode laws salt)
qed

lemma decode_plain:
  assumes "fext_laws E" "id_wf (meta_id m)" "x_meta_to_json E m = Inr j"
  shows "decode_meta E (meta_id m) (j @ [10]) None = Inr (m, None)"
  using assms fext_lawsD(5) [OF assms(1)] by (simp add: decode_meta_def json_laws_def)

text \<open>The encoders do not fail on the metadata of this item.\<close>

definition encodes :: "'z fext_scheme \<Rightarrow> item_meta \<Rightarrow> bool" where
  "encodes E m \<longleftrightarrow>
     is_ok (x_meta_to_json E m)
     \<and> (\<forall>salt. is_ok (x_body_to_json E \<lparr>smb_meta = m, smb_content_salt = salt\<rparr>))
     \<and> (\<forall>sealed. is_ok (x_file_to_json E (smf_new E (meta_id m) sealed)))"

lemma safe_random_bytes:
  assumes J: "stable S J" "\<And>u. J u \<Longrightarrow> I u" and v: "J v"
    and ok: "\<And>b. length b = n \<Longrightarrow> safe S I (g b) Q v"
    and err: "\<And>e. st_faulty S \<Longrightarrow> safe S I (Done (Inl (c e))) Q v"
  shows "safe S I (try_as c (random_bytes n) g) Q v"
  unfolding random_bytes_def prog_simps
proof (rule safe_call(12) [OF J v])
  fix r assume "random_spec (st_faulty S) n r"
  then show "safe S I (try_res c (map_err CRandom r) g) Q v"
    using ok err by (cases r) (auto simp: random_spec_def)
qed

lemma safe_seal_meta:
  assumes "stable S J" "\<And>u. J u \<Longrightarrow> I u" "J v"
    and "\<And>nonce. length nonce = NONCE_LEN \<Longrightarrow>
      safe S I (g \<lparr>sm_nonce = nonce, sm_ciphertext = x_seal E (sl_meta s) nonce (meta_aad i) plain\<rparr>) Q v"
    and "\<And>e. st_faulty S \<Longrightarrow> safe S I (Done (Inl (c e))) Q v"
  shows "safe S I (try_as c (seal_meta E s i plain) g) Q v"
  unfolding seal_meta_def random_bytes_def prog_simps
proof (rule safe_call(12) [OF assms(1-3)])
  fix r assume "random_spec (st_faulty S) NONCE_LEN r"
  then show "safe S I (try_as c (try_res (\<lambda>e. e) (map_err CRandom r)
      (\<lambda>nonce. Done (Inr \<lparr>sm_nonce = nonce, sm_ciphertext = x_seal E (sl_meta s) nonce (meta_aad i) plain\<rparr>))) g) Q v"
    using assms(4,5) by (cases r) (auto simp: random_spec_def prog_simps)
qed

text \<open>What the encoder may write, and that it fits the limit the reader puts on it.\<close>

definition encodings :: "'z fext_scheme \<Rightarrow> item_meta \<Rightarrow> (sealer \<times> bytes) option \<Rightarrow> bytes set" where
  "encodings E m sealing =
     (case sealing of
        None \<Rightarrow> {json. \<exists>j. x_meta_to_json E m = Inr j \<and> json = j @ [10]}
      | Some (s, salt) \<Rightarrow> {json. \<exists>nonce body. length nonce = NONCE_LEN \<and> sealed_json E m s salt nonce body json})"

definition fits :: "'z fext_scheme \<Rightarrow> sealer option \<Rightarrow> item_meta \<Rightarrow> bool" where
  "fits E sealer m \<longleftrightarrow>
     (\<forall>sealing. map_option fst sealing = sealer \<longrightarrow>
        (\<forall>s x. sealing = Some (s, x) \<longrightarrow> length x = CONTENT_SALT_LEN) \<longrightarrow>
        (\<forall>json \<in> encodings E m sealing. length json \<le> MAX_META_BYTES))"

definition encoded :: "'z fext_scheme \<Rightarrow> bool \<Rightarrow> item_meta \<Rightarrow> (sealer \<times> bytes) option \<Rightarrow> encode_error + bytes \<Rightarrow> bool" where
  "encoded E faulty m sealing r \<longleftrightarrow>
     (case r of
        Inr json \<Rightarrow> decode_meta E (meta_id m) json (map_option fst sealing) = Inr (m, map_option snd sealing)
          \<and> json \<in> encodings E m sealing
      | Inl e \<Rightarrow> faulty \<or> \<not> encodes E m)"

lemma safe_encode_meta:
  assumes E: "fext_laws E" and m: "id_wf (meta_id m)" and J: "stable S J" "\<And>u. J u \<Longrightarrow> I u" "J v"
    and salt: "\<And>s salt. sealing = Some (s, salt) \<Longrightarrow> length salt = CONTENT_SALT_LEN"
  shows "safe S I (encode_meta E m sealing) (\<lambda>r u. J u \<and> encoded E (st_faulty S) m sealing r) v"
proof -
  note fin = safe_done_pure [of S J I v "encoded E (st_faulty S) m sealing", OF J]
  have bad: "encoded E (st_faulty S) m sealing (Inl e)" if "\<not> encodes E m" for e
    using that by (simp add: encoded_def)
  have bad_body: "\<not> encodes E m"
    if "x_body_to_json E \<lparr>smb_meta = m, smb_content_salt = x\<rparr> = Inl e" for x e
    using that unfolding encodes_def by (metis is_ok_simps(1))
  have bad_file: "\<not> encodes E m" if "x_file_to_json E (smf_new E (meta_id m) x) = Inl e" for x e
    using that unfolding encodes_def by (metis is_ok_simps(1))
  have bad_random: "encoded E (st_faulty S) m sealing (Inl e)" if "st_faulty S" for e
    using that by (simp add: encoded_def)
  show ?thesis
  proof (cases sealing)
    case None
    have "encoded E (st_faulty S) m sealing (Inr (j @ [10]))" if "x_meta_to_json E m = Inr j" for j
      using decode_plain [OF E m that] None that by (simp add: encoded_def encodings_def)
    moreover have "\<not> encodes E m" if "x_meta_to_json E m = Inl e" for e
      using that by (simp add: encodes_def)
    ultimately show ?thesis
      unfolding encode_meta_def None option.case unfolding None [symmetric]
      by (intro safe_try_res fin) (auto intro: bad)
  next
    case (Some p)
    then obtain s salt where p: "sealing = Some (s, salt)" by (cases p) auto
    have good: "encoded E (st_faulty S) m sealing (Inr (j @ [10]))"
      if "x_body_to_json E \<lparr>smb_meta = m, smb_content_salt = x_hex_encode E salt\<rparr> = Inr body"
        "length nonce = NONCE_LEN"
        "x_file_to_json E (smf_new E (meta_id m)
           \<lparr>sm_nonce = nonce, sm_ciphertext = x_seal E (sl_meta s) nonce (meta_aad (meta_id m)) body\<rparr>) = Inr j"
      for body nonce j
      using decode_sealed [OF E m salt [OF p] that(2), of s body "j @ [10]"] that p
      by (auto simp: encoded_def sealed_json_def encodings_def)
    show ?thesis
      unfolding encode_meta_def p option.case prod.case unfolding p [symmetric]
      by (intro safe_try_res safe_seal_meta [OF J] fin)
        (assumption | erule bad_random | erule (2) good
          | rule bad, (erule bad_body | erule bad_file))+
  qed
qed

section \<open>Content\<close>

text \<open>What the copy keeps of the bytes that went by: their hash and their head.\<close>

definition kept_of :: "bytes \<Rightarrow> content_hasher \<times> bytes" where
  "kept_of b = (\<lparr>ch_inner = b, ch_size = of_nat (length b)\<rparr>, take PREVIEW_HEAD_BYTES b)"

lemma kept_of_Nil: "(hasher_new, []) = kept_of []"
  by (simp add: kept_of_def hasher_new_def)

lemma keep_chunk_kept_of [simp]: "keep_chunk c (kept_of b) = kept_of (b @ c)"
proof -
  have "take PREVIEW_HEAD_BYTES b @ take (min (PREVIEW_HEAD_BYTES - length (take PREVIEW_HEAD_BYTES b)) (length c)) c
      = take PREVIEW_HEAD_BYTES (b @ c)"
    by (cases "length b \<le> PREVIEW_HEAD_BYTES") (auto simp: min_def)
  then show ?thesis by (simp add: keep_chunk_def kept_of_def hasher_update_def)
qed

lemma finalize_kept_of: "hasher_finalize E (fst (kept_of b)) = digest_of E b"
  by (simp add: kept_of_def hasher_finalize_def digest_of_def)

text \<open>A copy in a private folder: on success the file holds the new bytes, otherwise something failed.\<close>

definition copied ::
  "setting \<Rightarrow> (fsview \<Rightarrow> bool) \<Rightarrow> string list \<Rightarrow> bool
   \<Rightarrow> ('a \<Rightarrow> (string list \<Rightarrow> vnode option) \<Rightarrow> bool) \<Rightarrow> 'e + 'a \<Rightarrow> fsview \<Rightarrow> bool" where
  "copied S I D excuse P r u \<longleftrightarrow>
     I u \<and> (case r of Inl _ \<Rightarrow> st_faulty S \<or> excuse | Inr x \<Rightarrow> \<exists>m'. tree_at u D m' \<and> P x m')"

lemma copied_Inl: "I u \<Longrightarrow> st_faulty S \<or> excuse \<Longrightarrow> copied S I D excuse P (Inl e) u"
  by (simp add: copied_def)

lemma safe_copied_Inl:
  "owns S I D \<Longrightarrow> I u \<Longrightarrow> st_faulty S \<or> excuse \<Longrightarrow> safe S I (Done (Inl e)) (copied S I D excuse P) u"
  by (rule safe_done [where J = I]) (auto simp: copied_def dest: ownsD(1))

lemma safe_copied_Inr:
  assumes "owns S I D" "I u" "tree_at u D m'" "P x m'"
  shows "safe S I (Done (Inr x)) (copied S I D excuse P) u"
  by (rule safe_done [OF owns_stable [OF assms(1), of m']]) (use assms in \<open>auto simp: copied_def\<close>)

lemma copy_plain_safe:
  assumes D: "owns S I D"
  shows "comps p = D @ s \<Longrightarrow> I v \<Longrightarrow> tree_at v D m \<Longrightarrow> m s = Some (VFile old) \<Longrightarrow>
    safe S I (copy_plain content p (kept_of b))
      (copied S I D (br_end content \<noteq> None)
        (\<lambda>kept m'. br_end content = None \<and> kept = kept_of (b @ br_bytes content)
           \<and> m' = m(s \<mapsto> VFile (old @ br_bytes content)))) v"
proof (induction content p "kept_of b" arbitrary: v m old b rule: copy_plain.induct)
  case (1 content p)
  show ?case
  proof (cases "rd_read COPY_CHUNK content")
    case (Pair res rest)
    note rd = rd_read_result [OF Pair]
    show ?thesis
    proof (cases res)
      case (Inl e)
      then show ?thesis
        using rd 1(3-) by (simp add: copy_plain.simps [of content] Pair safe_copied_Inl [OF D])
    next
      case (Inr chunk)
      show ?thesis
      proof (cases "chunk = []")
        case True
        with rd Inr have e: "br_bytes content = []" "br_end content = None"
          by (auto simp: COPY_CHUNK_def)
        have "m(s \<mapsto> VFile old) = m" using 1(5) by (simp add: fun_upd_idem)
        with True e Inr Pair show ?thesis
          by (simp add: copy_plain.simps [of content] safe_copied_Inr [OF D 1(3,4)])
      next
        case False
        from rd Inr have b: "br_bytes content = chunk @ br_bytes rest" "br_end rest = br_end content"
          by auto
        have ih: "safe S I (copy_plain rest p (kept_of (b @ chunk)))
          (copied S I D (br_end content \<noteq> None)
            (\<lambda>kept m'. br_end content = None \<and> kept = kept_of (b @ br_bytes content)
              \<and> m' = m(s \<mapsto> VFile (old @ br_bytes content)))) u"
          if "I u" "tree_at u D (m(s \<mapsto> VFile (old @ chunk)))" for u
          using 1(1) [OF Pair [symmetric] Inr False _ 1(2) that, of "b @ chunk" "old @ chunk"] b
          by (simp add: copied_def)
        show ?thesis
          unfolding copy_plain.simps [of content p] Pair Inr prod.case sum.case if_not_P [OF False]
            write_all_def prog_simps
          by (rule safe_write_all [OF D 1(2-5)])
            (use ih in \<open>auto simp: safe_copied_Inl [OF D]\<close>)
      qed
    qed
  qed
qed

text \<open>A buffer that is not full means that the stream has ended.\<close>

definition ends_if_short :: "bytes \<Rightarrow> box_read \<Rightarrow> bool" where
  "ends_if_short b rest \<longleftrightarrow>
     length b \<le> CHUNK_LEN \<and> (length b < CHUNK_LEN \<longrightarrow> br_bytes rest = [] \<and> br_end rest = None)"

lemma read_full_chunk:
  assumes "read_full CHUNK_LEN content [] = (res, rest)"
  shows "case res of
      Inl e \<Rightarrow> br_end content \<noteq> None
    | Inr b \<Rightarrow> br_bytes content = b @ br_bytes rest \<and> br_end rest = br_end content \<and> ends_if_short b rest"
  using read_full_result [OF assms]
  by (auto simp: ends_if_short_def split: if_splits option.splits)

lemma read_next_result:
  assumes "read_next current content = (res, rest)" "ends_if_short current content"
  shows "case res of
      Inl e \<Rightarrow> br_end content \<noteq> None
    | Inr b \<Rightarrow> br_bytes content = b @ br_bytes rest \<and> br_end rest = br_end content \<and> ends_if_short b rest"
  using assms read_full_chunk
  by (auto simp: read_next_def ends_if_short_def split: if_splits)

lemma chunks_of_short: "length b \<le> CHUNK_LEN \<Longrightarrow> chunks_of b = [b]"
  by (simp add: chunks_of.simps [of b])

lemma chunks_of_full:
  "length b = CHUNK_LEN \<Longrightarrow> r \<noteq> [] \<Longrightarrow> chunks_of (b @ r) = b # chunks_of r"
  by (simp add: chunks_of.simps [of "b @ r"])

lemma chunks_of_ne: "chunks_of b \<noteq> []"
  by (simp add: chunks_of.simps [of b])

lemma seal_chunks_Cons:
  "cs \<noteq> [] \<Longrightarrow> seal_chunks E k n (c # cs) = x_seal E k (record_nonce n False) [] c @ seal_chunks E k (n + 1) cs"
  by (cases cs) simp_all

lemma next_counter: "n \<noteq> - 1 \<Longrightarrow> unat (n + 1 :: u64) = unat n + 1"
proof -
  assume "n \<noteq> - 1"
  then have "1 + n \<noteq> 0" by (metis add.commute add_eq_0_iff2)
  from unatSuc [OF this] show ?thesis by (simp add: add.commute)
qed

text \<open>One sealed chunk.\<close>

lemma seal_chunk_next:
  assumes "\<not> cs_finished s" "ends_if_short current content" "br_bytes content = following @ br_bytes rest"
    "br_end rest = br_end content" "ends_if_short following rest"
  shows "cs_counter s \<noteq> - 1 \<and> seal_chunk E current (following = []) s =
      (Inr (x_seal E (cs_cipher s) (record_nonce (cs_counter s) (following = [])) [] current),
       s\<lparr>cs_counter := cs_counter s + 1, cs_finished := (following = [])\<rparr>)
    \<or> cs_counter s = - 1 \<and> (\<exists>e. seal_chunk E current (following = []) s = (Inl e, s))"
proof -
  have "length current \<le> CHUNK_LEN" "following \<noteq> [] \<Longrightarrow> length current = CHUNK_LEN"
    using assms by (auto simp: ends_if_short_def)
  then show ?thesis using assms(1) by (auto simp: seal_chunk_def Let_def)
qed

lemma copy_sealed_safe:
  assumes D: "owns S I D"
  shows "comps p = D @ s \<Longrightarrow> I v \<Longrightarrow> tree_at v D m \<Longrightarrow> m s = Some (VFile old) \<Longrightarrow>
    ends_if_short current content \<Longrightarrow> \<not> cs_finished sealing \<Longrightarrow>
    safe S I (copy_sealed E current content p sealing (kept_of b))
      (copied S I D
        (br_end content \<noteq> None
         \<or> 2 ^ 64 \<le> unat (cs_counter sealing) + length (chunks_of (current @ br_bytes content)))
        (\<lambda>kept m'. br_end content = None \<and> kept = kept_of (b @ current @ br_bytes content)
           \<and> m' = m(s \<mapsto> VFile (old @ seal_chunks E (cs_cipher sealing) (cs_counter sealing)
                                (chunks_of (current @ br_bytes content)))))) v"
proof (induction E current content p sealing "kept_of b" arbitrary: v m old b rule: copy_sealed.induct)
  case (1 E current content p sealing)
  note short = 1(6)
  show ?case
  proof (cases "read_next current content")
    case (Pair res rest)
    note rd = read_next_result [OF Pair short]
    show ?thesis
    proof (cases res)
      case (Inl e)
      then show ?thesis
        using rd 1(3-) by (simp add: copy_sealed.simps [of E current content] Pair safe_copied_Inl [OF D])
    next
      case (Inr following)
      with rd have b: "br_bytes content = following @ br_bytes rest" "br_end rest = br_end content"
        "ends_if_short following rest" by auto
      note unf = copy_sealed.simps [of E current content p] Pair Inr prod.case sum.case
      let ?rec = "x_seal E (cs_cipher sealing) (record_nonce (cs_counter sealing) (following = [])) [] current"
      let ?next = "sealing\<lparr>cs_counter := cs_counter sealing + 1, cs_finished := (following = [])\<rparr>"
      from seal_chunk_next [OF 1(7) short b] consider
          (sealed) "cs_counter sealing \<noteq> - 1" "seal_chunk E current (following = []) sealing = (Inr ?rec, ?next)"
        | (full) e where "cs_counter sealing = - 1" "seal_chunk E current (following = []) sealing = (Inl e, sealing)"
        by blast
      then show ?thesis
      proof cases
        case full
        have "unat (- 1 :: u64) = 2 ^ 64 - 1" by (simp add: unsigned_minus_1_eq_mask mask_eq_exp_minus_1)
        with full(1) chunks_of_ne [of "current @ br_bytes content"]
        have "2 ^ 64 \<le> unat (cs_counter sealing) + length (chunks_of (current @ br_bytes content))"
          by (cases "chunks_of (current @ br_bytes content)") auto
        then show ?thesis
          unfolding unf full(2) by (intro safe_copied_Inl [OF D 1(3)]) simp
      next
        case sealed
        show ?thesis
          unfolding unf sealed(2) write_all_def prog_simps
        proof (rule safe_write_all [OF D 1(2-5)])
          fix u assume u: "I u" "tree_at u D (m(s \<mapsto> VFile (old @ ?rec)))"
          show "safe S I (try_res CopyWrite (Inr ()) (\<lambda>_.
              if following = [] then Done (Inr (keep_chunk current (kept_of b)))
              else copy_sealed E following rest p ?next (keep_chunk current (kept_of b))))
            (copied S I D
              (br_end content \<noteq> None
               \<or> 2 ^ 64 \<le> unat (cs_counter sealing) + length (chunks_of (current @ br_bytes content)))
              (\<lambda>kept m'. br_end content = None \<and> kept = kept_of (b @ current @ br_bytes content)
                 \<and> m' = m(s \<mapsto> VFile (old @ seal_chunks E (cs_cipher sealing) (cs_counter sealing)
                                      (chunks_of (current @ br_bytes content)))))) u"
          proof (cases "following = []")
            case True
            then have "br_bytes content = []" "br_end content = None" "length current \<le> CHUNK_LEN"
              using b short by (auto simp: ends_if_short_def CHUNK_LEN_def)
            with True u show ?thesis
              by (simp add: safe_copied_Inr [OF D] chunks_of_short)
          next
            case False
            have full: "length current = CHUNK_LEN" using False b short by (auto simp: ends_if_short_def)
            have c: "chunks_of (current @ br_bytes content) = current # chunks_of (following @ br_bytes rest)"
              using chunks_of_full [OF full] False b by simp
            have "safe S I (copy_sealed E following rest p ?next (kept_of (b @ current)))
              (copied S I D
                (br_end rest \<noteq> None
                 \<or> 2 ^ 64 \<le> unat (cs_counter ?next) + length (chunks_of (following @ br_bytes rest)))
                (\<lambda>kept m'. br_end rest = None \<and> kept = kept_of ((b @ current) @ following @ br_bytes rest)
                   \<and> m' = m(s \<mapsto> VFile (old @ ?rec), s \<mapsto> VFile ((old @ ?rec) @ seal_chunks E (cs_cipher ?next)
                                (cs_counter ?next) (chunks_of (following @ br_bytes rest)))))) u"
              using 1(1) [OF Pair [symmetric] Inr sealed(2) [symmetric] refl False _ 1(2) u _ b(3),
                  of "b @ current" "old @ ?rec"] False by simp
            then show ?thesis
              using False b c next_counter [OF sealed(1)]
              by (simp add: seal_chunks_Cons chunks_of_ne copied_def)
          qed
        qed (auto intro: safe_copied_Inl [OF D])
      qed
    qed
  qed
qed

section \<open>A whole content file\<close>

text \<open>The bytes a store keeps for a content, and the salt that goes with them.\<close>

definition stored_as :: "'z cext_scheme \<Rightarrow> sealer option \<Rightarrow> bytes option \<Rightarrow> bytes \<Rightarrow> bytes \<Rightarrow> bool" where
  "stored_as E sealer salt b c \<longleftrightarrow>
     (case sealer of
        None \<Rightarrow> salt = None \<and> c = b
      | Some s \<Rightarrow> \<exists>x. salt = Some x \<and> length x = CONTENT_SALT_LEN \<and> c = sealing_of E (sl_key s) x (chunks_of b))"

lemma copied_post:
  assumes "safe S I m (copied S I D excuse P) v"
    and "\<And>x m'. P x m' \<Longrightarrow> P' x m'" and "excuse \<Longrightarrow> excuse'"
  shows "safe S I m (copied S I D excuse' P') v"
  by (rule safe_post [OF assms(1)]) (use assms(2,3) in \<open>auto simp: copied_def split: sum.splits\<close>)

text \<open>What follows a copy in the same folder.\<close>

lemma copied_then:
  fixes c :: "'e \<Rightarrow> 'f" and m :: "('e + 'a) prog"
  assumes D: "owns S I D" and "safe S I m (copied S I D excuse P) v"
    and "\<And>x m' u. I u \<Longrightarrow> tree_at u D m' \<Longrightarrow> P x m' \<Longrightarrow> safe S I (g x) (copied S I D excuse' P') u"
    and "excuse \<Longrightarrow> excuse'"
  shows "safe S I (try_as c m g) (copied S I D excuse' P') v"
proof (rule safe_then_try [OF assms(2) ownsD(1) [OF D]])
  fix e :: 'e and u assume "copied S I D excuse P (Inl e) u"
  then show "safe S I (Done (Inl (c e))) (copied S I D excuse' P') u"
    using assms(4) by (intro safe_copied_Inl [OF D]) (auto simp: copied_def)
next
  fix x u assume "copied S I D excuse P (Inr x) u"
  then show "safe S I (g x) (copied S I D excuse' P') u"
    using assms(3) by (auto simp: copied_def)
qed

lemma safe_shutdown_in:
  assumes D: "owns S I D" and v: "I v" "tree_at v D m"
    and ok: "\<And>u. I u \<Longrightarrow> tree_at u D m \<Longrightarrow> safe S I (g ()) (copied S I D excuse P) u"
  shows "safe S I (try_as c (shutdown p) g) (copied S I D excuse P) v"
  unfolding shutdown_def prog_simps
  by (rule safe_shutdown [OF owns_stable [OF D, of m]]) (use v ok in \<open>auto intro: safe_copied_Inl [OF D]\<close>)

text \<open>The end of a copy: the writer is shut down and the digest taken.\<close>

definition finish_copy ::
  "'z ext_scheme \<Rightarrow> remote_path \<Rightarrow> (content_hasher \<times> bytes) \<times> bytes option \<Rightarrow> (copy_error + written) prog" where
  "finish_copy E p = (\<lambda>(kept, salt). try_as CopyWrite (shutdown p) (\<lambda>_.
     Done (Inr \<lparr>wr_digest = hasher_finalize E (fst kept), wr_head = snd kept, wr_salt = salt\<rparr>)))"

lemma copy_content_eq:
  "copy_content E content p sealing =
     (case sealing of
        None \<Rightarrow> tryP (copy_plain content p (hasher_new, [])) (\<lambda>kept. finish_copy E p (kept, None))
      | Some s \<Rightarrow>
          try_as CopyWrite (write_all p (cs_header s)) (\<lambda>_.
          (case read_full CHUNK_LEN content [] of
             (Inl e, _) \<Rightarrow> Done (Inl (CopyRead e))
           | (Inr current, rest) \<Rightarrow>
               tryP (copy_sealed E current rest p s (hasher_new, []))
                 (\<lambda>kept. finish_copy E p (kept, Some (cs_salt s))))))"
proof -
  have assoc: "tryP (tryP m (\<lambda>x. Done (Inr (f x)))) g = tryP m (\<lambda>x. g (f x))" for m f g
    unfolding try_as_def bind_assoc by (rule arg_cong [of _ _ "bind m"]) (auto split: sum.splits)
  have wr: "tryP (try_as CopyWrite (write_all p b) h) g = try_as CopyWrite (write_all p b) (\<lambda>x. tryP (h x) g)" for b h g
    unfolding write_all_def prog_simps by (auto simp: try_res_def fun_eq_iff prog_simps split: sum.splits)
  show ?thesis
    unfolding copy_content_def finish_copy_def
    by (cases sealing) (auto simp: assoc wr prog_simps try_res_def fun_eq_iff split: sum.splits prod.splits)
qed

definition written_as ::
  "'z cext_scheme \<Rightarrow> sealer option \<Rightarrow> box_read \<Rightarrow> string list \<Rightarrow> (string list \<Rightarrow> vnode option)
   \<Rightarrow> written \<Rightarrow> (string list \<Rightarrow> vnode option) \<Rightarrow> bool" where
  "written_as E sealer content s m w m' \<longleftrightarrow>
     br_end content = None \<and> wr_digest w = digest_of E (br_bytes content)
     \<and> wr_head w = take PREVIEW_HEAD_BYTES (br_bytes content)
     \<and> (\<exists>c. stored_as E sealer (wr_salt w) (br_bytes content) c \<and> m' = m(s \<mapsto> VFile c))"

definition copy_excuse :: "box_read \<Rightarrow> bool" where
  "copy_excuse content \<longleftrightarrow> br_end content \<noteq> None \<or> 2 ^ 64 \<le> length (chunks_of (br_bytes content))"

lemma finish_copy_safe:
  assumes D: "owns S I D" and v: "I v" "tree_at v D (m(s \<mapsto> VFile c))"
    and c: "br_end content = None" "stored_as E sealer salt (br_bytes content) c"
  shows "safe S I (finish_copy E p (kept_of (br_bytes content), salt))
    (copied S I D excuse (written_as E sealer content s m)) v"
  unfolding finish_copy_def prod.case
proof (rule safe_shutdown_in [OF D v])
  fix u assume u: "I u" "tree_at u D (m(s \<mapsto> VFile c))"
  show "safe S I (Done (Inr \<lparr>wr_digest = hasher_finalize E (fst (kept_of (br_bytes content))),
      wr_head = snd (kept_of (br_bytes content)), wr_salt = salt\<rparr>))
    (copied S I D excuse (written_as E sealer content s m)) u"
    using c unfolding written_as_def finalize_kept_of
    by (intro safe_copied_Inr [OF D u]) (auto simp: kept_of_def)
qed

lemma copy_content_plain_safe:
  assumes D: "owns S I D" and p: "comps p = D @ s" and v: "I v" "tree_at v D m" "m s = Some (VFile [])"
  shows "safe S I (copy_content E content p None)
    (copied S I D (copy_excuse content) (written_as E None content s m)) v"
  unfolding copy_content_eq option.case kept_of_Nil
proof (rule copied_then [OF D copy_plain_safe [OF D p v]])
  fix kept m' u
  assume "I u" "tree_at u D m'"
    and "br_end content = None \<and> kept = kept_of ([] @ br_bytes content)
      \<and> m' = m(s \<mapsto> VFile ([] @ br_bytes content))"
  then show "safe S I (finish_copy E p (kept, None))
      (copied S I D (copy_excuse content) (written_as E None content s m)) u"
    using finish_copy_safe [OF D, of u m s "br_bytes content" content E None None p "copy_excuse content"]
    by (simp add: stored_as_def)
qed (simp add: copy_excuse_def)

lemma copy_content_sealed_safe:
  assumes D: "owns S I D" and p: "comps p = D @ s" and v: "I v" "tree_at v D m" "m s = Some (VFile [])"
    and x: "length x = CONTENT_SALT_LEN"
  shows "safe S I (copy_content E content p (Some (content_sealer_new (content_cipher E (sl_key sl) x) x)))
    (copied S I D (copy_excuse content) (written_as E (Some sl) content s m)) v"
proof -
  let ?cs = "content_sealer_new (content_cipher E (sl_key sl) x) x"
  have cs: "cs_salt ?cs = x" "cs_counter ?cs = 0" "\<not> cs_finished ?cs" "cs_cipher ?cs = content_cipher E (sl_key sl) x"
    by (simp_all add: content_sealer_new_def)
  show ?thesis
  proof (cases "read_full CHUNK_LEN content []")
    case (Pair res rest)
    note rd = read_full_chunk [OF Pair]
    show ?thesis
      unfolding copy_content_eq option.case Pair prod.case kept_of_Nil write_all_def prog_simps
    proof (rule safe_write_all [OF D p v])
      fix u assume u: "I u" "tree_at u D (m(s \<mapsto> VFile ([] @ cs_header ?cs)))"
      show "safe S I (try_res CopyWrite (Inr ()) (\<lambda>_.
          case res of Inl e \<Rightarrow> Done (Inl (CopyRead e))
          | Inr current \<Rightarrow> tryP (copy_sealed E current rest p ?cs (kept_of []))
              (\<lambda>kept. finish_copy E p (kept, Some (cs_salt ?cs)))))
        (copied S I D (copy_excuse content) (written_as E (Some sl) content s m)) u"
      proof (cases res)
        case (Inl e)
        then show ?thesis
          using rd u by (simp add: copy_excuse_def safe_copied_Inl [OF D])
      next
        case (Inr current)
        with rd have b: "br_bytes content = current @ br_bytes rest" "br_end rest = br_end content"
          "ends_if_short current rest" by auto
        have "safe S I (tryP (copy_sealed E current rest p ?cs (kept_of []))
              (\<lambda>kept. finish_copy E p (kept, Some x)))
          (copied S I D (copy_excuse content) (written_as E (Some sl) content s m)) u"
        proof (rule copied_then [OF D copy_sealed_safe [OF D p u _ b(3) cs(3)]])
          fix kept m' u'
          assume "I u'" "tree_at u' D m'" and h: "br_end rest = None \<and> kept = kept_of ([] @ current @ br_bytes rest)
            \<and> m' = m(s \<mapsto> VFile ([] @ cs_header ?cs), s \<mapsto> VFile (([] @ cs_header ?cs) @
                 seal_chunks E (cs_cipher ?cs) (cs_counter ?cs) (chunks_of (current @ br_bytes rest))))"
          then show "safe S I (finish_copy E p (kept, Some x))
              (copied S I D (copy_excuse content) (written_as E (Some sl) content s m)) u'"
            using finish_copy_safe [OF D, of u' m s "sealing_of E (sl_key sl) x (chunks_of (br_bytes content))" content E
                "Some sl" "Some x" p "copy_excuse content"] b x cs
            by (simp add: stored_as_def sealing_of_def cs_header_def)
        qed (use b cs in \<open>auto simp: copy_excuse_def\<close>)
        then show ?thesis using Inr cs(1) by simp
      qed
    qed (auto intro: safe_copied_Inl [OF D])
  qed
qed

lemma write_content_safe:
  assumes D: "owns S I D" and p: "comps p = D @ s" and v: "I v" "tree_at v D m" "m s = Some (VFile [])"
  shows "safe S I (write_content E content p sealer)
    (copied S I D (copy_excuse content) (written_as E sealer content s m)) v"
proof (cases sealer)
  case None
  then show ?thesis using copy_content_plain_safe [OF assms] by (simp add: write_content_def)
next
  case (Some sl)
  have assoc: "try_as CopyCrypto (tryP m (\<lambda>x. Done (Inr (f x)))) g = try_as CopyCrypto m (\<lambda>x. g (f x))" for m f g
    unfolding try_as_def bind_assoc by (rule arg_cong [of _ _ "bind m"]) (auto split: sum.splits)
  note J = owns_stable [OF D, of m]
  show ?thesis
    unfolding write_content_def Some option.case sealer_content_sealer_def assoc
    by (rule safe_random_bytes [OF J])
      (use v copy_content_sealed_safe [OF D p v] in \<open>auto intro: safe_copied_Inl [OF D]\<close>)
qed

end
