(* ===== verification/Sample_Json.thy ===== *)
theory Sample_Json
  imports Sample_Crates Header Format_Laws
begin

text \<open>
  A concrete encoding that satisfies the hypotheses about JSON, so that the witnesses can
  instantiate the parameters: numbers in binary, lists with their length. It is not JSON; only the
  laws matter.
\<close>

section \<open>Codecs\<close>

type_synonym 'a codec = "('a \<Rightarrow> bytes) \<times> (bytes \<Rightarrow> ('a \<times> bytes) option)"

definition codec_ok :: "'a codec \<Rightarrow> bool" where
  "codec_ok C \<longleftrightarrow> (\<forall>x r. snd C (fst C x @ r) = Some (x, r))"

lemma codec_okD [simp]: "codec_ok C \<Longrightarrow> snd C (fst C x @ r) = Some (x, r)"
  by (simp add: codec_ok_def)

fun enc_nat :: "nat \<Rightarrow> bytes" where
  "enc_nat n = (if n = 0 then [44] else (if n mod 2 = 1 then 49 else 48) # enc_nat (n div 2))"

declare enc_nat.simps [simp del]

fun dec_nat :: "bytes \<Rightarrow> (nat \<times> bytes) option" where
  "dec_nat [] = None"
| "dec_nat (b # r) =
     (if b = 44 then Some (0, r)
      else map_option (\<lambda>(n, r'). (2 * n + (if b = 49 then 1 else 0), r')) (dec_nat r))"

definition nat_codec :: "nat codec" where
  "nat_codec = (enc_nat, dec_nat)"

lemma nat_codec_ok: "codec_ok nat_codec"
proof -
  have "dec_nat (enc_nat n @ r) = Some (n, r)" for n r
  proof (induction n rule: enc_nat.induct)
    case (1 n)
    show ?case
    proof (cases "n = 0")
      case False
      have "2 * (n div 2) + (if n mod 2 = 1 then 1 else 0) = n" by presburger
      then show ?thesis using 1 False by (subst enc_nat.simps) (simp split: if_splits)
    qed (simp add: enc_nat.simps)
  qed
  then show ?thesis by (simp add: codec_ok_def nat_codec_def)
qed

definition iso_codec :: "('a \<Rightarrow> 'b) \<Rightarrow> ('b \<Rightarrow> 'a) \<Rightarrow> 'b codec \<Rightarrow> 'a codec" where
  "iso_codec f g C = (\<lambda>x. fst C (f x), \<lambda>b. map_option (\<lambda>(y, r). (g y, r)) (snd C b))"

lemma iso_codec_ok: "codec_ok C \<Longrightarrow> (\<And>x. g (f x) = x) \<Longrightarrow> codec_ok (iso_codec f g C)"
  by (simp add: codec_ok_def iso_codec_def)

definition pair_codec :: "'a codec \<Rightarrow> 'b codec \<Rightarrow> ('a \<times> 'b) codec" where
  "pair_codec A B =
     (\<lambda>(x, y). fst A x @ fst B y,
      \<lambda>b. case snd A b of None \<Rightarrow> None
          | Some (x, r) \<Rightarrow> map_option (\<lambda>(y, r'). ((x, y), r')) (snd B r))"

lemma pair_codec_ok: "codec_ok A \<Longrightarrow> codec_ok B \<Longrightarrow> codec_ok (pair_codec A B)"
  by (simp add: codec_ok_def pair_codec_def)

fun dec_many :: "'a codec \<Rightarrow> nat \<Rightarrow> bytes \<Rightarrow> ('a list \<times> bytes) option" where
  "dec_many C 0 b = Some ([], b)"
| "dec_many C (Suc n) b =
     (case snd C b of None \<Rightarrow> None
      | Some (x, r) \<Rightarrow> map_option (\<lambda>(xs, r'). (x # xs, r')) (dec_many C n r))"

definition list_codec :: "'a codec \<Rightarrow> 'a list codec" where
  "list_codec C =
     (\<lambda>xs. enc_nat (length xs) @ concat (map (fst C) xs),
      \<lambda>b. case dec_nat b of None \<Rightarrow> None | Some (n, r) \<Rightarrow> dec_many C n r)"

lemma list_codec_ok: "codec_ok C \<Longrightarrow> codec_ok (list_codec C)"
proof -
  assume C: "codec_ok C"
  have "dec_many C (length xs) (concat (map (fst C) xs) @ r) = Some (xs, r)" for xs r
    using C by (induction xs) simp_all
  moreover have "dec_nat (enc_nat n @ r) = Some (n, r)" for n r
    using nat_codec_ok by (simp add: codec_ok_def nat_codec_def)
  ultimately show ?thesis by (simp add: codec_ok_def list_codec_def)
qed

definition int_codec :: "int codec" where
  "int_codec =
     iso_codec (\<lambda>i. (if i < 0 then 1 else 0 :: nat, nat \<bar>i\<bar>)) (\<lambda>(s, n). if s = 1 then - int n else int n)
       (pair_codec nat_codec nat_codec)"

definition word_codec :: "'w::len word codec" where
  "word_codec = iso_codec unat of_nat nat_codec"

definition string_codec :: "string codec" where
  "string_codec = list_codec (iso_codec of_char char_of nat_codec)"

definition ustring_codec :: "ustring codec" where
  "ustring_codec = list_codec nat_codec"

definition option_codec :: "'a codec \<Rightarrow> 'a option codec" where
  "option_codec C =
     iso_codec (\<lambda>x. case x of None \<Rightarrow> [] | Some y \<Rightarrow> [y]) (\<lambda>xs. case xs of [] \<Rightarrow> None | y # _ \<Rightarrow> Some y)
       (list_codec C)"

lemma basic_codecs_ok:
  "codec_ok int_codec" "codec_ok (word_codec :: 'w::len word codec)" "codec_ok string_codec" "codec_ok ustring_codec"
  "codec_ok C \<Longrightarrow> codec_ok (option_codec C)"
  unfolding int_codec_def word_codec_def string_codec_def ustring_codec_def option_codec_def
  by (auto intro!: iso_codec_ok pair_codec_ok list_codec_ok nat_codec_ok split: option.splits)

lemmas codecs_ok = basic_codecs_ok pair_codec_ok list_codec_ok nat_codec_ok iso_codec_ok

section \<open>The serialised types\<close>

definition id_codec :: "item_id codec" where
  "id_codec =
     iso_codec (\<lambda>i. (id_repr i, id_secs i, key_str (id_key i))) (\<lambda>(r, s, k). ItemId r s (ContentKey k))
       (pair_codec string_codec (pair_codec word_codec string_codec))"

definition meta_fields where
  "meta_fields m =
     ((meta_schema m, meta_id m, if meta_kind m = KText then 0 else 1 :: nat),
      (meta_name m, meta_mime m, meta_size m), (meta_sha256 m, meta_created_at m, meta_device m),
      meta_preview m, if meta_origin m = None then 0 else 1 :: nat)"

definition meta_of_fields where
  "meta_of_fields =
     (\<lambda>((sch, i, k), (n, mi, si), (sha, cr, de), pr, src).
        \<lparr>meta_schema = sch, meta_id = i, meta_kind = if k = (0 :: nat) then KText else KFile,
         meta_name = n, meta_mime = mi, meta_size = si, meta_sha256 = sha, meta_created_at = cr,
         meta_device = de, meta_preview = pr,
         meta_origin = if src = (0 :: nat) then None else Some OClipboard\<rparr>)"

lemma meta_of_fields [simp]: "meta_of_fields (meta_fields m) = (m :: item_meta)"
  unfolding meta_of_fields_def meta_fields_def
  by (cases "meta_kind m"; cases "meta_origin m")
    (auto intro!: item_meta.equality, (metis item_origin.exhaust)+)

definition meta_codec :: "item_meta codec" where
  "meta_codec =
     iso_codec meta_fields meta_of_fields
       (pair_codec (pair_codec word_codec (pair_codec id_codec nat_codec))
         (pair_codec (pair_codec (option_codec ustring_codec) (pair_codec ustring_codec word_codec))
           (pair_codec (pair_codec string_codec (pair_codec int_codec ustring_codec))
             (pair_codec (option_codec ustring_codec) nat_codec))))"

definition file_codec :: "sealed_meta_file codec" where
  "file_codec =
     iso_codec (\<lambda>f. ((smf_schema f, smf_id f), smf_nonce f, smf_sealed f))
       (\<lambda>((s, i), n, c). \<lparr>smf_schema = s, smf_id = i, smf_nonce = n, smf_sealed = c\<rparr>)
       (pair_codec (pair_codec word_codec id_codec) (pair_codec string_codec string_codec))"

definition body_codec :: "sealed_meta_body codec" where
  "body_codec =
     iso_codec (\<lambda>b. (smb_meta b, smb_content_salt b)) (\<lambda>(m, s). \<lparr>smb_meta = m, smb_content_salt = s\<rparr>)
       (pair_codec meta_codec string_codec)"

definition header_codec :: "header_json codec" where
  "header_codec =
     iso_codec
       (\<lambda>h. (hj_format h, (hj_key_id h, kj_alg (hj_kdf h), kj_version (hj_kdf h), kj_m_kib (hj_kdf h)),
             (kj_t (hj_kdf h), kj_p (hj_kdf h), kj_salt (hj_kdf h)),
             wj_nonce (hj_wrapped_key h), wj_ciphertext (hj_wrapped_key h)))
       (\<lambda>(f, (k, a, v, m), (t, p, s), n, c).
          \<lparr>hj_format = f, hj_key_id = k,
           hj_kdf = \<lparr>kj_alg = a, kj_version = v, kj_m_kib = m, kj_t = t, kj_p = p, kj_salt = s\<rparr>,
           hj_wrapped_key = \<lparr>wj_nonce = n, wj_ciphertext = c\<rparr>\<rparr>)
       (pair_codec word_codec
         (pair_codec (pair_codec string_codec (pair_codec string_codec (pair_codec word_codec word_codec)))
           (pair_codec (pair_codec word_codec (pair_codec word_codec string_codec))
             (pair_codec string_codec string_codec))))"

lemma item_codecs_ok:
  "codec_ok id_codec" "codec_ok meta_codec" "codec_ok file_codec" "codec_ok body_codec" "codec_ok header_codec"
proof -
  show i: "codec_ok id_codec" unfolding id_codec_def by (intro codecs_ok) simp
  show m: "codec_ok meta_codec" unfolding meta_codec_def by (intro codecs_ok i) simp
  show "codec_ok file_codec" unfolding file_codec_def by (intro codecs_ok i) simp
  show "codec_ok body_codec" unfolding body_codec_def by (intro codecs_ok m) simp
  show "codec_ok header_codec" unfolding header_codec_def by (intro codecs_ok) simp
qed

section \<open>The instance\<close>

definition reading :: "'a codec \<Rightarrow> bytes \<Rightarrow> string + 'a" where
  "reading C b = (case snd C b of Some (x, _) \<Rightarrow> Inr x | None \<Rightarrow> Inl ''not valid'')"

lemma reading_back: "codec_ok C \<Longrightarrow> reading C (fst C x @ r) = Inr x"
  by (simp add: reading_def)

definition sample_hext :: hext where
  "sample_hext =
     \<lparr>x_sha256 = x_sha256 sample_cext, x_hex_encode = x_hex_encode sample_cext,
      x_hex_decode = x_hex_decode sample_cext, x_mime_guess = x_mime_guess sample_cext,
      x_clipboard_name = x_clipboard_name sample_cext, x_hkdf = x_hkdf sample_cext,
      x_hmac = x_hmac sample_cext, x_seal = x_seal sample_cext, x_open = x_open sample_cext,
      x_argon2_params = x_argon2_params sample_cext, x_argon2 = x_argon2 sample_cext,
      x_word_list = x_word_list sample_cext, x_to_lowercase = x_to_lowercase sample_cext,
      x_meta_to_json = (\<lambda>m. Inr (fst meta_codec m)), x_meta_of_json = reading meta_codec,
      x_file_to_json = (\<lambda>f. Inr (fst file_codec f)), x_file_of_json = reading file_codec,
      x_body_to_json = (\<lambda>b. Inr (fst body_codec b)), x_body_of_json = reading body_codec,
      x_header_to_json = fst header_codec, x_header_of_json = reading header_codec,
      x_format_of_json = (\<lambda>b. map_sum (\<lambda>e. e) hj_format (reading header_codec b))\<rparr>"

lemma sample_hext_laws: "fext_laws sample_hext" "header_laws sample_hext"
proof -
  have "hex_laws sample_hext" "sha256_laws sample_hext" "kdf_laws sample_hext" "aead_laws sample_hext"
    using sample_laws by (simp_all add: hex_laws_def sha256_laws_def kdf_laws_def aead_laws_def sample_hext_def)
  moreover have "json_laws sample_hext"
    using reading_back [OF item_codecs_ok(4), of _ "[]"]
    by (auto simp: json_laws_def sample_hext_def reading_back item_codecs_ok)
  ultimately show "fext_laws sample_hext" by (simp add: fext_laws_def)
  show "header_laws sample_hext"
    by (simp add: header_laws_def sample_hext_def reading_back item_codecs_ok)
qed

lemma sample_encodes: "encodes sample_hext m"
  by (simp add: encodes_def sample_hext_def)

end
