(* ===== verification/Fs_Store.thy ===== *)
theory Fs_Store
  imports Header
begin

text \<open>
  The store over a remote file system: \<^verbatim>\<open>passalong-core/src/store/fs_store.rs\<close>, each of its
  operations as a program over the calls it makes. Log lines are left out. What the operations
  guarantee is proved in the theories that follow.
\<close>

section \<open>The store\<close>

definition ITEMS_DIR :: string where "ITEMS_DIR = ''items''"
definition TMP_DIR :: string where "TMP_DIR = ''tmp''"
definition SEALED_ITEMS_DIR :: string where "SEALED_ITEMS_DIR = ''v2/items''"
definition SEALED_TMP_DIR :: string where "SEALED_TMP_DIR = ''v2/tmp''"
definition INCOMPLETE_GRACE_SECS :: int where "INCOMPLETE_GRACE_SECS = 5 * 60"
definition CONTENT_FILE :: string where "CONTENT_FILE = ''content''"
definition META_FILE :: string where "META_FILE = ''meta.json''"
definition MIN_PREFIX_LEN :: nat where "MIN_PREFIX_LEN = 4"

text \<open>
  The file system, clock and random source of the struct are the calls of the programs; what is
  left is how the store was opened.
\<close>

record fs_store =
  st_sealer :: "sealer option"
  st_guard :: bool
  st_plain_guard :: bool

definition store_new :: fs_store where
  "store_new = \<lparr>st_sealer = None, st_guard = False, st_plain_guard = False\<rparr>"

definition store_sealed :: "sealer \<Rightarrow> fs_store" where
  "store_sealed s = \<lparr>st_sealer = Some s, st_guard = False, st_plain_guard = False\<rparr>"

definition plain_guarded :: "fs_store \<Rightarrow> fs_store" where
  "plain_guarded st = st\<lparr>st_plain_guard := True\<rparr>"

definition guarded :: "fs_store \<Rightarrow> fs_store" where
  "guarded st = st\<lparr>st_guard := True\<rparr>"

definition corrupt :: "item_id \<Rightarrow> string \<Rightarrow> store_error" where
  "corrupt i reason = SeCorrupt (id_repr i) reason"

definition items_dir :: "fs_store \<Rightarrow> store_error + remote_path" where
  "items_dir st = map_err SeFs (rp_new (if st_sealer st \<noteq> None then SEALED_ITEMS_DIR else ITEMS_DIR))"

definition tmp_dir :: "fs_store \<Rightarrow> store_error + remote_path" where
  "tmp_dir st = map_err SeFs (rp_new (if st_sealer st \<noteq> None then SEALED_TMP_DIR else TMP_DIR))"

definition item_dir :: "fs_store \<Rightarrow> item_id \<Rightarrow> store_error + remote_path" where
  "item_dir st i = and_then (items_dir st) (\<lambda>items. map_err SeFs (rp_join items (id_repr i)))"

text \<open>A file in an item's folder: \<open>self.item_dir(id)?.join(name)?\<close>.\<close>

definition item_file :: "fs_store \<Rightarrow> item_id \<Rightarrow> string \<Rightarrow> store_error + remote_path" where
  "item_file st i name = and_then (item_dir st i) (\<lambda>dir. map_err SeFs (rp_join dir name))"

definition keyed :: "'z cext_scheme \<Rightarrow> fs_store \<Rightarrow> content_digest \<Rightarrow> content_key" where
  "keyed E st d =
     (case st_sealer st of Some s \<Rightarrow> sealer_content_key E s d | None \<Rightarrow> digest_content_key E d)"

definition store_key_id :: "fs_store \<Rightarrow> key_id option" where
  "store_key_id st = map_option sl_key_id (st_sealer st)"

text \<open>A token as the code prints it, \<^verbatim>\<open>{token:016x}\<close>.\<close>

definition token_name :: "u64 \<Rightarrow> string" where
  "token_name token = hex_pad 16 (unat token)"

section \<open>Guards\<close>

definition check_plain :: "(store_error + unit) prog" where
  "check_plain =
     try_res SeFs (rp_new REWRITE_DIR) (\<lambda>rewrite.
     try_as SeFs (Stat rewrite Done) (\<lambda>found.
     if found \<noteq> None then Done (Inl (SeEncryption (EnRewriting None))) else
     try_res SeFs (rp_new ENCRYPTION_DIR) (\<lambda>encryption.
     try_as SeFs (Stat encryption Done) (\<lambda>found.
     if found \<noteq> None then Done (Inl (SeEncryption EnNoKey)) else
     try_res SeFs (rp_new ITEMS_DIR) (\<lambda>items.
     try_as SeFs (Stat items Done) (\<lambda>found.
     if (case found of Some m \<Rightarrow> \<not> md_is_dir m | None \<Rightarrow> False)
     then Done (Inl (SeEncryption EnHeaderMissing))
     else Done (Inr ())))))))"

definition check_key :: "'z hext_scheme \<Rightarrow> fs_store \<Rightarrow> (store_error + unit) prog" where
  "check_key E st =
     (if st_plain_guard st then check_plain
      else (case (st_guard st, st_sealer st) of
              (True, Some s) \<Rightarrow>
                try_res SeFs (rp_new REWRITE_DIR) (\<lambda>rewrite.
                try_as SeFs (Stat rewrite Done) (\<lambda>found.
                if found \<noteq> None then Done (Inl (SeEncryption (EnRewriting None))) else
                tryP (read_header E) (\<lambda>header.
                case header of
                  None \<Rightarrow> Done (Inl (SeEncryption EnHeaderMissing))
                | Some h \<Rightarrow>
                    if header_key_id h \<noteq> sl_key_id s then Done (Inl (SeEncryption EnKeyChanged))
                    else Done (Inr ()))))
            | _ \<Rightarrow> Done (Inr ())))"

text \<open>\<open>retract\<close> answers nothing: every failure is only logged.\<close>

definition retract :: "fs_store \<Rightarrow> item_id \<Rightarrow> unit prog" where
  "retract st i =
     NextU64 (\<lambda>token.
     case (item_dir st i, tmp_dir st) of
       (Inr item, Inr tmp) \<Rightarrow>
         (case rp_join tmp (''retracted-'' @ id_repr i @ ''-'' @ token_name token) of
            Inr grave \<Rightarrow>
              Rename item grave (\<lambda>r.
                case r of
                  Inr _ \<Rightarrow> RemoveDirAll grave (\<lambda>_. Done ())
                | Inl _ \<Rightarrow> Done ())
          | Inl _ \<Rightarrow> Done ())
     | _ \<Rightarrow> Done ())"

section \<open>Reading items\<close>

definition unreadable :: "item_id \<Rightarrow> string \<Rightarrow> store_error prog" where
  "unreadable i reason =
     Now (\<lambda>now.
       Done (if now - INCOMPLETE_GRACE_SECS * 1000000000 < id_timestamp i
             then SeEncryption (EnIncomplete (id_repr i))
             else corrupt i reason))"

definition ids_in :: "dir_entry list \<Rightarrow> item_id list" where
  "ids_in entries =
     List.map_filter (\<lambda>e. case item_id_parse (de_name e) of Inr i \<Rightarrow> Some i | Inl _ \<Rightarrow> None)
       (filter de_is_dir entries)"

definition item_ids :: "fs_store \<Rightarrow> (store_error + item_id list) prog" where
  "item_ids st =
     try_res id (items_dir st) (\<lambda>items.
     ReadDir items (\<lambda>r.
       case r of
         Inr entries \<Rightarrow> Done (Inr (rev (sort (ids_in entries))))
       | Inl (FsNotFound _) \<Rightarrow> Done (Inr [])
       | Inl e \<Rightarrow> Done (Inl (SeFs e))))"

definition read_item ::
  "'z hext_scheme \<Rightarrow> fs_store \<Rightarrow> item_id \<Rightarrow> (store_error + item_meta \<times> bytes option) prog" where
  "read_item E st i =
     try_res id (item_file st i META_FILE) (\<lambda>path.
     try_as SeFs (OpenRead path Done) (\<lambda>reader.
     try_res (\<lambda>e. corrupt i (''reading meta.json: '' @ io_message e))
       (rd_take_to_end MAX_META_BYTES reader) (\<lambda>buf.
     case decode_meta E i buf (st_sealer st) of
       Inr found \<Rightarrow> Done (Inr found)
     | Inl (MetaCorrupt reason) \<Rightarrow> Done (Inl (corrupt i reason))
     | Inl (MetaUnopened reason) \<Rightarrow> bind (unreadable i reason) (\<lambda>e. Done (Inl e)))))"

definition read_meta :: "'z hext_scheme \<Rightarrow> fs_store \<Rightarrow> item_id \<Rightarrow> (store_error + item_meta) prog" where
  "read_meta E st i = tryP (read_item E st i) (\<lambda>found. Done (Inr (fst found)))"

text \<open>What every operation that names one item makes of a missing one.\<close>

definition missing_as_not_found :: "item_id \<Rightarrow> store_error \<Rightarrow> store_error" where
  "missing_as_not_found i e =
     (case e of SeFs (FsNotFound _) \<Rightarrow> SeNotFound (ustr (id_repr i)) | _ \<Rightarrow> e)"

fun list_from ::
  "'z hext_scheme \<Rightarrow> fs_store \<Rightarrow> item_id option \<Rightarrow> item_id list \<Rightarrow> item_meta list
   \<Rightarrow> (store_error + item_meta list) prog" where
  "list_from E st newer [] items = Done (Inr items)"
| "list_from E st newer (i # ids) items =
     (if (case newer of Some a \<Rightarrow> i \<le> a | None \<Rightarrow> False) then Done (Inr items)
      else bind (read_meta E st i) (\<lambda>r.
        case r of
          Inr m \<Rightarrow> list_from E st newer ids (items @ [m])
        | Inl (SeFs (FsNotFound _)) \<Rightarrow> list_from E st newer ids items
        | Inl (SeEncryption (EnIncomplete _)) \<Rightarrow> list_from E st newer ids items
        | Inl (SeCorrupt _ _) \<Rightarrow> list_from E st newer ids items
        | Inl e \<Rightarrow> Done (Inl e)))"

definition list_after ::
  "'z hext_scheme \<Rightarrow> fs_store \<Rightarrow> item_id option \<Rightarrow> (store_error + item_meta list) prog" where
  "list_after E st newer = tryP (item_ids st) (\<lambda>ids. list_from E st newer ids [])"

fun find_among ::
  "'z hext_scheme \<Rightarrow> fs_store \<Rightarrow> item_id list \<Rightarrow> (store_error + item_meta option) prog" where
  "find_among E st [] = Done (Inr None)"
| "find_among E st (i # ids) =
     bind (read_meta E st i) (\<lambda>r.
       case r of
         Inr m \<Rightarrow> Done (Inr (Some m))
       | Inl (SeFs (FsNotFound _)) \<Rightarrow> find_among E st ids
       | Inl (SeCorrupt _ _) \<Rightarrow> find_among E st ids
       | Inl (SeEncryption (EnIncomplete _)) \<Rightarrow> find_among E st ids
       | Inl e \<Rightarrow> Done (Inl e))"

definition find_by_content_key ::
  "'z hext_scheme \<Rightarrow> fs_store \<Rightarrow> content_key \<Rightarrow> (store_error + item_meta option) prog" where
  "find_by_content_key E st key =
     tryP (item_ids st) (\<lambda>ids. find_among E st (filter (\<lambda>i. id_key i = key) (rev ids)))"

section \<open>Storing items\<close>

definition copy_error_as :: "remote_path \<Rightarrow> copy_error \<Rightarrow> store_error" where
  "copy_error_as path e =
     (case e of
        CopyRead err \<Rightarrow> SeContent (io_message err)
      | CopyWrite err \<Rightarrow> SeFs (from_io path err)
      | CopyCrypto err \<Rightarrow> crypto_err err)"

definition store_content ::
  "'z fext_scheme \<Rightarrow> fs_store \<Rightarrow> box_read \<Rightarrow> remote_path
   \<Rightarrow> (store_error + content_digest \<times> bytes \<times> bytes option) prog" where
  "store_content E st content path =
     try_as SeFs (OpenWrite path Done) (\<lambda>_.
     try_as (copy_error_as path) (write_content E content path (st_sealer st)) (\<lambda>w.
     Done (Inr (wr_digest w, wr_head w, wr_salt w))))"

definition encode_error_as :: "item_id \<Rightarrow> encode_error \<Rightarrow> store_error" where
  "encode_error_as i e =
     (case e of
        EncodeCrypto err \<Rightarrow> crypto_err err
      | EncodeJson err \<Rightarrow> corrupt i (''encoding meta.json: '' @ err))"

definition write_meta ::
  "'z fext_scheme \<Rightarrow> fs_store \<Rightarrow> remote_path \<Rightarrow> item_meta \<Rightarrow> bytes option
   \<Rightarrow> (store_error + unit) prog" where
  "write_meta E st path m salt =
     (let sealing = (case (st_sealer st, salt) of (Some s, Some x) \<Rightarrow> Some (s, x) | _ \<Rightarrow> None) in
      try_as (encode_error_as (meta_id m)) (encode_meta E m sealing) (\<lambda>json.
      try_as SeFs (write_file path json) (\<lambda>_. Done (Inr ()))))"

definition stage_and_publish ::
  "'z hext_scheme \<Rightarrow> fs_store \<Rightarrow> new_item \<Rightarrow> box_read \<Rightarrow> remote_path \<Rightarrow> remote_path
   \<Rightarrow> (store_error + put_outcome) prog" where
  "stage_and_publish E st item content items staging =
     try_res SeFs (rp_join staging CONTENT_FILE) (\<lambda>content_path.
     tryP (store_content E st content content_path) (\<lambda>(digest, head, salt).
     let key = keyed E st digest in
     tryP (find_by_content_key E st key) (\<lambda>found.
     case found of
       Some existing \<Rightarrow> Done (Inr \<lparr>po_meta = existing, po_created = False\<rparr>)
     | None \<Rightarrow>
         (let head_preview = preview (ni_kind item) head in
          Now (\<lambda>now.
          try_res SeModel (finish_keyed E item now digest key head_preview) (\<lambda>m.
          try_res SeFs (rp_join staging META_FILE) (\<lambda>meta_path.
          tryP (write_meta E st meta_path m salt) (\<lambda>_.
          try_res SeFs (rp_join items (id_repr (meta_id m))) (\<lambda>target.
          Rename staging target (\<lambda>r.
            case r of
              Inr _ \<Rightarrow>
                bind (check_key E st) (\<lambda>checked.
                case checked of
                  Inl e \<Rightarrow> bind (retract st (meta_id m)) (\<lambda>_. Done (Inl e))
                | Inr _ \<Rightarrow> Done (Inr \<lparr>po_meta = m, po_created = True\<rparr>))
            | Inl (FsAlreadyExists _) \<Rightarrow>
                tryP (read_meta E st (meta_id m)) (\<lambda>existing.
                Done (Inr \<lparr>po_meta = existing, po_created = False\<rparr>))
            | Inl e \<Rightarrow> Done (Inl (SeFs e))))))))))))"

definition put ::
  "'z hext_scheme \<Rightarrow> fs_store \<Rightarrow> new_item \<Rightarrow> box_read \<Rightarrow> (store_error + put_outcome) prog" where
  "put E st item content =
     tryP (check_key E st) (\<lambda>_.
     try_res id (items_dir st) (\<lambda>items.
     try_res id (tmp_dir st) (\<lambda>tmp.
     try_as SeFs (CreateDirAll items Done) (\<lambda>_.
     try_as SeFs (CreateDirAll tmp Done) (\<lambda>_.
     NextU64 (\<lambda>token.
     try_res SeFs (rp_join tmp (token_name token)) (\<lambda>staging.
     try_as SeFs (CreateDirAll staging Done) (\<lambda>_.
     bind (stage_and_publish E st item content items staging) (\<lambda>result.
     RemoveDirAll staging (\<lambda>_. Done result))))))))))"

definition id_for :: "'z cext_scheme \<Rightarrow> fs_store \<Rightarrow> item_meta \<Rightarrow> store_error + item_id" where
  "id_for E st m =
     and_then (map_err (\<lambda>reason. corrupt (meta_id m) (''sha256: '' @ reason))
                (decode_array E 32 (meta_sha256 m))) (\<lambda>sha.
     map_err SeModel
       (item_id_new (meta_created_at m) (keyed E st \<lparr>cd_sha256 = sha, cd_size = meta_size m\<rparr>)))"

definition import_staged ::
  "'z hext_scheme \<Rightarrow> fs_store \<Rightarrow> item_meta \<Rightarrow> item_id \<Rightarrow> box_read \<Rightarrow> remote_path \<Rightarrow> remote_path
   \<Rightarrow> (store_error + item_meta) prog" where
  "import_staged E st m i content staging target =
     try_res SeFs (rp_join staging CONTENT_FILE) (\<lambda>content_path.
     tryP (store_content E st content content_path) (\<lambda>(digest, head, salt).
     if sha256_hex E digest \<noteq> meta_sha256 m \<or> cd_size digest \<noteq> meta_size m
     then Done (Inl (corrupt (meta_id m) ''its content does not match its SHA-256''))
     else
       (let copy = m\<lparr>meta_id := i\<rparr> in
        try_res SeFs (rp_join staging META_FILE) (\<lambda>meta_path.
        tryP (write_meta E st meta_path copy salt) (\<lambda>_.
        Rename staging target (\<lambda>r.
          case r of
            Inr _ \<Rightarrow> Done (Inr copy)
          | Inl (FsAlreadyExists _) \<Rightarrow> Done (Inr copy)
          | Inl e \<Rightarrow> Done (Inl (SeFs e))))))))"

definition import_item ::
  "'z hext_scheme \<Rightarrow> fs_store \<Rightarrow> item_meta \<Rightarrow> box_read \<Rightarrow> (store_error + item_meta) prog" where
  "import_item E st m content =
     try_res id (id_for E st m) (\<lambda>i.
     try_res id (item_dir st i) (\<lambda>target.
     try_as SeFs (Stat target Done) (\<lambda>found.
     if found \<noteq> None then read_meta E st i else
     try_res id (tmp_dir st) (\<lambda>tmp.
     try_res id (items_dir st) (\<lambda>items.
     try_as SeFs (CreateDirAll items Done) (\<lambda>_.
     try_as SeFs (CreateDirAll tmp Done) (\<lambda>_.
     NextU64 (\<lambda>token.
     try_res SeFs (rp_join tmp (token_name token)) (\<lambda>staging.
     try_as SeFs (CreateDirAll staging Done) (\<lambda>_.
     bind (import_staged E st m i content staging target) (\<lambda>result.
     RemoveDirAll staging (\<lambda>_. Done result))))))))))))"

section \<open>The other operations\<close>

text \<open>The reminder only looks; what it finds goes to the log.\<close>

definition remind_plain_left :: "fs_store \<Rightarrow> unit prog" where
  "remind_plain_left st =
     (if \<not> st_guard st then Done ()
      else
        (let look_tmp =
               (case rp_new TMP_DIR of Inr tmp \<Rightarrow> ReadDir tmp (\<lambda>_. Done ()) | Inl _ \<Rightarrow> Done ()) in
         case and_then (rp_new PLAIN_DIR) (\<lambda>plain. rp_join plain ITEMS_DIR) of
           Inr dir \<Rightarrow> ReadDir dir (\<lambda>_. look_tmp)
         | Inl _ \<Rightarrow> look_tmp))"

definition list_items :: "'z hext_scheme \<Rightarrow> fs_store \<Rightarrow> (store_error + item_meta list) prog" where
  "list_items E st =
     tryP (list_after E st None) (\<lambda>items. bind (remind_plain_left st) (\<lambda>_. Done (Inr items)))"

definition list_ids :: "'z hext_scheme \<Rightarrow> fs_store \<Rightarrow> (store_error + item_id list) prog" where
  "list_ids E st = tryP (check_key E st) (\<lambda>_. item_ids st)"

definition newest_id :: "fs_store \<Rightarrow> (store_error + item_id option) prog" where
  "newest_id st =
     tryP (item_ids st) (\<lambda>ids. Done (Inr (case ids of i # _ \<Rightarrow> Some i | [] \<Rightarrow> None)))"

definition get_item ::
  "'z hext_scheme \<Rightarrow> fs_store \<Rightarrow> item_id \<Rightarrow> (store_error + item_meta \<times> box_read) prog" where
  "get_item E st i =
     try_as (missing_as_not_found i) (read_item E st i) (\<lambda>(m, salt).
     try_res id (item_file st i CONTENT_FILE) (\<lambda>path.
     case (st_sealer st, salt) of
       (Some s, Some x) \<Rightarrow>
         (let expected = sealed_len (meta_size m) in
          try_as SeFs (Stat path Done) (\<lambda>found.
          case found of
            None \<Rightarrow> bind (unreadable i ''content is missing'') (\<lambda>e. Done (Inl e))
          | Some md \<Rightarrow>
              if md_size md < expected
              then bind (unreadable i ''content is too short'') (\<lambda>e. Done (Inl e))
              else try_as SeFs (OpenRead path Done)
                     (\<lambda>content. Done (Inr (m, open_item_content E s content x)))))
     | _ \<Rightarrow>
         OpenRead path (\<lambda>r.
           case r of
             Inr content \<Rightarrow> Done (Inr (m, content))
           | Inl (FsNotFound _) \<Rightarrow> Done (Inl (corrupt i ''content is missing''))
           | Inl e \<Rightarrow> Done (Inl (SeFs e)))))"

definition get_meta :: "'z hext_scheme \<Rightarrow> fs_store \<Rightarrow> item_id \<Rightarrow> (store_error + item_meta) prog" where
  "get_meta E st i = try_as (missing_as_not_found i) (read_meta E st i) (\<lambda>m. Done (Inr m))"

definition exists_item :: "fs_store \<Rightarrow> item_id \<Rightarrow> (store_error + bool) prog" where
  "exists_item st i =
     try_res id (item_file st i META_FILE) (\<lambda>path.
     try_as SeFs (Stat path Done) (\<lambda>found. Done (Inr (found \<noteq> None))))"

definition ascii_lowercase :: "ustring \<Rightarrow> ustring" where
  "ascii_lowercase s = map (\<lambda>c. if 65 \<le> c \<and> c \<le> 90 then c + 32 else c) s"

definition matching_ids :: "ustring \<Rightarrow> item_id list \<Rightarrow> item_id list" where
  "matching_ids needle ids =
     (let full_id = (of_char (CHR ''-'') :: nat) \<in> set needle in
      filter (\<lambda>i. starts_with (ustr (if full_id then id_repr i else key_str (id_key i))) needle) ids)"

definition resolve :: "fs_store \<Rightarrow> ustring \<Rightarrow> (store_error + item_id) prog" where
  "resolve st typed =
     (let input = trim_both is_whitespace typed; needle = ascii_lowercase input in
      if length needle < MIN_PREFIX_LEN then Done (Inl (SeInvalidPrefix input))
      else
        tryP (item_ids st) (\<lambda>ids.
        Done (case matching_ids needle ids of
                [] \<Rightarrow> Inl (SeNotFound input)
              | [i] \<Rightarrow> Inr i
              | candidates \<Rightarrow> Inl (SeAmbiguous input candidates))))"

definition delete_item :: "'z hext_scheme \<Rightarrow> fs_store \<Rightarrow> item_id \<Rightarrow> (store_error + item_meta) prog" where
  "delete_item E st i =
     tryP (check_key E st) (\<lambda>_.
     try_as (missing_as_not_found i) (read_meta E st i) (\<lambda>m.
     try_res id (tmp_dir st) (\<lambda>tmp.
     try_as SeFs (CreateDirAll tmp Done) (\<lambda>_.
     NextU64 (\<lambda>token.
     try_res SeFs (rp_join tmp (''deleted-'' @ id_repr i @ ''-'' @ token_name token)) (\<lambda>grave.
     try_res id (item_dir st i) (\<lambda>item.
     Rename item grave (\<lambda>r.
       case r of
         Inl e \<Rightarrow> Done (Inl (missing_as_not_found i (SeFs e)))
       | Inr _ \<Rightarrow> try_as SeFs (RemoveDirAll grave Done) (\<lambda>_. Done (Inr m))))))))))"

definition probe_content :: bytes where
  "probe_content =
     (let start = bstr (''passalong write probe'' @ [CHR 0x0A]) in
      start @ replicate (PROBE_BYTES - length start) 46)"

definition probe_write :: "fs_store \<Rightarrow> (store_error + write_probe) prog" where
  "probe_write st =
     try_res id (tmp_dir st) (\<lambda>tmp.
     try_as SeFs (CreateDirAll tmp Done) (\<lambda>_.
     NextU64 (\<lambda>token.
     try_res SeFs (rp_join tmp (''probe-'' @ token_name token)) (\<lambda>probe.
     try_as SeFs (CreateDirAll probe Done) (\<lambda>_.
     try_res SeFs (rp_join probe ''probe'') (\<lambda>file.
     bind (write_file file probe_content) (\<lambda>written.
     RemoveDirAll probe (\<lambda>removed.
       try_res SeFs written (\<lambda>_. try_res SeFs removed (\<lambda>_. Done (Inr Verified)))))))))))"

fun clean_entries ::
  "remote_path \<Rightarrow> datetime \<Rightarrow> dir_entry list \<Rightarrow> nat \<Rightarrow> (store_error + nat) prog" where
  "clean_entries tmp cutoff [] removed = Done (Inr removed)"
| "clean_entries tmp cutoff (e # es) removed =
     try_res SeFs (rp_join tmp (de_name e)) (\<lambda>path.
     try_as SeFs (Stat path Done) (\<lambda>found.
     if (case found of
           Some md \<Rightarrow> (case md_modified md of Some t \<Rightarrow> t < cutoff | None \<Rightarrow> False)
         | None \<Rightarrow> False)
     then try_as SeFs (RemoveDirAll path Done) (\<lambda>_. clean_entries tmp cutoff es (removed + 1))
     else clean_entries tmp cutoff es removed))"

definition clean_dir :: "remote_path \<Rightarrow> datetime \<Rightarrow> (store_error + nat) prog" where
  "clean_dir tmp cutoff =
     ReadDir tmp (\<lambda>r.
       case r of
         Inr entries \<Rightarrow> clean_entries tmp cutoff (filter de_is_dir entries) 0
       | Inl (FsNotFound _) \<Rightarrow> Done (Inr 0)
       | Inl e \<Rightarrow> Done (Inl (SeFs e)))"

text \<open>
  The age is in nanoseconds; \<open>min_utc\<close> is the earliest time chrono can name. An age beyond what
  \<open>TimeDelta\<close> holds, or a cutoff before \<open>min_utc\<close>, means nothing can be that old; the clock is
  read only in the first case's absence.
\<close>

definition clean_staging :: "datetime \<Rightarrow> fs_store \<Rightarrow> nat \<Rightarrow> (store_error + nat) prog" where
  "clean_staging min_utc st age =
     (if 9223372036854775807 * 1000000 < age then Done (Inr 0)
      else Now (\<lambda>now.
        if now - int age < min_utc then Done (Inr 0)
        else
          (let cutoff = now - int age in
           try_res id (tmp_dir st) (\<lambda>tmp.
           tryP (clean_dir tmp cutoff) (\<lambda>removed.
           if st_sealer st = None then Done (Inr removed)
           else
             try_res SeFs (rp_new TMP_DIR) (\<lambda>plain_tmp.
             tryP (clean_dir plain_tmp cutoff) (\<lambda>more. Done (Inr (removed + more)))))))))"

end
