(* ===== verification/Store_Inv.thy ===== *)
theory Store_Inv
  imports Fs_Store Format_Laws
begin

text \<open>
  What is stored, seen as files: where a store keeps its items, when an item is whole, and the
  invariant of a store. \<open>store_inv\<close> says that whatever stands under an item's name is a whole item
  whose metadata describes its content, that the items named \<open>N\<close> still are what they were, and that
  there are no items beside those named \<open>A\<close>. It does not look outside the items, so staging
  folders do not matter to it.
\<close>

section \<open>Paths\<close>

definition items_path :: "fs_store \<Rightarrow> string list" where
  "items_path st = (if st_sealer st \<noteq> None then [''v2'', ''items''] else [''items''])"

definition tmp_path :: "fs_store \<Rightarrow> string list" where
  "tmp_path st = (if st_sealer st \<noteq> None then [''v2'', ''tmp''] else [''tmp''])"

definition item_path :: "fs_store \<Rightarrow> item_id \<Rightarrow> string list" where
  "item_path st i = items_path st @ [id_repr i]"

named_theorems path_simps \<open>the paths the code builds\<close>

lemma valid_const [simp]:
  "\<not> invalid_component ''items''" "\<not> invalid_component ''tmp''" "\<not> invalid_component ''v2''"
  "\<not> invalid_component ''content''" "\<not> invalid_component ''meta.json''" "\<not> invalid_component ''encryption''"
  "\<not> invalid_component ''.rewrite''" "\<not> invalid_component ''header.json''" "\<not> invalid_component ''probe''"
  "\<not> invalid_component ''plain''"
  by (simp_all add: invalid_component_def)

lemma valid_paths [simp]: "valid_comps (items_path st)" "valid_comps (tmp_path st)"
  by (simp_all add: items_path_def tmp_path_def)

lemma hex_no_slash: "is_lower_hex_char c \<Longrightarrow> c \<noteq> CHR ''/'' \<and> c \<noteq> CHR 0x5C \<and> c \<noteq> CHR 0x00 \<and> c \<noteq> CHR ''.''"
  by (auto simp: is_lower_hex_char_def)

lemma valid_name:
  assumes "s \<noteq> []" "\<forall>c \<in> set s. is_lower_hex_char c \<or> c = CHR ''-''"
  shows "\<not> invalid_component s"
proof -
  have h: "c \<noteq> CHR ''/'' \<and> c \<noteq> CHR 0x5C \<and> c \<noteq> CHR 0x00 \<and> c \<noteq> CHR ''.''" if "c \<in> set s" for c
    using assms(2) hex_no_slash that by auto
  then have "s \<noteq> ''.''" "s \<noteq> ''..''" by auto
  with h assms(1) show ?thesis by (auto simp: invalid_component_def)
qed

lemma valid_prefixed:
  assumes "\<not> invalid_component p" "length p > 2" "\<forall>c \<in> set s. is_lower_hex_char c \<or> c = CHR ''-''"
  shows "\<not> invalid_component (p @ s)"
proof -
  have "length (p @ s) > 2" using assms(2) by simp
  then have ne: "p @ s \<noteq> []" "p @ s \<noteq> ''.''" "p @ s \<noteq> ''..''" by (metis length_greater_0_conv less_nat_zero_code list.size(3), fastforce, fastforce)
  have "\<forall>c \<in> set p. \<not> (c = CHR ''/'' \<or> c = CHR 0x5C \<or> c = CHR 0x00)"
    using assms(1) by (simp add: invalid_component_def)
  moreover have "\<forall>c \<in> set s. \<not> (c = CHR ''/'' \<or> c = CHR 0x5C \<or> c = CHR 0x00)"
    using assms(3) hex_no_slash by fastforce
  ultimately have "\<forall>c \<in> set (p @ s). \<not> (c = CHR ''/'' \<or> c = CHR 0x5C \<or> c = CHR 0x00)"
    by (simp add: ball_Un)
  with ne show ?thesis unfolding invalid_component_def by blast
qed

lemma valid_id [simp]: "id_wf i \<Longrightarrow> \<not> invalid_component (id_repr i)"
  using id_repr_chars [of i] by (intro valid_name) auto

lemma token_chars: "\<forall>c \<in> set (token_name t). is_lower_hex_char c \<or> c = CHR ''-''" "length (token_name t) = 16"
proof -
  have "unat t < 16 ^ 16" using unsigned_less [of t, where ?'a = nat] by simp
  then show "length (token_name t) = 16" by (simp add: token_name_def hex_pad_length)
  show "\<forall>c \<in> set (token_name t). is_lower_hex_char c \<or> c = CHR ''-''"
    using hex_pad_lower by (auto simp: token_name_def)
qed

lemma valid_token [simp]: "\<not> invalid_component (token_name t)"
  using token_chars [of t] by (intro valid_name) auto

lemma valid_graves [simp]:
  "id_wf i \<Longrightarrow> \<not> invalid_component (''retracted-'' @ id_repr i @ ''-'' @ token_name t)"
  "id_wf i \<Longrightarrow> \<not> invalid_component (''deleted-'' @ id_repr i @ ''-'' @ token_name t)"
  "\<not> invalid_component (''probe-'' @ token_name t)"
  using id_repr_chars [of i] token_chars(1) [of t]
  by (intro valid_prefixed; simp add: invalid_component_def; blast)+

lemma dirs_are [path_simps]:
  "items_dir st = Inr (rp_of (items_path st))" "tmp_dir st = Inr (rp_of (tmp_path st))"
  using rp_new_of [of "[''items'']"] rp_new_of [of "[''v2'', ''items'']"] rp_new_of [of "[''tmp'']"]
    rp_new_of [of "[''v2'', ''tmp'']"]
  by (simp_all add: items_dir_def tmp_dir_def items_path_def tmp_path_def ITEMS_DIR_def
      SEALED_ITEMS_DIR_def TMP_DIR_def SEALED_TMP_DIR_def slash_def)

lemma join_is [path_simps]:
  "valid_comps p \<Longrightarrow> \<not> invalid_component c \<Longrightarrow> rp_join (rp_of p) c = Inr (rp_of (p @ [c]))"
  by (simp add: rp_join_of)

lemma new_is [path_simps]:
  "rp_new ''items'' = Inr (rp_of [''items''])" "rp_new ''tmp'' = Inr (rp_of [''tmp''])"
  "rp_new ''encryption'' = Inr (rp_of [''encryption''])" "rp_new ''.rewrite'' = Inr (rp_of [''.rewrite''])"
  "rp_new ''plain'' = Inr (rp_of [''plain''])" "rp_new ''v2/tmp'' = Inr (rp_of [''v2'', ''tmp''])"
  using rp_new_of [of "[''items'']"] rp_new_of [of "[''tmp'']"] rp_new_of [of "[''encryption'']"]
    rp_new_of [of "[''.rewrite'']"] rp_new_of [of "[''plain'']"] rp_new_of [of "[''v2'', ''tmp'']"]
  by (simp_all add: slash_def)

lemma item_dir_is [path_simps]: "id_wf i \<Longrightarrow> item_dir st i = Inr (rp_of (item_path st i))"
  by (simp add: item_dir_def path_simps item_path_def)

lemma valid_item_path [simp]: "id_wf i \<Longrightarrow> valid_comps (item_path st i)"
  by (simp add: item_path_def)

lemma item_file_is [path_simps]:
  "id_wf i \<Longrightarrow> item_file st i META_FILE = Inr (rp_of (item_path st i @ [''meta.json'']))"
  "id_wf i \<Longrightarrow> item_file st i CONTENT_FILE = Inr (rp_of (item_path st i @ [''content'']))"
  by (simp_all add: item_file_def path_simps META_FILE_def CONTENT_FILE_def)

section \<open>Whole items\<close>

definition item_at :: "'z hext_scheme \<Rightarrow> fs_store \<Rightarrow> fsview \<Rightarrow> item_id \<Rightarrow> item_meta \<Rightarrow> bytes \<Rightarrow> bool" where
  "item_at E st v i m b \<longleftrightarrow>
     (\<exists>j c salt.
        v (item_path st i) = Some VDir
        \<and> v (item_path st i @ [''meta.json'']) = Some (VFile j) \<and> length j \<le> MAX_META_BYTES
        \<and> v (item_path st i @ [''content'']) = Some (VFile c)
        \<and> decode_meta E i j (st_sealer st) = Inr (m, salt) \<and> stored_as E (st_sealer st) salt b c)"

definition describes :: "'z cext_scheme \<Rightarrow> fs_store \<Rightarrow> item_id \<Rightarrow> item_meta \<Rightarrow> bytes \<Rightarrow> bool" where
  "describes E st i m b \<longleftrightarrow>
     meta_id m = i \<and> meta_sha256 m = sha256_hex E (digest_of E b) \<and> meta_size m = of_nat (length b)
     \<and> id_key i = keyed E st (digest_of E b)"

definition whole :: "'z hext_scheme \<Rightarrow> fs_store \<Rightarrow> fsview \<Rightarrow> item_id \<Rightarrow> bool" where
  "whole E st v i \<longleftrightarrow> (\<exists>m b. item_at E st v i m b \<and> describes E st i m b)"

definition store_ok :: "'z hext_scheme \<Rightarrow> fs_store \<Rightarrow> fsview \<Rightarrow> bool" where
  "store_ok E st v \<longleftrightarrow> (\<forall>i. id_wf i \<longrightarrow> v (item_path st i) \<noteq> None \<longrightarrow> whole E st v i)"

text \<open>Items stand in a folder.\<close>

definition items_in_dir :: "fs_store \<Rightarrow> fsview \<Rightarrow> bool" where
  "items_in_dir st v \<longleftrightarrow> (\<forall>n. v (items_path st @ [n]) \<noteq> None \<longrightarrow> v (items_path st) = Some VDir)"

lemma wf_items_in_dir: "fs_wf v \<Longrightarrow> items_in_dir st v"
  by (auto simp: items_in_dir_def fs_wf_def)

definition store_inv ::
  "'z hext_scheme \<Rightarrow> fs_store \<Rightarrow> string set \<Rightarrow> string set \<Rightarrow> fsview \<Rightarrow> fsview \<Rightarrow> bool" where
  "store_inv E st N A v0 u \<longleftrightarrow>
     store_ok E st u \<and> items_in_dir st u
     \<and> (\<forall>n \<in> N. \<forall>s. u (items_path st @ n # s) = v0 (items_path st @ n # s))
     \<and> (\<forall>n. u (items_path st @ [n]) \<noteq> None \<longrightarrow> n \<in> A)"

text \<open>Names that stand in the items folder.\<close>

definition names_in :: "fs_store \<Rightarrow> fsview \<Rightarrow> string set" where
  "names_in st v = {n. v (items_path st @ [n]) \<noteq> None}"

section \<open>The invariant does not look outside the items\<close>

lemma store_inv_cong:
  assumes inv: "store_inv E st N A v0 u"
    and same: "\<And>n s. u' (items_path st @ n # s) = u (items_path st @ n # s)"
    and dir: "u (items_path st) = Some VDir \<Longrightarrow> u' (items_path st) = Some VDir"
  shows "store_inv E st N A v0 u'"
proof -
  have "u' (item_path st i @ s) = u (item_path st i @ s)" for i s
    using same by (simp add: item_path_def)
  from this [of _ "[]"] this have "store_ok E st u' = store_ok E st u"
    by (simp add: store_ok_def whole_def item_at_def)
  moreover have "items_in_dir st u'"
    using inv same dir by (auto simp: store_inv_def items_in_dir_def)
  ultimately show ?thesis using inv by (simp add: store_inv_def same)
qed

lemma items_not_above:
  "\<not> is_under (items_path st @ n # s) (items_path st)" "\<not> is_under (items_path st @ n # s) (tmp_path st @ t)"
  "\<not> is_under (tmp_path st @ t) (items_path st @ n # s)"
  "\<not> is_under (items_path st @ n # s) (''tmp'' # t)" "\<not> is_under (''tmp'' # t) (items_path st @ n # s)"
  "\<not> is_under (tmp_path st @ t) (items_path st)" "\<not> is_under (''tmp'' # t) (items_path st)"
  by (auto simp: is_under_def items_path_def tmp_path_def)

lemma store_inv_mk_dirs:
  assumes "store_inv E st N A v0 u" "is_under q (items_path st) \<or> is_under q (tmp_path st @ t)"
  shows "store_inv E st N A v0 (mk_dirs q u)"
proof -
  have "\<not> is_under (items_path st @ n # s) q" for n s
    using assms(2) items_not_above(1) [of st n s] items_not_above(2) [of st n s t] under_trans by metis
  then have "mk_dirs q u (items_path st @ n # s) = u (items_path st @ n # s)" for n s
    by (simp add: mk_dirs_def)
  from store_inv_cong [OF assms(1) this] show ?thesis by (simp add: mk_dirs_def)
qed

lemma store_inv_outside:
  assumes "store_inv E st N A v0 u" "\<And>q. \<not> is_under (tmp_path st @ t) q \<Longrightarrow> u' q = u q"
  shows "store_inv E st N A v0 u'"
proof -
  have "u' (items_path st @ n # s) = u (items_path st @ n # s)" for n s
    by (rule assms(2)) (rule items_not_above)
  from store_inv_cong [OF assms(1) this] assms(2) [of "items_path st"] show ?thesis
    by (simp add: items_not_above)
qed

text \<open>Moving an item out of the items folder, and a whole one in.\<close>

lemma move_out:
  assumes "\<not> is_under b (items_path st @ n # s)"
  shows "move_tree (items_path st @ [x]) b u (items_path st @ n # s) =
    (if n = x then None else u (items_path st @ n # s))"
  using assms by (simp add: move_tree_def is_under_def)

lemma store_inv_move_out:
  assumes inv: "store_inv E st N A v0 u" and N: "id_repr i \<notin> N"
  shows "store_inv E st N (A - {id_repr i}) v0 (move_tree (item_path st i) (tmp_path st @ t) u)"
proof -
  let ?u = "move_tree (item_path st i) (tmp_path st @ t) u"
  have at: "?u (items_path st @ n # s) = (if n = id_repr i then None else u (items_path st @ n # s))" for n s
    unfolding item_path_def by (rule move_out) (rule items_not_above)
  have "?u (item_path st k @ s) = (if id_repr k = id_repr i then None else u (item_path st k @ s))" for k s
    using at [of "id_repr k" s] by (simp add: item_path_def)
  from this [of _ "[]"] this have "store_ok E st ?u"
    using inv by (auto simp: store_inv_def store_ok_def whole_def item_at_def)
  moreover have "?u (items_path st) = u (items_path st)"
    by (simp add: move_tree_def items_not_above item_path_def)
  ultimately show ?thesis using inv N at by (auto simp: store_inv_def items_in_dir_def)
qed

lemma store_inv_mono: "store_inv E st N A v0 u \<Longrightarrow> A \<subseteq> A' \<Longrightarrow> store_inv E st N A' v0 u"
  by (auto simp: store_inv_def)

lemma move_in:
  assumes "u b = None" "b = items_path st @ [x]" "\<not> is_under a (items_path st @ n # s)"
  shows "move_tree a b u (items_path st @ n # s) =
    (if n = x then u (a @ s) else u (items_path st @ n # s))"
  using assms by (simp add: move_tree_def is_under_def)

lemma store_inv_move_in:
  assumes inv: "store_inv E st N A v0 u" and can: "can_rename u D (item_path st i)"
    and D: "D = tmp_path st @ t" and w: "\<And>u'. (\<And>s. u' (item_path st i @ s) = u (D @ s)) \<Longrightarrow> whole E st u' i"
    and N: "N \<subseteq> names_in st v0" and A: "id_repr i \<in> A" and i: "id_wf i"
  shows "store_inv E st N A v0 (move_tree D (item_path st i) u) \<and> id_repr i \<notin> N"
proof -
  let ?u = "move_tree D (item_path st i) u"
  have fresh: "u (item_path st i) = None" using can by (simp add: can_rename_def)
  have at: "?u (items_path st @ n # s) = (if n = id_repr i then u (D @ s) else u (items_path st @ n # s))" for n s
    using move_in [of u "item_path st i" st "id_repr i" D n s] fresh
    by (simp add: D items_not_above item_path_def)
  have nN: "id_repr i \<notin> N"
    using inv N fresh by (auto simp: store_inv_def names_in_def item_path_def)
  have "whole E st ?u k" if k: "id_wf k" "?u (item_path st k) \<noteq> None" for k
  proof (cases "id_repr k = id_repr i")
    case True
    then have "k = i" using k(1) i id_repr_inj by blast
    then show ?thesis using w at by (simp add: item_path_def)
  next
    case False
    then have same: "?u (item_path st k @ s) = u (item_path st k @ s)" for s
      using at by (simp add: item_path_def)
    then have "whole E st u k"
      using inv k same [of "[]"] by (simp add: store_inv_def store_ok_def)
    then show ?thesis using same same [of "[]"] by (simp add: whole_def item_at_def)
  qed
  then have "store_ok E st ?u" by (simp add: store_ok_def)
  moreover have "?u (items_path st) = u (items_path st)" "u (items_path st) = Some VDir"
    using can by (simp_all add: move_tree_def items_not_above item_path_def D can_rename_def butlast_append)
  ultimately show ?thesis using inv nN A at by (auto simp: store_inv_def items_in_dir_def)
qed

end
