(* ===== verification/Store_Read.thy ===== *)
theory Store_Read
  imports Store_Inv
begin

text \<open>
  What the reading operations of a store answer while nobody changes the files: the identifiers in
  order, the metadata of the readable items, the oldest item with a content, the item a typed
  prefix names, an item's content.
\<close>

section \<open>Programs that only look, on files that stay\<close>

definition answers :: "bool \<Rightarrow> fsview \<Rightarrow> 'a prog \<Rightarrow> ('a \<Rightarrow> bool) \<Rightarrow> bool" where
  "answers F v m P \<longleftrightarrow> safe (alone F) (\<lambda>u. u = v) m (\<lambda>r u. P r) v"

lemma answers_simps [simp]:
  "answers F v (Done a) P \<longleftrightarrow> P a"
  "answers F v (ReadDir p k1) P \<longleftrightarrow> (\<forall>r. read_dir_spec F (comps p) v r \<longrightarrow> answers F v (k1 r) P)"
  "answers F v (OpenRead p k2) P \<longleftrightarrow> (\<forall>r. open_read_spec F (comps p) v r \<longrightarrow> answers F v (k2 r) P)"
  "answers F v (Stat p k3) P \<longleftrightarrow> (\<forall>r. stat_spec F (comps p) v r \<longrightarrow> answers F v (k3 r) P)"
  "answers F v (Now k4) P \<longleftrightarrow> (\<forall>t. answers F v (k4 t) P)"
  by (simp_all add: answers_def safe.simps)

lemma answers_mono: "answers F v m P \<Longrightarrow> (\<And>a. P a \<Longrightarrow> Q a) \<Longrightarrow> answers F v m Q"
  unfolding answers_def by (erule safe_post) blast

lemma answers_bind:
  assumes "answers F v m P" "\<And>a. P a \<Longrightarrow> answers F v (g a) Q"
  shows "answers F v (bind m g) Q"
  unfolding answers_def
  by (rule safe_bind [OF assms(1) [unfolded answers_def]]) (use assms(2) in \<open>auto simp: answers_def\<close>)

lemma answers_try:
  assumes "answers F v m P" "\<And>e. P (Inl e) \<Longrightarrow> Q (Inl (c e))" "\<And>x. P (Inr x) \<Longrightarrow> answers F v (g x) Q"
  shows "answers F v (try_as c m g) Q"
  unfolding try_as_def by (rule answers_bind [OF assms(1)]) (auto simp: assms(2,3) split: sum.splits)

lemma answers_try_res:
  "answers F v (try_res c r g) Q \<longleftrightarrow> (case r of Inl e \<Rightarrow> Q (Inl (c e)) | Inr x \<Rightarrow> answers F v (g x) Q)"
  by (simp add: try_res_def split: sum.splits)

text \<open>Such an answer is what the program gets in the middle of a larger one, in a quiet setting.\<close>

definition quiet :: "setting \<Rightarrow> bool" where
  "quiet S \<longleftrightarrow> st_others S = (=)"

lemma quiet_stable: "quiet S \<Longrightarrow> stable S J"
  by (simp add: quiet_def stable_def)

lemma answers_safe:
  assumes "answers (st_faulty S) v m P" "reads_only m" "quiet S" "I v"
  shows "safe S I m (\<lambda>r u. u = v \<and> P r) v"
  using assms
proof (induction m)
  case (Done a)
  then show ?case by (simp add: safe.simps quiet_def)
qed (auto simp: safe.simps quiet_def answers_def)

section \<open>Reading one item\<close>

definition meta_file :: "fs_store \<Rightarrow> item_id \<Rightarrow> string list" where
  "meta_file st i = item_path st i @ [''meta.json'']"

definition readable :: "'z hext_scheme \<Rightarrow> fs_store \<Rightarrow> fsview \<Rightarrow> item_id \<Rightarrow> (item_meta \<times> bytes option) option" where
  "readable E st v i =
     (case v (meta_file st i) of
        Some (VFile j) \<Rightarrow>
          (case decode_meta E i (take MAX_META_BYTES j) (st_sealer st) of Inr x \<Rightarrow> Some x | Inl _ \<Rightarrow> None)
      | _ \<Rightarrow> None)"

definition skipped :: "store_error \<Rightarrow> bool" where
  "skipped e \<longleftrightarrow> (\<exists>p. e = SeFs (FsNotFound p)) \<or> (\<exists>i. e = SeEncryption (EnIncomplete i)) \<or> (\<exists>i x. e = SeCorrupt i x)"

text \<open>
  An answer is the metadata in the file. Without faults (and unless a folder stands in the file's
  place) a readable item is answered, and one that is not is one of the three errors the listing
  skips; \<open>NotFound\<close> means the file is not there, faults or not.
\<close>

definition read_answer ::
  "bool \<Rightarrow> 'z hext_scheme \<Rightarrow> fs_store \<Rightarrow> fsview \<Rightarrow> item_id \<Rightarrow> store_error + (item_meta \<times> bytes option) \<Rightarrow> bool" where
  "read_answer F E st v i r \<longleftrightarrow>
     (case r of
        Inr x \<Rightarrow> readable E st v i = Some x
      | Inl e \<Rightarrow>
          ((\<exists>p. e = SeFs (FsNotFound p)) \<longrightarrow> v (meta_file st i) = None)
          \<and> (\<not> F \<and> v (meta_file st i) \<noteq> Some VDir \<longrightarrow> readable E st v i = None \<and> skipped e)
          \<and> (\<not> F \<and> v (meta_file st i) = None \<longrightarrow> (\<exists>p. e = SeFs (FsNotFound p))))"

lemma take_to_end_file:
  assumes "reads F rd (VFile j)"
  shows "rd_take_to_end n rd = Inr b \<Longrightarrow> b = take n j" "\<not> F \<Longrightarrow> rd_take_to_end n rd = Inr (take n j)"
  using assms
  by (auto simp: reads_def rd_take_to_end_def rd_to_end_def min_def split: option.splits if_splits)

lemma take_to_end_dir:
  assumes "reads F rd VDir" "0 < n"
  shows "\<exists>e. rd_take_to_end n rd = Inl e"
  using assms by (auto simp: reads_def rd_take_to_end_def rd_to_end_def br_bytes_def)

lemma read_item_answer:
  assumes i: "id_wf i"
  shows "answers F v (read_item E st i) (read_answer F E st v i)"
proof -
  have c: "comps (rp_of (item_path st i @ [''meta.json''])) = meta_file st i"
    using i by (simp add: meta_file_def)
  have n: "0 < MAX_META_BYTES" by (simp add: MAX_META_BYTES_def)
  have decoded: "answers F v
      (case decode_meta E i (take MAX_META_BYTES j) (st_sealer st) of
         Inr found \<Rightarrow> Done (Inr found)
       | Inl (MetaCorrupt reason) \<Rightarrow> Done (Inl (corrupt i reason))
       | Inl (MetaUnopened reason) \<Rightarrow> bind (unreadable i reason) (\<lambda>e. Done (Inl e)))
      (read_answer F E st v i)" if "v (meta_file st i) = Some (VFile j)" for j
    using that by (auto simp: read_answer_def readable_def skipped_def unreadable_def corrupt_def
        split: sum.splits meta_error.splits)
  show ?thesis
    unfolding read_item_def item_file_is [OF i] try_res_simps prog_simps answers_simps c
  proof (intro allI impI)
    fix r assume r: "open_read_spec F (meta_file st i) v r"
    show "answers F v (try_res SeFs r (\<lambda>reader.
        try_res (\<lambda>e. corrupt i (''reading meta.json: '' @ io_message e)) (rd_take_to_end MAX_META_BYTES reader)
          (\<lambda>buf. case decode_meta E i buf (st_sealer st) of
             Inr found \<Rightarrow> Done (Inr found)
           | Inl (MetaCorrupt reason) \<Rightarrow> Done (Inl (corrupt i reason))
           | Inl (MetaUnopened reason) \<Rightarrow> bind (unreadable i reason) (\<lambda>e. Done (Inl e)))))
      (read_answer F E st v i)"
    proof (cases r)
      case (Inl e)
      then show ?thesis using r
        by (cases e) (auto simp: answers_try_res read_answer_def open_read_spec_def readable_def skipped_def)
    next
      case (Inr rd)
      with r obtain node where node: "v (meta_file st i) = Some node" "reads F rd node"
        by (auto simp: open_read_spec_def)
      show ?thesis
      proof (cases node)
        case VDir
        then obtain e where "rd_take_to_end MAX_META_BYTES rd = Inl e"
          using node take_to_end_dir [OF _ n] by blast
        then show ?thesis using node Inr VDir by (simp add: answers_try_res read_answer_def corrupt_def)
      next
        case (VFile j)
        note rd = take_to_end_file [OF node(2) [unfolded VFile]]
        show ?thesis
        proof (cases "rd_take_to_end MAX_META_BYTES rd")
          case (Inl e)
          then show ?thesis using \<open>r = Inr rd\<close> rd(2) node VFile
            by (auto simp: answers_try_res read_answer_def corrupt_def)
        next
          case b: (Inr b)
          then show ?thesis using \<open>r = Inr rd\<close> rd(1) [OF b] decoded node VFile by simp
        qed
      qed
    qed
  qed
qed

lemma read_meta_answer:
  assumes "id_wf i"
  shows "answers F v (read_meta E st i)
    (\<lambda>r. \<exists>x. read_answer F E st v i x \<and> r = map_sum id fst x)"
  unfolding read_meta_def
  by (rule answers_try [OF read_item_answer [OF assms]]) (auto intro: exI [of _ "Inl _"] exI [of _ "Inr _"])

section \<open>Many items\<close>

definition listed :: "fs_store \<Rightarrow> fsview \<Rightarrow> item_id list \<Rightarrow> bool" where
  "listed st v ids \<longleftrightarrow>
     sorted_wrt (>) ids \<and> (\<forall>i. i \<in> set ids \<longleftrightarrow> id_wf i \<and> v (item_path st i) = Some VDir)"

lemma parse_iff: "item_id_parse s = Inr i \<longleftrightarrow> id_wf i \<and> s = id_repr i"
  using item_id_parse_wf item_id_parse_repr by blast

lemma ids_in_set:
  "i \<in> set (ids_in es) \<longleftrightarrow> (\<exists>e \<in> set es. de_is_dir e \<and> item_id_parse (de_name e) = Inr i)"
  by (force simp: ids_in_def List.map_filter_def split: sum.splits)

lemma distinct_ids_in: "distinct (map de_name es) \<Longrightarrow> distinct (ids_in es)"
proof (induction es)
  case (Cons e es)
  have "i \<notin> set (ids_in es)" if "item_id_parse (de_name e) = Inr i" for i
    using Cons.prems item_id_parse_wf [OF that] item_id_parse_wf
    by (auto simp: ids_in_set) (metis image_eqI)
  with Cons show ?case by (auto simp: ids_in_def List.map_filter_def split: sum.splits)
qed (simp add: ids_in_def List.map_filter_def)

lemma entries_distinct: "sorted_wrt (\<lambda>a b. de_name a < (de_name b :: string)) es \<Longrightarrow> distinct (map de_name es)"
  by (induction es) auto

lemma rev_sort_listed:
  assumes "entries_of v (items_path st) es"
  shows "listed st v (rev (sort (ids_in es)))"
proof -
  have d: "distinct (ids_in es)"
    using assms by (auto simp: entries_of_def intro: distinct_ids_in entries_distinct)
  have "sorted_wrt (<) (sort (ids_in es))"
    using d by (simp add: strict_sorted_iff)
  then have "sorted_wrt (>) (rev (sort (ids_in es)))" by (simp add: sorted_wrt_rev)
  moreover have "i \<in> set (ids_in es) \<longleftrightarrow> id_wf i \<and> v (item_path st i) = Some VDir" for i
  proof -
    have "i \<in> set (ids_in es) \<longleftrightarrow> id_wf i \<and> (\<exists>e \<in> set es. de_name e = id_repr i \<and> de_is_dir e = True)"
      by (auto simp: ids_in_set parse_iff)
    moreover have "(\<exists>e \<in> set es. de_name e = id_repr i \<and> de_is_dir e = True)
        \<longleftrightarrow> (\<exists>x. v (items_path st @ [id_repr i]) = Some x \<and> True = (x = VDir))"
      using assms unfolding entries_of_def by blast
    ultimately show ?thesis by (simp add: item_path_def)
  qed
  ultimately show ?thesis by (simp add: listed_def)
qed

definition ids_answer :: "bool \<Rightarrow> fs_store \<Rightarrow> fsview \<Rightarrow> store_error + item_id list \<Rightarrow> bool" where
  "ids_answer F st v r \<longleftrightarrow>
     (case r of
        Inr ids \<Rightarrow> listed st v ids
      | Inl e \<Rightarrow> (\<exists>x. e = SeFs x) \<and> (F \<or> (\<exists>b. v (items_path st) = Some (VFile b))))"

lemma item_ids_answer:
  assumes wf: "items_in_dir st v"
  shows "answers F v (item_ids st) (ids_answer F st v)"
proof -
  have none: "listed st v []" if "v (items_path st) = None"
    using wf that by (auto simp: listed_def item_path_def items_in_dir_def)
  have c: "comps (rp_of (items_path st)) = items_path st" by simp
  show ?thesis
    unfolding item_ids_def dirs_are try_res_simps answers_simps c
  proof (intro allI impI)
    fix r assume r: "read_dir_spec F (items_path st) v r"
    show "answers F v (case r of
          Inr entries \<Rightarrow> Done (Inr (rev (sort (ids_in entries))))
        | Inl (FsNotFound _) \<Rightarrow> Done (Inr [])
        | Inl e \<Rightarrow> Done (Inl (SeFs e)))
      (ids_answer F st v)"
    proof (cases r)
      case (Inl e)
      then show ?thesis using r none by (cases e) (auto simp: read_dir_spec_def ids_answer_def)
    next
      case (Inr es)
      then show ?thesis using r rev_sort_listed by (simp add: read_dir_spec_def ids_answer_def)
    qed
  qed
qed

text \<open>No folder stands where a metadata file should be.\<close>

definition metas_are_files :: "fs_store \<Rightarrow> fsview \<Rightarrow> bool" where
  "metas_are_files st v \<longleftrightarrow>
     (\<forall>i. id_wf i \<longrightarrow> v (item_path st i) = Some VDir \<longrightarrow> v (meta_file st i) \<noteq> Some VDir)"

text \<open>The metadata of the readable items among \<open>ids\<close>, in their order.\<close>

definition readable_metas :: "'z hext_scheme \<Rightarrow> fs_store \<Rightarrow> fsview \<Rightarrow> item_id list \<Rightarrow> item_meta list" where
  "readable_metas E st v ids = List.map_filter (\<lambda>i. map_option fst (readable E st v i)) ids"

lemma readable_metas_simps [simp]:
  "readable_metas E st v [] = []"
  "readable_metas E st v (i # ids) =
     (case readable E st v i of Some (m, s) \<Rightarrow> m # readable_metas E st v ids | None \<Rightarrow> readable_metas E st v ids)"
  by (simp_all add: readable_metas_def List.map_filter_def split: option.splits)

definition newer_than :: "item_id option \<Rightarrow> item_id \<Rightarrow> bool" where
  "newer_than newer i = (case newer of Some a \<Rightarrow> a < i | None \<Rightarrow> True)"

lemma newer_than_if: "(case newer of Some a \<Rightarrow> i \<le> a | None \<Rightarrow> False) \<longleftrightarrow> \<not> newer_than newer i"
  by (auto simp: newer_than_def split: option.splits)

lemma list_from_answer:
  shows "(\<forall>i \<in> set ids. id_wf i \<and> v (meta_file st i) \<noteq> Some VDir) \<Longrightarrow>
    answers False v (list_from E st newer ids items)
      (\<lambda>r. r = Inr (items @ readable_metas E st v (takeWhile (newer_than newer) ids)))"
proof (induction ids arbitrary: items)
  case (Cons i ids)
  show ?case
  proof (cases "newer_than newer i")
    case True
    have next_: "answers False v (list_from E st newer ids items')
        (\<lambda>r. r = Inr (items' @ readable_metas E st v (takeWhile (newer_than newer) ids)))" for items'
      using Cons by simp
    show ?thesis
      unfolding list_from.simps newer_than_if
    proof (simp only: True not_True_eq_False if_False, rule answers_bind [OF read_meta_answer])
      show "id_wf i" using Cons.prems by simp
      fix r assume "\<exists>x. read_answer False E st v i x \<and> r = map_sum id fst x"
      then obtain x where x: "read_answer False E st v i x" "r = map_sum id fst x" by blast
      show "answers False v (case r of
          Inr m \<Rightarrow> list_from E st newer ids (items @ [m])
        | Inl (SeFs (FsNotFound _)) \<Rightarrow> list_from E st newer ids items
        | Inl (SeEncryption (EnIncomplete _)) \<Rightarrow> list_from E st newer ids items
        | Inl (SeCorrupt _ _) \<Rightarrow> list_from E st newer ids items
        | Inl e \<Rightarrow> Done (Inl e))
        (\<lambda>r. r = Inr (items @ readable_metas E st v (takeWhile (newer_than newer) (i # ids))))"
      proof (cases x)
        case (Inl e)
        have "readable E st v i = None" "skipped e"
          using x(1) Cons.prems Inl by (simp_all add: read_answer_def)
        then show ?thesis
          unfolding x(2) Inl map_sum.simps id_apply
          using next_ [of items] True \<open>readable E st v i = None\<close> by (auto simp: skipped_def)
      next
        case (Inr p)
        then show ?thesis
          using x next_ [of "items @ [fst p]"] True by (cases p) (simp add: read_answer_def)
      qed
    qed
  next
    case False
    then show ?thesis by (simp add: newer_than_if)
  qed
qed simp

lemma list_after_answer:
  assumes "items_in_dir st v" "metas_are_files st v" "\<forall>b. v (items_path st) \<noteq> Some (VFile b)"
  shows "answers False v (list_after E st newer)
    (\<lambda>r. \<exists>ids. listed st v ids \<and> r = Inr (readable_metas E st v (takeWhile (newer_than newer) ids)))"
  unfolding list_after_def
proof (rule answers_try [OF item_ids_answer [OF assms(1)]])
  fix ids assume "ids_answer False st v (Inr ids)"
  then have l: "listed st v ids" by (simp add: ids_answer_def)
  then have "\<forall>i \<in> set ids. id_wf i \<and> v (meta_file st i) \<noteq> Some VDir"
    using assms(2) by (simp add: listed_def metas_are_files_def)
  from list_from_answer [OF this, of E newer "[]"] l
  show "answers False v (list_from E st newer ids [])
    (\<lambda>r. \<exists>ids. listed st v ids \<and> r = Inr (readable_metas E st v (takeWhile (newer_than newer) ids)))"
    by (auto elim!: answers_mono)
qed (use assms(3) in \<open>auto simp: ids_answer_def\<close>)

text \<open>
  The search answers only readable items with the key; without faults it answers the oldest one
  there is.
\<close>

definition found_among ::
  "bool \<Rightarrow> 'z hext_scheme \<Rightarrow> fs_store \<Rightarrow> fsview \<Rightarrow> item_id list \<Rightarrow> store_error + item_meta option \<Rightarrow> bool" where
  "found_among F E st v ids r \<longleftrightarrow>
     (case r of
        Inr (Some m) \<Rightarrow> \<exists>i \<in> set ids. \<exists>s. readable E st v i = Some (m, s)
      | _ \<Rightarrow> True)
     \<and> (\<not> F \<and> (\<forall>i \<in> set ids. v (meta_file st i) \<noteq> Some VDir) \<longrightarrow>
          r = Inr (case readable_metas E st v ids of [] \<Rightarrow> None | m # _ \<Rightarrow> Some m))"

lemma find_among_answer:
  "(\<forall>i \<in> set ids. id_wf i) \<Longrightarrow> answers F v (find_among E st ids) (found_among F E st v ids)"
proof (induction ids)
  case Nil
  then show ?case by (simp add: found_among_def)
next
  case (Cons i ids)
  then have ih: "answers F v (find_among E st ids) (found_among F E st v ids)" by simp
  have weaker: "found_among F E st v (i # ids) r"
    if "found_among F E st v ids r" "\<not> F \<and> v (meta_file st i) \<noteq> Some VDir \<longrightarrow> readable E st v i = None" for r
    using that by (auto simp: found_among_def split: sum.splits option.splits)
  show ?case
    unfolding find_among.simps
  proof (rule answers_bind [OF read_meta_answer])
    show "id_wf i" using Cons.prems by simp
    fix r assume "\<exists>x. read_answer F E st v i x \<and> r = map_sum id fst x"
    then obtain x where x: "read_answer F E st v i x" "r = map_sum id fst x" by blast
    show "answers F v (case r of
          Inr m \<Rightarrow> Done (Inr (Some m))
        | Inl (SeFs (FsNotFound _)) \<Rightarrow> find_among E st ids
        | Inl (SeCorrupt _ _) \<Rightarrow> find_among E st ids
        | Inl (SeEncryption (EnIncomplete _)) \<Rightarrow> find_among E st ids
        | Inl e \<Rightarrow> Done (Inl e)) (found_among F E st v (i # ids))"
    proof (cases x)
      case (Inr p)
      then show ?thesis using x by (cases p) (auto simp: read_answer_def found_among_def)
    next
      case (Inl e)
      have none: "\<not> F \<and> v (meta_file st i) \<noteq> Some VDir \<longrightarrow> readable E st v i = None \<and> skipped e"
        using x(1) Inl by (simp add: read_answer_def)
      show ?thesis
      proof (cases "skipped e")
        case True
        have "answers F v (find_among E st ids) (found_among F E st v (i # ids))"
          by (rule answers_mono [OF ih weaker]) (use none in auto)
        then show ?thesis
          unfolding x(2) Inl map_sum.simps id_apply using True by (auto simp: skipped_def)
      next
        case False
        have f: "found_among F E st v (i # ids) (Inl e)"
          using none False by (auto simp: found_among_def)
        show ?thesis
          unfolding x(2) Inl map_sum.simps id_apply
          using f False by (auto simp: skipped_def split: store_error.splits fs_error.splits encryption_error.splits)
      qed
    qed
  qed
qed

definition found_key ::
  "bool \<Rightarrow> 'z hext_scheme \<Rightarrow> fs_store \<Rightarrow> fsview \<Rightarrow> content_key \<Rightarrow> store_error + item_meta option \<Rightarrow> bool" where
  "found_key F E st v key r \<longleftrightarrow>
     (case r of
        Inl e \<Rightarrow> F \<or> \<not> metas_are_files st v \<or> (\<exists>b. v (items_path st) = Some (VFile b))
      | Inr None \<Rightarrow>
          \<not> F \<and> metas_are_files st v \<longrightarrow>
            (\<forall>i. id_wf i \<longrightarrow> v (item_path st i) = Some VDir \<longrightarrow> id_key i = key \<longrightarrow> readable E st v i = None)
      | Inr (Some m) \<Rightarrow>
          \<exists>i s. id_wf i \<and> v (item_path st i) = Some VDir \<and> id_key i = key \<and> readable E st v i = Some (m, s)
            \<and> (\<not> F \<and> metas_are_files st v \<longrightarrow>
                 (\<forall>k. id_wf k \<longrightarrow> v (item_path st k) = Some VDir \<longrightarrow> id_key k = key \<longrightarrow>
                    readable E st v k \<noteq> None \<longrightarrow> i \<le> k)))"

lemma readable_metas_none: "readable_metas E st v ids = [] \<longleftrightarrow> (\<forall>i \<in> set ids. readable E st v i = None)"
  by (induction ids) (auto split: option.splits)

lemma readable_metas_hd:
  "readable_metas E st v ids = m # ms \<Longrightarrow>
   \<exists>as i bs s. ids = as @ i # bs \<and> readable E st v i = Some (m, s) \<and> (\<forall>k \<in> set as. readable E st v k = None)"
proof (induction ids)
  case (Cons a ids)
  show ?case
  proof (cases "readable E st v a")
    case None
    with Cons obtain as i bs s where "ids = as @ i # bs" "readable E st v i = Some (m, s)"
      "\<forall>k \<in> set as. readable E st v k = None" by auto
    with None show ?thesis by (intro exI [of _ "a # as"] exI [of _ i] exI [of _ bs] exI [of _ s]) simp
  next
    case (Some p)
    with Cons.prems show ?thesis by (cases p) (intro exI [of _ "[]"], auto)
  qed
qed simp

lemma oldest_found:
  assumes l: "listed st v ids" and f: "found_among F E st v (filter (\<lambda>i. id_key i = key) (rev ids)) r"
  shows "case r of Inl e \<Rightarrow> F \<or> \<not> metas_are_files st v | _ \<Rightarrow> found_key F E st v key r"
proof -
  let ?ids = "filter (\<lambda>i. id_key i = key) (rev ids)"
  have mem: "i \<in> set ?ids \<longleftrightarrow> id_wf i \<and> v (item_path st i) = Some VDir \<and> id_key i = key" for i
    using l by (auto simp: listed_def)
  have "sorted_wrt (<) (rev ids)" using l by (simp add: listed_def sorted_wrt_rev)
  then have inc: "sorted_wrt (<) ?ids" by (rule sorted_wrt_filter)
  have calm: "r = Inr (case readable_metas E st v ?ids of [] \<Rightarrow> None | m # _ \<Rightarrow> Some m)"
    if "\<not> F" "metas_are_files st v"
    using f that mem by (auto simp: found_among_def metas_are_files_def)
  show ?thesis
  proof (cases "\<not> F \<and> metas_are_files st v")
    case True
    show ?thesis
    proof (cases "readable_metas E st v ?ids")
      case Nil
      then show ?thesis using calm True mem readable_metas_none [of E st v ?ids]
        by (simp add: found_key_def)
    next
      case (Cons m ms)
      from readable_metas_hd [OF Cons] obtain as i bs s where d: "?ids = as @ i # bs"
        "readable E st v i = Some (m, s)" "\<forall>k \<in> set as. readable E st v k = None" by blast
      have "i \<le> k" if "k \<in> set ?ids" "readable E st v k \<noteq> None" for k
        using that d inc by (auto simp: sorted_wrt_append)
      moreover have "i \<in> set ?ids" using d(1) by simp
      ultimately show ?thesis using calm True mem Cons d(2) by (auto simp: found_key_def)
    qed
  next
    case False
    then show ?thesis
      using f mem by (fastforce simp: found_among_def found_key_def split: sum.splits option.splits)
  qed
qed

lemma find_by_key_answer:
  assumes "items_in_dir st v"
  shows "answers F v (find_by_content_key E st key) (found_key F E st v key)"
  unfolding find_by_content_key_def
proof (rule answers_try [OF item_ids_answer [OF assms]])
  fix ids assume "ids_answer F st v (Inr ids)"
  then have l: "listed st v ids" by (simp add: ids_answer_def)
  then have wf: "\<forall>i \<in> set (filter (\<lambda>i. id_key i = key) (rev ids)). id_wf i" by (auto simp: listed_def)
  show "answers F v (find_among E st (filter (\<lambda>i. id_key i = key) (rev ids))) (found_key F E st v key)"
    by (rule answers_mono [OF find_among_answer [OF wf]])
      (use oldest_found [OF l] in \<open>force simp: found_key_def split: sum.splits\<close>)
qed (auto simp: found_key_def ids_answer_def)

section \<open>Typed prefixes\<close>

definition matches :: "fs_store \<Rightarrow> fsview \<Rightarrow> ustring \<Rightarrow> item_id \<Rightarrow> bool" where
  "matches st v needle i \<longleftrightarrow>
     id_wf i \<and> v (item_path st i) = Some VDir
     \<and> starts_with (ustr (if 45 \<in> set needle then id_repr i else key_str (id_key i))) needle"

definition resolved :: "bool \<Rightarrow> fs_store \<Rightarrow> fsview \<Rightarrow> ustring \<Rightarrow> store_error + item_id \<Rightarrow> bool" where
  "resolved F st v needle r \<longleftrightarrow>
     (case r of
        Inr i \<Rightarrow> {k. matches st v needle k} = {i}
      | Inl (SeNotFound _) \<Rightarrow> {k. matches st v needle k} = {}
      | Inl (SeAmbiguous _ candidates) \<Rightarrow>
          set candidates = {k. matches st v needle k} \<and> sorted_wrt (>) candidates \<and> 2 \<le> length candidates
      | Inl (SeInvalidPrefix _) \<Rightarrow> length needle < 4
      | Inl _ \<Rightarrow> F \<or> (\<exists>b. v (items_path st) = Some (VFile b)))"

lemma resolve_answer:
  assumes wf: "items_in_dir st v" and needle: "needle = ascii_lowercase (trim_both is_whitespace typed)"
  shows "answers F v (resolve st typed)
    (\<lambda>r. resolved F st v needle r \<and> (length needle < 4 \<longrightarrow> r = Inl (SeInvalidPrefix (trim_both is_whitespace typed))))"
proof (cases "length needle < 4")
  case True
  then show ?thesis by (simp add: resolve_def needle MIN_PREFIX_LEN_def resolved_def)
next
  case False
  have "answers F v (resolve st typed) (resolved F st v needle)"
    unfolding resolve_def Let_def MIN_PREFIX_LEN_def needle [symmetric] if_not_P [OF False]
  proof (rule answers_try [OF item_ids_answer [OF wf]])
    show "ids_answer F st v (Inl e) \<Longrightarrow> resolved F st v needle (Inl e)" for e
      by (auto simp: ids_answer_def resolved_def)
    fix ids assume "ids_answer F st v (Inr ids)"
    then have l: "listed st v ids" by (simp add: ids_answer_def)
    have set_: "set (matching_ids needle ids) = {k. matches st v needle k}"
      using l by (auto simp: matching_ids_def matches_def listed_def Let_def)
    have "sorted_wrt (>) (matching_ids needle ids)"
      using l by (simp add: matching_ids_def listed_def sorted_wrt_filter Let_def)
    then show "answers F v (Done (case matching_ids needle ids of
          [] \<Rightarrow> Inl (SeNotFound (trim_both is_whitespace typed)) | [i] \<Rightarrow> Inr i
        | candidates \<Rightarrow> Inl (SeAmbiguous (trim_both is_whitespace typed) candidates)))
      (resolved F st v needle)"
      unfolding resolved_def set_ [symmetric] by (auto split: list.splits)
  qed
  then show ?thesis using False by simp
qed

section \<open>An item's content\<close>

lemma length_sealing_of:
  assumes "aead_laws E" "length x = CONTENT_SALT_LEN"
  shows "length (sealing_of E k x (chunks_of b)) = 36 + length b + 16 * max 1 ((length b + 65535) div 65536)"
  using assms length_seal_chunks [OF assms(1), of "content_cipher E k x" 0 "chunks_of b"]
    chunks_of_valid [of b] length_chunks_of [of b]
  by (simp add: sealing_of_def CONTENT_MAGIC_def bstr_def CONTENT_SALT_LEN_def)

text \<open>What a stored content reads as: the content, or an error if the stream broke off.\<close>

lemma stored_reads:
  assumes E: "aead_laws E" and c: "stored_as E (Some s) (Some x) b c" and rd: "reads F rd (VFile c)"
  shows "(br_end (open_item_content E s rd x) = None \<longrightarrow> br_bytes (open_item_content E s rd x) = b)
    \<and> (\<not> F \<longrightarrow> br_end (open_item_content E s rd x) = None)"
proof -
  have x: "length x = 32" and c': "c = sealing_of E (sl_key s) x (chunks_of b)"
    using c by (auto simp: stored_as_def CONTENT_SALT_LEN_def)
  have whole: "open_item_content E s rd x = \<lparr>br_pieces = chunks_of b, br_end = None\<rparr>" if "br_end rd = None"
  proof -
    have "br_bytes rd = c" using rd that by (simp add: reads_def)
    then show ?thesis
      using open_item_content_sealing(1) [OF E _ x, of "chunks_of b" rd s] chunks_of_valid [of b] that c' by simp
  qed
  show ?thesis
  proof (cases "br_end rd")
    case None
    then show ?thesis using whole chunks_of_valid [of b] by (simp add: br_bytes_def)
  next
    case (Some e)
    then have "F" using rd by (auto simp: reads_def)
    moreover have "br_end (open_item_content E s rd x) \<noteq> None"
      using open_item_content_opened [OF E _ x, of s rd] Some by auto
    ultimately show ?thesis by blast
  qed
qed

definition got :: "bool \<Rightarrow> item_meta \<Rightarrow> bytes \<Rightarrow> store_error + item_meta \<times> box_read \<Rightarrow> bool" where
  "got F m b r \<longleftrightarrow>
     (case r of
        Inr (m', rd) \<Rightarrow> m' = m \<and> (br_end rd = None \<longrightarrow> br_bytes rd = b) \<and> (\<not> F \<longrightarrow> br_end rd = None)
      | Inl _ \<Rightarrow> F)"

lemma whole_readable:
  assumes "item_at E st v i m b"
  shows "\<exists>salt c. readable E st v i = Some (m, salt) \<and> v (item_path st i @ [''content'']) = Some (VFile c)
    \<and> stored_as E (st_sealer st) salt b c \<and> v (meta_file st i) \<noteq> Some VDir"
  using assms by (auto simp: item_at_def readable_def meta_file_def)

lemma get_item_answer:
  assumes E: "fext_laws E" and i: "id_wf i" and at: "item_at E st v i m b" and size: "meta_size m = of_nat (length b)"
    and small: "length b < 2 ^ 62"
  shows "answers F v (get_item E st i) (got F m b)"
proof -
  from whole_readable [OF at] obtain salt c where r: "readable E st v i = Some (m, salt)"
    and c: "v (item_path st i @ [''content'']) = Some (VFile c)" "stored_as E (st_sealer st) salt b c"
    and mf: "v (meta_file st i) \<noteq> Some VDir" by blast
  have aead: "aead_laws E" using fext_lawsD(4) [OF E] .
  have p: "comps (rp_of (item_path st i @ [''content''])) = item_path st i @ [''content'']" using i by simp
  have fail: "got F m b (Inl e)" if "read_answer F E st v i (Inl e')" for e e'
    using that r mf by (auto simp: read_answer_def got_def)
  have fail': "F" if "open_read_spec F (item_path st i @ [''content'']) v (Inl e')" for e'
    using that c by (cases e') (auto simp: open_read_spec_def)
  have opened: "reads F rd (VFile c)" if "open_read_spec F (item_path st i @ [''content'']) v (Inr rd)" for rd
    using that c by (auto simp: open_read_spec_def)
  show ?thesis
    unfolding get_item_def
  proof (rule answers_try [OF read_item_answer [OF i]], rule fail, assumption)
    fix x assume x: "read_answer F E st v i (Inr x)"
    then have x': "x = (m, salt)" using r by (simp add: read_answer_def)
    show "answers F v (case x of (m, salt) \<Rightarrow> try_res id (item_file st i CONTENT_FILE) (\<lambda>path.
       case (st_sealer st, salt) of
         (Some s, Some x) \<Rightarrow>
           (let expected = sealed_len (meta_size m) in
            try_as SeFs (Stat path Done) (\<lambda>found.
            case found of
              None \<Rightarrow> bind (unreadable i ''content is missing'') (\<lambda>e. Done (Inl e))
            | Some md \<Rightarrow>
                if md_size md < expected
                then bind (unreadable i ''content is too short'') (\<lambda>e. Done (Inl e))
                else try_as SeFs (OpenRead path Done)
                       (\<lambda>content. Done (Inr (m, open_item_content E s content x)))))
       | _ \<Rightarrow>
           OpenRead path (\<lambda>r.
             case r of
               Inr content \<Rightarrow> Done (Inr (m, content))
             | Inl (FsNotFound _) \<Rightarrow> Done (Inl (corrupt i ''content is missing''))
             | Inl e \<Rightarrow> Done (Inl (SeFs e))))) (got F m b)"
    proof (cases "st_sealer st")
      case None
      then have "c = b" "salt = None" using c(2) by (auto simp: stored_as_def)
      then have rd: "(br_end rd = None \<longrightarrow> br_bytes rd = b) \<and> (\<not> F \<longrightarrow> br_end rd = None)"
        if "open_read_spec F (item_path st i @ [''content'']) v (Inr rd)" for rd
        using opened [OF that] by (auto simp: reads_def split: option.splits)
      then show ?thesis
        unfolding x' using None fail' rd
        by (auto simp: path_simps i p got_def split: sum.splits fs_error.splits)
    next
      case (Some s)
      then obtain x where sx: "salt = Some x" "length x = CONTENT_SALT_LEN"
        and c': "c = sealing_of E (sl_key s) x (chunks_of b)" "stored_as E (Some s) (Some x) b c"
        using c(2) by (auto simp: stored_as_def)
      have n: "unat (sealed_len (of_nat (length b))) = length c"
        using sealed_len_value [OF small] length_sealing_of [OF aead sx(2), of "sl_key s" b] c' by simp
      then have long: "\<not> md_size md < sealed_len (meta_size m)"
        if "stat_spec F (item_path st i @ [''content'']) v (Inr (Some md))" for md
        using that c(1) size by (simp add: stat_spec_def n [symmetric])
      have rd: "(br_end (open_item_content E s rd x) = None \<longrightarrow> br_bytes (open_item_content E s rd x) = b)
          \<and> (\<not> F \<longrightarrow> br_end (open_item_content E s rd x) = None)"
        if "open_read_spec F (item_path st i @ [''content'']) v (Inr rd)" for rd
        by (rule stored_reads [OF aead c'(2) opened [OF that]])
      show ?thesis
        unfolding x' prod.case Some sx option.case item_file_is [OF i] try_res_simps prog_simps Let_def answers_simps p
        using long c(1) rd fail'
        by (auto simp: answers_try_res prog_simps p got_def stat_spec_def split: sum.splits option.splits)
    qed
  qed
qed

end
