(* ===== verification/Store_Write.thy ===== *)
theory Store_Write
  imports Store_Read
begin

text \<open>
  The operations of a store that write. Whatever fails on the way and whatever other clients do
  (as long as they keep the store whole and leave this client's staging folders alone), each of
  them keeps the invariant of the store at every moment: an item is there whole or not at all.
\<close>

section \<open>What an operation may assume of other clients\<close>

definition client ::
  "'z hext_scheme \<Rightarrow> fs_store \<Rightarrow> string set \<Rightarrow> string set \<Rightarrow> fsview \<Rightarrow> setting \<Rightarrow> bool" where
  "client E st N A v0 S \<longleftrightarrow>
     stable S (store_inv E st N A v0)
     \<and> (\<forall>t s u u'. st_tokens S t \<longrightarrow> st_others S u u' \<longrightarrow>
          u' (tmp_path st @ token_name t # s) = u (tmp_path st @ token_name t # s))"

lemma quiet_client: "quiet S \<Longrightarrow> client E st N A v0 S"
  by (simp add: client_def quiet_stable quiet_def)

text \<open>
  The invariant while an item is being stored: also, in a quiet setting, that the items folder is
  there, and that a guarded store still passes its check if it did (\<open>G\<close>).
\<close>

definition guard_ok :: "'z hext_scheme \<Rightarrow> fs_store \<Rightarrow> fsview \<Rightarrow> bool" where
  "guard_ok E st u \<longleftrightarrow>
     (if st_plain_guard st
      then u [''.rewrite''] = None \<and> u [''encryption''] = None \<and> (\<forall>b. u [''items''] \<noteq> Some (VFile b))
      else st_guard st \<longrightarrow>
        (\<forall>s. st_sealer st = Some s \<longrightarrow>
           u [''.rewrite''] = None
           \<and> (\<exists>j h. u [''encryption'', ''header.json''] = Some (VFile j)
                \<and> header_parse E (take MAX_HEADER_BYTES j) = Inr h \<and> header_key_id h = sl_key_id s)))"

definition put_inv ::
  "'z hext_scheme \<Rightarrow> fs_store \<Rightarrow> string set \<Rightarrow> string set \<Rightarrow> fsview \<Rightarrow> setting \<Rightarrow> bool \<Rightarrow> fsview \<Rightarrow> bool" where
  "put_inv E st N A v0 S G u \<longleftrightarrow>
     store_inv E st N A v0 u
     \<and> (quiet S \<longrightarrow> u (items_path st) = Some VDir \<and> (G \<longrightarrow> guard_ok E st u))"

lemma put_inv_store_inv: "put_inv E st N A v0 S G u \<Longrightarrow> store_inv E st N A v0 u"
  by (simp add: put_inv_def)

lemma stable_put_inv: "client E st N A v0 S \<Longrightarrow> stable S (put_inv E st N A v0 S G)"
  unfolding client_def stable_def put_inv_def quiet_def by auto

text \<open>The folders the guard looks at are neither items nor staging.\<close>

lemma guard_ok_cong:
  assumes "guard_ok E st u" "\<And>q. hd q \<in> {''.rewrite'', ''encryption''} \<Longrightarrow> u' q = u q"
    and "st_sealer st = None \<Longrightarrow> \<forall>b. u' [''items''] \<noteq> Some (VFile b)" "st_plain_guard st \<longrightarrow> st_sealer st = None"
  shows "guard_ok E st u'"
  using assms(1,3,4) assms(2) [of "[''.rewrite'']"] assms(2) [of "[''encryption'']"]
    assms(2) [of "[''encryption'', ''header.json'']"]
  by (auto simp: guard_ok_def)

lemma tmp_not_guarded: "hd q \<in> {''.rewrite'', ''encryption''} \<Longrightarrow> \<not> is_under (tmp_path st @ t) q"
  by (cases q) (auto simp: is_under_def tmp_path_def)

lemma put_inv_outside:
  assumes inv: "put_inv E st N A v0 S G u" and same: "\<And>q. \<not> is_under (tmp_path st @ t) q \<Longrightarrow> u' q = u q"
    and plain: "st_plain_guard st \<longrightarrow> st_sealer st = None"
  shows "put_inv E st N A v0 S G u'"
proof -
  have i: "u' (items_path st) = u (items_path st)" by (rule same) (rule items_not_above)
  have "guard_ok E st u'" if "guard_ok E st u" "u (items_path st) = Some VDir"
    by (rule guard_ok_cong [OF that(1) same [OF tmp_not_guarded] _ plain])
      (use i that(2) in \<open>auto simp: items_path_def\<close>)
  then show ?thesis
    using inv store_inv_outside [of E st N A v0 u t u'] same i by (simp add: put_inv_def)
qed

lemma put_inv_move_out:
  assumes inv: "put_inv E st N A v0 S G u" and N: "id_repr i \<notin> N"
    and plain: "st_plain_guard st \<longrightarrow> st_sealer st = None"
  shows "put_inv E st N A v0 S G (move_tree (item_path st i) (tmp_path st @ t) u)"
proof -
  let ?u = "move_tree (item_path st i) (tmp_path st @ t) u"
  have i: "?u (items_path st) = u (items_path st)"
    by (simp add: move_tree_def items_not_above item_path_def)
  have "\<not> is_under (item_path st i) q" if "hd q \<in> {''.rewrite'', ''encryption''}" for q
    using that by (cases q) (auto simp: is_under_def item_path_def items_path_def)
  then have "?u q = u q" if "hd q \<in> {''.rewrite'', ''encryption''}" for q
    using tmp_not_guarded [OF that, of st t] that by (simp add: move_tree_def)
  then have "guard_ok E st ?u" if "guard_ok E st u" "u (items_path st) = Some VDir"
    by (rule guard_ok_cong [OF that(1) _ _ plain]) (use i that(2) in \<open>auto simp: items_path_def\<close>)
  then show ?thesis
    using inv store_inv_mono [OF store_inv_move_out [OF put_inv_store_inv [OF inv] N]] i
    by (auto simp: put_inv_def)
qed

lemma put_inv_move_in:
  assumes inv: "put_inv E st N A v0 S G u" and can: "can_rename u D (item_path st i)"
    and D: "D = tmp_path st @ t" and w: "\<And>u'. (\<And>s. u' (item_path st i @ s) = u (D @ s)) \<Longrightarrow> whole E st u' i"
    and N: "N \<subseteq> names_in st v0" and A: "id_repr i \<in> A" and i: "id_wf i"
    and plain: "st_plain_guard st \<longrightarrow> st_sealer st = None"
  shows "put_inv E st N A v0 S G (move_tree D (item_path st i) u) \<and> id_repr i \<notin> N"
proof -
  let ?u = "move_tree D (item_path st i) u"
  have ip: "?u (items_path st) = u (items_path st)"
    by (simp add: move_tree_def items_not_above item_path_def D)
  have "\<not> is_under (item_path st i) q" if "hd q \<in> {''.rewrite'', ''encryption''}" for q
    using that by (cases q) (auto simp: is_under_def item_path_def items_path_def)
  then have "?u q = u q" if "hd q \<in> {''.rewrite'', ''encryption''}" for q
    using tmp_not_guarded [OF that, of st t] that by (simp add: move_tree_def D)
  then have "guard_ok E st ?u" if "guard_ok E st u" "u (items_path st) = Some VDir"
    by (rule guard_ok_cong [OF that(1) _ _ plain]) (use ip that(2) in \<open>auto simp: items_path_def\<close>)
  then show ?thesis
    using inv store_inv_move_in [OF put_inv_store_inv [OF inv] can D w N A i] ip by (auto simp: put_inv_def)
qed

lemma owns_staging:
  assumes c: "client E st N A v0 S" and t: "st_tokens S t" and plain: "st_plain_guard st \<longrightarrow> st_sealer st = None"
  shows "owns S (put_inv E st N A v0 S G) (tmp_path st @ [token_name t])"
  unfolding owns_def
  using stable_put_inv [OF c] put_inv_outside [of E st N A v0 S G _ "[token_name t]"] plain c t
  by (auto simp: client_def)

section \<open>Files in a private folder\<close>

text \<open>The folder is there and no folder stands where the file goes.\<close>

definition room_for :: "(string list \<Rightarrow> vnode option) \<Rightarrow> string \<Rightarrow> bool" where
  "room_for m x \<longleftrightarrow> m [] = Some VDir \<and> m [x] \<noteq> Some VDir"

lemma write_file_at:
  assumes D: "owns S I D" and p: "comps p = D @ s" "s \<noteq> []" and v: "I v" "tree_at v D m"
  shows "safe S I (write_file p b)
    (copied S I D (m (butlast s) \<noteq> Some VDir \<or> m s = Some VDir) (\<lambda>_ m'. m' = m(s \<mapsto> VFile b))) v"
    (is "safe S I _ (copied S I D ?excuse ?P) v")
  unfolding write_file_def prog_simps
proof (rule safe_open_write [OF D p v])
  fix u assume u: "I u" "tree_at u D (m(s \<mapsto> VFile []))"
  show "safe S I (try_res (\<lambda>e. e) (Inr ()) (\<lambda>_. WriteAll p b (\<lambda>r. try_res (from_io p) r
      (\<lambda>_. Shutdown p (\<lambda>r. try_res (from_io p) r (\<lambda>_. Done (Inr ()))))))) (copied S I D ?excuse ?P) u"
    unfolding try_res_simps
  proof (rule safe_write_all [OF D p(1) u])
    fix w assume w: "I w" "tree_at w D (m(s \<mapsto> VFile [], s \<mapsto> VFile ([] @ b)))"
    show "safe S I (try_res (from_io p) (Inr ())
        (\<lambda>_. Shutdown p (\<lambda>r. try_res (from_io p) r (\<lambda>_. Done (Inr ()))))) (copied S I D ?excuse ?P) w"
      unfolding try_res_simps
      by (rule safe_shutdown [OF owns_stable [OF D, of "m(s \<mapsto> VFile b)"]])
        (use w in \<open>auto intro: safe_copied_Inl [OF D] safe_copied_Inr [OF D]\<close>)
  qed (auto intro: safe_copied_Inl [OF D])
next
  fix e u assume "st_faulty S \<or> m (butlast s) \<noteq> Some VDir \<or> m s = Some VDir" "I u"
  then show "safe S I (try_res (\<lambda>e. e) (Inl e) (\<lambda>_. WriteAll p b (\<lambda>r. try_res (from_io p) r
      (\<lambda>_. Shutdown p (\<lambda>r. try_res (from_io p) r (\<lambda>_. Done (Inr ()))))))) (copied S I D ?excuse ?P) u"
    by (auto intro: safe_copied_Inl [OF D])
qed

lemma write_file_safe:
  assumes D: "owns S I D" and p: "comps p = D @ [x]" and v: "I v" "tree_at v D m"
  shows "safe S I (write_file p b)
    (copied S I D (\<not> room_for m x) (\<lambda>_ m'. m' = m([x] \<mapsto> VFile b))) v"
  by (rule safe_post [OF write_file_at [OF D p _ v]]) (auto simp: room_for_def copied_def split: sum.splits)

definition content_stored ::
  "'z cext_scheme \<Rightarrow> fs_store \<Rightarrow> box_read \<Rightarrow> (string list \<Rightarrow> vnode option)
   \<Rightarrow> content_digest \<times> bytes \<times> bytes option \<Rightarrow> (string list \<Rightarrow> vnode option) \<Rightarrow> bool" where
  "content_stored E st content m = (\<lambda>(digest, head, salt) m'.
     br_end content = None \<and> digest = digest_of E (br_bytes content)
     \<and> head = take PREVIEW_HEAD_BYTES (br_bytes content)
     \<and> (\<exists>c. stored_as E (st_sealer st) salt (br_bytes content) c \<and> m' = m([''content''] \<mapsto> VFile c)))"

lemma store_content_safe:
  assumes D: "owns S I D" and p: "comps p = D @ [''content'']" and v: "I v" "tree_at v D m"
  shows "safe S I (store_content E st content p)
    (copied S I D (copy_excuse content \<or> \<not> room_for m ''content'') (content_stored E st content m)) v"
  unfolding store_content_def prog_simps
proof (rule safe_open_write [OF D p _ v])
  let ?P = "copied S I D (copy_excuse content \<or> \<not> room_for m ''content'') (content_stored E st content m)"
  let ?w = "\<lambda>_. try_as (copy_error_as p) (write_content E content p (st_sealer st))
    (\<lambda>w. Done (Inr (wr_digest w, wr_head w, wr_salt w)))"
  fix u assume u: "I u" "tree_at u D (m([''content''] \<mapsto> VFile []))"
  show "safe S I (try_res SeFs (Inr ()) ?w) ?P u"
    unfolding try_res_simps
  proof (rule copied_then [OF D write_content_safe [OF D p u]])
    fix w m' u
    assume "I u" "tree_at u D m'" "written_as E (st_sealer st) content [''content''] (m([''content''] \<mapsto> VFile [])) w m'"
    then show "safe S I (Done (Inr (wr_digest w, wr_head w, wr_salt w))) ?P u"
      by (intro safe_copied_Inr [OF D]) (auto simp: written_as_def content_stored_def)
  qed simp_all
next
  fix e u assume "st_faulty S \<or> m (butlast [''content'']) \<noteq> Some VDir \<or> m [''content''] = Some VDir" "I u"
  then show "safe S I (try_res SeFs (Inl e)
      (\<lambda>_. try_as (copy_error_as p) (write_content E content p (st_sealer st))
        (\<lambda>w. Done (Inr (wr_digest w, wr_head w, wr_salt w)))))
    (copied S I D (copy_excuse content \<or> \<not> room_for m ''content'') (content_stored E st content m)) u"
    by (auto simp: room_for_def intro: safe_copied_Inl [OF D])
qed simp

text \<open>The salt that goes with a content is the sealing \<^const>\<open>write_meta\<close> encodes.\<close>

definition meta_stored ::
  "'z fext_scheme \<Rightarrow> fs_store \<Rightarrow> item_meta \<Rightarrow> bytes option \<Rightarrow> (string list \<Rightarrow> vnode option)
   \<Rightarrow> unit \<Rightarrow> (string list \<Rightarrow> vnode option) \<Rightarrow> bool" where
  "meta_stored E st mt salt m = (\<lambda>_ m'. \<exists>json.
     decode_meta E (meta_id mt) json (st_sealer st) = Inr (mt, salt)
     \<and> (fits E (st_sealer st) mt \<longrightarrow> length json \<le> MAX_META_BYTES) \<and> m' = m([''meta.json''] \<mapsto> VFile json))"

lemma write_meta_safe:
  assumes E: "fext_laws E" and D: "owns S I D" and p: "comps p = D @ [''meta.json'']" and v: "I v" "tree_at v D m"
    and i: "id_wf (meta_id mt)" and salt: "stored_as E (st_sealer st) salt b c"
  shows "safe S I (write_meta E st p mt salt)
    (copied S I D (\<not> encodes E mt \<or> \<not> room_for m ''meta.json'') (meta_stored E st mt salt m)) v"
proof -
  let ?sealing = "case (st_sealer st, salt) of (Some s, Some x) \<Rightarrow> Some (s, x) | _ \<Rightarrow> None"
  let ?P = "copied S I D (\<not> encodes E mt \<or> \<not> room_for m ''meta.json'') (meta_stored E st mt salt m)"
  have s: "map_option fst ?sealing = st_sealer st" "map_option snd ?sealing = salt"
    "\<And>s x. ?sealing = Some (s, x) \<Longrightarrow> length x = CONTENT_SALT_LEN"
    using salt by (auto simp: stored_as_def split: option.splits)
  note J = owns_stable [OF D, of m]
  show ?thesis
    unfolding write_meta_def Let_def
  proof (rule safe_then_try [OF safe_encode_meta [OF E i J] J])
    fix e u assume "(I u \<and> tree_at u D m) \<and> encoded E (st_faulty S) mt ?sealing (Inl e)"
    then show "safe S I (Done (Inl (encode_error_as (meta_id mt) e))) ?P u"
      by (intro safe_copied_Inl [OF D]) (auto simp: encoded_def)
  next
    fix json u assume h: "(I u \<and> tree_at u D m) \<and> encoded E (st_faulty S) mt ?sealing (Inr json)"
    then have dec: "decode_meta E (meta_id mt) json (st_sealer st) = Inr (mt, salt)"
      "json \<in> encodings E mt ?sealing"
      using s by (simp_all add: encoded_def)
    have fit: "fits E (st_sealer st) mt \<Longrightarrow> length json \<le> MAX_META_BYTES"
      unfolding fits_def using dec(2) s(1,3) by blast
    show "safe S I (try_as SeFs (write_file p json) (\<lambda>_. Done (Inr ()))) ?P u"
      by (rule copied_then [OF D write_file_safe [OF D p]])
        (use h dec(1) fit in \<open>auto simp: meta_stored_def intro!: safe_copied_Inr [OF D]\<close>)
  qed (use v s in auto)
qed

section \<open>Looking, in a setting that may change\<close>

lemma reads_safe:
  assumes J: "stable S J" "\<And>u. J u \<Longrightarrow> I u" "J v" and m: "reads_only m"
    and q: "quiet S \<Longrightarrow> answers (st_faulty S) v m (P v)"
  shows "safe S I m (\<lambda>r u. J u \<and> (quiet S \<longrightarrow> P u r)) v"
proof (cases "quiet S")
  case True
  show ?thesis
    by (rule safe_post [OF answers_safe [OF q [OF True] m True]]) (use True J in auto)
next
  case False
  show ?thesis by (rule safe_post [OF safe_reads [OF J(1,2) m J(3)]]) (use False in auto)
qed

lemma reads_only_ops [reads_simps]:
  "reads_only (check_key E st)" "reads_only (read_item E st i)" "reads_only (read_meta E st i)"
  "reads_only (item_ids st)" "reads_only (find_by_content_key E st key)"
proof -
  have u: "reads_only (unreadable i r)" for i r by (simp add: unreadable_def)
  have h: "reads_only (read_header E)"
    unfolding read_header_def read_header_in_def
    by (intro reads_simps) (auto simp: try_res_def split: sum.splits fs_error.splits)
  show "reads_only (check_key E st)"
    unfolding check_key_def check_plain_def
    by (auto intro!: reads_simps h split: option.splits bool.splits)
  show ri: "reads_only (read_item E st i)" for i
    unfolding read_item_def
    by (auto intro!: reads_simps u split: sum.splits meta_error.splits)
  show rm: "reads_only (read_meta E st i)" for i
    unfolding read_meta_def by (auto intro!: reads_simps ri)
  show ii: "reads_only (item_ids st)"
    unfolding item_ids_def by (auto intro!: reads_simps split: sum.splits fs_error.splits)
  have "reads_only (find_among E st ids)" for ids
    by (induction ids)
      (auto intro!: reads_only_bind rm split: sum.splits store_error.splits fs_error.splits encryption_error.splits)
  then show "reads_only (find_by_content_key E st key)"
    unfolding find_by_content_key_def by (auto intro!: reads_simps ii)
qed

lemma header_answer:
  assumes "v [''encryption'', ''header.json''] = Some (VFile j)" "header_parse E (take MAX_HEADER_BYTES j) = Inr h"
  shows "answers F v (read_header E) (\<lambda>r. \<not> F \<longrightarrow> r = Inr (Some h))"
proof -
  have p: "comps (rp_of ([''encryption''] @ [''header.json''])) = [''encryption'', ''header.json'']" by simp
  have rd: "rd_take_to_end MAX_HEADER_BYTES rd = Inr (take MAX_HEADER_BYTES j)" if "reads False rd (VFile j)" for rd
    using take_to_end_file(2) [OF that] by simp
  show ?thesis
    unfolding read_header_def read_header_in_def encryption_dir_def ENCRYPTION_DIR_def HEADER_FILE_def
      new_is try_res_simps
    using assms rd
    by (cases F) (auto simp: path_simps p answers_try_res open_read_spec_def
        simp del: append_Cons append_Nil split: sum.splits fs_error.splits)
qed

lemma check_key_answer:
  assumes ok: "guard_ok E st v" and plain: "st_plain_guard st \<longrightarrow> st_sealer st = None"
  shows "answers F v (check_key E st) (\<lambda>r. \<not> F \<longrightarrow> r = Inr ())"
proof (cases "st_plain_guard st")
  case True
  then have "v [''.rewrite''] = None" "v [''encryption''] = None" "v [''items''] = None \<or> v [''items''] = Some VDir"
    using ok by (simp_all add: guard_ok_def) (metis option.exhaust vnode.exhaust)
  then show ?thesis
    unfolding check_key_def if_P [OF True] check_plain_def REWRITE_DIR_def ENCRYPTION_DIR_def ITEMS_DIR_def
      new_is try_res_simps prog_simps
    by (auto simp: stat_spec_def answers_try_res prog_simps split: sum.splits option.splits)
next
  case False
  show ?thesis
  proof (cases "st_guard st \<and> st_sealer st \<noteq> None")
    case True
    then obtain s j h where s: "st_sealer st = Some s" "st_guard st"
      and h: "v [''.rewrite''] = None" "v [''encryption'', ''header.json''] = Some (VFile j)"
        "header_parse E (take MAX_HEADER_BYTES j) = Inr h" "header_key_id h = sl_key_id s"
      using ok False by (auto simp: guard_ok_def)
    have hd: "answers F v (tryP (read_header E) (\<lambda>header.
        case header of
          None \<Rightarrow> Done (Inl (SeEncryption EnHeaderMissing))
        | Some h \<Rightarrow> if header_key_id h \<noteq> sl_key_id s then Done (Inl (SeEncryption EnKeyChanged)) else Done (Inr ())))
      (\<lambda>r. \<not> F \<longrightarrow> r = Inr ())"
      by (rule answers_try [OF header_answer [of v j E h, OF h(2,3)]]) (use h(4) in \<open>auto split: option.splits\<close>)
    show ?thesis
      unfolding check_key_def if_not_P [OF False] REWRITE_DIR_def new_is try_res_simps
      using s h(1) hd by (auto simp: stat_spec_def answers_try_res prog_simps split: sum.splits option.splits)
  next
    case None: False
    then show ?thesis using False by (auto simp: check_key_def split: option.splits bool.splits)
  qed
qed

section \<open>Publishing\<close>

text \<open>In a quiet setting, the items are those named \<open>B\<close>: how it is until the item is published.\<close>

definition named :: "setting \<Rightarrow> fs_store \<Rightarrow> string set \<Rightarrow> fsview \<Rightarrow> bool" where
  "named S st B u \<longleftrightarrow> (quiet S \<longrightarrow> names_in st u = B)"

lemma stable_named: "stable S I \<Longrightarrow> stable S (\<lambda>u. I u \<and> named S st B u)"
  by (auto simp: stable_def named_def quiet_def)

lemma safe_weaken: "safe S (\<lambda>u. I u \<and> P u) m Q v \<Longrightarrow> safe S I m Q v"
  by (erule safe_inv) simp

lemma names_outside:
  "(\<And>q. \<not> is_under (tmp_path st @ t) q \<Longrightarrow> u' q = u q) \<Longrightarrow> names_in st u' = names_in st u"
  using items_not_above(3) [of st t _ "[]"] by (simp add: names_in_def)

lemma owns_named:
  assumes "owns S I (tmp_path st @ t)"
  shows "owns S (\<lambda>u. I u \<and> named S st B u) (tmp_path st @ t)"
  unfolding owns_def
proof (intro conjI allI impI)
  show "stable S (\<lambda>u. I u \<and> named S st B u)" by (rule stable_named [OF ownsD(1) [OF assms]])
  show "st_others S u u' \<Longrightarrow> u' ((tmp_path st @ t) @ s) = u ((tmp_path st @ t) @ s)" for u u' s
    using assms unfolding owns_def by blast
  fix u u' :: fsview
  assume u: "I u \<and> named S st B u" and same: "\<forall>q. \<not> is_under (tmp_path st @ t) q \<longrightarrow> u' q = u q"
  show "I u'" by (rule ownsD(4) [OF assms conjunct1 [OF u]]) (simp add: same)
  have "names_in st u' = names_in st u" by (rule names_outside [of st t]) (simp add: same)
  then show "named S st B u'" using u by (simp add: named_def)
qed

text \<open>
  The outcome of storing the content \<open>b\<close>, in a quiet setting: the item answered is there, whole,
  with this content's key; a created one is new, holds \<open>b\<close>, and is the only name there beside
  those in \<open>B\<close>, the names there before; without faults none of those had this content's key. A failure has an excuse: a fault,
  other clients, the content, the metadata, no room, a guard, or a clock outside the range of
  identifiers.
\<close>

definition unkeyed :: "'z hext_scheme \<Rightarrow> fs_store \<Rightarrow> string set \<Rightarrow> bytes \<Rightarrow> bool" where
  "unkeyed E st B b \<longleftrightarrow> (\<forall>k. id_wf k \<longrightarrow> id_key k = keyed E st (digest_of E b) \<longrightarrow> id_repr k \<notin> B)"

text \<open>The times identifiers can name: the seconds of 1970 to 2106.\<close>

definition in_range :: "datetime \<Rightarrow> bool" where
  "in_range t \<longleftrightarrow> 0 \<le> t \<and> t < 2 ^ 32 * 1000000000"

definition put_done ::
  "'z hext_scheme \<Rightarrow> fs_store \<Rightarrow> setting \<Rightarrow> string set \<Rightarrow> string set \<Rightarrow> bytes \<Rightarrow> bool
   \<Rightarrow> store_error + put_outcome \<Rightarrow> fsview \<Rightarrow> bool" where
  "put_done E st S N B b excuse r u \<longleftrightarrow>
     (case r of
        Inr out \<Rightarrow>
          (let m = po_meta out; i = meta_id m in
           quiet S \<longrightarrow>
             id_wf i \<and> id_key i = keyed E st (digest_of E b)
             \<and> (\<exists>b'. item_at E st u i m b' \<and> describes E st i m b')
             \<and> (po_created out \<longrightarrow>
                   item_at E st u i m b \<and> id_repr i \<notin> N \<and> (\<not> st_faulty S \<longrightarrow> unkeyed E st B b))
             \<and> names_in st u = (if po_created out then insert (id_repr i) B else B))
      | Inl e \<Rightarrow> st_faulty S \<or> \<not> quiet S \<or> excuse \<or> (\<exists>t. st_clock S t \<and> \<not> in_range t \<and> e = SeModel (TimestampOutOfRange t)))"

lemma put_done_Inl: "st_faulty S \<or> \<not> quiet S \<or> excuse \<Longrightarrow> put_done E st S N B b excuse (Inl e) u"
  by (auto simp: put_done_def)

lemma keyed_wf: "fext_laws E \<Longrightarrow> key_wf (keyed E st (digest_of E b))"
  using keyed_content_key_wf fext_lawsD [of E]
  by (auto simp: keyed_def digest_content_key_def digest_of_def key_wf_def key_from_sha256_def lower_hex_list_all
      KEY_HEX_LEN_def hex_lawsD sha256_laws_def split: option.splits)

lemma finish_keyed_meta:
  assumes "finish_keyed E item now d key pv = Inr m" "key_wf key"
  shows "id_wf (meta_id m) \<and> id_key (meta_id m) = key \<and> meta_sha256 m = sha256_hex E d \<and> meta_size m = cd_size d"
  using assms item_id_new_wf by (auto simp: finish_keyed_def and_then_eq_Inr)

lemma store_ok_metas: "store_ok E st v \<Longrightarrow> metas_are_files st v"
  unfolding metas_are_files_def
proof (intro allI impI)
  fix i assume "store_ok E st v" "id_wf i" "v (item_path st i) = Some VDir"
  then have "whole E st v i" by (simp add: store_ok_def)
  then show "v (meta_file st i) \<noteq> Some VDir" by (auto simp: whole_def item_at_def meta_file_def)
qed

text \<open>A readable item of a whole store is that item.\<close>

lemma readable_whole:
  assumes "store_ok E st v" "id_wf i" "v (item_path st i) \<noteq> None" "readable E st v i = Some (m, s)"
  shows "\<exists>b. item_at E st v i m b \<and> describes E st i m b"
proof -
  from assms(1-3) obtain m' b where w: "item_at E st v i m' b" "describes E st i m' b"
    by (auto simp: store_ok_def whole_def)
  with assms(4) whole_readable [OF w(1)] have "m' = m" by auto
  with w show ?thesis by blast
qed

lemma found_done:
  assumes "store_ok E st u" "found_key F E st u key (Inr (Some m))" "key = keyed E st (digest_of E b)"
    and B: "names_in st u = B"
  shows "put_done E st S N B b excuse (Inr \<lparr>po_meta = m, po_created = False\<rparr>) u"
proof -
  from assms(2) obtain i s where i: "id_wf i" "u (item_path st i) = Some VDir" "id_key i = key"
    "readable E st u i = Some (m, s)" by (auto simp: found_key_def)
  from readable_whole [OF assms(1) i(1) _ i(4)] i(2) obtain b' where
    w: "item_at E st u i m b'" "describes E st i m b'" by auto
  then have "meta_id m = i" by (simp add: describes_def)
  with w i assms(3) B show ?thesis by (auto simp: put_done_def)
qed

text \<open>The staging folder when the item is complete, and the item it becomes.\<close>

definition staged ::
  "'z hext_scheme \<Rightarrow> fs_store \<Rightarrow> item_meta \<Rightarrow> bytes \<Rightarrow> (string list \<Rightarrow> vnode option) \<Rightarrow> bool" where
  "staged E st m b d \<longleftrightarrow>
     (\<exists>j c salt. d [] = Some VDir \<and> d [''meta.json''] = Some (VFile j) \<and> length j \<le> MAX_META_BYTES
        \<and> d [''content''] = Some (VFile c) \<and> decode_meta E (meta_id m) j (st_sealer st) = Inr (m, salt)
        \<and> stored_as E (st_sealer st) salt b c)"

lemma staged_item_at:
  assumes "staged E st m b d" "\<And>s. u (item_path st (meta_id m) @ s) = d s"
  shows "item_at E st u (meta_id m) m b"
  using assms assms(2) [of "[]"] by (auto simp: staged_def item_at_def)

definition published ::
  "'z hext_scheme \<Rightarrow> fs_store \<Rightarrow> string set \<Rightarrow> string set \<Rightarrow> fsview \<Rightarrow> setting \<Rightarrow> bool \<Rightarrow> string set
   \<Rightarrow> item_meta \<Rightarrow> bytes
   \<Rightarrow> fsview \<Rightarrow> bool" where
  "published E st N A v0 S G B m b u \<longleftrightarrow>
     put_inv E st N A v0 S G u \<and> id_repr (meta_id m) \<notin> N \<and> (quiet S \<longrightarrow> item_at E st u (meta_id m) m b \<and> names_in st u = insert (id_repr (meta_id m)) B)"

text \<open>What the rename of a complete staging folder does.\<close>

lemma rename_publishes:
  assumes inv: "put_inv E st N A v0 S G u" and nm: "named S st B u" and t: "tree_at u D d"
    and D: "D = tmp_path st @ t"
    and d: "staged E st m b d" and desc: "describes E st (meta_id m) m b"
    and N: "N \<subseteq> names_in st v0" and A: "id_repr (meta_id m) \<in> A" and i: "id_wf (meta_id m)"
    and plain: "st_plain_guard st \<longrightarrow> st_sealer st = None"
    and r: "rename_spec F D (item_path st (meta_id m)) u r u'"
  shows "(u' = move_tree D (item_path st (meta_id m)) u \<and> published E st N A v0 S G B m b u'
      \<and> (case r of Inl e \<Rightarrow> F \<and> (\<exists>a b. e = FsOther a b) | Inr _ \<Rightarrow> True))
    \<or> (u' = u \<and> (\<exists>e. r = Inl e \<and> ((\<exists>p. e = FsAlreadyExists p) \<longrightarrow> u (item_path st (meta_id m)) \<noteq> None)
        \<and> (F \<or> \<not> quiet S \<or> (\<exists>p. e = FsAlreadyExists p))))"
proof -
  let ?b = "item_path st (meta_id m)"
  have at: "u (D @ s) = d s" for s using t by (simp add: tree_at_def)
  have w: "whole E st w (meta_id m)" if "\<And>s. w (?b @ s) = u (D @ s)" for w
    using staged_item_at [OF d, of w] that at desc unfolding whole_def by auto
  have moved: "published E st N A v0 S G B m b (move_tree D ?b u)" if can: "can_rename u D ?b"
  proof -
    have "move_tree D ?b u (?b @ s) = d s" for s using at by (simp add: move_tree_def)
    moreover have "names_in st (move_tree D ?b u) = insert (id_repr (meta_id m)) (names_in st u)"
      using move_in [of u ?b st "id_repr (meta_id m)" D _ "[]"] can items_not_above(3) [of st t]
      by (auto simp: names_in_def item_path_def D can_rename_def)
    ultimately show ?thesis
      using put_inv_move_in [OF inv can D w N A i plain] staged_item_at [OF d] nm
      by (auto simp: published_def named_def)
  qed
  have can: "can_rename u D ?b" if "quiet S" "u ?b = None"
    using that inv at [of "[]"] d items_not_above(3) [of st t "id_repr (meta_id m)" "[]"]
    by (auto simp: can_rename_def put_inv_def staged_def item_path_def butlast_append D)
  show ?thesis
  proof (cases r)
    case (Inr x)
    then show ?thesis using r moved by (auto simp: rename_spec_def)
  next
    case (Inl e)
    consider "u' = u" | "F" "\<exists>a b. e = FsOther a b" "can_rename u D ?b" "u' = move_tree D ?b u"
      using r Inl by (auto simp: rename_spec_def)
    then show ?thesis
    proof cases
      case 1
      have "F \<or> \<not> quiet S \<or> (\<exists>p. e = FsAlreadyExists p)"
        using r Inl can by (auto simp: rename_spec_def)
      moreover have "(\<exists>p. e = FsAlreadyExists p) \<longrightarrow> u ?b \<noteq> None" using r Inl by (auto simp: rename_spec_def)
      ultimately show ?thesis using 1 Inl by blast
    next
      case 2
      then show ?thesis using moved Inl by auto
    qed
  qed
qed

lemma stable_published:
  "client E st N A v0 S \<Longrightarrow> stable S (published E st N A v0 S G B m b)"
  using stable_put_inv [of E st N A v0 S G] unfolding stable_def published_def quiet_def by auto

text \<open>Taking an item back keeps the store whole.\<close>

lemma retract_safe:
  assumes c: "client E st N A v0 S" and i: "id_wf i" and N: "id_repr i \<notin> N"
    and plain: "st_plain_guard st \<longrightarrow> st_sealer st = None" and v: "put_inv E st N A v0 S G v"
  shows "safe S (put_inv E st N A v0 S G) (retract st i) (\<lambda>_ u. put_inv E st N A v0 S G u) v"
proof -
  let ?I = "put_inv E st N A v0 S G"
  note J = stable_put_inv [OF c, of G]
  have fin: "safe S ?I (Done ()) (\<lambda>_. ?I) u" if "?I u" for u
    by (rule safe_done [OF J _ that]) simp
  have cut: "?I u'" if "?I u" "remove_dir_all_spec F (tmp_path st @ [x]) u r u'" for u F x r u'
    by (rule put_inv_outside [OF that(1) _ plain, of "[x]"])
      (use that(2) in \<open>auto simp: remove_dir_all_spec_def cut_tree_def split: sum.splits\<close>)
  have move: "?I u'" if "?I u" "rename_spec F (item_path st i) (tmp_path st @ [x]) u r u'" for u F x r u'
    using that put_inv_move_out [OF that(1) N plain, of "[x]"] by (auto simp: rename_spec_def split: sum.splits)
  show ?thesis
    unfolding retract_def
  proof (rule safe_call(11) [OF J _ v], assumption)
    fix t :: u64
    let ?x = "''retracted-'' @ id_repr i @ ''-'' @ token_name t"
    have j: "rp_join (rp_of (tmp_path st)) ?x = Inr (rp_of (tmp_path st @ [?x]))"
      by (rule join_is [OF valid_paths(2) valid_graves(1) [OF i]])
    have p: "comps (rp_of (item_path st i)) = item_path st i" "comps (rp_of (tmp_path st @ [?x])) = tmp_path st @ [?x]"
      using i valid_graves(1) [OF i, of t] by (simp, intro comps_rp_of) simp
    show "safe S ?I (case (item_dir st i, tmp_dir st) of
         (Inr item, Inr tmp) \<Rightarrow>
           (case rp_join tmp ?x of
              Inr grave \<Rightarrow> Rename item grave (\<lambda>r. case r of Inr _ \<Rightarrow> RemoveDirAll grave (\<lambda>_. Done ()) | Inl _ \<Rightarrow> Done ())
            | Inl _ \<Rightarrow> Done ())
       | _ \<Rightarrow> Done ()) (\<lambda>_. ?I) v"
      unfolding item_dir_is [OF i] dirs_are prod.case sum.case j
    proof (rule safe_call(5) [OF J _ v], assumption, unfold p)
      fix u r u' assume "?I u" "rename_spec (st_faulty S) (item_path st i) (tmp_path st @ [?x]) u r u'"
      then have u': "?I u'" by (rule move)
      have "safe S ?I (RemoveDirAll (rp_of (tmp_path st @ [?x])) (\<lambda>_. Done ())) (\<lambda>_. ?I) u'"
        by (rule safe_call(9) [OF J _ u']) (use cut fin p in auto)
      then show "safe S ?I (case r of Inr _ \<Rightarrow> RemoveDirAll (rp_of (tmp_path st @ [?x])) (\<lambda>_. Done ()) | Inl _ \<Rightarrow> Done ())
          (\<lambda>_. ?I) u'"
        using fin [OF u'] by (cases r) simp_all
    qed
  qed
qed

lemma put_done_created:
  assumes "published E st N A v0 S G B m b u" "describes E st (meta_id m) m b" "id_wf (meta_id m)"
    and "quiet S \<Longrightarrow> \<not> st_faulty S \<Longrightarrow> unkeyed E st B b"
  shows "put_done E st S N B b X (Inr \<lparr>po_meta = m, po_created = True\<rparr>) u"
  using assms by (auto simp: put_done_def published_def describes_def)

lemma after_publish_safe:
  assumes c: "client E st N A v0 S" and i: "id_wf (meta_id m)" and desc: "describes E st (meta_id m) m b"
    and plain: "st_plain_guard st \<longrightarrow> st_sealer st = None" and X: "\<not> G \<Longrightarrow> X"
    and U: "quiet S \<Longrightarrow> \<not> st_faulty S \<Longrightarrow> unkeyed E st B b"
    and v: "published E st N A v0 S G B m b v"
  shows "safe S (put_inv E st N A v0 S G)
    (bind (check_key E st) (\<lambda>checked.
       case checked of
         Inl e \<Rightarrow> bind (retract st (meta_id m)) (\<lambda>_. Done (Inl e))
       | Inr _ \<Rightarrow> Done (Inr \<lparr>po_meta = m, po_created = True\<rparr>)))
    (\<lambda>r u. put_inv E st N A v0 S G u \<and> put_done E st S N B b X r u) v"
proof -
  let ?I = "put_inv E st N A v0 S G" and ?K = "published E st N A v0 S G B m b"
  note J = stable_published [OF c, of G B m b]
  have q: "answers (st_faulty S) v (check_key E st) (\<lambda>r. G \<longrightarrow> \<not> st_faulty S \<longrightarrow> r = Inr ())" if "quiet S"
  proof (cases G)
    case True
    then have g: "guard_ok E st v" using v that by (simp add: published_def put_inv_def)
    show ?thesis by (rule answers_mono [OF check_key_answer [OF g plain]]) simp_all
  next
    case False
    have "safe (alone (st_faulty S)) (\<lambda>u. u = v) (check_key E st) (\<lambda>_ u. u = v) v"
      by (rule safe_reads) (simp_all add: reads_simps)
    then show ?thesis unfolding answers_def by (rule safe_post) (use False in simp)
  qed
  show ?thesis
  proof (rule safe_then [OF reads_safe [OF J _ v reads_only_ops(1) q] J])
    fix checked :: "store_error + unit" and u
    assume h: "?K u \<and> (quiet S \<longrightarrow> G \<longrightarrow> \<not> st_faulty S \<longrightarrow> checked = Inr ())"
    then have u: "?K u" "?I u" "id_repr (meta_id m) \<notin> N" by (auto simp: published_def)
    show "safe S ?I (case checked of
         Inl e \<Rightarrow> bind (retract st (meta_id m)) (\<lambda>_. Done (Inl e))
       | Inr _ \<Rightarrow> Done (Inr \<lparr>po_meta = m, po_created = True\<rparr>))
      (\<lambda>r u. ?I u \<and> put_done E st S N B b X r u) u"
    proof (cases checked)
      case (Inl e)
      then have bad: "st_faulty S \<or> \<not> quiet S \<or> X" using h X by auto
      have "safe S ?I (bind (retract st (meta_id m)) (\<lambda>_. Done (Inl e))) (\<lambda>r u. ?I u \<and> put_done E st S N B b X r u) u"
        by (rule safe_then [OF retract_safe [OF c i u(3) plain u(2)] stable_put_inv [OF c, of G]])
          (use bad in \<open>auto intro!: safe_done [OF stable_put_inv [OF c, of G]] put_done_Inl\<close>)
      then show ?thesis using Inl by simp
    next
      case (Inr x)
      have "safe S ?I (Done (Inr \<lparr>po_meta = m, po_created = True\<rparr>)) (\<lambda>r u. ?I u \<and> put_done E st S N B b X r u) u"
      proof (rule safe_done [OF J _ u(1)])
        fix w assume w: "?K w"
        then have "?I w" by (simp add: published_def)
        with put_done_created [OF w desc i U, of X]
        show "?I w \<and> ?I w \<and> put_done E st S N B b X (Inr \<lparr>po_meta = m, po_created = True\<rparr>) w" by simp
      qed
      then show ?thesis using Inr by simp
    qed
  qed (simp add: published_def)
qed

lemma put_done_mono:
  "put_done E st S N B b X r u \<Longrightarrow> (X \<Longrightarrow> quiet S \<Longrightarrow> X') \<Longrightarrow> put_done E st S N B b X' r u"
  by (auto simp: put_done_def Let_def split: sum.splits)

lemma put_done_noisy: "\<not> quiet S \<Longrightarrow> put_done E st S N B b X r u"
  by (cases r) (simp_all add: put_done_def)

lemma put_fin:
  assumes c: "client E st N A v0 S" and "put_inv E st N A v0 S G u" "put_done E st S N B b X r u"
  shows "safe S (put_inv E st N A v0 S G) (Done r) (\<lambda>r u. put_inv E st N A v0 S G u \<and> put_done E st S N B b X r u) u"
  unfolding safe.simps
proof (intro allI impI)
  fix w assume w: "st_others S u w"
  have "put_inv E st N A v0 S G w" by (rule stableD [OF stable_put_inv [OF c] w assms(2)])
  moreover have "quiet S \<Longrightarrow> w = u" using w by (auto simp: quiet_def)
  ultimately show "put_inv E st N A v0 S G w \<and> put_inv E st N A v0 S G w \<and> put_done E st S N B b X r w"
    using assms(3) put_done_noisy by (cases "quiet S") auto
qed

text \<open>When the name is taken: the item there is answered.\<close>

lemma read_existing_safe:
  assumes c: "client E st N A v0 S" and i: "id_wf i" and key: "id_key i = keyed E st (digest_of E b)"
    and v: "put_inv E st N A v0 S G v" "v (item_path st i) \<noteq> None" "named S st B v"
  shows "safe S (put_inv E st N A v0 S G)
    (tryP (read_meta E st i) (\<lambda>existing. Done (Inr \<lparr>po_meta = existing, po_created = False\<rparr>)))
    (\<lambda>r u. put_inv E st N A v0 S G u \<and> put_done E st S N B b X r u) v"
proof -
  let ?I = "put_inv E st N A v0 S G"
  let ?J = "\<lambda>u. ?I u \<and> (quiet S \<longrightarrow> u (item_path st i) \<noteq> None \<and> names_in st u = B)"
  note J = stable_put_inv [OF c, of G]
  have J': "stable S ?J" using J unfolding stable_def quiet_def by auto
  have w: "\<exists>m s b'. readable E st u i = Some (m, s) \<and> item_at E st u i m b' \<and> describes E st i m b'
      \<and> u (meta_file st i) \<noteq> Some VDir" if "?J u" "quiet S" for u
  proof -
    have "whole E st u i" using that i by (simp add: put_inv_def store_inv_def store_ok_def)
    then show ?thesis using whole_readable unfolding whole_def by blast
  qed
  have ans: "put_done E st S N B b X (map_sum id (\<lambda>m. \<lparr>po_meta = m, po_created = False\<rparr>) r) u"
    if "?J u" "quiet S \<longrightarrow> (\<exists>x. read_answer (st_faulty S) E st u i x \<and> r = map_sum id fst x)" for r u
  proof (cases "quiet S")
    case True
    from w [OF that(1) True] obtain m s b' where m: "readable E st u i = Some (m, s)" "item_at E st u i m b'"
      "describes E st i m b'" "u (meta_file st i) \<noteq> Some VDir" by blast
    from that(2) True obtain x where x: "read_answer (st_faulty S) E st u i x" "r = map_sum id fst x" by blast
    show ?thesis
    proof (cases x)
      case (Inl e)
      then have "st_faulty S" using x(1) m by (auto simp: read_answer_def)
      then show ?thesis using x Inl by (simp add: put_done_Inl)
    next
      case (Inr p)
      then have "r = Inr m" using x m by (auto simp: read_answer_def)
      moreover have "meta_id m = i" using m(3) by (simp add: describes_def)
      ultimately show ?thesis using m i key that(1) True by (auto simp: put_done_def)
    qed
  next
    case False
    then show ?thesis by (rule put_done_noisy)
  qed
  note fin = put_fin [OF c, of G _ B b X]
  have P: "answers (st_faulty S) v (read_meta E st i)
      (\<lambda>r. \<exists>x. read_answer (st_faulty S) E st v i x \<and> r = map_sum id fst x)"
    by (rule read_meta_answer [OF i])
  let ?P = "\<lambda>(r :: store_error + item_meta) u. ?J u
      \<and> (quiet S \<longrightarrow> (\<exists>x. read_answer (st_faulty S) E st u i x \<and> r = map_sum id fst x))"
  have rd: "safe S ?I (read_meta E st i) ?P v"
    by (rule reads_safe [OF J' _ _ reads_only_ops(3),
          where P = "\<lambda>u r. \<exists>x. read_answer (st_faulty S) E st u i x \<and> r = map_sum id fst x"])
      (use v P in \<open>auto simp: named_def\<close>)
  show ?thesis
  proof (rule safe_then_try [OF rd J])
    fix e u assume h: "?P (Inl e) u"
    show "safe S ?I (Done (Inl e)) (\<lambda>r u. ?I u \<and> put_done E st S N B b X r u) u"
      using fin [of u "Inl e"] ans [of u "Inl e"] h by simp
  next
    fix m u assume h: "?P (Inr m) u"
    show "safe S ?I (Done (Inr \<lparr>po_meta = m, po_created = False\<rparr>)) (\<lambda>r u. ?I u \<and> put_done E st S N B b X r u) u"
      using fin [of u "Inr \<lparr>po_meta = m, po_created = False\<rparr>"] ans [of u "Inr m"] h by simp
  qed
qed

section \<open>Storing an item\<close>

text \<open>The metadata storing an item may come to, for any content, clock and store.\<close>

definition completes :: "'z ext_scheme \<Rightarrow> new_item \<Rightarrow> item_meta \<Rightarrow> bool" where
  "completes E item m \<longleftrightarrow>
     (\<exists>now b key head. key_wf key
        \<and> finish_keyed E item now (digest_of E b) key (preview (ni_kind item) head) = Inr m)"

definition put_excuse ::
  "'z hext_scheme \<Rightarrow> new_item \<Rightarrow> box_read \<Rightarrow> bool \<Rightarrow> (string list \<Rightarrow> vnode option) \<Rightarrow> bool" where
  "put_excuse E item content G d \<longleftrightarrow>
     copy_excuse content \<or> \<not> G \<or> \<not> room_for d ''content'' \<or> \<not> room_for d ''meta.json''
     \<or> (\<exists>m. completes E item m \<and> \<not> encodes E m)"

text \<open>The last part of storing an item: its metadata, and the rename that makes it an item.\<close>

definition finish_put ::
  "'z hext_scheme \<Rightarrow> fs_store \<Rightarrow> remote_path \<Rightarrow> remote_path \<Rightarrow> bytes option \<Rightarrow> item_meta
   \<Rightarrow> (store_error + put_outcome) prog" where
  "finish_put E st items staging salt m =
     try_res SeFs (rp_join staging META_FILE) (\<lambda>meta_path.
     tryP (write_meta E st meta_path m salt) (\<lambda>_.
     try_res SeFs (rp_join items (id_repr (meta_id m))) (\<lambda>target.
     Rename staging target (\<lambda>r.
       case r of
         Inr _ \<Rightarrow>
           bind (check_key E st) (\<lambda>checked.
           case checked of
             Inl e \<Rightarrow> bind (retract st (meta_id m)) (\<lambda>_. Done (Inl e))
           | Inr _ \<Rightarrow> Done (Inr \<lparr>po_meta = m, po_created = True\<rparr>))
       | Inl (FsAlreadyExists _) \<Rightarrow>
           tryP (read_meta E st (meta_id m)) (\<lambda>existing.
           Done (Inr \<lparr>po_meta = existing, po_created = False\<rparr>))
       | Inl e \<Rightarrow> Done (Inl (SeFs e))))))"

lemma stage_and_publish_eq:
  "stage_and_publish E st item content items staging =
     try_res SeFs (rp_join staging CONTENT_FILE) (\<lambda>content_path.
     tryP (store_content E st content content_path) (\<lambda>(digest, head, salt).
     tryP (find_by_content_key E st (keyed E st digest)) (\<lambda>found.
     case found of
       Some existing \<Rightarrow> Done (Inr \<lparr>po_meta = existing, po_created = False\<rparr>)
     | None \<Rightarrow>
         Now (\<lambda>now.
          try_res SeModel (finish_keyed E item now digest (keyed E st digest) (preview (ni_kind item) head))
            (finish_put E st items staging salt)))))"
  unfolding stage_and_publish_def finish_put_def Let_def ..

lemma finish_put_safe:
  assumes E: "fext_laws E" and c: "client E st N A v0 S" and t: "st_tokens S t"
    and plain: "st_plain_guard st \<longrightarrow> st_sealer st = None" and D: "D = tmp_path st @ [token_name t]"
    and i: "id_wf (meta_id m)" and desc: "describes E st (meta_id m) m b"
    and salt: "stored_as E (st_sealer st) salt b c'" and fit: "fits E (st_sealer st) m"
    and d: "d [''content''] = Some (VFile c')" "d [] = Some VDir"
    and N: "N \<subseteq> names_in st v0" and A: "id_repr (meta_id m) \<in> A"
    and X: "\<not> G \<or> \<not> encodes E m \<or> \<not> room_for d ''meta.json'' \<Longrightarrow> X"
    and U: "quiet S \<Longrightarrow> \<not> st_faulty S \<Longrightarrow> unkeyed E st B b"
    and v: "put_inv E st N A v0 S G v \<and> named S st B v" "tree_at v D d"
  shows "safe S (put_inv E st N A v0 S G) (finish_put E st (rp_of (items_path st)) (rp_of D) salt m)
    (\<lambda>r u. put_inv E st N A v0 S G u \<and> put_done E st S N B b X r u) v"
proof -
  let ?I = "put_inv E st N A v0 S G"
  let ?Q = "\<lambda>r u. ?I u \<and> put_done E st S N B b X r u"
  let ?Pre = "\<lambda>u. ?I u \<and> named S st B u"
  have own: "owns S ?Pre D" unfolding D by (rule owns_named [OF owns_staging [OF c t plain]])
  note J = stable_put_inv [OF c, of G]
  have vD: "valid_comps D" by (simp add: D)
  have p: "comps (rp_of (D @ [''meta.json''])) = D @ [''meta.json'']" "comps (rp_of D) = D"
    "comps (rp_of (item_path st (meta_id m))) = item_path st (meta_id m)"
    using vD i by simp_all
  have target: "rp_join (rp_of (items_path st)) (id_repr (meta_id m)) = Inr (rp_of (item_path st (meta_id m)))"
    using join_is [OF valid_paths(1) valid_id [OF i]] by (simp add: item_path_def)
  have fail: "safe S ?I (Done (Inl e)) ?Q u" if "?I u" "st_faulty S \<or> \<not> quiet S \<or> X" for e u
    by (rule safe_done [OF J _ that(1)]) (simp add: put_done_Inl [OF that(2)])
  show ?thesis
    unfolding finish_put_def META_FILE_def join_is [OF vD valid_const(5)] try_res_simps target
  proof (rule safe_then_try [OF safe_weaken [OF write_meta_safe [OF E own p(1) v i salt]] J])
    fix e :: store_error and u
    assume "copied S ?Pre D (\<not> encodes E m \<or> \<not> room_for d ''meta.json'') (meta_stored E st m salt d) (Inl e) u"
    then show "safe S ?I (Done (Inl e)) ?Q u" using fail X by (auto simp: copied_def)
  next
    fix x u assume "copied S ?Pre D (\<not> encodes E m \<or> \<not> room_for d ''meta.json'') (meta_stored E st m salt d) (Inr x) u"
    then obtain json where u: "?Pre u" "tree_at u D (d([''meta.json''] \<mapsto> VFile json))"
      and json: "decode_meta E (meta_id m) json (st_sealer st) = Inr (m, salt)" "length json \<le> MAX_META_BYTES"
      using fit by (auto simp: copied_def meta_stored_def)
    let ?d = "d([''meta.json''] \<mapsto> VFile json)"
    have staged: "staged E st m b ?d" using d json salt by (simp add: staged_def)
    show "safe S ?I (Rename (rp_of D) (rp_of (item_path st (meta_id m))) (\<lambda>r.
        case r of
          Inr _ \<Rightarrow> bind (check_key E st) (\<lambda>checked.
            case checked of Inl e \<Rightarrow> bind (retract st (meta_id m)) (\<lambda>_. Done (Inl e))
            | Inr _ \<Rightarrow> Done (Inr \<lparr>po_meta = m, po_created = True\<rparr>))
        | Inl (FsAlreadyExists _) \<Rightarrow> tryP (read_meta E st (meta_id m)) (\<lambda>existing.
            Done (Inr \<lparr>po_meta = existing, po_created = False\<rparr>))
        | Inl e \<Rightarrow> Done (Inl (SeFs e)))) ?Q u"
    proof (rule safe_call(5) [OF owns_stable [OF own, of ?d]], unfold p)
      show "?Pre u \<and> tree_at u D ?d" using u by simp
      fix w r w' assume w: "?Pre w \<and> tree_at w D ?d"
        and r: "rename_spec (st_faulty S) D (item_path st (meta_id m)) w r w'"
      note pub = rename_publishes [OF conjunct1 [OF conjunct1 [OF w]] conjunct2 [OF conjunct1 [OF w]]
          conjunct2 [OF w] D staged desc N A i plain r]
      note ok = after_publish_safe [OF c i desc plain _ U, of G X w']
      note old = read_existing_safe [OF c i _ conjunct1 [OF conjunct1 [OF w]] _ conjunct2 [OF conjunct1 [OF w]], of b X]
      have key: "id_key (meta_id m) = keyed E st (digest_of E b)" using desc by (simp add: describes_def)
      show "safe S ?I (case r of
          Inr _ \<Rightarrow> bind (check_key E st) (\<lambda>checked.
            case checked of Inl e \<Rightarrow> bind (retract st (meta_id m)) (\<lambda>_. Done (Inl e))
            | Inr _ \<Rightarrow> Done (Inr \<lparr>po_meta = m, po_created = True\<rparr>))
        | Inl (FsAlreadyExists _) \<Rightarrow> tryP (read_meta E st (meta_id m)) (\<lambda>existing.
            Done (Inr \<lparr>po_meta = existing, po_created = False\<rparr>))
        | Inl e \<Rightarrow> Done (Inl (SeFs e))) ?Q w'"
      proof (cases r)
        case (Inr y)
        then have "published E st N A v0 S G B m b w'" using pub by auto
        with ok X Inr show ?thesis by simp
      next
        case (Inl e)
        from pub have w': "?I w'" using w by (auto simp: published_def)
        show ?thesis
        proof (cases "\<exists>p. e = FsAlreadyExists p")
          case True
          then have "w' = w" "w (item_path st (meta_id m)) \<noteq> None" using pub Inl by auto
          with old [OF key] True Inl show ?thesis by auto
        next
          case False
          then have "st_faulty S \<or> \<not> quiet S" using pub Inl by auto
          with fail [OF w'] False Inl show ?thesis by (cases e) auto
        qed
      qed
    qed (simp add: u)
  qed
qed

lemma describes_finished:
  assumes "finish_keyed E item now (digest_of E b) (keyed E st (digest_of E b)) pv = Inr m" "fext_laws E"
  shows "id_wf (meta_id m)" "describes E st (meta_id m) m b"
  using finish_keyed_meta [OF assms(1) keyed_wf [OF assms(2)]] by (auto simp: describes_def digest_of_def)

lemma finish_keyed_error:
  "finish_keyed E item now d key pv = Inl e \<Longrightarrow> e = TimestampOutOfRange now \<and> \<not> in_range now"
  by (cases "item_id_new now key") (auto simp: finish_keyed_def item_id_new_cases in_range_def split: if_splits)

lemma stage_and_publish_safe:
  assumes E: "fext_laws E" and c: "client E st N A v0 S" and t: "st_tokens S t"
    and plain: "st_plain_guard st \<longrightarrow> st_sealer st = None" and D: "D = tmp_path st @ [token_name t]"
    and fit: "\<And>m. completes E item m \<Longrightarrow> fits E (st_sealer st) m"
    and N: "N \<subseteq> names_in st v0"
    and A: "\<And>i. id_wf i \<Longrightarrow> id_key i = keyed E st (digest_of E (br_bytes content)) \<Longrightarrow> id_repr i \<in> A"
    and v: "put_inv E st N A v0 S G v \<and> named S st B v" "tree_at v D d" "d [] = Some VDir"
  shows "safe S (put_inv E st N A v0 S G) (stage_and_publish E st item content (rp_of (items_path st)) (rp_of D))
    (\<lambda>r u. put_inv E st N A v0 S G u \<and> put_done E st S N B (br_bytes content) (put_excuse E item content G d) r u) v"
proof -
  let ?I = "put_inv E st N A v0 S G" and ?b = "br_bytes content"
  let ?X = "put_excuse E item content G d"
  let ?key = "keyed E st (digest_of E ?b)"
  let ?Q = "\<lambda>r u. ?I u \<and> put_done E st S N B ?b ?X r u"
  let ?Pre = "\<lambda>u. ?I u \<and> named S st B u"
  have own: "owns S ?Pre D" unfolding D by (rule owns_named [OF owns_staging [OF c t plain]])
  note J = stable_put_inv [OF c, of G]
  note fin = put_fin [OF c, of G _ B ?b ?X]
  have vD: "valid_comps D" by (simp add: D)
  have p: "comps (rp_of (D @ [''content''])) = D @ [''content'']" using vD by simp
  show ?thesis
    unfolding stage_and_publish_eq CONTENT_FILE_def join_is [OF vD valid_const(4)] try_res_simps
  proof (rule safe_then_try [OF safe_weaken [OF store_content_safe [OF own p v(1,2)]] J])
    fix e :: store_error and u
    assume "copied S ?Pre D (copy_excuse content \<or> \<not> room_for d ''content'') (content_stored E st content d) (Inl e) u"
    then show "safe S ?I (Done (Inl e)) ?Q u"
      by (intro fin put_done_Inl) (auto simp: copied_def put_excuse_def)
  next
    fix x u
    assume "copied S ?Pre D (copy_excuse content \<or> \<not> room_for d ''content'') (content_stored E st content d) (Inr x) u"
    then obtain salt stored where x: "x = (digest_of E ?b, take PREVIEW_HEAD_BYTES ?b, salt)"
      and stored: "stored_as E (st_sealer st) salt ?b stored"
      and u: "?Pre u" "tree_at u D (d([''content''] \<mapsto> VFile stored))"
      by (cases x) (auto simp: copied_def content_stored_def)
    let ?d = "d([''content''] \<mapsto> VFile stored)"
    note J' = owns_stable [OF own, of ?d]
    have q: "answers (st_faulty S) u (find_by_content_key E st ?key) (found_key (st_faulty S) E st u ?key)"
      by (rule find_by_key_answer) (use u in \<open>simp add: put_inv_def store_inv_def\<close>)
    have found: "safe S ?I (find_by_content_key E st ?key)
        (\<lambda>r u. (?Pre u \<and> tree_at u D ?d) \<and> (quiet S \<longrightarrow> found_key (st_faulty S) E st u ?key r)) u"
      by (rule reads_safe [OF J' _ _ reads_only_ops(5),
            where P = "\<lambda>u r. found_key (st_faulty S) E st u ?key r"]) (use u q in auto)
    show "safe S ?I (case x of (digest, head, salt) \<Rightarrow>
        tryP (find_by_content_key E st (keyed E st digest)) (\<lambda>found.
        case found of
          Some existing \<Rightarrow> Done (Inr \<lparr>po_meta = existing, po_created = False\<rparr>)
        | None \<Rightarrow>
            Now (\<lambda>now.
             try_res SeModel (finish_keyed E item now digest (keyed E st digest) (preview (ni_kind item) head))
               (finish_put E st (rp_of (items_path st)) (rp_of D) salt)))) ?Q u"
      unfolding x prod.case
    proof (rule safe_then_try [OF found J])
      fix e w assume h: "(?Pre w \<and> tree_at w D ?d) \<and> (quiet S \<longrightarrow> found_key (st_faulty S) E st w ?key (Inl e))"
      have "st_faulty S" if "quiet S"
        using h that store_ok_metas by (auto simp: found_key_def put_inv_def store_inv_def)
      then show "safe S ?I (Done (Inl e)) ?Q w"
        using h by (intro fin put_done_Inl) auto
    next
      fix f w assume h: "(?Pre w \<and> tree_at w D ?d) \<and> (quiet S \<longrightarrow> found_key (st_faulty S) E st w ?key (Inr f))"
      show "safe S ?I (case f of
          Some existing \<Rightarrow> Done (Inr \<lparr>po_meta = existing, po_created = False\<rparr>)
        | None \<Rightarrow>
            Now (\<lambda>now.
             try_res SeModel (finish_keyed E item now (digest_of E ?b) ?key
                (preview (ni_kind item) (take PREVIEW_HEAD_BYTES ?b)))
               (finish_put E st (rp_of (items_path st)) (rp_of D) salt))) ?Q w"
      proof (cases f)
        case (Some m)
        have "put_done E st S N B ?b ?X (Inr \<lparr>po_meta = m, po_created = False\<rparr>) w"
        proof (cases "quiet S")
          case True
          with h Some show ?thesis by (intro found_done [OF _ _ refl]) (auto simp: put_inv_def store_inv_def named_def)
        qed (rule put_done_noisy)
        then show ?thesis using fin h Some by simp
      next
        case None
        have "safe S ?I (try_res SeModel (finish_keyed E item now (digest_of E ?b) ?key
                (preview (ni_kind item) (take PREVIEW_HEAD_BYTES ?b)))
               (finish_put E st (rp_of (items_path st)) (rp_of D) salt)) ?Q w" if now: "st_clock S now" for now
        proof (rule safe_try_res)
          fix e assume "finish_keyed E item now (digest_of E ?b) ?key
                (preview (ni_kind item) (take PREVIEW_HEAD_BYTES ?b)) = Inl e"
          then have "e = TimestampOutOfRange now \<and> \<not> in_range now" by (rule finish_keyed_error)
          then show "safe S ?I (Done (Inl (SeModel e))) ?Q w"
            using h now by (intro fin) (auto simp: put_done_def)
        next
          fix m assume m: "finish_keyed E item now (digest_of E ?b) ?key
                (preview (ni_kind item) (take PREVIEW_HEAD_BYTES ?b)) = Inr m"
          then have cm: "completes E item m" unfolding completes_def using keyed_wf [OF E] by blast
          note dm = describes_finished [OF m E]
          have X: "?X" if "\<not> G \<or> \<not> encodes E m \<or> \<not> room_for ?d ''meta.json''"
            using that cm by (auto simp: put_excuse_def room_for_def)
          have U: "unkeyed E st B ?b" if q: "quiet S" "\<not> st_faulty S"
            unfolding unkeyed_def
          proof (intro allI impI notI)
            fix k assume k: "id_wf k" "id_key k = ?key" "id_repr k \<in> B"
            have "store_ok E st w" "names_in st w = B"
              using h q by (simp_all add: put_inv_def store_inv_def named_def)
            then have there: "w (item_path st k) \<noteq> None" and ok: "store_ok E st w"
              using k(3) by (auto simp: names_in_def item_path_def)
            then have "whole E st w k" using k(1) by (simp add: store_ok_def)
            then obtain mk bk where "item_at E st w k mk bk" by (auto simp: whole_def)
            from whole_readable [OF this] this have "readable E st w k \<noteq> None" "w (item_path st k) = Some VDir"
              by (auto simp: item_at_def)
            then show False
              using h q None k store_ok_metas [OF ok] by (auto simp: found_key_def)
          qed
          show "safe S ?I (finish_put E st (rp_of (items_path st)) (rp_of D) salt m) ?Q w"
            by (rule finish_put_safe [OF E c t plain D dm stored fit [OF cm], of ?d])
              (use h v(3) N A [OF dm(1)] dm(2) X U in \<open>auto simp: describes_def\<close>)
        qed
        then show ?thesis
          using None h by (auto intro: safe_call(10) [OF J])
      qed
    qed
  qed
qed

text \<open>A folder made on the way to the items or to the staging area.\<close>

lemma mk_dir_within:
  assumes J: "stable S J" "\<And>u. J u \<Longrightarrow> I u" "\<And>q u. is_under q (comps p) \<Longrightarrow> J u \<Longrightarrow> J (mk_dirs q u)" and v: "J v"
    and ok: "\<And>w u. J u \<Longrightarrow> (quiet S \<Longrightarrow> w = v) \<Longrightarrow> u = mk_dirs (comps p) w \<Longrightarrow> u (comps p) = Some VDir \<Longrightarrow>
        safe S I (g ()) Q u"
    and err: "\<And>e u. J u \<Longrightarrow>
        st_faulty S \<or> \<not> quiet S \<or> (\<exists>q b. is_under q (comps p) \<and> v q = Some (VFile b)) \<Longrightarrow>
        safe S I (Done (Inl (SeFs e))) Q u"
  shows "safe S I (try_as SeFs (CreateDirAll p Done) g) Q v"
  unfolding prog_simps
proof (rule safe_call(1) [where J = "\<lambda>u. J u \<and> (quiet S \<longrightarrow> u = v)"])
  show "stable S (\<lambda>u. J u \<and> (quiet S \<longrightarrow> u = v))"
    using J(1) by (auto simp: stable_def quiet_def)
  fix w r u assume w: "J w \<and> (quiet S \<longrightarrow> w = v)"
    and r: "create_dir_all_spec (st_faulty S) (comps p) w r u"
  show "safe S I (try_res SeFs r g) Q u"
  proof (cases r)
    case (Inl e)
    then obtain q where "is_under q (comps p)" "u = mk_dirs q w" using r by (auto simp: create_dir_all_spec_def)
    with J(3) w have "J u" by simp
    from err [OF this] show ?thesis using Inl r w by (auto simp: create_dir_all_spec_def)
  next
    case (Inr x)
    then have u: "u = mk_dirs (comps p) w" and nf: "\<And>q b. is_under q (comps p) \<Longrightarrow> w q \<noteq> Some (VFile b)"
      using r by (auto simp: create_dir_all_spec_def)
    have "u (comps p) = Some VDir"
      using nf [of "comps p"] u by (cases "w (comps p)") (auto simp: mk_dirs_def intro: vnode.exhaust)
    with ok [of u w] u w J(3) Inr show ?thesis by simp
  qed
qed (use v J(2) in auto)

lemma mk_dir_safe:
  assumes I: "stable S I" "\<And>q u. is_under q (comps p) \<Longrightarrow> I u \<Longrightarrow> I (mk_dirs q u)" and v: "I v"
    and ok: "\<And>w u. I u \<Longrightarrow> (quiet S \<Longrightarrow> w = v) \<Longrightarrow> u = mk_dirs (comps p) w \<Longrightarrow> u (comps p) = Some VDir \<Longrightarrow>
        safe S I (g ()) Q u"
    and err: "\<And>e u. I u \<Longrightarrow>
        st_faulty S \<or> \<not> quiet S \<or> (\<exists>q b. is_under q (comps p) \<and> v q = Some (VFile b)) \<Longrightarrow>
        safe S I (Done (Inl (SeFs e))) Q u"
  shows "safe S I (try_as SeFs (CreateDirAll p Done) g) Q v"
proof (rule mk_dir_within [where J = I])
  show "safe S I (g ()) Q u"
    if "I u" "quiet S \<Longrightarrow> w = v" "u = mk_dirs (comps p) w" "u (comps p) = Some VDir" for w u
    using ok that by blast
  show "safe S I (Done (Inl (SeFs e))) Q u"
    if "I u" "st_faulty S \<or> \<not> quiet S \<or> (\<exists>q b. is_under q (comps p) \<and> v q = Some (VFile b))" for e u
    using err that by blast
qed (use I v in auto)

lemma guard_ok_mk_dirs:
  assumes "guard_ok E st u" "is_under q (items_path st) \<or> is_under q (tmp_path st @ t)"
  shows "guard_ok E st (mk_dirs q u)"
proof -
  have hd_q: "q = [] \<or> hd q \<in> {''v2'', ''items'', ''tmp''}"
    using assms(2) by (cases q) (auto simp: is_under_def items_path_def tmp_path_def split: if_splits)
  then have "\<not> is_under (x # s) q" if "x \<notin> {''v2'', ''items'', ''tmp''}" for x s
    using that by (cases q) (auto simp: is_under_def)
  then have "\<not> is_under [''.rewrite''] q" "\<not> is_under [''encryption''] q"
    "\<not> is_under [''encryption'', ''header.json''] q" by simp_all
  then show ?thesis using assms(1) by (auto simp: guard_ok_def mk_dirs_def)
qed

lemma put_inv_mk_dirs:
  assumes "put_inv E st N A v0 S G u" "is_under q (items_path st) \<or> is_under q (tmp_path st @ t)"
  shows "put_inv E st N A v0 S G (mk_dirs q u)"
  using assms store_inv_mk_dirs [OF put_inv_store_inv [OF assms(1)] assms(2)] guard_ok_mk_dirs [of E st u q t]
  by (auto simp: put_inv_def mk_dirs_def)

text \<open>What is done in a staging folder made for it, and removed at the end.\<close>

definition in_staging ::
  "fs_store \<Rightarrow> (remote_path \<Rightarrow> (store_error + 'a) prog) \<Rightarrow> (store_error + 'a) prog" where
  "in_staging st inner =
     NextU64 (\<lambda>token.
     try_res SeFs (rp_join (rp_of (tmp_path st)) (token_name token)) (\<lambda>staging.
     try_as SeFs (CreateDirAll staging Done) (\<lambda>_.
     bind (inner staging) (\<lambda>result.
     RemoveDirAll staging (\<lambda>_. Done result)))))"

lemma in_staging_safe:
  assumes c: "client E st N A v0 S" and plain: "st_plain_guard st \<longrightarrow> st_sealer st = None"
    and v: "put_inv E st N A v0 S G v"
    and R: "\<And>r. stable S (R r)"
      "\<And>r u u'. R r u \<Longrightarrow> (\<And>q. \<not> is_under (tmp_path st) q \<Longrightarrow> u' q = u q) \<Longrightarrow> R r u'"
    and err: "\<And>t e u. st_tokens S t \<Longrightarrow> st_faulty S \<or> \<not> quiet S
        \<or> (\<exists>q b. is_under q (tmp_path st @ [token_name t]) \<and> v q = Some (VFile b)) \<Longrightarrow> R (Inl (SeFs e)) u"
    and inner: "\<And>t w u. st_tokens S t \<Longrightarrow> put_inv E st N A v0 S G u \<Longrightarrow> (quiet S \<Longrightarrow> w = v) \<Longrightarrow>
        u = mk_dirs (tmp_path st @ [token_name t]) w \<Longrightarrow> u (tmp_path st @ [token_name t]) = Some VDir \<Longrightarrow>
        safe S (put_inv E st N A v0 S G) (inner (rp_of (tmp_path st @ [token_name t])))
          (\<lambda>r u. put_inv E st N A v0 S G u \<and> R r u) u"
  shows "safe S (put_inv E st N A v0 S G) (in_staging st inner)
    (\<lambda>r u. put_inv E st N A v0 S G u \<and> R r u) v"
proof -
  let ?I = "put_inv E st N A v0 S G"
  let ?Q = "\<lambda>r u. ?I u \<and> R r u"
  note J = stable_put_inv [OF c, of G]
  have JR: "stable S (?Q r)" for r by (rule stable_conj [OF J R(1)])
  have fin: "safe S ?I (Done r) ?Q u" if "?Q r u" for r u
    by (rule safe_done [OF JR [of r] _ that]) simp
  show ?thesis
    unfolding in_staging_def
  proof (rule safe_call(11) [OF J _ v], assumption)
    fix t assume t: "st_tokens S t"
    let ?D = "tmp_path st @ [token_name t]"
    have p: "comps (rp_of ?D) = ?D" by simp
    have join: "rp_join (rp_of (tmp_path st)) (token_name t) = Inr (rp_of ?D)" by (simp add: join_is)
    have "safe S ?I (try_as SeFs (CreateDirAll (rp_of ?D) Done) (\<lambda>_.
        bind (inner (rp_of ?D)) (\<lambda>result. RemoveDirAll (rp_of ?D) (\<lambda>_. Done result)))) ?Q v"
    proof (rule mk_dir_safe [OF J _ v], unfold p)
      show "is_under q ?D \<Longrightarrow> ?I u \<Longrightarrow> ?I (mk_dirs q u)" for q u
        using put_inv_mk_dirs [of E st N A v0 S G u q "[token_name t]"] by simp
      show "safe S ?I (Done (Inl (SeFs e))) ?Q u"
        if "?I u" "st_faulty S \<or> \<not> quiet S \<or> (\<exists>q b. is_under q ?D \<and> v q = Some (VFile b))" for e u
        using fin err [OF t that(2)] that(1) by simp
      fix w u assume u: "?I u" "quiet S \<Longrightarrow> w = v" "u = mk_dirs ?D w" "u ?D = Some VDir"
      show "safe S ?I (bind (inner (rp_of ?D)) (\<lambda>result. RemoveDirAll (rp_of ?D) (\<lambda>_. Done result))) ?Q u"
      proof (rule safe_then [OF inner [OF t u] J])
        fix r x assume x: "?I x \<and> R r x"
        show "safe S ?I (RemoveDirAll (rp_of ?D) (\<lambda>_. Done r)) ?Q x"
        proof (rule safe_call(9) [OF JR [of r] _ x])
          fix y a y' assume y: "?I y \<and> R r y" and a: "remove_dir_all_spec (st_faulty S) (comps (rp_of ?D)) y a y'"
          have out: "y' q = y q" if "\<not> is_under ?D q" for q
            using a that by (auto simp: remove_dir_all_spec_def cut_tree_def p split: sum.splits)
          have "?I y'" by (rule put_inv_outside [OF conjunct1 [OF y] out plain])
          moreover have "R r y'"
            by (rule R(2) [OF conjunct2 [OF y]]) (use out under_trans [OF under_append] in blast)
          ultimately show "safe S ?I (Done r) ?Q y'" using fin by simp
        qed simp_all
      qed
    qed
    then show "safe S ?I (try_res SeFs (rp_join (rp_of (tmp_path st)) (token_name t)) (\<lambda>staging.
        try_as SeFs (CreateDirAll staging Done) (\<lambda>_.
        bind (inner staging) (\<lambda>result. RemoveDirAll staging (\<lambda>_. Done result))))) ?Q v"
      by (simp add: join)
  qed
qed

text \<open>Why a put may fail.\<close>

definition blocked :: "fs_store \<Rightarrow> fsview \<Rightarrow> bool" where
  "blocked st v \<longleftrightarrow> (\<exists>q b. (is_under q (items_path st) \<or> is_under q (tmp_path st)) \<and> v q = Some (VFile b))"

definition fresh_tokens :: "setting \<Rightarrow> fs_store \<Rightarrow> fsview \<Rightarrow> bool" where
  "fresh_tokens S st v \<longleftrightarrow> (\<forall>t s. st_tokens S t \<longrightarrow> v (tmp_path st @ token_name t # s) = None)"

definition put_may_fail ::
  "'z hext_scheme \<Rightarrow> fs_store \<Rightarrow> setting \<Rightarrow> new_item \<Rightarrow> box_read \<Rightarrow> fsview \<Rightarrow> bool" where
  "put_may_fail E st S item content v \<longleftrightarrow>
     copy_excuse content \<or> \<not> guard_ok E st v \<or> blocked st v \<or> \<not> fresh_tokens S st v
     \<or> (\<exists>m. completes E item m \<and> \<not> encodes E m)"

lemma blocked_mk_dirs:
  assumes "is_under q (items_path st) \<or> is_under q (tmp_path st)" "mk_dirs p v q = Some (VFile b)"
  shows "blocked st v"
  using assms by (auto simp: blocked_def mk_dirs_def split: if_splits)

lemma staging_room:
  assumes "fresh_tokens S st v" "st_tokens S t"
    and u: "u = mk_dirs (tmp_path st @ [token_name t]) (mk_dirs (tmp_path st) (mk_dirs (items_path st) v))"
    and x: "u (tmp_path st @ [token_name t]) = Some VDir"
  shows "room_for (\<lambda>s. u ((tmp_path st @ [token_name t]) @ s)) y"
proof -
  let ?p = "tmp_path st @ [token_name t, y]"
  have "\<not> is_under ?p (items_path st)" by (rule items_not_above)
  moreover have "\<not> is_under ?p (tmp_path st)" "\<not> is_under ?p (tmp_path st @ [token_name t])"
    by (auto simp: is_under_def)
  ultimately have "u ?p = v ?p" unfolding u by (simp add: mk_dirs_def)
  then show ?thesis using assms(1,2) x by (simp add: room_for_def fresh_tokens_def)
qed

lemma put_done_stable:
  assumes "client E st N A v0 S"
  shows "stable S (put_done E st S N' B b X r)"
proof (cases "quiet S")
  case True
  then show ?thesis by (rule quiet_stable)
next
  case False
  then show ?thesis
    using assms put_done_noisy [OF False, of E st N' B b X r] by (simp add: client_def stable_def)
qed

lemma put_done_outside:
  assumes "put_done E st S N B b X r u" "\<And>q. \<not> is_under (tmp_path st) q \<Longrightarrow> u' q = u q"
  shows "put_done E st S N B b X r u'"
proof -
  have "u' (items_path st @ n # s) = u (items_path st @ n # s)" for n s
    using assms(2) items_not_above(3) [of st "[]"] by simp
  then have "u' (item_path st i @ s) = u (item_path st i @ s)" for i s
    by (simp add: item_path_def)
  from this [of _ "[]"] this have "item_at E st u' i m b' = item_at E st u i m b'" for i m b'
    by (simp add: item_at_def)
  with assms(1) names_outside [of st "[]" u' u] assms(2) show ?thesis by (auto simp: put_done_def Let_def split: sum.splits if_splits)
qed

text \<open>\<^const>\<open>put\<close> and \<^const>\<open>import_item\<close> work in a staging folder.\<close>

lemma put_eq:
  "put E st item content =
     tryP (check_key E st) (\<lambda>_.
     try_as SeFs (CreateDirAll (rp_of (items_path st)) Done) (\<lambda>_.
     try_as SeFs (CreateDirAll (rp_of (tmp_path st)) Done) (\<lambda>_.
     in_staging st (stage_and_publish E st item content (rp_of (items_path st))))))"
  by (simp add: put_def in_staging_def dirs_are)

text \<open>The invariant of the store, and in a quiet setting the files as they were.\<close>

lemma check_key_safe:
  assumes c: "client E st N A v0 S" and plain: "st_plain_guard st \<longrightarrow> st_sealer st = None"
    and v: "store_inv E st N A v0 v"
  shows "safe S (store_inv E st N A v0) (check_key E st)
    (\<lambda>r u. store_inv E st N A v0 u \<and> (quiet S \<longrightarrow> u = v)
       \<and> (r \<noteq> Inr () \<longrightarrow> st_faulty S \<or> \<not> quiet S \<or> \<not> guard_ok E st v)) v"
proof -
  let ?J = "\<lambda>u. store_inv E st N A v0 u \<and> (quiet S \<longrightarrow> u = v)"
  have J: "stable S ?J" using c by (auto simp: client_def stable_def quiet_def)
  have q: "answers (st_faulty S) v (check_key E st) (\<lambda>r. guard_ok E st v \<longrightarrow> \<not> st_faulty S \<longrightarrow> r = Inr ())"
  proof (cases "guard_ok E st v")
    case True
    show ?thesis by (rule answers_mono [OF check_key_answer [OF True]]) (use plain in simp_all)
  next
    case False
    have "safe (alone (st_faulty S)) (\<lambda>u. u = v) (check_key E st) (\<lambda>_ u. u = v) v"
      by (rule safe_reads) (simp_all add: reads_simps)
    then show ?thesis unfolding answers_def by (rule safe_post) (use False in simp)
  qed
  have "safe S (store_inv E st N A v0) (check_key E st) (\<lambda>r u. ?J u
      \<and> (quiet S \<longrightarrow> guard_ok E st v \<longrightarrow> \<not> st_faulty S \<longrightarrow> r = Inr ())) v"
    by (rule reads_safe [OF J _ _ reads_only_ops(1),
          where P = "\<lambda>_ r. guard_ok E st v \<longrightarrow> \<not> st_faulty S \<longrightarrow> r = Inr ()"]) (use q v in auto)
  then show ?thesis by (rule safe_post) blast
qed

lemma put_stage_safe:
  assumes E: "fext_laws E" and c: "client E st N A v0 S"
    and plain: "st_plain_guard st \<longrightarrow> st_sealer st = None"
    and fit: "\<And>m. completes E item m \<Longrightarrow> fits E (st_sealer st) m"
    and N: "N \<subseteq> names_in st v0"
    and A: "\<And>i. id_wf i \<Longrightarrow> id_key i = keyed E st (digest_of E (br_bytes content)) \<Longrightarrow> id_repr i \<in> A"
    and u: "store_inv E st N A v0 u" "quiet S \<Longrightarrow> u = mk_dirs (tmp_path st) (mk_dirs (items_path st) v)"
      "quiet S \<Longrightarrow> u (items_path st) = Some VDir"
  shows "safe S (store_inv E st N A v0) (in_staging st (stage_and_publish E st item content (rp_of (items_path st))))
    (\<lambda>r u. store_inv E st N A v0 u
       \<and> put_done E st S N (names_in st v) (br_bytes content) (put_may_fail E st S item content v) r u) u"
proof -
  let ?B = "names_in st v"
  let ?G = "guard_ok E st v" and ?X = "put_may_fail E st S item content v" and ?b = "br_bytes content"
  have inv: "put_inv E st N A v0 S ?G u"
  proof -
    have "guard_ok E st (mk_dirs (tmp_path st) (mk_dirs (items_path st) v))" if ?G
      using guard_ok_mk_dirs [OF guard_ok_mk_dirs [OF that, of "items_path st" "[]"], of "tmp_path st" "[]"] by simp
    then show ?thesis using u by (auto simp: put_inv_def)
  qed
  have "safe S (put_inv E st N A v0 S ?G) (in_staging st (stage_and_publish E st item content (rp_of (items_path st))))
    (\<lambda>r u. put_inv E st N A v0 S ?G u \<and> put_done E st S N ?B ?b ?X r u) u"
  proof (rule in_staging_safe [OF c plain inv put_done_stable [OF c] put_done_outside])
    fix t e w assume t: "st_tokens S t" and "st_faulty S \<or> \<not> quiet S
      \<or> (\<exists>q b. is_under q (tmp_path st @ [token_name t]) \<and> u q = Some (VFile b))"
    moreover have ?X if "quiet S" "is_under q (tmp_path st @ [token_name t])" "u q = Some (VFile b)" for q b
    proof -
      have f: "v q = Some (VFile b)" using that u(2) by (simp add: mk_dirs_def split: if_splits)
      have "blocked st v \<or> \<not> fresh_tokens S st v"
        using that(2) f t by (fastforce simp: under_snoc blocked_def fresh_tokens_def)
      then show ?thesis by (auto simp: put_may_fail_def)
    qed
    ultimately show "put_done E st S N ?B ?b ?X (Inl (SeFs e)) w" by (intro put_done_Inl) blast
  next
    fix t w y assume t: "st_tokens S t" and y: "put_inv E st N A v0 S ?G y" "quiet S \<Longrightarrow> w = u"
      "y = mk_dirs (tmp_path st @ [token_name t]) w" "y (tmp_path st @ [token_name t]) = Some VDir"
    let ?D = "tmp_path st @ [token_name t]"
    let ?d = "\<lambda>s. y (?D @ s)"
    have X: ?X if "put_excuse E item content ?G ?d" "quiet S"
    proof -
      have "y = mk_dirs ?D (mk_dirs (tmp_path st) (mk_dirs (items_path st) v))"
        using y(2,3) u(2) that(2) by simp
      from staging_room [OF _ t this y(4)] that(1) show ?thesis
        by (auto simp: put_excuse_def put_may_fail_def)
    qed
    have d: "tree_at y ?D ?d" "?d [] = Some VDir" using y(4) by (simp_all add: tree_at_def)
    have "names_in st y = ?B" if q: "quiet S"
    proof -
      have "y = mk_dirs ?D (mk_dirs (tmp_path st) (mk_dirs (items_path st) v))"
        using y(2,3) u(2) q by simp
      then show ?thesis
        using items_not_above(1) [of st _ "[]"] items_not_above(2) [of st _ "[]" "[]"]
          items_not_above(2) [of st _ "[]" "[token_name t]"]
        by (simp add: names_in_def mk_dirs_def)
    qed
    then have y': "put_inv E st N A v0 S ?G y \<and> named S st ?B y" using y(1) by (simp add: named_def)
    show "safe S (put_inv E st N A v0 S ?G) (stage_and_publish E st item content (rp_of (items_path st)) (rp_of ?D))
        (\<lambda>r u. put_inv E st N A v0 S ?G u \<and> put_done E st S N ?B ?b ?X r u) y"
    proof (rule safe_post)
      show "safe S (put_inv E st N A v0 S ?G) (stage_and_publish E st item content (rp_of (items_path st)) (rp_of ?D))
          (\<lambda>r u. put_inv E st N A v0 S ?G u \<and> put_done E st S N ?B ?b (put_excuse E item content ?G ?d) r u) y"
        by (rule stage_and_publish_safe [OF E c t plain refl fit N A y' d])
      show "put_inv E st N A v0 S ?G w \<and> put_done E st S N ?B ?b (put_excuse E item content ?G ?d) r w \<Longrightarrow>
          put_inv E st N A v0 S ?G w \<and> put_done E st S N ?B ?b ?X r w" for r w
        using put_done_mono X by blast
    qed
  qed
  from safe_inv [OF this put_inv_store_inv] have
    "safe S (store_inv E st N A v0) (in_staging st (stage_and_publish E st item content (rp_of (items_path st))))
      (\<lambda>r u. put_inv E st N A v0 S ?G u \<and> put_done E st S N ?B ?b ?X r u) u" .
  then show ?thesis by (rule safe_post) (simp add: put_inv_def)
qed

lemma put_safe:
  assumes E: "fext_laws E" and c: "client E st N A v0 S"
    and plain: "st_plain_guard st \<longrightarrow> st_sealer st = None"
    and fit: "\<And>m. completes E item m \<Longrightarrow> fits E (st_sealer st) m"
    and N: "N \<subseteq> names_in st v0"
    and A: "\<And>i. id_wf i \<Longrightarrow> id_key i = keyed E st (digest_of E (br_bytes content)) \<Longrightarrow> id_repr i \<in> A"
    and v: "store_inv E st N A v0 v"
  shows "safe S (store_inv E st N A v0) (put E st item content)
    (\<lambda>r u. store_inv E st N A v0 u
       \<and> put_done E st S N (names_in st v) (br_bytes content) (put_may_fail E st S item content v) r u) v"
proof -
  let ?I = "store_inv E st N A v0" and ?b = "br_bytes content" and ?X = "put_may_fail E st S item content v"
  let ?B = "names_in st v"
  let ?Q = "\<lambda>r u. ?I u \<and> put_done E st S N ?B ?b ?X r u"
  have stab: "stable S ?I" using c by (simp add: client_def)
  have fail: "safe S ?I (Done (Inl e)) ?Q u" if "?I u" "st_faulty S \<or> \<not> quiet S \<or> ?X" for e u
    by (rule safe_done [OF stab _ that(1)]) (simp add: put_done_Inl [OF that(2)])
  have ps: "comps (rp_of (items_path st)) = items_path st" "comps (rp_of (tmp_path st)) = tmp_path st"
    by simp_all
  have mk: "?I (mk_dirs q u)" if "is_under q (items_path st) \<or> is_under q (tmp_path st)" "?I u" for q u
    using store_inv_mk_dirs [OF that(2), of q "[]"] that(1) by simp
  show ?thesis
    unfolding put_eq
  proof (rule safe_then_try [OF check_key_safe [OF c plain v] stab])
    fix e :: store_error and u
    assume "?I u \<and> (quiet S \<longrightarrow> u = v)
       \<and> ((Inl e :: store_error + unit) \<noteq> Inr () \<longrightarrow> st_faulty S \<or> \<not> quiet S \<or> \<not> guard_ok E st v)"
    then show "safe S ?I (Done (Inl e)) ?Q u" by (intro fail) (auto simp: put_may_fail_def)
  next
    fix x u0 assume u0: "?I u0 \<and> (quiet S \<longrightarrow> u0 = v)
       \<and> ((Inr x :: store_error + unit) \<noteq> Inr () \<longrightarrow> st_faulty S \<or> \<not> quiet S \<or> \<not> guard_ok E st v)"
    show "safe S ?I (try_as SeFs (CreateDirAll (rp_of (items_path st)) Done) (\<lambda>_.
        try_as SeFs (CreateDirAll (rp_of (tmp_path st)) Done) (\<lambda>_.
        in_staging st (stage_and_publish E st item content (rp_of (items_path st)))))) ?Q u0"
    proof (rule mk_dir_safe [OF stab], unfold ps)
      fix e u assume "?I u" "st_faulty S \<or> \<not> quiet S \<or> (\<exists>q b. is_under q (items_path st) \<and> u0 q = Some (VFile b))"
      then show "safe S ?I (Done (Inl (SeFs e))) ?Q u"
        using u0 by (intro fail) (auto simp: put_may_fail_def blocked_def)
    next
      fix w1 u1 assume u1: "?I u1" "quiet S \<Longrightarrow> w1 = u0" "u1 = mk_dirs (items_path st) w1" "u1 (items_path st) = Some VDir"
      show "safe S ?I (try_as SeFs (CreateDirAll (rp_of (tmp_path st)) Done) (\<lambda>_.
        in_staging st (stage_and_publish E st item content (rp_of (items_path st))))) ?Q u1"
      proof (rule mk_dir_safe [OF stab], unfold ps)
        fix e u assume u: "?I u" "st_faulty S \<or> \<not> quiet S \<or> (\<exists>q b. is_under q (tmp_path st) \<and> u1 q = Some (VFile b))"
        have "blocked st v" if "quiet S" "is_under q (tmp_path st)" "u1 q = Some (VFile b)" for q b
          by (rule blocked_mk_dirs [of q st "items_path st" v b]) (use that u0 u1(2,3) in auto)
        with u show "safe S ?I (Done (Inl (SeFs e))) ?Q u"
          by (intro fail) (auto simp: put_may_fail_def)
      next
        fix w2 u2 assume u2: "?I u2" "quiet S \<Longrightarrow> w2 = u1" "u2 = mk_dirs (tmp_path st) w2"
        show "safe S ?I (in_staging st (stage_and_publish E st item content (rp_of (items_path st)))) ?Q u2"
          by (rule put_stage_safe [OF E c plain fit N A u2(1)])
            (use u0 u1 u2 in \<open>auto simp: mk_dirs_def\<close>)
      qed (use mk u1(1) in auto)
    qed (use mk u0 in auto)
  qed
qed

end
