(* ===== verification/Store_Delete.thy ===== *)
theory Store_Delete
  imports Store_Write
begin

text \<open>
  The operations that take things away. An item is deleted by the one rename that moves it into the
  staging area: before it the item is whole, after it the item is gone, and no other item is
  touched. Cleaning the staging area and probing for write access never touch an item.
\<close>

section \<open>Deleting an item\<close>

definition as_before :: "fs_store \<Rightarrow> item_id \<Rightarrow> fsview \<Rightarrow> fsview \<Rightarrow> bool" where
  "as_before st i v u \<longleftrightarrow> (\<forall>s. u (item_path st i @ s) = v (item_path st i @ s))"

definition gone :: "fs_store \<Rightarrow> item_id \<Rightarrow> fsview \<Rightarrow> bool" where
  "gone st i u \<longleftrightarrow> (\<forall>s. u (item_path st i @ s) = None)"

definition delete_may_fail :: "'z hext_scheme \<Rightarrow> fs_store \<Rightarrow> setting \<Rightarrow> item_id \<Rightarrow> fsview \<Rightarrow> bool" where
  "delete_may_fail E st S i v \<longleftrightarrow>
     readable E st v i = None \<or> \<not> guard_ok E st v
     \<or> (\<exists>q b. is_under q (tmp_path st) \<and> v q = Some (VFile b))
     \<or> (\<exists>t. st_tokens S t \<and> v (tmp_path st @ [''deleted-'' @ id_repr i @ ''-'' @ token_name t]) \<noteq> None)"

text \<open>
  In a quiet setting: success answers the metadata the item had, and the item is gone; a failure
  leaves it as it was, or (only with faults) gone altogether. A failure without faults has an excuse.
\<close>

definition delete_done ::
  "'z hext_scheme \<Rightarrow> fs_store \<Rightarrow> setting \<Rightarrow> item_id \<Rightarrow> fsview \<Rightarrow> store_error + item_meta \<Rightarrow> fsview \<Rightarrow> bool" where
  "delete_done E st S i v r u \<longleftrightarrow>
     (quiet S \<longrightarrow>
       (case r of
          Inr m \<Rightarrow> (\<exists>x. readable E st v i = Some (m, x)) \<and> gone st i u
        | Inl e \<Rightarrow>
            st_faulty S \<and> gone st i u \<or> (st_faulty S \<or> delete_may_fail E st S i v) \<and> as_before st i v u))"

lemma moved_away:
  "move_tree (item_path st i) (tmp_path st @ t) u (item_path st i @ s) = None"
  by (simp add: move_tree_def items_not_above item_path_def) (simp add: is_under_def)

text \<open>The last part of deleting: the rename out of the items, and the removal of what was moved.\<close>

definition bury :: "fs_store \<Rightarrow> item_id \<Rightarrow> item_meta \<Rightarrow> (store_error + item_meta) prog" where
  "bury st i m =
     NextU64 (\<lambda>token.
     try_res SeFs (rp_join (rp_of (tmp_path st)) (''deleted-'' @ id_repr i @ ''-'' @ token_name token)) (\<lambda>grave.
     Rename (rp_of (item_path st i)) grave (\<lambda>r.
       case r of
         Inl e \<Rightarrow> Done (Inl (missing_as_not_found i (SeFs e)))
       | Inr _ \<Rightarrow> try_as SeFs (RemoveDirAll grave Done) (\<lambda>_. Done (Inr m)))))"

lemma delete_item_eq:
  "id_wf i \<Longrightarrow> delete_item E st i =
     tryP (check_key E st) (\<lambda>_.
     try_as (missing_as_not_found i) (read_meta E st i) (\<lambda>m.
     try_as SeFs (CreateDirAll (rp_of (tmp_path st)) Done) (\<lambda>_. bury st i m)))"
  by (simp add: delete_item_def bury_def dirs_are item_dir_is)

lemma as_before_mk_dirs:
  assumes "is_under q (tmp_path st)" "as_before st i v u"
  shows "as_before st i v (mk_dirs q u)"
proof -
  have "\<not> is_under (items_path st @ id_repr i # s) q" for s
    using items_not_above(2) [of st "id_repr i" s "[]"] under_trans [OF _ assms(1)] by auto
  then show ?thesis using assms(2) by (simp add: as_before_def mk_dirs_def item_path_def)
qed

lemma quiet_stable_conj: "stable S I \<Longrightarrow> stable S (\<lambda>u. I u \<and> (quiet S \<longrightarrow> P u))"
  by (auto simp: stable_def quiet_def)

lemma delete_fails:
  assumes "stable S I" "I u"
    "quiet S \<Longrightarrow> st_faulty S \<and> gone st i u \<or> (st_faulty S \<or> delete_may_fail E st S i v) \<and> as_before st i v u"
  shows "safe S I (Done (Inl e)) (\<lambda>r u. I u \<and> delete_done E st S i v r u) u"
  by (rule safe_done [OF quiet_stable_conj [OF assms(1), of "\<lambda>u. st_faulty S \<and> gone st i u
        \<or> (st_faulty S \<or> delete_may_fail E st S i v) \<and> as_before st i v u"]])
    (use assms(2,3) in \<open>auto simp: delete_done_def\<close>)

lemma bury_safe:
  assumes c: "client E st N A v0 S" and i: "id_wf i" and N: "id_repr i \<notin> N"
    and v: "store_inv E st N A v0 v1"
    and q: "quiet S \<Longrightarrow> as_before st i v v1 \<and> v1 (tmp_path st) = Some VDir \<and> v (item_path st i) = Some VDir
        \<and> (\<forall>s. v1 (tmp_path st @ [s]) = v (tmp_path st @ [s]))"
    and m: "quiet S \<Longrightarrow> \<exists>x. readable E st v i = Some (m, x)"
  shows "safe S (store_inv E st N A v0) (bury st i m)
    (\<lambda>r u. store_inv E st N A v0 u \<and> delete_done E st S i v r u) v1"
proof -
  let ?I = "store_inv E st N A v0"
  let ?Q = "\<lambda>r u. ?I u \<and> delete_done E st S i v r u"
  have stab: "stable S ?I" using c by (simp add: client_def)
  show ?thesis
    unfolding bury_def
  proof (rule safe_call(11) [OF stab _ v], assumption)
    fix t assume t: "st_tokens S t"
    let ?g = "''deleted-'' @ id_repr i @ ''-'' @ token_name t"
    let ?D = "tmp_path st @ [?g]"
    have val': "\<not> invalid_component ?g" by (rule valid_graves(2) [OF i])
    have val: "valid_comps ?D"
      by (simp only: valid_comps_simps valid_paths val' simp_thms not_False_eq_True)
    have p: "comps (rp_of ?D) = ?D" "comps (rp_of (item_path st i)) = item_path st i"
      by (rule comps_rp_of [OF val], rule comps_rp_of [OF valid_item_path [OF i]])
    have join: "rp_join (rp_of (tmp_path st)) ?g = Inr (rp_of ?D)"
      by (rule join_is [OF valid_paths(2) val'])
    let ?J = "\<lambda>u. ?I u \<and> (quiet S \<longrightarrow> u = v1)"
    have away: "?I (move_tree (item_path st i) ?D u)" "gone st i (move_tree (item_path st i) ?D u)" if "?I u" for u
      using store_inv_mono [OF store_inv_move_out [OF that N]] moved_away by (auto simp: gone_def)
    have "safe S ?I (Rename (rp_of (item_path st i)) (rp_of ?D) (\<lambda>r.
       case r of
         Inl e \<Rightarrow> Done (Inl (missing_as_not_found i (SeFs e)))
       | Inr _ \<Rightarrow> try_as SeFs (RemoveDirAll (rp_of ?D) Done) (\<lambda>_. Done (Inr m)))) ?Q v1"
    proof (rule safe_call(5) [OF quiet_stable_conj [OF stab, of "\<lambda>u. u = v1"]], unfold p)
      show "?J v1" using v by simp
      fix u r u' assume u: "?J u" and r: "rename_spec (st_faulty S) (item_path st i) ?D u r u'"
      show "safe S ?I (case r of
         Inl e \<Rightarrow> Done (Inl (missing_as_not_found i (SeFs e)))
       | Inr _ \<Rightarrow> try_as SeFs (RemoveDirAll (rp_of ?D) Done) (\<lambda>_. Done (Inr m))) ?Q u'"
      proof (cases r)
        case (Inl e)
        have I': "?I u'" using r Inl u away(1) by (auto simp: rename_spec_def)
        have "st_faulty S \<and> gone st i u' \<or> (st_faulty S \<or> delete_may_fail E st S i v) \<and> as_before st i v u'"
          if "quiet S"
        proof (cases "u' = u")
          case True
          have "\<not> is_under (item_path st i) ?D"
            unfolding item_path_def by (rule items_not_above)
          moreover have "v1 (item_path st i) \<noteq> None"
            using q [OF that] by (auto simp: as_before_def dest: spec [of _ "[]"])
          ultimately have "st_faulty S \<or> v ?D \<noteq> None"
            using r Inl u that q [OF that] by (auto simp: rename_spec_def can_rename_def)
          then show ?thesis using True u that q [OF that] t by (auto simp: delete_may_fail_def)
        next
          case False
          then have "st_faulty S" "u' = move_tree (item_path st i) ?D u" using r Inl by (auto simp: rename_spec_def)
          then show ?thesis using away u by simp
        qed
        from delete_fails [OF stab I' this] show ?thesis by (simp add: Inl)
      next
        case (Inr x)
        then have u': "u' = move_tree (item_path st i) ?D u" using r by (simp add: rename_spec_def)
        let ?K = "\<lambda>u. ?I u \<and> (quiet S \<longrightarrow> gone st i u \<and> u ?D = Some VDir)"
        have "safe S ?I (RemoveDirAll (rp_of ?D) (\<lambda>r. try_res SeFs r (\<lambda>_. Done (Inr m)))) ?Q u'"
        proof (rule safe_call(9) [OF quiet_stable_conj [OF stab, of "\<lambda>u. gone st i u \<and> u ?D = Some VDir"]], unfold p)
          have "u' ?D = Some VDir" if "quiet S"
          proof -
            have "u = v1" "v (item_path st i) = Some VDir" using u q [OF that] that by simp_all
            moreover have "v1 (item_path st i @ []) = v (item_path st i @ [])"
              using q [OF that] unfolding as_before_def by blast
            ultimately show ?thesis by (simp add: u' move_tree_def is_under_def)
          qed
          moreover have "?I u'" "gone st i u'" unfolding u' by (rule away [OF conjunct1 [OF u]])+
          ultimately show "?K u'" by blast
          fix y a y' assume y: "?K y" and a: "remove_dir_all_spec (st_faulty S) ?D y a y'"
          have out: "y' q = y q" if "\<not> is_under ?D q" for q
            using a that by (auto simp: remove_dir_all_spec_def cut_tree_def split: sum.splits)
          have I': "?I y'" by (rule store_inv_outside [OF conjunct1 [OF y] out])
          have "y' (item_path st i @ s) = y (item_path st i @ s)" for s
            by (rule out) (simp only: item_path_def append_assoc append_Cons append_Nil items_not_above not_False_eq_True)
          then have g: "gone st i y'" if "quiet S" using y that by (simp add: gone_def)
          show "safe S ?I (try_res SeFs a (\<lambda>_. Done (Inr m))) ?Q y'"
          proof (cases a)
            case (Inl e)
            have "st_faulty S" if "quiet S" using a Inl y that by (auto simp: remove_dir_all_spec_def)
            then have "safe S ?I (Done (Inl (SeFs e))) ?Q y'"
              using g by (intro delete_fails [OF stab I']) blast
            then show ?thesis using Inl by simp
          next
            case (Inr z)
            have "safe S ?I (Done (Inr m)) ?Q y'"
              by (rule safe_done [OF quiet_stable_conj [OF stab, of "gone st i"]])
                (use I' g m in \<open>auto simp: delete_done_def\<close>)
            then show ?thesis using Inr by simp
          qed
        qed simp_all
        then show ?thesis using Inr by (simp add: prog_simps)
      qed
    qed simp_all
    then show "safe S ?I (try_res SeFs (rp_join (rp_of (tmp_path st)) ?g) (\<lambda>grave.
       Rename (rp_of (item_path st i)) grave (\<lambda>r. case r of
         Inl e \<Rightarrow> Done (Inl (missing_as_not_found i (SeFs e)))
       | Inr _ \<Rightarrow> try_as SeFs (RemoveDirAll grave Done) (\<lambda>_. Done (Inr m))))) ?Q v1"
      by (simp only: join try_res_simps)
  qed
qed

lemma delete_safe:
  assumes c: "client E st N A v0 S" and plain: "st_plain_guard st \<longrightarrow> st_sealer st = None"
    and i: "id_wf i" and N: "id_repr i \<notin> N" and v: "store_inv E st N A v0 v"
    and wf: "fs_wf v"
  shows "safe S (store_inv E st N A v0) (delete_item E st i)
    (\<lambda>r u. store_inv E st N A v0 u \<and> delete_done E st S i v r u) v"
proof -
  let ?I = "store_inv E st N A v0"
  let ?Q = "\<lambda>r u. ?I u \<and> delete_done E st S i v r u"
  let ?X = "delete_may_fail E st S i v"
  have stab: "stable S ?I" using c by (simp add: client_def)
  note fail = delete_fails [OF stab]
  have whole: "v (item_path st i) = Some VDir \<and> v (meta_file st i) \<noteq> Some VDir" if "v (item_path st i) \<noteq> None"
    using v that i by (auto simp: store_inv_def store_ok_def whole_def item_at_def meta_file_def)
  have mf: "v (meta_file st i) \<noteq> Some VDir"
    using whole fs_wfD(2) [OF wf, of "item_path st i" "''meta.json''"] by (auto simp: meta_file_def)
  have ps: "comps (rp_of (tmp_path st)) = tmp_path st" by simp
  have mk: "?I (mk_dirs q u)" if "is_under q (tmp_path st)" "?I u" for q u
    using store_inv_mk_dirs [OF that(2), of q "[]"] that(1) by simp
  show ?thesis
    unfolding delete_item_eq [OF i]
  proof (rule safe_then_try [OF check_key_safe [OF c plain v] stab])
    fix e :: store_error and u
    assume "?I u \<and> (quiet S \<longrightarrow> u = v)
       \<and> ((Inl e :: store_error + unit) \<noteq> Inr () \<longrightarrow> st_faulty S \<or> \<not> quiet S \<or> \<not> guard_ok E st v)"
    then show "safe S ?I (Done (Inl e)) ?Q u" by (intro fail) (auto simp: delete_may_fail_def as_before_def)
  next
    fix x u0 assume u0: "?I u0 \<and> (quiet S \<longrightarrow> u0 = v)
       \<and> ((Inr x :: store_error + unit) \<noteq> Inr () \<longrightarrow> st_faulty S \<or> \<not> quiet S \<or> \<not> guard_ok E st v)"
    let ?P = "\<lambda>w r. \<exists>y. read_answer (st_faulty S) E st w i y \<and> r = map_sum id fst y"
    let ?J = "\<lambda>u. ?I u \<and> (quiet S \<longrightarrow> u = v)"
    have read: "safe S ?I (read_meta E st i) (\<lambda>r u. ?J u \<and> (quiet S \<longrightarrow> ?P u r)) u0"
      by (rule reads_safe [OF quiet_stable_conj [OF stab] _ _ reads_only_ops(3), where P = ?P])
        (use u0 read_meta_answer [OF i] in auto)
    show "safe S ?I (try_as (missing_as_not_found i) (read_meta E st i) (\<lambda>m.
       try_as SeFs (CreateDirAll (rp_of (tmp_path st)) Done) (\<lambda>_. bury st i m))) ?Q u0"
    proof (rule safe_then_try [OF read stab])
      fix e u assume u: "?J u \<and> (quiet S \<longrightarrow> ?P u (Inl e))"
      have "(st_faulty S \<or> ?X) \<and> as_before st i v u" if q: "quiet S"
      proof -
        from u q obtain y where y: "read_answer (st_faulty S) E st v i y" "Inl e = map_sum id fst y" and uv: "u = v"
          by blast
        from y obtain e' where "read_answer (st_faulty S) E st v i (Inl e')" by (cases y) auto
        then show ?thesis
          using mf uv by (auto simp: read_answer_def delete_may_fail_def as_before_def)
      qed
      with u show "safe S ?I (Done (Inl (missing_as_not_found i e))) ?Q u" by (intro fail) auto
    next
      fix m u assume u: "?J u \<and> (quiet S \<longrightarrow> ?P u (Inr m))"
      have m: "\<exists>x. readable E st v i = Some (m, x)" if q: "quiet S"
      proof -
        from u q obtain y where y: "read_answer (st_faulty S) E st v i y" "Inr m = map_sum id fst y" by blast
        then show ?thesis by (cases y) (auto simp: read_answer_def)
      qed
      have there: "v (item_path st i) = Some VDir" if "quiet S"
      proof -
        have "v (item_path st i @ [''meta.json'']) \<noteq> None"
          using m [OF that] by (auto simp: readable_def meta_file_def split: option.splits)
        then show ?thesis by (rule fs_wfD(2) [OF wf])
      qed
      let ?K = "\<lambda>u. ?I u \<and> (quiet S \<longrightarrow> as_before st i v u)"
      show "safe S ?I (try_as SeFs (CreateDirAll (rp_of (tmp_path st)) Done) (\<lambda>_. bury st i m)) ?Q u"
      proof (rule mk_dir_within [where J = ?K], unfold ps)
        show "stable S ?K" by (rule quiet_stable_conj [OF stab])
        fix e w assume w: "?K w" "st_faulty S \<or> \<not> quiet S \<or> (\<exists>q b. is_under q (tmp_path st) \<and> u q = Some (VFile b))"
        show "safe S ?I (Done (Inl (SeFs e))) ?Q w"
          using w u by (intro fail) (auto simp: delete_may_fail_def)
      next
        fix w1 u1 assume u1: "?K u1" "quiet S \<Longrightarrow> w1 = u" "u1 = mk_dirs (tmp_path st) w1" "u1 (tmp_path st) = Some VDir"
        show "safe S ?I (bury st i m) ?Q u1"
        proof (rule bury_safe [OF c i N conjunct1 [OF u1(1)] _ m])
          assume q: "quiet S"
          then have e: "u1 = mk_dirs (tmp_path st) v" using u1(2,3) u by simp
          have "u1 (tmp_path st @ [s]) = v (tmp_path st @ [s])" for s
            by (simp add: e mk_dirs_def is_under_def)
          then show "as_before st i v u1 \<and> u1 (tmp_path st) = Some VDir \<and> v (item_path st i) = Some VDir
              \<and> (\<forall>s. u1 (tmp_path st @ [s]) = v (tmp_path st @ [s]))"
            using u1(1,4) there [OF q] q by simp
        qed
      qed (use u mk as_before_mk_dirs in \<open>auto simp: as_before_def\<close>)
    qed
  qed
qed

section \<open>The staging area\<close>

text \<open>
  What an assertion must be to survive work in the staging areas: nobody else breaks it, it does
  not look inside, and it does not mind the folders on the way there being made.
\<close>

definition staging_blind :: "fs_store \<Rightarrow> setting \<Rightarrow> (fsview \<Rightarrow> bool) \<Rightarrow> bool" where
  "staging_blind st S I \<longleftrightarrow>
     stable S I
     \<and> (\<forall>u u'. I u \<longrightarrow> (\<forall>q. \<not> is_under (tmp_path st) q \<and> \<not> is_under [''tmp''] q \<longrightarrow> u' q = u q) \<longrightarrow> I u')
     \<and> (\<forall>u q. I u \<longrightarrow> is_under q (tmp_path st) \<longrightarrow> I (mk_dirs q u))"

lemma staging_blindD:
  assumes "staging_blind st S I"
  shows "stable S I"
    "I u \<Longrightarrow> (\<And>q. \<not> is_under (tmp_path st) q \<Longrightarrow> \<not> is_under [''tmp''] q \<Longrightarrow> u' q = u q) \<Longrightarrow> I u'"
    "I u \<Longrightarrow> is_under q (tmp_path st) \<Longrightarrow> I (mk_dirs q u)"
  using assms unfolding staging_blind_def by blast+

lemma store_inv_blind:
  assumes "client E st N A v0 S"
  shows "staging_blind st S (store_inv E st N A v0)"
  unfolding staging_blind_def
proof (intro conjI allI impI)
  show "stable S (store_inv E st N A v0)" using assms by (simp add: client_def)
  fix u :: fsview assume u: "store_inv E st N A v0 u"
  show "store_inv E st N A v0 (mk_dirs q u)" if "is_under q (tmp_path st)" for q
    using store_inv_mk_dirs [OF u, of q "[]"] that by simp
  fix u' assume "\<forall>q. \<not> is_under (tmp_path st) q \<and> \<not> is_under [''tmp''] q \<longrightarrow> u' q = u q"
  then have same: "\<not> is_under (tmp_path st) q \<Longrightarrow> \<not> is_under [''tmp''] q \<Longrightarrow> u' q = u q" for q by blast
  show "store_inv E st N A v0 u'"
  proof (rule store_inv_cong [OF u])
    have out: "\<not> is_under (tmp_path st) (items_path st @ n # s)" "\<not> is_under [''tmp''] (items_path st @ n # s)"
      "\<not> is_under (tmp_path st) (items_path st)" "\<not> is_under [''tmp''] (items_path st)" for n s
      by (auto simp: is_under_def items_path_def tmp_path_def)
    show "u' (items_path st @ n # s) = u (items_path st @ n # s)" for n s by (rule same) (rule out)+
    show "u (items_path st) = Some VDir \<Longrightarrow> u' (items_path st) = Some VDir" using same out by simp
  qed
qed

text \<open>Alone, everything outside the staging areas stays as it was.\<close>

definition only_staging :: "fs_store \<Rightarrow> fsview \<Rightarrow> fsview \<Rightarrow> bool" where
  "only_staging st v u \<longleftrightarrow>
     (\<forall>q. \<not> is_under (tmp_path st) q \<longrightarrow> \<not> is_under [''tmp''] q \<longrightarrow>
        u q = v q \<or> (v q = None \<and> is_under q (tmp_path st) \<and> u q = Some VDir))"

lemma only_staging_blind: "quiet S \<Longrightarrow> staging_blind st S (only_staging st v)"
  using under_trans by (fastforce simp: staging_blind_def quiet_stable only_staging_def mk_dirs_def split: if_splits)

lemma join_wf: "rp_join (rp_of cs) n = Inr p \<Longrightarrow> valid_comps cs \<Longrightarrow> comps p = cs @ [n]"
  by (auto simp: rp_join_of split: if_splits)

lemma blind_removal:
  assumes I: "staging_blind st S I" and p: "comps p = tp @ [n]" and tp: "tp = tmp_path st \<or> tp = [''tmp'']"
    and v: "I v" and k: "\<And>r u. I u \<Longrightarrow> safe S I (k r) Q u"
  shows "safe S I (RemoveDirAll p k) Q v"
proof (rule safe_remove_dir_all [OF staging_blindD(1) [OF I] _ v _ _ k])
  show "comps p \<noteq> []" using p by simp
  fix u u' assume u: "I u" and r: "\<forall>q. u' q = u q \<or> (is_under (comps p) q \<and> u' q = None)"
  show "I u'"
  proof (rule staging_blindD(2) [OF I u])
    fix q assume "\<not> is_under (tmp_path st) q" "\<not> is_under [''tmp''] q"
    then have "\<not> is_under (comps p) q" using tp under_trans [OF under_append] p by metis
    then show "u' q = u q" using r by blast
  qed
qed simp_all

lemma clean_entries_blind:
  assumes I: "staging_blind st S I" and tp: "tp = tmp_path st \<or> tp = [''tmp'']"
  shows "I v \<Longrightarrow> safe S I (clean_entries (rp_of tp) cutoff es n) (\<lambda>_. I) v"
proof (induction es arbitrary: n v)
  note J = staging_blindD(1) [OF I]
  have done_: "safe S I (Done r) (\<lambda>_. I) v" if "I v" for v and r :: "store_error + nat"
    by (rule safe_done [OF J _ that]) simp
  {
    case (Nil n v)
    then show ?case using done_ by simp
  next
    case (Cons e es n v)
    have vt: "valid_comps tp" using tp by auto
    show ?case
      unfolding clean_entries.simps
    proof (rule safe_try_res)
      show "safe S I (Done (Inl (SeFs x) :: store_error + nat)) (\<lambda>_. I) v" for x by (rule done_) (rule Cons.prems)
      fix p assume "rp_join (rp_of tp) (de_name e) = Inr p"
      then have p: "comps p = tp @ [de_name e]" using vt by (rule join_wf)
      show "safe S I (try_as SeFs (Stat p Done) (\<lambda>found.
          if (case found of Some md \<Rightarrow> (case md_modified md of Some t \<Rightarrow> t < cutoff | None \<Rightarrow> False) | None \<Rightarrow> False)
          then try_as SeFs (RemoveDirAll p Done) (\<lambda>_. clean_entries (rp_of tp) cutoff es (n + 1))
          else clean_entries (rp_of tp) cutoff es n)) (\<lambda>_. I) v"
        unfolding prog_simps
      proof (rule safe_call(4) [OF J _ Cons.prems], assumption)
        fix u r assume u: "I u"
        show "safe S I (try_res SeFs r (\<lambda>found.
            if (case found of Some md \<Rightarrow> (case md_modified md of Some t \<Rightarrow> t < cutoff | None \<Rightarrow> False) | None \<Rightarrow> False)
            then RemoveDirAll p (\<lambda>r. try_res SeFs r (\<lambda>_. clean_entries (rp_of tp) cutoff es (n + 1)))
            else clean_entries (rp_of tp) cutoff es n)) (\<lambda>_. I) u"
        proof (rule safe_try_res)
          fix found
          have "safe S I (RemoveDirAll p (\<lambda>r. try_res SeFs r (\<lambda>_. clean_entries (rp_of tp) cutoff es (n + 1)))) (\<lambda>_. I) u"
            by (rule blind_removal [OF I p tp u], rule safe_try_res) (use done_ Cons.IH in auto)
          then show "safe S I (if (case found of Some md \<Rightarrow> (case md_modified md of Some t \<Rightarrow> t < cutoff | None \<Rightarrow> False) | None \<Rightarrow> False)
              then RemoveDirAll p (\<lambda>r. try_res SeFs r (\<lambda>_. clean_entries (rp_of tp) cutoff es (n + 1)))
              else clean_entries (rp_of tp) cutoff es n) (\<lambda>_. I) u"
            using Cons.IH [OF u] by simp
        qed (use done_ u in simp)
      qed
    qed
  }
qed

lemma clean_dir_blind:
  assumes I: "staging_blind st S I" and tp: "tp = tmp_path st \<or> tp = [''tmp'']" and v: "I v"
  shows "safe S I (clean_dir (rp_of tp) cutoff) (\<lambda>_. I) v"
  unfolding clean_dir_def
proof (rule safe_call(2) [OF staging_blindD(1) [OF I] _ v], assumption)
  fix u r assume u: "I u"
  have "safe S I (Done x) (\<lambda>_. I) u" for x :: "store_error + nat"
    by (rule safe_done [OF staging_blindD(1) [OF I] _ u]) simp
  then show "safe S I (case r of Inr entries \<Rightarrow> clean_entries (rp_of tp) cutoff (filter de_is_dir entries) 0
       | Inl (FsNotFound _) \<Rightarrow> Done (Inr 0) | Inl e \<Rightarrow> Done (Inl (SeFs e))) (\<lambda>_. I) u"
    using clean_entries_blind [OF I tp u] by (auto split: sum.splits fs_error.splits)
qed

lemma clean_staging_blind:
  assumes I: "staging_blind st S I" and v: "I v"
  shows "safe S I (clean_staging min_utc st age) (\<lambda>_. I) v"
proof -
  note J = staging_blindD(1) [OF I]
  have done_: "safe S I (Done r) (\<lambda>_. I) v" if "I v" for v and r :: "store_error + nat"
    by (rule safe_done [OF J _ that]) simp
  note cd = clean_dir_blind [OF I]
  have two: "safe S I (tryP (clean_dir (rp_of (tmp_path st)) cutoff) (\<lambda>removed.
      if st_sealer st = None then Done (Inr removed)
      else tryP (clean_dir (rp_of [''tmp'']) cutoff) (\<lambda>more. Done (Inr (removed + more))))) (\<lambda>_. I) v" for cutoff
  proof (rule safe_then_try [OF cd [OF disjI1 [OF refl] v] J])
    fix removed u assume u: "I u"
    have "safe S I (tryP (clean_dir (rp_of [''tmp'']) cutoff) (\<lambda>more. Done (Inr (removed + more)))) (\<lambda>_. I) u"
      by (rule safe_then_try [OF cd [OF disjI2 [OF refl] u] J]) (use done_ in auto)
    then show "safe S I (if st_sealer st = None then Done (Inr removed)
        else tryP (clean_dir (rp_of [''tmp'']) cutoff) (\<lambda>more. Done (Inr (removed + more)))) (\<lambda>_. I) u"
      using done_ [OF u] by simp
  qed (use done_ in auto)
  have "safe S I (Now (\<lambda>now. if now - int age < min_utc then Done (Inr 0)
        else tryP (clean_dir (rp_of (tmp_path st)) (now - int age)) (\<lambda>removed.
          if st_sealer st = None then Done (Inr removed)
          else tryP (clean_dir (rp_of [''tmp'']) (now - int age)) (\<lambda>more. Done (Inr (removed + more)))))) (\<lambda>_. I) v"
    by (rule safe_call(10) [OF J _ v]) (use done_ [OF v] two in auto)
  then show ?thesis
    using done_ [OF v] unfolding clean_staging_def dirs_are TMP_DIR_def new_is Let_def try_res_simps by simp
qed

section \<open>Probing for write access\<close>

text \<open>Making a folder and writing a file in the staging area.\<close>

lemma blind_outside:
  assumes I: "staging_blind st S I" and u: "I u" and q: "\<And>q. \<not> is_under (tmp_path st) q \<Longrightarrow> u' q = u q"
  shows "I u'"
  using staging_blindD(2) [OF I u] q by blast

lemma under_linear: "is_under a c \<Longrightarrow> is_under b c \<Longrightarrow> is_under a b \<or> is_under b a"
  by (auto simp: under_iff append_eq_append_conv2)

lemma blind_mkdir:
  assumes I: "staging_blind st S I" and p: "is_under (comps p) (tmp_path st) \<or> is_under (tmp_path st) (comps p)" and v: "I v"
    and g: "\<And>u. I u \<Longrightarrow> safe S I (g ()) (\<lambda>_. I) u"
  shows "safe S I (try_as SeFs (CreateDirAll p Done) g) (\<lambda>_. I) v"
proof (rule mk_dir_safe [OF staging_blindD(1) [OF I] _ v])
  fix q u assume q: "is_under q (comps p)" and u: "I u"
  consider "is_under q (tmp_path st)" | "is_under (tmp_path st) q"
    using p under_trans [OF q] under_linear [OF q] by blast
  then show "I (mk_dirs q u)"
  proof cases
    case 1
    then show ?thesis by (rule staging_blindD(3) [OF I u])
  next
    case 2
    have "mk_dirs q u x = mk_dirs (tmp_path st) u x" if "\<not> is_under (tmp_path st) x" for x
    proof -
      have "is_under x q \<longleftrightarrow> is_under x (tmp_path st)"
        using under_linear [OF _ 2, of x] under_trans [OF _ 2, of x] that by blast
      then show ?thesis by (simp add: mk_dirs_def)
    qed
    moreover have "I (mk_dirs (tmp_path st) u)" by (rule staging_blindD(3) [OF I u]) (simp add: is_under_def)
    ultimately show ?thesis using blind_outside [OF I] by blast
  qed
next
  fix e u assume "I u"
  then show "safe S I (Done (Inl (SeFs e))) (\<lambda>_. I) u"
    by (intro safe_done [OF staging_blindD(1) [OF I]]) auto
qed (use g in blast)

lemma blind_write_file:
  assumes I: "staging_blind st S I" and p: "is_under (tmp_path st) (comps p)" and v: "I v"
  shows "safe S I (write_file p b) (\<lambda>_. I) v"
proof -
  note J = staging_blindD(1) [OF I]
  have done_: "safe S I (Done r) (\<lambda>_. I) u" if "I u" for u and r :: "fs_error + unit"
    by (rule safe_done [OF J _ that]) simp
  have node: "I (u(comps p \<mapsto> x))" if "I u" for u x
    by (rule blind_outside [OF I that]) (use p in auto)
  have app: "I (append_file (comps p) x u)" if "I u" for u x
    using node [OF that] that by (auto simp: append_file_def split: option.splits vnode.splits)
  have shut: "safe S I (Shutdown p (\<lambda>r. try_res (from_io p) r (\<lambda>_. Done (Inr ())))) (\<lambda>_. I) u" if "I u" for u
    by (rule safe_shutdown [OF J _ that]) (use done_ in auto)
  have wr: "safe S I (WriteAll p b (\<lambda>r. try_res (from_io p) r (\<lambda>_. Shutdown p (\<lambda>r. try_res (from_io p) r (\<lambda>_. Done (Inr ())))))) (\<lambda>_. I) u"
    if "I u" for u
  proof (rule safe_call(7) [OF J _ that], assumption)
    fix u r u' assume "I u" "write_all_spec (st_faulty S) (comps p) b u r u'"
    then have "I u'" using app by (auto simp: write_all_spec_def split: sum.splits)
    then show "safe S I (try_res (from_io p) r (\<lambda>_. Shutdown p (\<lambda>r. try_res (from_io p) r (\<lambda>_. Done (Inr ()))))) (\<lambda>_. I) u'"
      using done_ shut by (cases r) auto
  qed
  show ?thesis
    unfolding write_file_def prog_simps
  proof (rule safe_call(6) [OF J _ v], assumption)
    fix u r u' assume "I u" "open_write_spec (st_faulty S) (comps p) u r u'"
    then have "I u'" using node by (auto simp: open_write_spec_def split: sum.splits)
    then show "safe S I (try_res (\<lambda>e. e) r (\<lambda>_. WriteAll p b (\<lambda>r. try_res (from_io p) r
        (\<lambda>_. Shutdown p (\<lambda>r. try_res (from_io p) r (\<lambda>_. Done (Inr ()))))))) (\<lambda>_. I) u'"
      using done_ wr by (cases r) auto
  qed
qed

lemma probe_write_blind:
  assumes I: "staging_blind st S I" and v: "I v"
  shows "safe S I (probe_write st) (\<lambda>_. I) v"
proof -
  note J = staging_blindD(1) [OF I]
  have done_: "safe S I (Done r) (\<lambda>_. I) u" if "I u" for u and r :: "store_error + write_probe"
    by (rule safe_done [OF J _ that]) simp
  show ?thesis
    unfolding probe_write_def dirs_are try_res_simps
  proof (rule blind_mkdir [OF I _ v])
    fix u assume u: "I u"
    show "safe S I (NextU64 (\<lambda>token.
       try_res SeFs (rp_join (rp_of (tmp_path st)) (''probe-'' @ token_name token)) (\<lambda>probe.
       try_as SeFs (CreateDirAll probe Done) (\<lambda>_.
       try_res SeFs (rp_join probe ''probe'') (\<lambda>file.
       bind (write_file file probe_content) (\<lambda>written.
       RemoveDirAll probe (\<lambda>removed.
         try_res SeFs written (\<lambda>_. try_res SeFs removed (\<lambda>_. Done (Inr Verified)))))))))) (\<lambda>_. I) u"
    proof (rule safe_call(11) [OF J _ u], assumption)
      fix t :: u64
      let ?D = "tmp_path st @ [''probe-'' @ token_name t]"
      have val': "\<not> invalid_component (''probe-'' @ token_name t)" by (rule valid_graves(3))
      have val: "valid_comps ?D"
        by (simp only: valid_comps_simps valid_paths val' simp_thms not_False_eq_True)
      have p: "comps (rp_of ?D) = ?D" "comps (rp_of (?D @ [''probe''])) = ?D @ [''probe'']"
        by (rule comps_rp_of [OF val], rule comps_rp_of) (simp only: valid_comps_simps valid_paths val' valid_const simp_thms not_False_eq_True)
      have u': "is_under (tmp_path st) (comps (rp_of ?D))" "is_under (tmp_path st) (comps (rp_of (?D @ [''probe''])))"
        unfolding p by (simp_all add: is_under_def)
      show "safe S I (try_res SeFs (rp_join (rp_of (tmp_path st)) (''probe-'' @ token_name t)) (\<lambda>probe.
         try_as SeFs (CreateDirAll probe Done) (\<lambda>_.
         try_res SeFs (rp_join probe ''probe'') (\<lambda>file.
         bind (write_file file probe_content) (\<lambda>written.
         RemoveDirAll probe (\<lambda>removed.
           try_res SeFs written (\<lambda>_. try_res SeFs removed (\<lambda>_. Done (Inr Verified))))))))) (\<lambda>_. I) u"
        unfolding join_is [OF valid_paths(2) valid_graves(3)] join_is [OF val valid_const(9)] try_res_simps
      proof (rule blind_mkdir [OF I disjI2 [OF u'(1)] u], rule safe_then [OF blind_write_file [OF I u'(2)] J], assumption)
        fix written w assume "I w"
        then show "safe S I (RemoveDirAll (rp_of ?D) (\<lambda>removed.
            try_res SeFs written (\<lambda>_. try_res SeFs removed (\<lambda>_. Done (Inr Verified))))) (\<lambda>_. I) w"
          by (rule blind_removal [OF I p(1) disjI1 [OF refl]]) (intro safe_try_res done_)
      qed
    qed
  qed simp
qed

end
