(* ===== verification/Store_Map.thy ===== *)
theory Store_Map
  imports Store_Delete Local_Fs
begin

text \<open>
  What a store promises, seen from outside: a finite map from identifiers to metadata and content.
  \<open>contents\<close> reads that map off the files, and the lemmas say what each operation does to it when
  nothing fails and nobody else works in the store.
\<close>

section \<open>The map\<close>

type_synonym stored_map = "item_id \<rightharpoonup> item_meta \<times> bytes"

definition content_of :: "'z hext_scheme \<Rightarrow> fs_store \<Rightarrow> bytes option \<Rightarrow> bytes \<Rightarrow> bytes option" where
  "content_of E st salt c =
     (case (st_sealer st, salt) of
        (Some s, Some x) \<Rightarrow>
          (let rd = open_item_content E s (reader_of c) x in
           if br_end rd = None then Some (br_bytes rd) else None)
      | _ \<Rightarrow> Some c)"

definition contents :: "'z hext_scheme \<Rightarrow> fs_store \<Rightarrow> fsview \<Rightarrow> stored_map" where
  "contents E st v = (\<lambda>i.
     if id_wf i \<and> v (item_path st i) = Some VDir then
       (case (readable E st v i, v (item_path st i @ [''content''])) of
          (Some (m, salt), Some (VFile c)) \<Rightarrow> map_option (Pair m) (content_of E st salt c)
        | _ \<Rightarrow> None)
     else None)"

lemma content_of_stored:
  assumes "aead_laws E" "stored_as E (st_sealer st) salt b c"
  shows "content_of E st salt c = Some b"
proof (cases "st_sealer st")
  case None
  then show ?thesis using assms(2) by (simp add: content_of_def stored_as_def)
next
  case (Some s)
  then obtain x where x: "salt = Some x" using assms(2) by (auto simp: stored_as_def)
  have "reads False (reader_of c) (VFile c)" by (simp add: reads_def reader_of_def br_bytes_def)
  from stored_reads [OF assms(1) assms(2) [unfolded Some x] this] show ?thesis
    by (simp add: content_of_def Some x)
qed

lemma contents_item_at:
  assumes "aead_laws E" "id_wf i" "item_at E st v i m b"
  shows "contents E st v i = Some (m, b)"
proof -
  obtain j c salt where h: "v (item_path st i) = Some VDir"
    "v (item_path st i @ [''meta.json'']) = Some (VFile j)" "length j \<le> MAX_META_BYTES"
    "v (item_path st i @ [''content'']) = Some (VFile c)"
    "decode_meta E i j (st_sealer st) = Inr (m, salt)" "stored_as E (st_sealer st) salt b c"
    using assms(3) by (auto simp: item_at_def)
  then have "readable E st v i = Some (m, salt)" by (simp add: readable_def meta_file_def)
  then show ?thesis using h content_of_stored [OF assms(1) h(6)] assms(2) by (simp add: contents_def)
qed

lemma contents_at:
  assumes "aead_laws E" "store_ok E st v" "id_wf i" "v (item_path st i) \<noteq> None"
  obtains m b where "contents E st v i = Some (m, b)" "item_at E st v i m b" "describes E st i m b"
proof -
  obtain m b where "item_at E st v i m b" "describes E st i m b"
    using assms(2-4) by (auto simp: store_ok_def whole_def)
  with that contents_item_at [OF assms(1,3)] show thesis by blast
qed

lemma contents_whole:
  assumes "aead_laws E" "store_ok E st v" "contents E st v i = Some (m, b)"
  shows "id_wf i" "item_at E st v i m b" "describes E st i m b"
proof -
  show i: "id_wf i" using assms(3) by (simp add: contents_def split: if_splits)
  have "v (item_path st i) \<noteq> None" using assms(3) by (simp add: contents_def split: if_splits)
  from contents_at [OF assms(1,2) i this] assms(3)
  show "item_at E st v i m b" "describes E st i m b" by auto
qed

lemma contents_None:
  assumes "aead_laws E" "store_ok E st v" "id_wf i"
  shows "contents E st v i = None \<longleftrightarrow> v (item_path st i) = None"
proof
  assume "contents E st v i = None"
  then show "v (item_path st i) = None" using contents_at [OF assms] by fastforce
qed (simp add: contents_def)

lemma contents_dom:
  assumes "aead_laws E" "store_ok E st v"
  shows "dom (contents E st v) = {i. id_wf i \<and> v (item_path st i) = Some VDir}"
proof -
  have "i \<in> dom (contents E st v) \<longleftrightarrow> id_wf i \<and> v (item_path st i) = Some VDir" for i
  proof
    assume "i \<in> dom (contents E st v)"
    then show "id_wf i \<and> v (item_path st i) = Some VDir" by (auto simp: contents_def split: if_splits)
  next
    assume i: "id_wf i \<and> v (item_path st i) = Some VDir"
    then have "contents E st v i \<noteq> None" using contents_None [OF assms] by simp
    then show "i \<in> dom (contents E st v)" by blast
  qed
  then show ?thesis by blast
qed

lemma contents_same:
  assumes "\<And>s. u (item_path st i @ s) = v (item_path st i @ s)"
  shows "contents E st u i = contents E st v i"
  using assms [of "[]"] assms by (simp add: contents_def readable_def meta_file_def)

text \<open>Where the invariant pins the other items down, the map changes at one place at most.\<close>

lemma store_inv_contents:
  assumes "store_inv E st N A v u" "id_repr k \<in> N"
  shows "contents E st u k = contents E st v k"
  by (rule contents_same) (use assms in \<open>simp add: store_inv_def item_path_def\<close>)

section \<open>Storing and deleting\<close>

text \<open>
  A content is stored once: a put creates an item only when none has the content's key, and
  otherwise answers one that has.
\<close>

definition puts :: "'z hext_scheme \<Rightarrow> fs_store \<Rightarrow> bytes \<Rightarrow> stored_map \<Rightarrow> put_outcome \<Rightarrow> stored_map \<Rightarrow> bool" where
  "puts E st b M out M' \<longleftrightarrow>
     (let m = po_meta out; i = meta_id m in
      id_wf i \<and> id_key i = keyed E st (digest_of E b)
      \<and> (if po_created out
         then (\<forall>k. id_key k = keyed E st (digest_of E b) \<longrightarrow> M k = None) \<and> M' = M(i \<mapsto> (m, b))
         else M' = M \<and> (\<exists>b'. M i = Some (m, b'))))"

lemma name_of_key: "id_wf i \<Longrightarrow> id_repr i \<in> names_in st v \<longleftrightarrow> v (item_path st i) \<noteq> None"
  by (simp add: names_in_def item_path_def)

lemma put_done_puts:
  assumes E: "aead_laws E" and ok: "store_ok E st v" and q: "quiet S" "\<not> st_faulty S"
    and inv: "store_inv E st (names_in st v) A v u"
    and r: "put_done E st S (names_in st v) (names_in st v) b X (Inr out) u"
  shows "puts E st b (contents E st v) out (contents E st u)"
proof -
  let ?m = "po_meta out" and ?i = "meta_id (po_meta out)"
  obtain b' where i: "id_wf ?i" "id_key ?i = keyed E st (digest_of E b)" "item_at E st u ?i ?m b'"
    "po_created out \<Longrightarrow> item_at E st u ?i ?m b \<and> id_repr ?i \<notin> names_in st v"
    and names: "names_in st u = (if po_created out then insert (id_repr ?i) (names_in st v) else names_in st v)"
    using r q by (auto simp: put_done_def Let_def)
  have oku: "store_ok E st u" using inv by (simp add: store_inv_def)
  have other: "contents E st u k = contents E st v k" if k: "po_created out \<longrightarrow> k \<noteq> ?i" for k
  proof (cases "id_wf k")
    case wf: True
    show ?thesis
    proof (cases "id_repr k \<in> names_in st v")
      case True
      then show ?thesis by (rule store_inv_contents [OF inv])
    next
      case False
      then have "id_repr k \<notin> names_in st u"
        using names k id_repr_inj [OF wf i(1)] by (auto split: if_splits)
      then show ?thesis using False contents_None [OF E oku wf] contents_None [OF E ok wf]
        by (simp add: name_of_key [OF wf])
    qed
  qed (simp add: contents_def)
  show ?thesis
  proof (cases "po_created out")
    case True
    then have at: "contents E st u ?i = Some (?m, b)" and un: "unkeyed E st (names_in st v) b"
      using i(4) contents_item_at [OF E i(1)] r q by (auto simp: put_done_def Let_def)
    have "contents E st v k = None" if "id_key k = keyed E st (digest_of E b)" for k
    proof (cases "id_wf k")
      case wf: True
      then have "id_repr k \<notin> names_in st v" using un that by (simp add: unkeyed_def)
      then show ?thesis using contents_None [OF E ok wf] by (simp add: name_of_key [OF wf])
    qed (simp add: contents_def)
    moreover have "contents E st u = (contents E st v)(?i \<mapsto> (?m, b))"
      using other True at by (intro ext) simp
    ultimately show ?thesis using i True by (simp add: puts_def)
  next
    case False
    then have "contents E st u = contents E st v" using other by (intro ext) simp
    then show ?thesis using i False contents_item_at [OF E i(1,3)] by (auto simp: puts_def)
  qed
qed

lemma deleted_contents:
  assumes E: "aead_laws E" and ok: "store_ok E st v" and i: "id_wf i"
    and inv: "store_inv E st (names_in st v - {id_repr i}) (names_in st v) v u"
  shows "gone st i u \<Longrightarrow> contents E st u = (contents E st v)(i := None)"
    and "as_before st i v u \<Longrightarrow> contents E st u = contents E st v"
proof -
  have oku: "store_ok E st u" using inv by (simp add: store_inv_def)
  have other: "contents E st u k = contents E st v k" if k: "k \<noteq> i" for k
  proof (cases "id_wf k")
    case wf: True
    show ?thesis
    proof (cases "id_repr k \<in> names_in st v")
      case True
      then have "id_repr k \<in> names_in st v - {id_repr i}" using id_repr_inj [OF wf i] k by auto
      then show ?thesis by (rule store_inv_contents [OF inv])
    next
      case False
      have "id_repr k \<in> names_in st v" if "id_repr k \<in> names_in st u"
        using inv that unfolding store_inv_def names_in_def by blast
      then have "id_repr k \<notin> names_in st u" using False by blast
      then show ?thesis using False contents_None [OF E oku wf] contents_None [OF E ok wf]
        by (simp add: name_of_key [OF wf])
    qed
  qed (simp add: contents_def)
  show "contents E st u = (contents E st v)(i := None)" if "gone st i u"
  proof
    fix k show "contents E st u k = ((contents E st v)(i := None)) k"
    proof (cases "k = i")
      case True
      have "u (item_path st i @ []) = None" using that unfolding gone_def by blast
      then show ?thesis by (simp add: True contents_def)
    qed (simp add: other)
  qed
  show "contents E st u = contents E st v" if "as_before st i v u"
  proof
    fix k show "contents E st u k = contents E st v k"
      using other contents_same [of u st i v] that by (cases "k = i") (auto simp: as_before_def)
  qed
qed

section \<open>Looking\<close>

definition lists :: "stored_map \<Rightarrow> item_id option \<Rightarrow> item_meta list \<Rightarrow> bool" where
  "lists M newer ms \<longleftrightarrow>
     sorted_wrt (\<lambda>a b. meta_id a > meta_id b) ms
     \<and> set ms = {m. \<exists>i b. M i = Some (m, b) \<and> newer_than newer i}"

lemma takeWhile_newer:
  "sorted_wrt (>) ids \<Longrightarrow> takeWhile (newer_than newer) ids = filter (newer_than newer) ids"
proof (induction ids)
  case (Cons i ids)
  show ?case
  proof (cases "newer_than newer i")
    case False
    then obtain a where a: "newer = Some a" "\<not> a < i" by (auto simp: newer_than_def split: option.splits)
    then have "\<not> newer_than newer k" if "k \<in> set ids" for k
      using that Cons.prems by (auto simp: newer_than_def)
    then show ?thesis using False by (simp add: filter_empty_conv)
  qed (use Cons in simp)
qed simp

lemma whole_metas:
  assumes E: "aead_laws E" "store_ok E st v" and ids: "\<forall>i \<in> set ids. id_wf i \<and> v (item_path st i) = Some VDir"
  shows "readable_metas E st v ids = map (\<lambda>i. fst (the (contents E st v i))) ids"
    and "\<forall>i \<in> set ids. meta_id (fst (the (contents E st v i))) = i"
proof -
  have one: "(\<exists>s. readable E st v i = Some (fst (the (contents E st v i)), s))
      \<and> meta_id (fst (the (contents E st v i))) = i" if i: "i \<in> set ids" for i
  proof -
    from ids i have "id_wf i" "v (item_path st i) \<noteq> None" by auto
    from contents_at [OF E this] obtain m b where c: "contents E st v i = Some (m, b)" "item_at E st v i m b"
      "describes E st i m b" by blast
    then show ?thesis using whole_readable [OF c(2)] by (auto simp: describes_def)
  qed
  then show "\<forall>i \<in> set ids. meta_id (fst (the (contents E st v i))) = i" by blast
  show "readable_metas E st v ids = map (\<lambda>i. fst (the (contents E st v i))) ids"
    using one by (induction ids) fastforce+
qed

lemma list_after_lists:
  assumes E: "aead_laws E" and ok: "store_ok E st v" and wf: "fs_wf v"
    and dir: "\<forall>b. v (items_path st) \<noteq> Some (VFile b)"
  shows "answers False v (list_after E st newer) (\<lambda>r. \<exists>ms. r = Inr ms \<and> lists (contents E st v) newer ms)"
proof (rule answers_mono [OF list_after_answer [OF wf_items_in_dir [OF wf] store_ok_metas [OF ok] dir]])
  fix r assume "\<exists>ids. listed st v ids \<and> r = Inr (readable_metas E st v (takeWhile (newer_than newer) ids))"
  then obtain ids where l: "listed st v ids" and r: "r = Inr (readable_metas E st v (takeWhile (newer_than newer) ids))"
    by blast
  let ?ids = "filter (newer_than newer) ids" and ?m = "\<lambda>i. fst (the (contents E st v i))"
  have s: "sorted_wrt (>) ids" and mem: "set ids = {i. id_wf i \<and> v (item_path st i) = Some VDir}"
    using l by (auto simp: listed_def)
  have all: "\<forall>i \<in> set ?ids. id_wf i \<and> v (item_path st i) = Some VDir" using mem by auto
  note wm = whole_metas [OF E ok all]
  have ms: "r = Inr (map ?m ?ids)" using r wm(1) takeWhile_newer [OF s] by simp
  have "sorted_wrt (\<lambda>i k. meta_id (?m i) > meta_id (?m k)) ?ids"
    by (rule sorted_wrt_mono_rel [OF _ sorted_wrt_filter [OF s]]) (use wm(2) in auto)
  then have sorted: "sorted_wrt (\<lambda>a b. meta_id a > meta_id b) (map ?m ?ids)" by (simp add: sorted_wrt_map)
  have "set (map ?m ?ids) = {m. \<exists>i b. contents E st v i = Some (m, b) \<and> newer_than newer i}"
  proof -
    have "set ?ids = {i \<in> dom (contents E st v). newer_than newer i}"
      using mem by (auto simp: contents_dom [OF E ok])
    then show ?thesis by (force simp: image_iff)
  qed
  with sorted ms show "\<exists>ms. r = Inr ms \<and> lists (contents E st v) newer ms" by (auto simp: lists_def)
qed

lemma get_item_missing:
  assumes i: "id_wf i" and wf: "fs_wf v" and none: "v (item_path st i) = None"
  shows "answers False v (get_item E st i) (\<lambda>r. \<exists>t. r = Inl (SeNotFound t))"
proof -
  have mf: "v (meta_file st i) = None"
  proof (rule ccontr)
    assume "v (meta_file st i) \<noteq> None"
    then have "v (item_path st i) = Some VDir" unfolding meta_file_def by (rule fs_wfD(2) [OF wf])
    then show False using none by simp
  qed
  show ?thesis
    unfolding get_item_def
    by (rule answers_try [OF read_item_answer [OF i]])
      (use mf in \<open>auto simp: read_answer_def readable_def missing_as_not_found_def\<close>)
qed

lemma get_item_contents:
  assumes E: "fext_laws E" and ok: "store_ok E st v" and wf: "fs_wf v" and i: "id_wf i"
    and small: "\<And>m b. contents E st v i = Some (m, b) \<Longrightarrow> length b < 2 ^ 62"
  shows "answers False v (get_item E st i)
    (\<lambda>r. case contents E st v i of
           Some (m, b) \<Rightarrow> \<exists>rd. r = Inr (m, rd) \<and> br_bytes rd = b \<and> br_end rd = None
         | None \<Rightarrow> \<exists>t. r = Inl (SeNotFound t))"
proof (cases "contents E st v i")
  case None
  then have "v (item_path st i) = None" using contents_None [OF fext_lawsD(4) [OF E] ok i] by blast
  from get_item_missing [OF i wf this] None show ?thesis by simp
next
  case (Some p)
  then obtain m b where c: "contents E st v i = Some (m, b)" by (cases p) simp
  note w = contents_whole [OF fext_lawsD(4) [OF E] ok c]
  have "meta_size m = of_nat (length b)" using w(3) by (simp add: describes_def)
  from get_item_answer [OF E w(1,2) this small [OF c], of False] show ?thesis
    by (rule answers_mono) (auto simp: c got_def split: sum.splits)
qed

section \<open>On the local file system\<close>

lemma answers_run:
  assumes "answers False (local_view w) m P" "fs_wf (local_view w)" "run local_fs m w = (r, w')"
  shows "P r \<and> local_view w' = local_view w"
proof -
  have "safe (alone False) (\<lambda>u. u = local_view w) m (\<lambda>r u. u = local_view w \<and> P r) (local_view w)"
    using assms(1) unfolding answers_def by (rule safe_post) simp
  from lfs.run_safe [OF this assms(2,3)] show ?thesis by simp
qed

lemma quiet_alone [simp]: "quiet (alone F)" "quiet (alone_at F t)"
  by (simp_all add: quiet_def)

lemma own_inv: "store_ok E st v \<Longrightarrow> fs_wf v \<Longrightarrow> N \<subseteq> names_in st v \<Longrightarrow> names_in st v \<subseteq> A \<Longrightarrow> store_inv E st N A v v"
  by (auto simp: store_inv_def wf_items_in_dir names_in_def)

end
