(* ===== verification/Sample_Store.thy ===== *)
theory Sample_Store
  imports Store_Map Sample_Json
begin

text \<open>
  A concrete store for the witnesses: the sample encoding, refusing metadata too long to be read
  back, a data key of zeros, and a folder on the local file system with nothing in it.
\<close>

definition sample_ext :: hext where
  "sample_ext = sample_hext
     \<lparr>x_meta_to_json :=
        (\<lambda>m. let j = fst meta_codec m in if length j < MAX_META_BYTES then Inr j else Inl ''too long''),
      x_file_to_json :=
        (\<lambda>f. let j = fst file_codec f in if length j < MAX_META_BYTES then Inr j else Inl ''too long'')\<rparr>"

lemma sample_ext_laws: "fext_laws sample_ext" "header_laws sample_ext"
proof -
  have "hex_laws sample_ext" "sha256_laws sample_ext" "kdf_laws sample_ext" "aead_laws sample_ext"
    using sample_hext_laws(1)
    by (simp_all add: fext_laws_def hex_laws_def sha256_laws_def kdf_laws_def aead_laws_def sample_ext_def)
  moreover have "json_laws sample_ext"
    using reading_back [OF item_codecs_ok(4), of _ "[]"]
    by (auto simp: json_laws_def sample_ext_def sample_hext_def reading_back item_codecs_ok Let_def
        split: if_splits)
  ultimately show "fext_laws sample_ext" by (simp add: fext_laws_def)
  show "header_laws sample_ext"
    by (simp add: header_laws_def sample_ext_def sample_hext_def reading_back item_codecs_ok)
qed

lemma sample_fits: "fits sample_ext sealer m"
  by (auto simp: fits_def encodings_def sealed_json_def sample_ext_def Let_def split: option.splits if_splits)

definition sample_sealer :: sealer where
  "sample_sealer = sealer_new sample_ext (DataKey (replicate 32 0))"

definition sample_item :: new_item where
  "sample_item = new_text (ustr ''laptop'')"

definition sample_world :: local_world where
  "sample_world = \<lparr>lw_files = [([], VDir, 0)], lw_clock = 0, lw_seed = 7\<rparr>"

lemma sample_view [simp]: "local_view sample_world = [[] \<mapsto> VDir]"
  by (auto simp: local_view_def sample_world_def lookup_def)

lemma empty_files:
  "fs_wf [[] \<mapsto> VDir]" "store_ok E st [[] \<mapsto> VDir]" "names_in st [[] \<mapsto> VDir] = {}"
  "guard_ok E store_new [[] \<mapsto> VDir]" "\<not> blocked st [[] \<mapsto> VDir]" "fresh_tokens S st [[] \<mapsto> VDir]"
  "\<forall>b. [[] \<mapsto> VDir] (items_path st) \<noteq> Some (VFile b)"
  by (auto simp: fs_wf_def store_ok_def item_path_def names_in_def guard_ok_def store_new_def blocked_def
      fresh_tokens_def split: if_splits)

definition sample_id :: item_id where
  "sample_id = ItemId ''00000000-2cf24dba5fb0'' 0 (ContentKey ''2cf24dba5fb0'')"

lemma sample_id_wf: "id_wf sample_id"
proof -
  have "key_wf (ContentKey ''2cf24dba5fb0'')"
    by (simp add: key_wf_def is_lower_hex_def is_lower_hex_char_def KEY_HEX_LEN_def)
  moreover have z: "to_hex 0 = ''0''" by code_simp
  have "item_id_new 0 (ContentKey ''2cf24dba5fb0'') = Inr sample_id"
    by (simp add: item_id_new_def sample_id_def datetime_secs_def TIMESTAMP_HEX_LEN_def hex_pad_def z Let_def eval_nat_numeral)
  ultimately show ?thesis using item_id_new_wf by blast
qed

end
