(* ===== verification/Sample_Size.thy ===== *)
theory Sample_Size
  imports Sample_Store
begin

text \<open>
  The metadata the sample item may come to is short in the sample encoding, so the witnesses can
  meet the hypothesis that metadata fits.
\<close>

definition short :: "nat \<Rightarrow> 'a codec \<Rightarrow> 'a \<Rightarrow> bool" where
  "short n C x \<longleftrightarrow> length (fst C x) \<le> n"

lemma short_nat: "n < 2 ^ k \<Longrightarrow> short (k + 1) nat_codec n"
proof -
  have "n < 2 ^ k \<Longrightarrow> length (enc_nat n) \<le> k + 1"
  proof (induction n arbitrary: k rule: enc_nat.induct)
    case (1 n)
    show ?case
    proof (cases "n = 0")
      case False
      then obtain k' where k: "k = Suc k'" using 1(2) by (cases k) auto
      then have "n div 2 < 2 ^ k'" using 1(2) by auto
      then show ?thesis using 1(1) [OF False, of k'] False k by (subst enc_nat.simps) simp
    qed (simp add: enc_nat.simps)
  qed
  then show "n < 2 ^ k \<Longrightarrow> short (k + 1) nat_codec n" by (simp add: short_def nat_codec_def)
qed

lemma short_iso: "short n C (f x) \<Longrightarrow> short n (iso_codec f g C) x"
  by (simp add: short_def iso_codec_def)

lemma short_pair: "short m A x \<Longrightarrow> short n B y \<Longrightarrow> short (m + n) (pair_codec A B) (x, y)"
  by (simp add: short_def pair_codec_def)

lemma short_list:
  assumes "\<And>x. x \<in> set xs \<Longrightarrow> short n C x" "length xs < 2 ^ k"
  shows "short (k + 1 + n * length xs) (list_codec C) xs"
proof -
  have "length (concat (map (fst C) xs)) \<le> n * length xs"
    using assms(1) by (induction xs) (auto simp: short_def, fastforce)
  then show ?thesis using short_nat [OF assms(2)] by (simp add: short_def list_codec_def nat_codec_def)
qed

lemma short_mono: "short m C x \<Longrightarrow> m \<le> n \<Longrightarrow> short n C x"
  by (simp add: short_def)

lemma short_string: "length s < 128 \<Longrightarrow> short 1160 string_codec s"
  unfolding string_codec_def
  by (rule short_mono [OF short_list [where n = 9 and k = 7]])
    (auto intro!: short_iso short_mono [OF short_nat [where k = 8]])

lemma short_ustring: "length s < 128 \<Longrightarrow> \<forall>c \<in> set s. c < 256 \<Longrightarrow> short 1160 ustring_codec s"
  unfolding ustring_codec_def
  by (rule short_mono [OF short_list [where n = 9 and k = 7]])
    (auto intro!: short_mono [OF short_nat [where k = 8]])

lemma short_word: "short (LENGTH('w) + 1) word_codec (x :: 'w::len word)"
  unfolding word_codec_def by (intro short_iso short_nat) (simp add: unsigned_less)

lemma short_option:
  assumes "\<And>y. x = Some y \<Longrightarrow> short n C y"
  shows "short (n + 3) (option_codec C) x"
  unfolding option_codec_def
  by (rule short_iso, cases x)
    (use assms in \<open>auto intro!: short_mono [OF short_list [where n = n and k = 1]]\<close>)

lemma short_int:
  assumes "\<bar>i\<bar> < 2 ^ k"
  shows "short (k + 3) int_codec i"
proof -
  have "nat \<bar>i\<bar> < 2 ^ k" using assms by (simp add: nat_less_iff)
  then have n: "short (k + 1) nat_codec (nat \<bar>i\<bar>)" by (rule short_nat)
  have s: "short (1 + 1) nat_codec (if i < 0 then 1 else 0)" by (rule short_nat) simp
  have "short (k + 3) (pair_codec nat_codec nat_codec) (if i < 0 then 1 else 0, nat \<bar>i\<bar>)"
    by (rule short_mono [OF short_pair [OF s n]]) simp
  then show ?thesis unfolding int_codec_def by (rule short_iso)
qed

text \<open>A file named by the user, from a device with a short name.\<close>

definition sample_file :: new_item where
  "sample_file = new_file sample_hext (ustr ''notes.txt'') (ustr ''laptop'')"

lemma sample_file_short:
  assumes "completes sample_hext sample_file m"
  shows "length (fst meta_codec m) < 60000"
proof -
  obtain now b key head i where key: "key_wf key" and i: "item_id_new now key = Inr i"
    and m: "m = \<lparr>meta_schema = SCHEMA_VERSION, meta_id = i, meta_kind = KFile, meta_name = Some (ustr ''notes.txt''),
      meta_mime = ni_mime sample_file, meta_size = cd_size (digest_of sample_hext b),
      meta_sha256 = sha256_hex sample_hext (digest_of sample_hext b), meta_created_at = id_timestamp i,
      meta_device = ustr ''laptop'', meta_preview = None, meta_origin = None\<rparr>"
    using assms by (auto simp: completes_def finish_keyed_def and_then_eq_Inr sample_file_def new_file_def preview_def)
  have iwf: "id_wf i" and ik: "id_key i = key" using item_id_new_wf [OF i key] by auto
  have klen: "length (key_str key) = 12"
    using key by (simp add: key_wf_def is_lower_hex_def KEY_HEX_LEN_def)
  have "unat (id_secs i) < 16 ^ 8" using unsigned_less [of "id_secs i", where ?'a = nat] by simp
  then have rlen: "length (id_repr i) = 21"
    using iwf klen ik by (simp add: id_wf_def hex_pad_length TIMESTAMP_HEX_LEN_def)
  have idc: "short 2360 id_codec i"
    unfolding id_codec_def
    by (rule short_iso, rule short_mono [OF short_pair [OF short_string short_pair [OF short_word short_string]]])
      (simp_all add: rlen klen ik)
  have hash: "length (sha256_hex sample_hext (digest_of sample_hext b)) < 128"
    using fext_lawsD(1,2) [OF sample_hext_laws(1)]
    by (simp add: sha256_hex_def digest_of_def hex_laws_def sha256_laws_def)
  have time: "short 73 int_codec (id_timestamp i)"
  proof (rule short_mono [OF short_int [where k = 70]])
    have "uint (id_secs i) < 2 ^ 32" using uint_lt2p [of "id_secs i"] by simp
    moreover have "0 \<le> uint (id_secs i)" by simp
    ultimately show "\<bar>id_timestamp i\<bar> < 2 ^ 70" by (simp add: id_timestamp_def from_secs_def abs_mult)
  qed simp
  have mime: "length (ni_mime sample_file) < 128 \<and> (\<forall>c \<in> set (ni_mime sample_file). c < 256)"
    by code_simp
  have short_texts: "short 1160 ustring_codec (ustr ''notes.txt'')" "short 1160 ustring_codec (ustr ''laptop'')"
    by (rule short_ustring; simp add: ustr_def)+
  have kind: "short 2 nat_codec (1 :: nat)" "short 2 nat_codec (0 :: nat)"
    using short_nat [of _ 1] by (simp_all add: numeral_2_eq_2)
  have opt: "short (1160 + 3) (option_codec ustring_codec) (Some (ustr ''notes.txt''))"
    "short (1160 + 3) (option_codec ustring_codec) None"
    by (rule short_option; simp add: short_texts)+
  have words: "short 33 word_codec SCHEMA_VERSION" "short 65 word_codec (cd_size (digest_of sample_hext b))"
    using short_word [of SCHEMA_VERSION] short_word [of "cd_size (digest_of sample_hext b)"] by simp_all
  note mimes = short_ustring [OF conjunct1 [OF mime] conjunct2 [OF mime]]
  note parts =
    short_pair [OF words(1) short_pair [OF idc kind(1)]]
    short_pair [OF opt(1) short_pair [OF mimes words(2)]]
    short_pair [OF short_string [OF hash] short_pair [OF time short_texts(2)]]
    short_pair [OF opt(2) kind(2)]
  have fields: "meta_fields m =
      ((SCHEMA_VERSION, i, 1),
       (Some (ustr ''notes.txt''), ni_mime sample_file, cd_size (digest_of sample_hext b)),
       (sha256_hex sample_hext (digest_of sample_hext b), id_timestamp i, ustr ''laptop''), None, 0)"
    by (simp add: meta_fields_def m)
  have "short 59000 meta_codec m"
    unfolding meta_codec_def
    by (rule short_iso, unfold fields,
        rule short_mono [OF short_pair [OF parts(1) short_pair [OF parts(2) short_pair [OF parts(3,4)]]]]) simp
  then show ?thesis by (simp add: short_def)
qed

lemma sample_file_ok:
  "completes sample_hext sample_file m \<Longrightarrow> fits sample_hext None m \<and> encodes sample_hext m"
  using sample_file_short [of m] sample_encodes
  by (auto simp: fits_def encodings_def MAX_META_BYTES_def) (simp add: sample_hext_def)

end
