(* ===== verification/Store_Claims.thy ===== *)
theory Store_Claims
  imports Sample_Size
begin

text \<open>
  The properties of the file store. The first ones hold at every moment of an operation, whatever
  calls fail or are cut short and whatever other clients do that keep the store whole; the later
  ones say what the operations do to the map a store is, on the local file system.
\<close>

section \<open>At every moment\<close>



text \<open>C6: While an item is deleted, at every moment, faults and other clients or not, every item is
  whole, the other items stay byte for byte and no item appears. In a quiet setting a success
  answers the metadata the item had and the item is gone entirely; a failure leaves it as it was,
  or, when a fault hides that the removal took place, gone; without faults it has an excuse.\<close>

theorem delete_keeps_store_whole:
  assumes "client E st N A v0 S" "st_plain_guard st \<longrightarrow> st_sealer st = None"
    and "id_wf i" "id_repr i \<notin> N" "store_inv E st N A v0 v" "fs_wf v"
  shows "safe S (store_inv E st N A v0) (delete_item E st i) (\<lambda>r u. delete_done E st S i v r u) v"
  by (rule safe_post [OF delete_safe [OF assms]]) simp

theorem delete_keeps_store_whole_witness:
  "safe (alone True) (store_inv sample_ext store_new {} {} [[] \<mapsto> VDir])
     (delete_item sample_ext store_new sample_id)
     (\<lambda>r u. delete_done sample_ext store_new (alone True) sample_id [[] \<mapsto> VDir] r u) [[] \<mapsto> VDir]"
proof -
  have inv: "store_inv sample_ext store_new {} {} [[] \<mapsto> VDir] [[] \<mapsto> VDir]"
    by (rule own_inv [OF empty_files(2,1)]) (simp_all add: empty_files(3))
  have c: "client sample_ext store_new {} {} [[] \<mapsto> VDir] (alone True)" by (rule quiet_client) simp
  show ?thesis
    by (rule delete_keeps_store_whole [OF c _ sample_id_wf _ inv empty_files(1)]) (simp_all add: store_new_def)
qed

text \<open>Cleaning the staging area and probing for write access touch nothing outside the staging
  areas, at any moment and whatever fails, except that the folders leading there may be made; other
  clients' whole store stays whole while they run.\<close>

theorem staging_work_stays_in_staging:
  assumes "client E st N A v0 S" "store_inv E st N A v0 v"
  shows "safe S (store_inv E st N A v0) (clean_staging min_utc st age) (\<lambda>_. store_inv E st N A v0) v
    \<and> safe S (store_inv E st N A v0) (probe_write st) (\<lambda>_. store_inv E st N A v0) v
    \<and> safe (alone F) (only_staging st w) (clean_staging min_utc st age) (\<lambda>_. only_staging st w) w
    \<and> safe (alone F) (only_staging st w) (probe_write st) (\<lambda>_. only_staging st w) w"
proof (intro conjI)
  note I = store_inv_blind [OF assms(1)] and I' = only_staging_blind [of "alone F" st w]
  have w: "only_staging st w w" by (simp add: only_staging_def)
  show "safe S (store_inv E st N A v0) (clean_staging min_utc st age) (\<lambda>_. store_inv E st N A v0) v"
    by (rule clean_staging_blind [OF I assms(2)])
  show "safe S (store_inv E st N A v0) (probe_write st) (\<lambda>_. store_inv E st N A v0) v"
    by (rule probe_write_blind [OF I assms(2)])
  show "safe (alone F) (only_staging st w) (clean_staging min_utc st age) (\<lambda>_. only_staging st w) w"
    by (rule clean_staging_blind [OF I' w]) simp
  show "safe (alone F) (only_staging st w) (probe_write st) (\<lambda>_. only_staging st w) w"
    by (rule probe_write_blind [OF I' w]) simp
qed

theorem staging_work_stays_in_staging_witness:
  "safe (alone True) (store_inv sample_ext store_new {} UNIV [[] \<mapsto> VDir]) (probe_write store_new)
     (\<lambda>_. store_inv sample_ext store_new {} UNIV [[] \<mapsto> VDir]) [[] \<mapsto> VDir]"
proof -
  have inv: "store_inv sample_ext store_new {} UNIV [[] \<mapsto> VDir] [[] \<mapsto> VDir]"
    by (rule own_inv [OF empty_files(2,1)]) simp_all
  have c: "client sample_ext store_new {} UNIV [[] \<mapsto> VDir] (alone True)" by (rule quiet_client) simp
  show ?thesis using staging_work_stays_in_staging [OF c inv] by blast
qed

section \<open>As a map, on the local file system\<close>



text \<open>A put on the local file system, at the time its clock shows.\<close>

lemma put_run:
  assumes "fext_laws E" "st_plain_guard st \<longrightarrow> st_sealer st = None"
    and "store_ok E st (local_view w)" "fs_wf (local_view w)"
    and "\<forall>m. completes E item m \<longrightarrow> fits E (st_sealer st) m"
    and "run local_fs (put E st item content) w = (r, w')"
  shows "store_inv E st (names_in st (local_view w)) UNIV (local_view w) (local_view w')"
    and "put_done E st (alone_at False (lw_clock w)) (names_in st (local_view w)) (names_in st (local_view w))
      (br_bytes content) (put_may_fail E st (alone_at False (lw_clock w)) item content (local_view w)) r (local_view w')"
    and "fs_wf (local_view w')"
proof -
  have inv: "store_inv E st (names_in st (local_view w)) UNIV (local_view w) (local_view w)"
    by (rule own_inv [OF assms(3,4)]) simp_all
  from ltfs.run_safe_at [OF put_safe [OF assms(1) quiet_client [OF quiet_alone(2)] assms(2) _ _ _ inv] assms(4,6)] assms(5)
  show "store_inv E st (names_in st (local_view w)) UNIV (local_view w) (local_view w')"
    and "put_done E st (alone_at False (lw_clock w)) (names_in st (local_view w)) (names_in st (local_view w))
      (br_bytes content) (put_may_fail E st (alone_at False (lw_clock w)) item content (local_view w)) r (local_view w')"
    and "fs_wf (local_view w')" by auto
qed

text \<open>Metadata this store can write and read back, and a staging area without leftovers.\<close>

definition storable :: "'z hext_scheme \<Rightarrow> fs_store \<Rightarrow> new_item \<Rightarrow> bool" where
  "storable E st item \<longleftrightarrow> (\<forall>m. completes E item m \<longrightarrow> fits E (st_sealer st) m \<and> encodes E m)"

definition unlittered :: "fs_store \<Rightarrow> fsview \<Rightarrow> bool" where
  "unlittered st v \<longleftrightarrow> (\<forall>t s. v (tmp_path st @ token_name t # s) = None)"

lemma put_returns:
  assumes "fext_laws E" "st_plain_guard st \<longrightarrow> st_sealer st = None"
    and "store_ok E st (local_view w)" "fs_wf (local_view w)" "storable E st item"
    and "guard_ok E st (local_view w)" "\<not> blocked st (local_view w)" "unlittered st (local_view w)"
    and "br_end content = None" "length (chunks_of (br_bytes content)) < 2 ^ 64" "in_range (lw_clock w)"
  shows "\<exists>out w'. run local_fs (put E st item content) w = (Inr out, w')"
proof -
  let ?S = "alone_at False (lw_clock w)"
  obtain r w' where run: "run local_fs (put E st item content) w = (r, w')" by fastforce
  have "\<forall>m. completes E item m \<longrightarrow> fits E (st_sealer st) m" using assms(5) by (simp add: storable_def)
  note d = put_run(2) [OF assms(1-4) this run]
  have "\<not> put_may_fail E st ?S item content (local_view w)"
    using assms(5-10) by (simp add: put_may_fail_def copy_excuse_def fresh_tokens_def storable_def unlittered_def)
  with d assms(11) have "\<exists>out. r = Inr out" by (cases r) (auto simp: put_done_def)
  with run show ?thesis by blast
qed

lemma sample_put:
  "storable sample_hext store_new sample_file" "unlittered store_new (local_view sample_world)"
  "br_end (reader_of [104, 105]) = None" "length (chunks_of (br_bytes (reader_of [104, 105]))) < 2 ^ 64"
  "in_range (lw_clock sample_world)" "st_plain_guard store_new \<longrightarrow> st_sealer store_new = None"
  using sample_file_ok
  by (simp_all add: storable_def unlittered_def reader_of_def br_bytes_def length_chunks_of in_range_def
      sample_world_def [THEN arg_cong, of lw_clock] store_new_def)

text \<open>C5: What a put answered can be got: on the local file system, getting the answered item yields
  the answered metadata and a content that reads to its end, with the size and SHA-256 the metadata
  says; a created item's content is exactly the bytes that were put.\<close>

theorem put_then_get:
  assumes "fext_laws E" "st_plain_guard st \<longrightarrow> st_sealer st = None"
    and "store_ok E st (local_view w)" "fs_wf (local_view w)"
    and "\<forall>m. completes E item m \<longrightarrow> fits E (st_sealer st) m"
    and "\<forall>i m b. contents E st (local_view w) i = Some (m, b) \<longrightarrow> length b < 2 ^ 62"
    and "length (br_bytes content) < 2 ^ 62"
    and run: "run local_fs (put E st item content) w = (Inr out, w')"
  shows "\<exists>rd. fst (run local_fs (get_item E st (meta_id (po_meta out))) w') = Inr (po_meta out, rd)
      \<and> br_end rd = None \<and> meta_size (po_meta out) = of_nat (length (br_bytes rd))
      \<and> meta_sha256 (po_meta out) = sha256_hex E (digest_of E (br_bytes rd))
      \<and> (if po_created out then br_bytes rd = br_bytes content else True)"
proof -
  let ?v = "local_view w" and ?i = "meta_id (po_meta out)" and ?u = "local_view w'"
  obtain r w'' where get: "run local_fs (get_item E st ?i) w' = (r, w'')" by fastforce
  note u = put_run(1) [OF assms(1-5) run] and d = put_run(2) [OF assms(1-5) run] and wf = put_run(3) [OF assms(1-5) run]
  have ok: "store_ok E st ?u" using u by (simp add: store_inv_def)
  have "puts E st (br_bytes content) (contents E st ?v) out (contents E st ?u)"
    by (rule put_done_puts [OF fext_lawsD(4) [OF assms(1)] assms(3) quiet_alone(2) _ u d]) simp
  then obtain b where i: "id_wf ?i" and b: "contents E st ?u ?i = Some (po_meta out, b)"
    and cr: "po_created out \<Longrightarrow> b = br_bytes content" and small: "length b < 2 ^ 62"
    using assms(6,7) by (auto simp: puts_def Let_def split: if_splits)
  have desc: "describes E st ?i (po_meta out) b"
    by (rule contents_whole(3) [OF fext_lawsD(4) [OF assms(1)] ok b])
  have "\<exists>rd. r = Inr (po_meta out, rd) \<and> br_bytes rd = b \<and> br_end rd = None"
    using answers_run [OF get_item_contents [OF assms(1) ok wf i] wf get] small b by auto
  then show ?thesis using cr desc get by (auto simp: describes_def)
qed

theorem put_then_get_witness:
  "\<exists>out w' rd. run local_fs (put sample_hext store_new sample_file (reader_of [104, 105])) sample_world = (Inr out, w')
      \<and> fst (run local_fs (get_item sample_hext store_new (meta_id (po_meta out))) w') = Inr (po_meta out, rd)
      \<and> br_end rd = None \<and> meta_size (po_meta out) = of_nat (length (br_bytes rd))"
proof -
  note ok = sample_hext_laws(1) sample_put(6) empty_files(2,1) [folded sample_view]
  obtain out w' where run: "run local_fs (put sample_hext store_new sample_file (reader_of [104, 105])) sample_world = (Inr out, w')"
    using put_returns [OF ok sample_put(1) empty_files(4,5) [folded sample_view] sample_put(2-5)] by blast
  have none: "contents sample_hext store_new (local_view sample_world) i = None" for i
    by (simp add: contents_def item_path_def)
  have fit: "\<forall>m. completes sample_hext sample_file m \<longrightarrow> fits sample_hext (st_sealer store_new) m"
    using sample_put(1) by (simp add: storable_def)
  have small: "length (br_bytes (reader_of [104, 105])) < 2 ^ 62" by (simp add: reader_of_def br_bytes_def)
  from put_then_get [OF ok fit _ small run] none run show ?thesis by auto
qed

text \<open>C7: A put succeeds: on the local file system, into a whole store whose folders are not blocked by
  files, whose guard holds and whose staging area has no leftovers of the random names, with a
  content stream that does not break off, metadata that can be encoded and a clock within the years
  identifiers can name, it answers an item; no other condition is needed.\<close>

theorem put_succeeds:
  assumes "fext_laws E" "st_plain_guard st \<longrightarrow> st_sealer st = None"
    and "store_ok E st (local_view w)" "fs_wf (local_view w)" "storable E st item"
    and "guard_ok E st (local_view w)" "\<not> blocked st (local_view w)" "unlittered st (local_view w)"
    and "br_end content = None" "length (chunks_of (br_bytes content)) < 2 ^ 64" "in_range (lw_clock w)"
    and "run local_fs (put E st item content) w = (r, w')"
  shows "\<exists>out. r = Inr out \<and> id_key (meta_id (po_meta out)) = keyed E st (digest_of E (br_bytes content))
      \<and> contents E st (local_view w') (meta_id (po_meta out)) \<noteq> None"
proof -
  have fit: "\<forall>m. completes E item m \<longrightarrow> fits E (st_sealer st) m" using assms(5) by (simp add: storable_def)
  obtain out where out: "r = Inr out" using put_returns [OF assms(1-11)] assms(12) by auto
  note run = assms(12) [unfolded out]
  have "puts E st (br_bytes content) (contents E st (local_view w)) out (contents E st (local_view w'))"
    by (rule put_done_puts [OF fext_lawsD(4) [OF assms(1)] assms(3) quiet_alone(2) _
          put_run(1) [OF assms(1-4) fit run] put_run(2) [OF assms(1-4) fit run]]) simp
  with out show ?thesis by (auto simp: puts_def Let_def split: if_splits)
qed

theorem put_succeeds_witness:
  "\<exists>r w' out. run local_fs (put sample_hext store_new sample_file (reader_of [104, 105])) sample_world = (r, w')
     \<and> r = Inr out \<and> contents sample_hext store_new (local_view w') (meta_id (po_meta out)) \<noteq> None"
proof -
  note ok = sample_hext_laws(1) sample_put(6) empty_files(2,1) [folded sample_view]
  obtain r w' where run: "run local_fs (put sample_hext store_new sample_file (reader_of [104, 105])) sample_world = (r, w')"
    by fastforce
  from put_succeeds [OF ok sample_put(1) empty_files(4,5) [folded sample_view] sample_put(2-5) run] run
  show ?thesis by blast
qed

section \<open>Listing and resolving, whatever is in the store\<close>



text \<open>C9: Resolving what a user typed: trimmed and lower-cased, fewer than four characters are refused;
  otherwise the answer is the one item whose content key (or, if a dash was typed, whose identifier)
  starts with it; that there is none; or all the candidates, newest first, when there are several.
  It only looks at names, so damaged items resolve too, and only fails otherwise when the items
  folder cannot be read.\<close>

theorem resolve_exact:
  assumes "items_in_dir st v" "needle = ascii_lowercase (trim_both is_whitespace typed)"
  shows "answers F v (resolve st typed)
    (\<lambda>r. case r of
        Inr i \<Rightarrow> 4 \<le> length needle \<and> {k. matches st v needle k} = {i}
      | Inl (SeNotFound t) \<Rightarrow> 4 \<le> length needle \<and> {k. matches st v needle k} = {}
      | Inl (SeAmbiguous t candidates) \<Rightarrow>
          4 \<le> length needle \<and> set candidates = {k. matches st v needle k}
          \<and> sorted_wrt (>) candidates \<and> 2 \<le> length candidates
      | Inl (SeInvalidPrefix t) \<Rightarrow> length needle < 4 \<and> t = trim_both is_whitespace typed
      | Inl _ \<Rightarrow> F \<or> (\<exists>b. v (items_path st) = Some (VFile b)))"
  by (rule answers_mono [OF resolve_answer [OF assms]])
    (auto simp: resolved_def not_less split: sum.splits store_error.splits)

theorem resolve_exact_witness:
  "answers False [[] \<mapsto> VDir] (resolve store_new (ustr '' 2CF2 ''))
    (\<lambda>r. case r of
        Inr i \<Rightarrow> 4 \<le> length (ustr ''2cf2'') \<and> {k. matches store_new [[] \<mapsto> VDir] (ustr ''2cf2'') k} = {i}
      | Inl (SeNotFound t) \<Rightarrow>
          4 \<le> length (ustr ''2cf2'') \<and> {k. matches store_new [[] \<mapsto> VDir] (ustr ''2cf2'') k} = {}
      | Inl (SeAmbiguous t candidates) \<Rightarrow>
          4 \<le> length (ustr ''2cf2'') \<and> set candidates = {k. matches store_new [[] \<mapsto> VDir] (ustr ''2cf2'') k}
          \<and> sorted_wrt (>) candidates \<and> 2 \<le> length candidates
      | Inl (SeInvalidPrefix t) \<Rightarrow>
          length (ustr ''2cf2'') < 4 \<and> t = trim_both is_whitespace (ustr '' 2CF2 '')
      | Inl _ \<Rightarrow> False \<or> (\<exists>b. [[] \<mapsto> VDir] (items_path store_new) = Some (VFile b)))"
  by (rule resolve_exact [OF wf_items_in_dir [OF empty_files(1)]])
    code_simp

end
