(* ===== verification/Header_Laws.thy ===== *)
theory Header_Laws
  imports Store_Write Sample_Store
begin

text \<open>
  The store header: what is written parses back to the same wrapped key, and creating a header
  makes it appear in one step, whole, and never over another one.
\<close>

section \<open>Round trip\<close>

text \<open>A wrapped key as \<^const>\<open>wrap\<close> makes it: ids, salts and nonces have their fixed lengths.\<close>

definition header_wf :: "store_header \<Rightarrow> bool" where
  "header_wf h \<longleftrightarrow>
     length (kid_bytes (wk_key_id (wrapped h))) = 8 \<and> length (kp_salt (wk_kdf (wrapped h))) = KDF_SALT_LEN
     \<and> length (wk_nonce (wrapped h)) = NONCE_LEN"

lemma decode_field_encoded:
  "hex_laws E \<Longrightarrow> length b = n \<Longrightarrow> decode_field E n field (x_hex_encode E b) = Inr b"
  by (simp add: decode_field_def hex_lawsD)

lemma no_uppercase: "lower_hex s \<Longrightarrow> \<not> (\<exists>c \<in> set s. is_ascii_uppercase c)"
  by (auto simp: is_ascii_uppercase_def is_lower_hex_char_def Let_def)

lemma header_round_trip:
  assumes "header_laws E" "hex_laws E" "header_wf h"
  shows "header_parse E (to_json E h) = Inr h"
proof -
  have kid: "key_id_parse E (key_id_display E (wk_key_id (wrapped h))) = Inr (wk_key_id (wrapped h))"
    using assms(2,3) no_uppercase [of "x_hex_encode E (kid_bytes (wk_key_id (wrapped h)))"]
    by (simp add: key_id_parse_def key_id_display_def hex_lawsD header_wf_def)
  show ?thesis
    using assms kid
    by (cases h) (simp add: header_parse_def to_json_def Let_def header_laws_def decode_field_encoded hex_lawsD header_wf_def)
qed

section \<open>Creating it\<close>

definition header_there :: "'z hext_scheme \<Rightarrow> store_header \<Rightarrow> fsview \<Rightarrow> bool" where
  "header_there E h u \<longleftrightarrow>
     u [''encryption''] = Some VDir \<and> u [''encryption'', ''header.json''] = Some (VFile (to_json E h))"

definition header_same :: "fsview \<Rightarrow> fsview \<Rightarrow> bool" where
  "header_same v u \<longleftrightarrow> (\<forall>s. u (''encryption'' # s) = v (''encryption'' # s))"

definition header_inv :: "'z hext_scheme \<Rightarrow> store_header \<Rightarrow> fsview \<Rightarrow> fsview \<Rightarrow> bool" where
  "header_inv E h v u \<longleftrightarrow> header_same v u \<or> (v [''encryption''] = None \<and> header_there E h u)"

text \<open>Assertions about the header folder only.\<close>

definition header_only :: "(fsview \<Rightarrow> bool) \<Rightarrow> bool" where
  "header_only I \<longleftrightarrow> (\<forall>u u'. I u \<longrightarrow> (\<forall>s. u' (''encryption'' # s) = u (''encryption'' # s)) \<longrightarrow> I u')"

lemma header_onlyD:
  "header_only I \<Longrightarrow> I u \<Longrightarrow> (\<And>s. u' (''encryption'' # s) = u (''encryption'' # s)) \<Longrightarrow> I u'"
  unfolding header_only_def by blast

lemma header_only_inv: "header_only (header_inv E h v)" "header_only (header_same v)"
  by (simp_all add: header_only_def header_inv_def header_same_def header_there_def)

lemma header_only_mk_dirs:
  assumes "header_only I" "I u" "is_under q (''v2'' # t)"
  shows "I (mk_dirs q u)"
proof (rule header_onlyD [OF assms(1,2)])
  fix s
  have "\<not> is_under (''encryption'' # s) q" using assms(3) by (cases q) (auto simp: is_under_def)
  then show "mk_dirs q u (''encryption'' # s) = u (''encryption'' # s)" by (simp add: mk_dirs_def)
qed

lemma staged_header_path:
  assumes "hex_laws E" "length b = 8"
  shows "\<not> invalid_component (''header-'' @ x_hex_encode E b)"
  using hex_lawsD [OF assms(1)] by (intro valid_prefixed) (auto simp: invalid_component_def lower_hex_list_all list_all_iff)

text \<open>Staging it, with nobody else around: the folder staged holds exactly the header's bytes.\<close>

lemma stage_header_safe:
  assumes hex: "hex_laws E" and I: "header_only I" and v: "I v"
  shows "safe (alone F) I (stage_header E h ''header'')
    (\<lambda>r u. I u
       \<and> (case r of
            Inr dir \<Rightarrow> \<exists>n. \<not> invalid_component n \<and> dir = rp_of [''v2'', ''tmp'', n]
                \<and> u [''v2'', ''tmp'', n] = Some VDir
                \<and> u [''v2'', ''tmp'', n, ''header.json''] = Some (VFile (to_json E h))
          | Inl _ \<Rightarrow> True)) v"
proof -
  let ?Q = "\<lambda>r u. I u \<and> (case r of
            Inr dir \<Rightarrow> \<exists>n. \<not> invalid_component n \<and> dir = rp_of [''v2'', ''tmp'', n]
                \<and> u [''v2'', ''tmp'', n] = Some VDir
                \<and> u [''v2'', ''tmp'', n, ''header.json''] = Some (VFile (to_json E h))
          | Inl _ \<Rightarrow> True)"
  have fail: "safe (alone F) I (Done (Inl e)) ?Q u" if "I u" for e u
    by (rule safe_done [where J = I]) (use that in simp_all)
  show ?thesis
    unfolding stage_header_def
  proof (rule safe_random_bytes [where J = I])
    fix token :: bytes assume len: "length token = 8"
    let ?n = "''header-'' @ x_hex_encode E token"
    let ?D = "[''v2'', ''tmp'', ?n]"
    have n: "\<not> invalid_component ?n" by (rule staged_header_path [OF hex len])
    have val: "valid_comps [''v2'', ''tmp'']" "valid_comps ?D" "valid_comps (?D @ [''header.json''])"
      using n by (simp_all only: valid_comps_simps valid_const append_Cons append_Nil simp_thms not_False_eq_True)
    have j: "rp_join (rp_of [''v2'', ''tmp'']) ?n = Inr (rp_of ?D)"
      "rp_join (rp_of ?D) ''header.json'' = Inr (rp_of (?D @ [''header.json'']))"
      using join_is [OF val(1) n] join_is [OF val(2) valid_const(8)] by simp_all
    have p: "comps (rp_of ?D) = ?D" "comps (rp_of (?D @ [''header.json''])) = ?D @ [''header.json'']"
      by (rule comps_rp_of [OF val(2)], rule comps_rp_of [OF val(3)])
    have eq: "''header'' @ ''-'' @ x_hex_encode E token = ?n" by simp
    have own: "owns (alone F) I ?D"
      unfolding owns_def
    proof (intro conjI allI impI)
      fix u u' :: fsview assume u: "I u" and same: "\<forall>q. \<not> is_under ?D q \<longrightarrow> u' q = u q"
      show "I u'"
        by (rule header_onlyD [OF I u]) (use same in \<open>simp add: is_under_def\<close>)
    qed simp_all
    show "safe (alone F) I (try_res SeFs (rp_new ENC_SEALED_TMP_DIR) (\<lambda>tmp.
        try_res SeFs (rp_join tmp (''header'' @ ''-'' @ x_hex_encode E token)) (\<lambda>dir.
        try_as SeFs (CreateDirAll dir Done) (\<lambda>_.
        try_res SeFs (rp_join dir HEADER_FILE) (\<lambda>path.
        try_as SeFs (write_file path (to_json E h)) (\<lambda>_. Done (Inr dir))))))) ?Q v"
      unfolding ENC_SEALED_TMP_DIR_def HEADER_FILE_def new_is try_res_simps
    proof (unfold eq j(1) try_res_simps, rule mk_dir_safe, unfold p)
      fix w u assume u: "I u" "u ?D = Some VDir"
      have t: "tree_at u ?D (\<lambda>s. u (?D @ s))" by (simp add: tree_at_def)
      show "safe (alone F) I (try_res SeFs (rp_join (rp_of ?D) ''header.json'') (\<lambda>path.
          try_as SeFs (write_file path (to_json E h)) (\<lambda>_. Done (Inr (rp_of ?D))))) ?Q u"
        unfolding j try_res_simps
      proof (rule safe_then_try [OF write_file_safe [OF own p(2) u(1) t], where J = I])
        fix x u' assume "copied (alone F) I ?D (\<not> room_for (\<lambda>s. u (?D @ s)) ''header.json'')
            (\<lambda>_ m'. m' = (\<lambda>s. u (?D @ s))([''header.json''] \<mapsto> VFile (to_json E h))) (Inr x) u'"
        then have u': "I u'" "\<And>s. u' (?D @ s) = ((\<lambda>s. u (?D @ s))([''header.json''] \<mapsto> VFile (to_json E h))) s"
          by (auto simp: copied_def tree_at_def)
        have "u' ?D = Some VDir" "u' (?D @ [''header.json'']) = Some (VFile (to_json E h))"
          using u'(2) [of "[]"] u'(2) [of "[''header.json'']"] u(2) by simp_all
        then have "?Q (Inr (rp_of ?D)) u'" using u'(1) n by auto
        then show "safe (alone F) I (Done (Inr (rp_of ?D))) ?Q u'"
          by (intro safe_done [where J = "?Q (Inr (rp_of ?D))"]) auto
      qed (use fail in \<open>auto simp: copied_def\<close>)
    qed (use v fail header_only_mk_dirs [OF I] in auto)
  qed (use v fail in auto)
qed

definition header_made :: "'z hext_scheme \<Rightarrow> store_header \<Rightarrow> bool \<Rightarrow> fsview \<Rightarrow> store_error + unit \<Rightarrow> fsview \<Rightarrow> bool" where
  "header_made E h F v r u \<longleftrightarrow>
     (case r of
        Inr _ \<Rightarrow> v [''encryption''] = None \<and> header_there E h u
      | Inl e \<Rightarrow> (F \<or> header_same v u)
          \<and> (\<not> F \<longrightarrow> v [''encryption''] \<noteq> None \<longrightarrow> e = SeEncryption EnAlreadyEncrypted))"

text \<open>The rename that makes the staged folder the header.\<close>

lemma publish_header_safe:
  assumes n: "\<not> invalid_component n" and none: "v [''encryption''] = None" and same: "header_same v u"
    and D: "u [''v2'', ''tmp'', n] = Some VDir" "u [''v2'', ''tmp'', n, ''header.json''] = Some (VFile (to_json E h))"
  shows "safe (alone F) (header_inv E h v) (Rename (rp_of [''v2'', ''tmp'', n]) (rp_of [''encryption'']) (\<lambda>r.
      case r of
        Inr _ \<Rightarrow> Done (Inr ())
      | Inl e \<Rightarrow> RemoveDirAll (rp_of [''v2'', ''tmp'', n]) (\<lambda>_.
          Done (Inl (case e of FsAlreadyExists _ \<Rightarrow> SeEncryption EnAlreadyEncrypted | _ \<Rightarrow> SeFs e)))))
    (header_made E h F v) u"
proof -
  let ?D = "[''v2'', ''tmp'', n]" and ?I = "header_inv E h v" and ?Q = "header_made E h F v"
  have done_: "safe (alone F) ?I (Done r) ?Q u" if "?I u" "?Q r u" for r u
    by (rule safe_done [where J = "\<lambda>u. ?I u \<and> ?Q r u"]) (use that in simp_all)
  have p: "comps (rp_of ?D) = ?D" "comps (rp_of [''encryption'']) = [''encryption'']"
    using n by simp_all
  have there: "header_there E h (move_tree ?D [''encryption''] u)"
    using D by (simp add: header_there_def move_tree_def is_under_def)
  have gone: "?I u'" "header_same v w \<Longrightarrow> header_same v u'"
    if "?I w" "remove_dir_all_spec F ?D w r u'" for w u' r
  proof -
    have e: "u' (''encryption'' # s) = w (''encryption'' # s)" for s
      using that(2) by (auto simp: remove_dir_all_spec_def cut_tree_def is_under_def split: sum.splits)
    show "?I u'" by (rule header_onlyD [OF header_only_inv(1) that(1) e])
    show "header_same v w \<Longrightarrow> header_same v u'" using e by (simp add: header_same_def)
  qed
  show ?thesis
  proof (rule safe_call(5) [where J = "\<lambda>w. w = u"], unfold p)
    fix w r u' assume w: "w = u" and r: "rename_spec (st_faulty (alone F)) ?D [''encryption''] w r u'"
    show "safe (alone F) ?I (case r of
        Inr _ \<Rightarrow> Done (Inr ())
      | Inl e \<Rightarrow> RemoveDirAll (rp_of ?D) (\<lambda>_.
          Done (Inl (case e of FsAlreadyExists _ \<Rightarrow> SeEncryption EnAlreadyEncrypted | _ \<Rightarrow> SeFs e)))) ?Q u'"
    proof (cases r)
      case (Inr x)
      then have "header_there E h u'" using r w there by (simp add: rename_spec_def)
      with done_ [of u' "Inr ()"] none Inr show ?thesis by (simp add: header_inv_def header_made_def)
    next
      case (Inl e)
      have u': "?I u' \<and> (F \<or> header_same v u')"
        using r w Inl there same none by (auto simp: rename_spec_def header_inv_def)
      have "safe (alone F) ?I (RemoveDirAll (rp_of ?D) (\<lambda>_. Done (Inl x))) ?Q u'" for x
      proof (rule safe_call(9) [where J = "\<lambda>w. ?I w \<and> (F \<or> header_same v w)"], unfold p)
        fix y a y' assume y: "?I y \<and> (F \<or> header_same v y)" "remove_dir_all_spec (st_faulty (alone F)) ?D y a y'"
        then have "?I y'" "F \<or> header_same v y'" using gone [of y a y'] by auto
        then show "safe (alone F) ?I (Done (Inl x)) ?Q y'"
          by (intro done_) (simp_all add: header_made_def none)
      qed (use u' in simp_all)
      then show ?thesis using Inl by simp
    qed
  qed (use same in \<open>simp_all add: header_inv_def\<close>)
qed

lemma create_header_safe:
  assumes hex: "hex_laws E"
  shows "safe (alone F) (header_inv E h v) (create_header E h) (header_made E h F v) v"
proof -
  let ?I = "header_inv E h v" and ?Q = "header_made E h F v"
  have I0: "?I v" by (simp add: header_inv_def header_same_def)
  have t: "comps (rp_of [''encryption'']) = [''encryption'']" by simp
  have done_: "safe (alone F) ?I (Done r) ?Q u" if "?I u" "?Q r u" for r u
    by (rule safe_done [where J = "\<lambda>u. ?I u \<and> ?Q r u"]) (use that in simp_all)
  show ?thesis
    unfolding create_header_def encryption_dir_def ENCRYPTION_DIR_def new_is try_res_simps prog_simps
  proof (rule safe_call(4) [where J = "\<lambda>u. u = v"], unfold t)
    fix u r assume u: "u = v" and r: "stat_spec (st_faulty (alone F)) [''encryption''] u r"
    show "safe (alone F) ?I (try_res SeFs r (\<lambda>found.
        if found \<noteq> None then Done (Inl (SeEncryption EnAlreadyEncrypted))
        else tryP (stage_header E h ''header'') (\<lambda>staged. Rename staged (rp_of [''encryption'']) (\<lambda>r.
          case r of
            Inr _ \<Rightarrow> Done (Inr ())
          | Inl e \<Rightarrow> RemoveDirAll staged (\<lambda>_.
              Done (Inl (case e of FsAlreadyExists _ \<Rightarrow> SeEncryption EnAlreadyEncrypted | _ \<Rightarrow> SeFs e))))))) ?Q u"
    proof (cases r)
      case (Inl e)
      then have F using r by (simp add: stat_spec_def)
      then have "?Q (Inl (SeFs e)) v" by (simp add: header_made_def)
      with done_ [OF I0] Inl u show ?thesis by simp
    next
      case (Inr found)
      show ?thesis
      proof (cases "found = None")
        case False
        with Inr u I0 show ?thesis by (auto simp: header_made_def header_same_def intro!: done_)
      next
        case None: True
        then have none: "v [''encryption''] = None" using r Inr u by (simp add: stat_spec_def)
        have "safe (alone F) ?I (tryP (stage_header E h ''header'') (\<lambda>staged. Rename staged (rp_of [''encryption'']) (\<lambda>r.
            case r of
              Inr _ \<Rightarrow> Done (Inr ())
            | Inl e \<Rightarrow> RemoveDirAll staged (\<lambda>_.
                Done (Inl (case e of FsAlreadyExists _ \<Rightarrow> SeEncryption EnAlreadyEncrypted | _ \<Rightarrow> SeFs e)))))) ?Q v"
        proof (rule safe_then_try [OF safe_inv [OF stage_header_safe [OF hex header_only_inv(2)]], where J = "\<lambda>_. True"])
          show "header_same v v" by (simp add: header_same_def)
          show "header_same v u \<Longrightarrow> ?I u" for u by (simp add: header_inv_def)
          fix e :: store_error and u assume "header_same v u \<and> (case Inl e of
              Inr dir \<Rightarrow> \<exists>n. \<not> invalid_component n \<and> dir = rp_of [''v2'', ''tmp'', n]
                \<and> u [''v2'', ''tmp'', n] = Some VDir
                \<and> u [''v2'', ''tmp'', n, ''header.json''] = Some (VFile (to_json E h))
            | Inl _ \<Rightarrow> True)"
          then show "safe (alone F) ?I (Done (Inl e)) ?Q u"
            by (intro done_) (auto simp: header_inv_def header_made_def none)
        next
          fix dir u assume "header_same v u \<and> (case Inr dir of
              Inr dir \<Rightarrow> \<exists>n. \<not> invalid_component n \<and> dir = rp_of [''v2'', ''tmp'', n]
                \<and> u [''v2'', ''tmp'', n] = Some VDir
                \<and> u [''v2'', ''tmp'', n, ''header.json''] = Some (VFile (to_json E h))
            | Inl (_ :: store_error) \<Rightarrow> True)"
          then obtain n where u: "header_same v u" "\<not> invalid_component n" "dir = rp_of [''v2'', ''tmp'', n]"
            "u [''v2'', ''tmp'', n] = Some VDir" "u [''v2'', ''tmp'', n, ''header.json''] = Some (VFile (to_json E h))"
            by auto
          show "safe (alone F) ?I (Rename dir (rp_of [''encryption'']) (\<lambda>r.
            case r of
              Inr _ \<Rightarrow> Done (Inr ())
            | Inl e \<Rightarrow> RemoveDirAll dir (\<lambda>_.
                Done (Inl (case e of FsAlreadyExists _ \<Rightarrow> SeEncryption EnAlreadyEncrypted | _ \<Rightarrow> SeFs e))))) ?Q u"
            unfolding u(3) by (rule publish_header_safe [OF u(2) none u(1,4,5)])
        qed simp
        then show ?thesis using Inr None u by simp
      qed
    qed
  qed (use I0 in simp_all)
qed

section \<open>Properties\<close>

text \<open>A store header that holds a wrapped key of the fixed lengths reads back from its JSON as it
  was written, and so does its key id.\<close>

theorem header_reads_back:
  assumes "header_laws E" "hex_laws E"
    and "length (kid_bytes (wk_key_id (wrapped h))) = 8" "length (kp_salt (wk_kdf (wrapped h))) = 16"
    and "length (wk_nonce (wrapped h)) = 12"
  shows "header_parse E (to_json E h) = Inr h"
  by (rule header_round_trip [OF assms(1,2)])
    (use assms(3-) in \<open>simp add: header_wf_def KDF_SALT_LEN_def NONCE_LEN_def\<close>)

definition sample_header :: store_header where
  "sample_header = StoreHeader
     \<lparr>wk_key_id = KeyId (replicate 8 1), wk_kdf = \<lparr>kp_m_kib = 65536, kp_t = 3, kp_p = 4, kp_salt = replicate 16 2\<rparr>,
      wk_nonce = replicate 12 3, wk_ciphertext = replicate 48 4\<rparr>"

theorem header_reads_back_witness:
  "header_parse sample_ext (to_json sample_ext sample_header) = Inr sample_header"
  by (rule header_reads_back) (simp_all add: sample_ext_laws fext_lawsD sample_header_def)

text \<open>C22: Creating the store header, whatever fails on the way: at every moment the header folder is as
  it was, or, where there was none, holds the complete new header; so a header never replaces
  another. Success means it is there; without faults a failure leaves everything about it as it was,
  and is the answer that the store is encrypted already if there was one.\<close>

theorem create_header_atomic:
  assumes "hex_laws E"
  shows "safe (alone F)
    (\<lambda>u. (\<forall>s. u (''encryption'' # s) = v (''encryption'' # s))
      \<or> (v [''encryption''] = None \<and> u [''encryption''] = Some VDir
         \<and> u [''encryption'', ''header.json''] = Some (VFile (to_json E h))))
    (create_header E h)
    (\<lambda>r u. case r of
       Inr _ \<Rightarrow> v [''encryption''] = None \<and> u [''encryption''] = Some VDir
         \<and> u [''encryption'', ''header.json''] = Some (VFile (to_json E h))
     | Inl e \<Rightarrow> (F \<or> (\<forall>s. u (''encryption'' # s) = v (''encryption'' # s)))
         \<and> (\<not> F \<longrightarrow> v [''encryption''] \<noteq> None \<longrightarrow> e = SeEncryption EnAlreadyEncrypted))
    v"
proof -
  have I: "header_inv E h v = (\<lambda>u. (\<forall>s. u (''encryption'' # s) = v (''encryption'' # s))
      \<or> (v [''encryption''] = None \<and> u [''encryption''] = Some VDir
         \<and> u [''encryption'', ''header.json''] = Some (VFile (to_json E h))))"
    by (intro ext) (simp add: header_inv_def header_same_def header_there_def)
  show ?thesis
    by (rule safe_post [OF create_header_safe [OF assms, of F h v, unfolded I]])
      (auto simp: header_made_def header_there_def header_same_def split: sum.splits)
qed

theorem create_header_atomic_witness:
  "safe (alone True)
    (\<lambda>u. (\<forall>s. u (''encryption'' # s) = [[] \<mapsto> VDir] (''encryption'' # s))
      \<or> ([[] \<mapsto> VDir] [''encryption''] = None \<and> u [''encryption''] = Some VDir
         \<and> u [''encryption'', ''header.json''] = Some (VFile (to_json sample_ext sample_header))))
    (create_header sample_ext sample_header)
    (\<lambda>r u. case r of
       Inr _ \<Rightarrow> [[] \<mapsto> VDir] [''encryption''] = None \<and> u [''encryption''] = Some VDir
         \<and> u [''encryption'', ''header.json''] = Some (VFile (to_json sample_ext sample_header))
     | Inl e \<Rightarrow> (True \<or> (\<forall>s. u (''encryption'' # s) = [[] \<mapsto> VDir] (''encryption'' # s)))
         \<and> (\<not> True \<longrightarrow> [[] \<mapsto> VDir] [''encryption''] \<noteq> None \<longrightarrow> e = SeEncryption EnAlreadyEncrypted))
    [[] \<mapsto> VDir]"
  by (rule create_header_atomic [OF fext_lawsD(1) [OF sample_ext_laws(1)]])

end
