(* ===== verification/Store_Trait.thy ===== *)
theory Store_Trait
  imports Store_Map
begin

text \<open>
  The \<open>Store\<close> trait of \<^verbatim>\<open>passalong-core/src/store/mod.rs\<close> as its callers see it, a
  \<open>&dyn Store\<close>: a record of the trait's operations, the methods the trait provides itself, and the
  record of an \<open>FsStore\<close>. The locale \<open>listing\<close> is what callers that only look rely on; its
  interpretation shows that an \<open>FsStore\<close> provides it.
\<close>

section \<open>The trait\<close>

record dyn_store =
  ds_put :: "new_item \<Rightarrow> box_read \<Rightarrow> (store_error + put_outcome) prog"
  ds_list_after :: "item_id option \<Rightarrow> (store_error + item_meta list) prog"
  ds_list :: "(store_error + item_meta list) prog"
  ds_list_ids :: "(store_error + item_id list) prog"
  ds_get :: "item_id \<Rightarrow> (store_error + item_meta \<times> box_read) prog"
  ds_get_meta :: "item_id \<Rightarrow> (store_error + item_meta) prog"
  ds_exists :: "item_id \<Rightarrow> (store_error + bool) prog"
  ds_find :: "content_key \<Rightarrow> (store_error + item_meta option) prog"
  ds_resolve :: "ustring \<Rightarrow> (store_error + item_id) prog"
  ds_delete :: "item_id \<Rightarrow> (store_error + item_meta) prog"
  ds_probe_write :: "(store_error + write_probe) prog"
  ds_key_id :: "key_id option"
  ds_content_key :: "content_digest \<Rightarrow> content_key"

text \<open>The methods the trait provides when a backend has nothing cheaper.\<close>

definition default_list_ids :: "dyn_store \<Rightarrow> (store_error + item_id list) prog" where
  "default_list_ids D = tryP (ds_list_after D None) (\<lambda>ms. Done (Inr (map meta_id ms)))"

definition default_newest_id :: "dyn_store \<Rightarrow> (store_error + item_id option) prog" where
  "default_newest_id D =
     tryP (ds_list_after D None) (\<lambda>ms. Done (Inr (case ms of m # _ \<Rightarrow> Some (meta_id m) | [] \<Rightarrow> None)))"

definition default_get_meta :: "dyn_store \<Rightarrow> item_id \<Rightarrow> (store_error + item_meta) prog" where
  "default_get_meta D i = tryP (ds_get D i) (\<lambda>(m, _). Done (Inr m))"

definition default_probe_write :: "(store_error + write_probe) prog" where
  "default_probe_write = Done (Inr NotSupported)"

definition fs_dyn :: "'z hext_scheme \<Rightarrow> fs_store \<Rightarrow> dyn_store" where
  "fs_dyn E st =
     \<lparr>ds_put = put E st, ds_list_after = list_after E st, ds_list = list_items E st,
      ds_list_ids = list_ids E st, ds_get = get_item E st, ds_get_meta = get_meta E st,
      ds_exists = exists_item st, ds_find = find_by_content_key E st, ds_resolve = resolve st,
      ds_delete = delete_item E st, ds_probe_write = probe_write st,
      ds_key_id = store_key_id st, ds_content_key = keyed E st\<rparr>"

section \<open>What callers that look rely on\<close>

text \<open>
  \<open>ids v\<close> are the identifiers the store has on the files \<open>v\<close>, \<open>there v i\<close> the metadata of the item
  if it can be read, \<open>arriving v i\<close> whether it may still be on its way.
\<close>

definition passes :: "bool \<Rightarrow> store_error \<Rightarrow> bool" where
  "passes arriving e \<longleftrightarrow>
     (\<exists>t. e = SeNotFound t) \<or> (\<exists>i x. e = SeCorrupt i x) \<or> arriving \<and> (\<exists>i. e = SeEncryption (EnIncomplete i))"

locale listing =
  fixes D :: dyn_store
    and good :: "fsview \<Rightarrow> bool"
    and ids :: "fsview \<Rightarrow> item_id set"
    and there :: "fsview \<Rightarrow> item_id \<Rightarrow> item_meta option"
    and arriving :: "fsview \<Rightarrow> item_id \<Rightarrow> bool"
  assumes list_ids:
    "good v \<Longrightarrow> answers False v (ds_list_ids D) (\<lambda>r. \<exists>l. r = Inr l \<and> sorted_wrt (>) l \<and> set l = ids v)"
  and list_all:
    "good v \<Longrightarrow> answers False v (ds_list D)
       (\<lambda>r. \<exists>l. r = Inr (List.map_filter (there v) l) \<and> sorted_wrt (>) l \<and> set l = ids v)"
  and get_meta:
    "good v \<Longrightarrow> i \<in> ids v \<Longrightarrow> answers False v (ds_get_meta D i)
       (\<lambda>r. case there v i of Some m \<Rightarrow> r = Inr m | None \<Rightarrow> \<exists>e. r = Inl e \<and> passes (arriving v i) e)"
  and there_id: "there v i = Some m \<Longrightarrow> meta_id m = i"

section \<open>An FsStore provides it\<close>

definition fs_good :: "'z hext_scheme \<Rightarrow> fs_store \<Rightarrow> fsview \<Rightarrow> bool" where
  "fs_good E st v \<longleftrightarrow>
     items_in_dir st v \<and> metas_are_files st v \<and> (\<forall>b. v (items_path st) \<noteq> Some (VFile b)) \<and> guard_ok E st v
     \<and> (st_plain_guard st \<longrightarrow> st_sealer st = None)"

definition fs_ids :: "fs_store \<Rightarrow> fsview \<Rightarrow> item_id set" where
  "fs_ids st v = {i. id_wf i \<and> v (item_path st i) = Some VDir}"

definition fs_there :: "'z hext_scheme \<Rightarrow> fs_store \<Rightarrow> fsview \<Rightarrow> item_id \<Rightarrow> item_meta option" where
  "fs_there E st v i = map_option fst (readable E st v i)"

text \<open>Its metadata is there but is not JSON yet, or does not open with the key.\<close>

definition fs_arriving :: "'z hext_scheme \<Rightarrow> fs_store \<Rightarrow> fsview \<Rightarrow> item_id \<Rightarrow> bool" where
  "fs_arriving E st v i \<longleftrightarrow>
     (\<exists>j x. v (meta_file st i) = Some (VFile j)
        \<and> decode_meta E i (take MAX_META_BYTES j) (st_sealer st) = Inl (MetaUnopened x))"

lemma decode_meta_id: "decode_meta E i b s = Inr (m, x) \<Longrightarrow> meta_id m = i"
  unfolding decode_meta_def by (cases s) (auto simp: and_then_eq_Inr split: if_splits)

lemma readable_id: "readable E st v i = Some (m, s) \<Longrightarrow> meta_id m = i"
  unfolding readable_def by (auto split: option.splits vnode.splits sum.splits dest: decode_meta_id)

lemma read_item_arriving:
  assumes i: "id_wf i"
  shows "answers F v (read_item E st i) (\<lambda>r. (\<exists>k. r = Inl (SeEncryption (EnIncomplete k))) \<longrightarrow> fs_arriving E st v i)"
    (is "answers F v _ ?P")
proof -
  have c: "comps (rp_of (item_path st i @ [''meta.json''])) = meta_file st i"
    using i by (simp add: meta_file_def)
  show ?thesis
    unfolding read_item_def item_file_is [OF i] try_res_simps prog_simps answers_simps c
  proof (intro allI impI)
    fix r assume r: "open_read_spec F (meta_file st i) v r"
    show "answers F v (try_res SeFs r (\<lambda>reader.
        try_res (\<lambda>e. corrupt i (''reading meta.json: '' @ io_message e)) (rd_take_to_end MAX_META_BYTES reader)
          (\<lambda>buf. case decode_meta E i buf (st_sealer st) of
             Inr found \<Rightarrow> Done (Inr found)
           | Inl (MetaCorrupt reason) \<Rightarrow> Done (Inl (corrupt i reason))
           | Inl (MetaUnopened reason) \<Rightarrow> bind (unreadable i reason) (\<lambda>e. Done (Inl e))))) ?P"
    proof (cases r)
      case (Inl e)
      then show ?thesis by (simp add: answers_try_res)
    next
      case (Inr rd)
      with r obtain node where node: "v (meta_file st i) = Some node" "reads F rd node"
        by (auto simp: open_read_spec_def)
      show ?thesis
      proof (cases "rd_take_to_end MAX_META_BYTES rd")
        case (Inl e)
        then show ?thesis by (simp add: \<open>r = Inr rd\<close> answers_try_res corrupt_def)
      next
        case b: (Inr b)
        have "0 < MAX_META_BYTES" by (simp add: MAX_META_BYTES_def)
        then have "node \<noteq> VDir" using take_to_end_dir [of F rd] node(2) b by (metis Inl_Inr_False)
        then obtain j where j: "node = VFile j" by (cases node) auto
        have e: "b = take MAX_META_BYTES j" by (rule take_to_end_file(1) [OF node(2) [unfolded j] b])
        have "fs_arriving E st v i" if "decode_meta E i b (st_sealer st) = Inl (MetaUnopened x)" for x
          using that node(1) j unfolding e fs_arriving_def by blast
        then show ?thesis
          unfolding \<open>r = Inr rd\<close> try_res_simps b
          by (auto simp: unreadable_def corrupt_def split: sum.splits meta_error.splits)
      qed
    qed
  qed
qed

lemma safe_conj: "safe S I m P v \<Longrightarrow> safe S I m Q v \<Longrightarrow> safe S I m (\<lambda>r u. P r u \<and> Q r u) v"
  by (induction m arbitrary: v) (simp_all add: safe.simps)

lemma answers_conj: "answers F v m P \<Longrightarrow> answers F v m Q \<Longrightarrow> answers F v m (\<lambda>r. P r \<and> Q r)"
  unfolding answers_def by (rule safe_conj)

lemma get_meta_answer:
  assumes i: "id_wf i" and f: "v (meta_file st i) \<noteq> Some VDir"
  shows "answers False v (get_meta E st i)
    (\<lambda>r. case fs_there E st v i of Some m \<Rightarrow> r = Inr m | None \<Rightarrow> \<exists>e. r = Inl e \<and> passes (fs_arriving E st v i) e)"
  unfolding get_meta_def
proof (rule answers_try)
  let ?P = "\<lambda>r. case r of Inr m \<Rightarrow> fs_there E st v i = Some m
    | Inl e \<Rightarrow> fs_there E st v i = None \<and> skipped e \<and> ((\<exists>k. e = SeEncryption (EnIncomplete k)) \<longrightarrow> fs_arriving E st v i)"
  show "answers False v (read_meta E st i) ?P"
    unfolding read_meta_def
    by (rule answers_try [OF answers_conj [OF read_item_answer [OF i] read_item_arriving [OF i]]])
      (use f in \<open>auto simp: read_answer_def fs_there_def\<close>)
  show "?P (Inl e) \<Longrightarrow> case fs_there E st v i of Some m \<Rightarrow> (Inl (missing_as_not_found i e) :: store_error + item_meta) = Inr m
      | None \<Rightarrow> \<exists>e'. (Inl (missing_as_not_found i e) :: store_error + item_meta) = Inl e' \<and> passes (fs_arriving E st v i) e'" for e
    by (auto simp: skipped_def passes_def missing_as_not_found_def)
qed simp

lemma remind_answer: "answers F v (remind_plain_left st) (\<lambda>_. True)"
  by (auto simp: remind_plain_left_def TMP_DIR_def PLAIN_DIR_def ITEMS_DIR_def Let_def split: sum.splits)

lemma listed_ids: "listed st v l \<longleftrightarrow> sorted_wrt (>) l \<and> set l = fs_ids st v"
  by (auto simp: listed_def fs_ids_def)

lemma list_items_answer:
  assumes "fs_good E st v"
  shows "answers False v (list_items E st)
    (\<lambda>r. \<exists>l. r = Inr (List.map_filter (fs_there E st v) l) \<and> sorted_wrt (>) l \<and> set l = fs_ids st v)"
  unfolding list_items_def
proof (rule answers_try)
  show "answers False v (list_after E st None)
    (\<lambda>r. \<exists>l. listed st v l \<and> r = Inr (readable_metas E st v (takeWhile (newer_than None) l)))"
    by (rule list_after_answer) (use assms in \<open>auto simp: fs_good_def\<close>)
next
  fix items assume "\<exists>l. listed st v l \<and> Inr items = Inr (readable_metas E st v (takeWhile (newer_than None) l))"
  then obtain l where l: "listed st v l" "items = readable_metas E st v l"
    by (metis (no_types, lifting) Inr_inject newer_than_def option.simps(4) takeWhile_eq_all_conv)
  then show "answers False v (bind (remind_plain_left st) (\<lambda>_. Done (Inr items)))
    (\<lambda>r. \<exists>l. r = Inr (List.map_filter (fs_there E st v) l) \<and> sorted_wrt (>) l \<and> set l = fs_ids st v)"
    by (intro answers_bind [OF remind_answer]) (auto simp: listed_ids readable_metas_def fs_there_def [abs_def])
qed auto

lemma list_ids_answer:
  assumes "fs_good E st v"
  shows "answers False v (list_ids E st) (\<lambda>r. \<exists>l. r = Inr l \<and> sorted_wrt (>) l \<and> set l = fs_ids st v)"
  unfolding list_ids_def
proof (rule answers_try)
  show "answers False v (check_key E st) (\<lambda>r. \<not> False \<longrightarrow> r = Inr ())"
    by (rule check_key_answer) (use assms in \<open>auto simp: fs_good_def\<close>)
  show "answers False v (item_ids st) (\<lambda>r. \<exists>l. r = Inr l \<and> sorted_wrt (>) l \<and> set l = fs_ids st v)"
    using assms
    by (intro answers_mono [OF item_ids_answer]) (auto simp: fs_good_def ids_answer_def listed_ids split: sum.splits)
qed simp

interpretation fs_listing: listing "fs_dyn E st" "fs_good E st" "fs_ids st" "fs_there E st" "fs_arriving E st"
proof unfold_locales
  fix v
  assume g: "fs_good E st v"
  show "answers False v (ds_list_ids (fs_dyn E st)) (\<lambda>r. \<exists>l. r = Inr l \<and> sorted_wrt (>) l \<and> set l = fs_ids st v)"
    using list_ids_answer [OF g] by (simp add: fs_dyn_def)
  show "answers False v (ds_list (fs_dyn E st))
    (\<lambda>r. \<exists>l. r = Inr (List.map_filter (fs_there E st v) l) \<and> sorted_wrt (>) l \<and> set l = fs_ids st v)"
    using list_items_answer [OF g] by (simp add: fs_dyn_def)
  fix i assume "i \<in> fs_ids st v"
  then show "answers False v (ds_get_meta (fs_dyn E st) i)
    (\<lambda>r. case fs_there E st v i of Some m \<Rightarrow> r = Inr m | None \<Rightarrow> \<exists>e. r = Inl e \<and> passes (fs_arriving E st v i) e)"
    using get_meta_answer [of i v st E] g by (simp add: fs_dyn_def fs_ids_def fs_good_def metas_are_files_def)
next
  fix v i m assume "fs_there E st v i = Some m"
  then show "meta_id m = i" by (auto simp: fs_there_def dest: readable_id)
qed

end
