(* ===== verification/List_Cache.thy ===== *)
theory List_Cache
  imports Store_Trait Sample_Size
begin

text \<open>
  The local copy of a store's item list: \<^verbatim>\<open>passalong-core/src/cache.rs\<close>, which \<open>serve\<close> keeps
  current, and \<^verbatim>\<open>passalong-cli/src/list_cache.rs\<close>, as the one-shot commands use it. The cache
  file's bytes and the JSON decoder are arguments; what is logged is left out.
\<close>

section \<open>The cache\<close>

definition CACHE_VERSION :: u32 where "CACHE_VERSION = 1"

definition max_age :: "nat \<Rightarrow> nat" where "max_age check_interval = check_interval * 2"

record list_cache =
  lc_version :: u32
  lc_store :: ustring
  lc_checked_at :: datetime
  lc_items :: "item_meta list"

text \<open>\<open>sort_by\<close> with the comparison reversed is stable, as sorting the reversed list backwards is.\<close>

definition sort_newest_first :: "item_meta list \<Rightarrow> item_meta list" where
  "sort_newest_first items = rev (sort_key meta_id (rev items))"

definition cache_new :: "ustring \<Rightarrow> datetime \<Rightarrow> item_meta list \<Rightarrow> list_cache" where
  "cache_new store checked_at items =
     \<lparr>lc_version = CACHE_VERSION, lc_store = store, lc_checked_at = checked_at,
      lc_items = sort_newest_first items\<rparr>"

definition identity_for :: "'z cext_scheme \<Rightarrow> ustring \<Rightarrow> key_id option \<Rightarrow> ustring" where
  "identity_for E base key =
     (case key of
        Some key \<Rightarrow> base @ ustr '' key '' @ ustr (key_id_display E key)
      | None \<Rightarrow> base @ ustr '' plain'')"

text \<open>\<open>str::rsplit_once\<close> with a text separator: around its last occurrence.\<close>

fun rsplit_once_str :: "'a list \<Rightarrow> 'a list \<Rightarrow> ('a list \<times> 'a list) option" where
  "rsplit_once_str sep [] = (if sep = [] then Some ([], []) else None)"
| "rsplit_once_str sep (x # xs) =
     (case rsplit_once_str sep xs of
        Some (a, b) \<Rightarrow> Some (x # a, b)
      | None \<Rightarrow> if starts_with (x # xs) sep then Some ([], drop (length sep) (x # xs)) else None)"

definition base_of :: "ustring \<Rightarrow> ustring" where
  "base_of identity =
     (case strip_suffix (ustr '' plain'') identity of
        Some base \<Rightarrow> base
      | None \<Rightarrow> (case rsplit_once_str (ustr '' key '') identity of Some (base, _) \<Rightarrow> base | None \<Rightarrow> identity))"

definition load_cache :: "(bytes \<Rightarrow> list_cache option) \<Rightarrow> bytes option \<Rightarrow> list_cache option" where
  "load_cache of_json file =
     (case file of
        None \<Rightarrow> None
      | Some b \<Rightarrow>
          (case of_json b of
             None \<Rightarrow> None
           | Some cache \<Rightarrow> if lc_version cache = CACHE_VERSION then Some cache else None))"

text \<open>\<open>TimeDelta::MAX\<close> is \<open>i64::MAX\<close> milliseconds; durations are in nanoseconds.\<close>

definition TIME_DELTA_MAX :: int where "TIME_DELTA_MAX = (2 ^ 63 - 1) * 1000000"

definition cache_usable :: "list_cache \<Rightarrow> ustring \<Rightarrow> datetime \<Rightarrow> nat \<Rightarrow> bool" where
  "cache_usable c store now limit \<longleftrightarrow>
     (let limit = (if int limit \<le> TIME_DELTA_MAX then int limit else TIME_DELTA_MAX) in
      lc_store c = store \<and> \<bar>now - lc_checked_at c\<bar> \<le> limit)"

fun fetch_metas :: "dyn_store \<Rightarrow> item_id list \<Rightarrow> item_meta list \<Rightarrow> (store_error + item_meta list) prog" where
  "fetch_metas D [] items = Done (Inr items)"
| "fetch_metas D (i # ids) items =
     bind (ds_get_meta D i) (\<lambda>r.
       case r of
         Inr m \<Rightarrow> fetch_metas D ids (items @ [m])
       | Inl (SeNotFound _) \<Rightarrow> fetch_metas D ids items
       | Inl (SeCorrupt _ _) \<Rightarrow> fetch_metas D ids items
       | Inl e \<Rightarrow> Done (Inl e))"

text \<open>The new cache; on an error the caller's stays as it is.\<close>

definition refresh :: "dyn_store \<Rightarrow> datetime \<Rightarrow> list_cache \<Rightarrow> (store_error + list_cache) prog" where
  "refresh D now c =
     tryP (ds_list_ids D) (\<lambda>ids.
     let items = filter (\<lambda>m. meta_id m \<in> set ids) (lc_items c); known = meta_id ` set items in
     tryP (fetch_metas D (filter (\<lambda>i. i \<notin> known) ids) items) (\<lambda>items.
     Done (Inr (c\<lparr>lc_items := sort_newest_first items, lc_checked_at := now\<rparr>))))"

definition read_cache :: "dyn_store \<Rightarrow> ustring \<Rightarrow> datetime \<Rightarrow> (store_error + list_cache) prog" where
  "read_cache D identity now = tryP (ds_list D) (\<lambda>items. Done (Inr (cache_new identity now items)))"

definition apply_put :: "item_meta \<Rightarrow> list_cache \<Rightarrow> list_cache" where
  "apply_put m c =
     (if \<not> list_ex (\<lambda>item. meta_id item = meta_id m) (lc_items c)
      then c\<lparr>lc_items := sort_newest_first (lc_items c @ [m])\<rparr> else c)"

definition apply_delete :: "item_id \<Rightarrow> list_cache \<Rightarrow> list_cache" where
  "apply_delete i c = c\<lparr>lc_items := filter (\<lambda>item. meta_id item \<noteq> i) (lc_items c)\<rparr>"

text \<open>One refresh of the loop: the result, and the connection and the cache kept.\<close>

definition refresh_once ::
  "'z cext_scheme \<Rightarrow> (store_error + dyn_store) prog \<Rightarrow> ustring \<Rightarrow> datetime \<Rightarrow> dyn_store option \<Rightarrow> list_cache option
   \<Rightarrow> ((store_error + unit) \<times> dyn_store option \<times> list_cache option) prog" where
  "refresh_once E open_store base now store cache =
     bind (case store of Some connected \<Rightarrow> Done (Inr connected) | None \<Rightarrow> open_store) (\<lambda>r.
     case r of
       Inl e \<Rightarrow> Done (Inl e, None, cache)
     | Inr connected \<Rightarrow>
         (let identity = identity_for E base (ds_key_id connected);
              cache = (case cache of Some c \<Rightarrow> if lc_store c \<noteq> identity then None else cache | None \<Rightarrow> None) in
          case cache of
            Some c \<Rightarrow>
              bind (refresh connected now c) (\<lambda>r.
                case r of
                  Inr c' \<Rightarrow> Done (Inr (), Some connected, Some c')
                | Inl e \<Rightarrow> Done (Inl e, None, Some c))
          | None \<Rightarrow>
              bind (read_cache connected identity now) (\<lambda>r.
                case r of
                  Inr c' \<Rightarrow> Done (Inr (), Some connected, Some c')
                | Inl e \<Rightarrow> Done (Inl e, None, None))))"

section \<open>The cache of the one-shot commands\<close>

record cache_file =
  cf_identity :: ustring
  cf_max_age :: nat

text \<open>\<open>of_json\<close> and \<open>file\<close> are the decoder and what the file at the cache's path holds.\<close>

definition cf_load :: "(bytes \<Rightarrow> list_cache option) \<Rightarrow> bytes option \<Rightarrow> cache_file \<Rightarrow> list_cache option" where
  "cf_load of_json saved cf =
     (case load_cache of_json saved of
        Some c \<Rightarrow> if lc_store c = cf_identity cf then Some c else None
      | None \<Rightarrow> None)"

definition cf_usable ::
  "(bytes \<Rightarrow> list_cache option) \<Rightarrow> bytes option \<Rightarrow> datetime \<Rightarrow> cache_file \<Rightarrow> list_cache option" where
  "cf_usable of_json saved now cf =
     (case cf_load of_json saved cf of
        Some c \<Rightarrow> if cache_usable c (cf_identity cf) now (cf_max_age cf) then Some c else None
      | None \<Rightarrow> None)"

text \<open>The items, and the cache that is written to the file.\<close>

definition cf_read ::
  "(bytes \<Rightarrow> list_cache option) \<Rightarrow> bytes option \<Rightarrow> cache_file \<Rightarrow> dyn_store \<Rightarrow> datetime \<Rightarrow> bool
   \<Rightarrow> (store_error + item_meta list \<times> list_cache) prog" where
  "cf_read of_json saved cf D now reuse =
     tryP (case (if reuse then cf_load of_json saved cf else None) of
             Some c \<Rightarrow> refresh D now c
           | None \<Rightarrow> read_cache D (cf_identity cf) now) (\<lambda>c.
     Done (Inr (lc_items c, c)))"

definition cf_refresh ::
  "(bytes \<Rightarrow> list_cache option) \<Rightarrow> bytes option \<Rightarrow> cache_file \<Rightarrow> dyn_store \<Rightarrow> datetime \<Rightarrow> list_cache option prog" where
  "cf_refresh of_json saved cf D now =
     (case cf_load of_json saved cf of
        None \<Rightarrow> Done None
      | Some c \<Rightarrow>
          bind (refresh D now c) (\<lambda>r. Done (case r of Inr c' \<Rightarrow> Some c' | Inl _ \<Rightarrow> None)))"

datatype change = Put item_meta | Deleted item_id

definition apply_change :: "change \<Rightarrow> list_cache \<Rightarrow> list_cache" where
  "apply_change ch c = (case ch of Put m \<Rightarrow> apply_put m c | Deleted i \<Rightarrow> apply_delete i c)"

definition cf_apply ::
  "(bytes \<Rightarrow> list_cache option) \<Rightarrow> bytes option \<Rightarrow> cache_file \<Rightarrow> change list \<Rightarrow> list_cache option" where
  "cf_apply of_json saved cf changes =
     (if changes = [] then None
      else (case cf_load of_json saved cf of
              None \<Rightarrow> None
            | Some c \<Rightarrow> Some (fold apply_change changes c)))"

text \<open>A store that records what changed through it: the changes so far are passed along.\<close>

definition recording_put ::
  "dyn_store \<Rightarrow> new_item \<Rightarrow> box_read \<Rightarrow> change list \<Rightarrow> ((store_error + put_outcome) \<times> change list) prog" where
  "recording_put D item content changes =
     bind (ds_put D item content) (\<lambda>r.
       case r of
         Inl e \<Rightarrow> Done (Inl e, changes)
       | Inr out \<Rightarrow> Done (Inr out, changes @ [Put (po_meta out)]))"

definition recording_delete ::
  "dyn_store \<Rightarrow> item_id \<Rightarrow> change list \<Rightarrow> ((store_error + item_meta) \<times> change list) prog" where
  "recording_delete D i changes =
     bind (ds_delete D i) (\<lambda>r.
       case r of
         Inl e \<Rightarrow> Done (Inl e, changes)
       | Inr m \<Rightarrow> Done (Inr m, changes @ [Deleted i]))"

section \<open>Newest first\<close>

abbreviation newest_first :: "item_meta list \<Rightarrow> bool" where
  "newest_first \<equiv> sorted_wrt (\<lambda>a b. meta_id b < meta_id a)"

lemma set_sort_newest_first [simp]: "set (sort_newest_first items) = set items"
  by (simp add: sort_newest_first_def)

lemma newest_first_sorted:
  assumes "distinct (map meta_id items)"
  shows "newest_first (sort_newest_first items)"
proof -
  have "distinct (map meta_id (sort_key meta_id (rev items)))"
    using assms by (metis distinct_map distinct_rev distinct_sort rev_map set_rev set_sort)
  then have "sorted_wrt (<) (map meta_id (sort_key meta_id (rev items)))" by (simp add: strict_sorted_iff)
  then have "sorted_wrt (\<lambda>a b. meta_id a < meta_id b) (sort_key meta_id (rev items))" by (simp add: sorted_wrt_map)
  then show ?thesis by (simp add: sort_newest_first_def sorted_wrt_rev)
qed

lemma newest_first_unique: "newest_first xs \<Longrightarrow> newest_first ys \<Longrightarrow> set xs = set ys \<Longrightarrow> xs = ys"
proof (induction xs arbitrary: ys)
  case (Cons x xs)
  then obtain y ys' where ys: "ys = y # ys'" by (cases ys) auto
  have "x = y"
  proof (rule ccontr)
    assume "x \<noteq> y"
    then have "x \<in> set ys'" "y \<in> set xs" using Cons.prems(3) ys by auto
    then show False using Cons.prems(1,2) ys by fastforce
  qed
  moreover have "x \<notin> set xs" "y \<notin> set ys'" using Cons.prems(1,2) ys by auto
  ultimately have "set xs = set ys'" using Cons.prems(3) ys by auto
  with Cons \<open>x = y\<close> ys show ?case by simp
qed simp

lemma newest_first_filter:
  assumes "sorted_wrt (>) l" "\<And>i m. f i = Some m \<Longrightarrow> meta_id m = i"
  shows "newest_first (List.map_filter f l)"
proof -
  have "set (List.map_filter f l) = {m. \<exists>i \<in> set l. f i = Some m}" for l
    by (force simp: List.map_filter_def)
  then show ?thesis using assms
    by (induction l) (auto simp: List.map_filter_simps split: option.splits)
qed

lemma newest_first_distinct: "newest_first xs \<Longrightarrow> distinct (map meta_id xs)"
  by (induction xs) force+

lemma sort_newest_first_id: "newest_first xs \<Longrightarrow> sort_newest_first xs = xs"
  using newest_first_sorted [OF newest_first_distinct] newest_first_unique by (metis set_sort_newest_first)

section \<open>Refreshing is reading\<close>

text \<open>What is cached of items that are still there is what the store says of them.\<close>

definition snapshot :: "(item_id \<Rightarrow> item_meta option) \<Rightarrow> item_id set \<Rightarrow> list_cache \<Rightarrow> bool" where
  "snapshot there ids c \<longleftrightarrow>
     distinct (map meta_id (lc_items c))
     \<and> (\<forall>m \<in> set (lc_items c). meta_id m \<in> ids \<longrightarrow> there (meta_id m) = Some m)"

context listing begin

lemma fetch_metas_answer:
  assumes "good v" "set l \<subseteq> ids v" "\<And>i. i \<in> set l \<Longrightarrow> there v i = None \<Longrightarrow> \<not> arriving v i"
  shows "answers False v (fetch_metas D l items) (\<lambda>r. r = Inr (items @ List.map_filter (there v) l))"
  using assms(2,3)
proof (induction l arbitrary: items)
  case Nil
  then show ?case by (simp add: List.map_filter_simps)
next
  case (Cons i l)
  have ih: "answers False v (fetch_metas D l items') (\<lambda>r. r = Inr (items' @ List.map_filter (there v) l))" for items'
    using Cons by simp
  show ?case
    unfolding fetch_metas.simps
  proof (rule answers_bind [OF get_meta [OF assms(1), of i]])
    show "i \<in> ids v" using Cons.prems by simp
    fix r assume r: "case there v i of Some m \<Rightarrow> r = Inr m | None \<Rightarrow> \<exists>e. r = Inl e \<and> passes (arriving v i) e"
    show "answers False v (case r of
         Inr m \<Rightarrow> fetch_metas D l (items @ [m])
       | Inl (SeNotFound _) \<Rightarrow> fetch_metas D l items
       | Inl (SeCorrupt _ _) \<Rightarrow> fetch_metas D l items
       | Inl e \<Rightarrow> Done (Inl e)) (\<lambda>r. r = Inr (items @ List.map_filter (there v) (i # l)))"
    proof (cases "there v i")
      case (Some m)
      then show ?thesis using r ih [of "items @ [m]"] by (simp add: List.map_filter_simps)
    next
      case None
      then have "\<not> arriving v i" using Cons.prems by simp
      then show ?thesis using r None ih [of items] by (auto simp: List.map_filter_simps passes_def)
    qed
  qed
qed

lemma refresh_answer:
  assumes g: "good v" and c: "snapshot (there v) (ids v) c"
    and here: "\<And>i. i \<in> ids v \<Longrightarrow> there v i = None \<Longrightarrow> \<not> arriving v i"
  shows "answers False v (refresh D now c)
    (\<lambda>r. \<exists>items. newest_first items \<and> set items = {m. \<exists>i \<in> ids v. there v i = Some m}
      \<and> r = Inr (c\<lparr>lc_items := items, lc_checked_at := now\<rparr>))"
  unfolding refresh_def Let_def
proof (rule answers_try [OF list_ids [OF g]])
  fix l assume "\<exists>l'. Inr l = Inr l' \<and> sorted_wrt (>) l' \<and> set l' = ids v"
  then have l: "sorted_wrt (>) l" "set l = ids v" by auto
  let ?old = "filter (\<lambda>m. meta_id m \<in> set l) (lc_items c)"
  let ?new = "filter (\<lambda>i. i \<notin> meta_id ` set ?old) l"
  let ?items = "?old @ List.map_filter (there v) ?new"
  have new: "set (List.map_filter (there v) ?new) = {m. \<exists>i \<in> set ?new. there v i = Some m}"
    by (force simp: List.map_filter_def)
  have old: "there v (meta_id m) = Some m" if "m \<in> set ?old" for m
    using that c l by (auto simp: snapshot_def)
  have items: "set ?items = {m. \<exists>i \<in> ids v. there v i = Some m}"
  proof (rule set_eqI)
    fix m
    show "m \<in> set ?items \<longleftrightarrow> m \<in> {m. \<exists>i \<in> ids v. there v i = Some m}"
    proof
      assume "m \<in> set ?items"
      then consider "m \<in> set ?old" | i where "i \<in> set ?new" "there v i = Some m" using new by auto
      then show "m \<in> {m. \<exists>i \<in> ids v. there v i = Some m}" using old l by cases auto
    next
      assume "m \<in> {m. \<exists>i \<in> ids v. there v i = Some m}"
      then obtain i where i: "i \<in> set l" "there v i = Some m" using l by auto
      show "m \<in> set ?items"
      proof (cases "i \<in> meta_id ` set ?old")
        case True
        then obtain m' where "m' \<in> set ?old" "meta_id m' = i" by auto
        then show ?thesis using old [of m'] i(2) by simp
      next
        case False
        then show ?thesis using i new by auto
      qed
    qed
  qed
  have "distinct (map meta_id ?items)"
  proof -
    have "distinct (map meta_id ?old)" using c by (simp add: snapshot_def distinct_map inj_on_def)
    moreover have "distinct (map meta_id (List.map_filter (there v) ?new))"
      using newest_first_distinct [OF newest_first_filter [OF sorted_wrt_filter [OF l(1)] there_id]] .
    moreover have "set (map meta_id ?old) \<inter> set (map meta_id (List.map_filter (there v) ?new)) = {}"
      unfolding set_map new using there_id by fastforce
    ultimately show ?thesis unfolding map_append distinct_append by blast
  qed
  then have "newest_first (sort_newest_first ?items)" by (rule newest_first_sorted)
  then have made: "\<exists>items. newest_first items \<and> set items = {m. \<exists>i \<in> ids v. there v i = Some m}
      \<and> c\<lparr>lc_items := sort_newest_first ?items, lc_checked_at := now\<rparr> = c\<lparr>lc_items := items, lc_checked_at := now\<rparr>"
    using trans [OF set_sort_newest_first items] by blast
  show "answers False v (tryP (fetch_metas D ?new ?old)
      (\<lambda>items. Done (Inr (c\<lparr>lc_items := sort_newest_first items, lc_checked_at := now\<rparr>))))
    (\<lambda>r. \<exists>items. newest_first items \<and> set items = {m. \<exists>i \<in> ids v. there v i = Some m}
      \<and> r = Inr (c\<lparr>lc_items := items, lc_checked_at := now\<rparr>))"
  proof (rule answers_try [OF fetch_metas_answer [OF g]])
    show "set ?new \<subseteq> ids v" using l by auto
    show "\<not> arriving v i" if "i \<in> set ?new" "there v i = None" for i using that l here by auto
    fix items assume "(Inr items :: store_error + item_meta list) = Inr (?old @ List.map_filter (there v) ?new)"
    then have e: "items = ?items" by simp
    show "answers False v (Done (Inr (c\<lparr>lc_items := sort_newest_first items, lc_checked_at := now\<rparr>)))
      (\<lambda>r. \<exists>items. newest_first items \<and> set items = {m. \<exists>i \<in> ids v. there v i = Some m}
        \<and> r = Inr (c\<lparr>lc_items := items, lc_checked_at := now\<rparr>))"
      using made unfolding e answers_simps sum.inject .
  qed simp
qed simp

lemma read_cache_answer:
  assumes "good v"
  shows "answers False v (read_cache D identity now)
    (\<lambda>r. \<exists>items. newest_first items \<and> set items = {m. \<exists>i \<in> ids v. there v i = Some m}
      \<and> r = Inr \<lparr>lc_version = CACHE_VERSION, lc_store = identity, lc_checked_at = now, lc_items = items\<rparr>)"
  unfolding read_cache_def
proof (rule answers_try [OF list_all [OF assms]])
  fix items assume "\<exists>l. Inr items = Inr (List.map_filter (there v) l) \<and> sorted_wrt (>) l \<and> set l = ids v"
  then obtain l where l: "items = List.map_filter (there v) l" "sorted_wrt (>) l" "set l = ids v" by auto
  have "newest_first items" unfolding l(1) by (rule newest_first_filter [OF l(2) there_id])
  moreover have "set items = {m. \<exists>i \<in> ids v. there v i = Some m}" using l by (force simp: List.map_filter_def)
  ultimately show "answers False v (Done (Inr (cache_new identity now items)))
    (\<lambda>r. \<exists>items. newest_first items \<and> set items = {m. \<exists>i \<in> ids v. there v i = Some m}
      \<and> r = Inr \<lparr>lc_version = CACHE_VERSION, lc_store = identity, lc_checked_at = now, lc_items = items\<rparr>)"
    by (simp add: cache_new_def sort_newest_first_id)
qed auto

lemma refresh_reads:
  assumes "good v" "snapshot (there v) (ids v) c"
    and "\<And>i. i \<in> ids v \<Longrightarrow> there v i = None \<Longrightarrow> \<not> arriving v i"
  shows "\<exists>items. answers False v (refresh D now c) (\<lambda>r. r = Inr (c\<lparr>lc_items := items, lc_checked_at := now\<rparr>))
    \<and> answers False v (read_cache D identity now)
        (\<lambda>r. r = Inr \<lparr>lc_version = CACHE_VERSION, lc_store = identity, lc_checked_at = now, lc_items = items\<rparr>)"
proof (cases "\<exists>items. newest_first items \<and> set items = {m. \<exists>i \<in> ids v. there v i = Some m}")
  case True
  then obtain items where i: "newest_first items" "set items = {m. \<exists>i \<in> ids v. there v i = Some m}" by blast
  have one: "items' = items" if "newest_first items'" "set items' = {m. \<exists>i \<in> ids v. there v i = Some m}" for items'
    using newest_first_unique [OF that(1) i(1)] that(2) i(2) by simp
  show ?thesis
  proof (intro exI [of _ items] conjI)
    show "answers False v (refresh D now c) (\<lambda>r. r = Inr (c\<lparr>lc_items := items, lc_checked_at := now\<rparr>))"
      by (rule answers_mono [OF refresh_answer [OF assms]]) (auto dest: one)
    show "answers False v (read_cache D identity now)
        (\<lambda>r. r = Inr \<lparr>lc_version = CACHE_VERSION, lc_store = identity, lc_checked_at = now, lc_items = items\<rparr>)"
      by (rule answers_mono [OF read_cache_answer [OF assms(1)]]) (auto dest: one)
  qed
next
  case False
  show ?thesis
    by (intro exI [of _ "[]"] conjI answers_mono [OF refresh_answer [OF assms]]
        answers_mono [OF read_cache_answer [OF assms(1)]]; use False in blast)
qed

end

text \<open>C10: Refreshing a cache gives what reading the whole store gives: in any store whose folders and
  guard are in order, with damaged items too but none that may still be arriving, a cache that holds
  of each item still there what the store says of it is refreshed to exactly the items, in the order,
  that a full reading lists, though only new items' metadata is read.\<close>

theorem refresh_equals_read:
  assumes "fs_good E st v" "snapshot (fs_there E st v) (fs_ids st v) c"
    and "\<forall>i \<in> fs_ids st v. fs_there E st v i = None \<longrightarrow> \<not> fs_arriving E st v i"
  shows "\<exists>items.
      answers False v (refresh (fs_dyn E st) now c) (\<lambda>r. r = Inr (c\<lparr>lc_items := items, lc_checked_at := now\<rparr>))
    \<and> answers False v (read_cache (fs_dyn E st) identity now)
        (\<lambda>r. r = Inr \<lparr>lc_version = CACHE_VERSION, lc_store = identity, lc_checked_at = now, lc_items = items\<rparr>)"
  by (rule fs_listing.refresh_reads [OF assms(1,2)]) (use assms(3) in blast)

definition sample_cache :: list_cache where
  "sample_cache = \<lparr>lc_version = 1, lc_store = ustr ''ssh plain'', lc_checked_at = 5, lc_items = []\<rparr>"

theorem refresh_equals_read_witness:
  "\<exists>items.
      answers False [[] \<mapsto> VDir] (refresh (fs_dyn sample_ext store_new) 9 sample_cache)
        (\<lambda>r. r = Inr (sample_cache\<lparr>lc_items := items, lc_checked_at := 9\<rparr>))
    \<and> answers False [[] \<mapsto> VDir] (read_cache (fs_dyn sample_ext store_new) (ustr ''ssh plain'') 9)
        (\<lambda>r. r = Inr \<lparr>lc_version = CACHE_VERSION, lc_store = ustr ''ssh plain'', lc_checked_at = 9, lc_items = items\<rparr>)"
  by (rule refresh_equals_read)
    (use empty_files(4) [of sample_ext] in \<open>auto simp: fs_good_def wf_items_in_dir empty_files(1) metas_are_files_def
      item_path_def fs_ids_def snapshot_def sample_cache_def store_new_def items_path_def\<close>)

text \<open>
  The difference that remains: an item that may still be arriving is skipped by a listing, but ends a
  refresh that does not know it yet.
\<close>

lemma refresh_stops_at_arriving:
  assumes "ds_list_ids D = Done (Inr (i # l))" "i \<notin> meta_id ` set (lc_items c)"
    and "ds_get_meta D i = Done (Inl (SeEncryption (EnIncomplete k)))"
  shows "refresh D now c = Done (Inl (SeEncryption (EnIncomplete k)))"
proof -
  have "i \<notin> meta_id ` {m \<in> set (lc_items c). meta_id m \<in> set (i # l)}" using assms(2) by blast
  then show ?thesis using assms(1,3) by (simp add: refresh_def Let_def try_as_def)
qed

section \<open>Following one's own changes\<close>

definition named_map :: "stored_map \<Rightarrow> bool" where
  "named_map M \<longleftrightarrow> (\<forall>i m b. M i = Some (m, b) \<longrightarrow> meta_id m = i)"

lemma lists_all: "lists M None ms \<longleftrightarrow> newest_first ms \<and> set ms = {m. \<exists>i b. M i = Some (m, b)}"
  by (auto simp: lists_def newer_than_def)

lemma apply_put_lists:
  assumes "named_map M" "lists M None (lc_items c)" "puts E st b M out M'"
  shows "lists M' None (lc_items (apply_put (po_meta out) c))" "named_map M'"
proof -
  let ?m = "po_meta out" and ?i = "meta_id (po_meta out)"
  have all: "set (lc_items c) = {m. \<exists>i b. M i = Some (m, b)}" and sorted: "newest_first (lc_items c)"
    using assms(2) by (auto simp: lists_all)
  have known: "(\<exists>item \<in> set (lc_items c). meta_id item = ?i) \<longleftrightarrow> M ?i \<noteq> None"
    using all assms(1) unfolding named_map_def by fastforce
  have "lists M' None (lc_items (apply_put ?m c)) \<and> named_map M'"
  proof (cases "po_created out")
    case True
    then have M': "M ?i = None" "M' = M(?i \<mapsto> (?m, b))" using assms(3) by (auto simp: puts_def Let_def)
    have new: "\<not> list_ex (\<lambda>item. meta_id item = ?i) (lc_items c)" using known M'(1) by (auto simp: list_ex_iff)
    then have "distinct (map meta_id (lc_items c @ [?m]))"
      using newest_first_distinct [OF sorted] by (auto simp: list_ex_iff)
    moreover have "set (lc_items c @ [?m]) = {m. \<exists>i b. M' i = Some (m, b)}"
    proof -
      have "(\<exists>k b'. M' k = Some (x, b')) \<longleftrightarrow> x = ?m \<or> (\<exists>k b'. M k = Some (x, b'))" for x
      proof
        assume "\<exists>k b'. M' k = Some (x, b')"
        then obtain k b' where "M' k = Some (x, b')" by blast
        then show "x = ?m \<or> (\<exists>k b'. M k = Some (x, b'))" unfolding M'(2) by (cases "k = ?i") auto
      next
        assume "x = ?m \<or> (\<exists>k b'. M k = Some (x, b'))"
        then show "\<exists>k b'. M' k = Some (x, b')"
        proof
          assume "\<exists>k b'. M k = Some (x, b')"
          then obtain k b' where k: "M k = Some (x, b')" by blast
          then have "k \<noteq> ?i" using M'(1) by auto
          then have "M' k = Some (x, b')" unfolding M'(2) using k by simp
          then show ?thesis by blast
        qed (use M'(2) in auto)
      qed
      then show ?thesis using all by auto
    qed
    ultimately have "lists M' None (sort_newest_first (lc_items c @ [?m]))"
      using newest_first_sorted unfolding lists_all set_sort_newest_first by blast
    moreover have "named_map M'" using assms(1) M' by (auto simp: named_map_def)
    ultimately show ?thesis using new by (simp add: apply_put_def)
  next
    case False
    then have "M ?i \<noteq> None" "M' = M" using assms(3) by (auto simp: puts_def Let_def)
    then show ?thesis using known assms(1,2) by (auto simp: apply_put_def list_ex_iff)
  qed
  then show "lists M' None (lc_items (apply_put ?m c))" "named_map M'" by auto
qed

lemma apply_delete_lists:
  assumes "named_map M" "lists M None (lc_items c)"
  shows "lists (M(i := None)) None (lc_items (apply_delete i c))" "named_map (M(i := None))"
proof -
  have "set (filter (\<lambda>item. meta_id item \<noteq> i) (lc_items c)) = {m. \<exists>k b. (M(i := None)) k = Some (m, b)}"
  proof -
    have "(\<exists>k b. (M(i := None)) k = Some (m, b)) \<longleftrightarrow> meta_id m \<noteq> i \<and> (\<exists>k b. M k = Some (m, b))" for m
      using assms(1) unfolding named_map_def by (metis fun_upd_apply option.discI)
    then show ?thesis using assms(2) by (auto simp: lists_all)
  qed
  then show "lists (M(i := None)) None (lc_items (apply_delete i c))"
    using assms(2) sorted_wrt_filter unfolding lists_all apply_delete_def by auto
  show "named_map (M(i := None))" using assms(1) by (auto simp: named_map_def)
qed

text \<open>The changes a device made, one after the other, to the map a store is.\<close>

fun went :: "'z hext_scheme \<Rightarrow> fs_store \<Rightarrow> stored_map \<Rightarrow> change list \<Rightarrow> stored_map \<Rightarrow> bool" where
  "went E st M [] M' \<longleftrightarrow> M' = M"
| "went E st M (Put m # chs) M' \<longleftrightarrow> (\<exists>b out M1. po_meta out = m \<and> puts E st b M out M1 \<and> went E st M1 chs M')"
| "went E st M (Deleted i # chs) M' \<longleftrightarrow> went E st (M(i := None)) chs M'"

text \<open>C12: A cache that listed the store exactly still does after the device applied its own changes to
  it: whatever items were stored, found stored already or deleted, in whatever order, the cached items
  are those of the store as the changes left it, newest first.\<close>

theorem cache_follows_changes:
  assumes "named_map M" "lists M None (lc_items c)" "went E st M changes M'"
  shows "lists M' None (lc_items (fold apply_change changes c))"
  using assms
proof (induction changes arbitrary: M c)
  case (Cons ch changes)
  show ?case
  proof (cases ch)
    case (Put m)
    then obtain b out M1 where p: "po_meta out = m" "puts E st b M out M1" "went E st M1 changes M'"
      using Cons.prems(3) by auto
    have "lists M1 None (lc_items (apply_change ch c))" "named_map M1"
      using apply_put_lists [OF Cons.prems(1,2) p(2)] Put p(1) by (simp_all add: apply_change_def)
    then show ?thesis using Cons.IH p(3) by simp
  next
    case (Deleted i)
    have "lists (M(i := None)) None (lc_items (apply_change ch c))" "named_map (M(i := None))"
      using apply_delete_lists [OF Cons.prems(1,2)] Deleted by (simp_all add: apply_change_def)
    then show ?thesis using Cons.IH Cons.prems(3) Deleted by simp
  qed
qed simp

theorem cache_follows_changes_witness:
  "\<exists>m M'. M' (meta_id m) \<noteq> None
     \<and> lists M' None (lc_items (fold apply_change [Deleted (meta_id m), Put m] sample_cache))"
proof -
  let ?key = "keyed sample_ext store_new (digest_of sample_ext [104])"
  have "key_wf ?key" by (rule keyed_wf [OF sample_ext_laws(1)])
  moreover obtain i where i: "item_id_new 0 ?key = Inr i"
    by (cases "item_id_new 0 ?key") (auto simp: item_id_new_def datetime_secs_def split: if_splits)
  ultimately have wf: "id_wf i" "id_key i = ?key" using item_id_new_wf [OF i] by auto
  obtain m :: item_meta where m: "meta_id m = i" by (metis item_meta.select_convs(2))
  let ?out = "\<lparr>po_meta = m, po_created = True\<rparr>" and ?M = "[i \<mapsto> (m, [104])]"
  have p: "puts sample_ext store_new [104] Map.empty ?out ?M" using wf m by (simp add: puts_def)
  have e: "(Map.empty :: stored_map)(meta_id m := None) = Map.empty" by simp
  have w: "went sample_ext store_new Map.empty [Deleted (meta_id m), Put m] ?M"
    unfolding went.simps e using p by (metis put_outcome.select_convs(1))
  have "lists ?M None (lc_items (fold apply_change [Deleted (meta_id m), Put m] sample_cache))"
    by (rule cache_follows_changes [OF _ _ w]) (simp_all add: named_map_def lists_all sample_cache_def)
  then show ?thesis using m by (intro exI [of _ m] exI [of _ ?M]) simp
qed

section \<open>Telling caches apart\<close>

lemma rsplit_once_str_none: "sep \<noteq> [] \<Longrightarrow> \<forall>c \<in> set xs. c \<noteq> hd sep \<Longrightarrow> rsplit_once_str sep xs = None"
  by (induction xs) (auto simp: starts_with_def neq_Nil_conv)

lemma rsplit_once_str_last:
  assumes "starts_with rest sep" "rsplit_once_str sep (tl rest) = None" "rest \<noteq> []"
  shows "rsplit_once_str sep (base @ rest) = Some (base, drop (length sep) rest)"
  using assms by (induction base) (auto simp: neq_Nil_conv)

lemma ustr_append [simp]: "ustr (a @ b) = ustr a @ ustr b"
  by (simp add: ustr_def)

lemma hex_identity:
  assumes "hex_laws E"
  shows "\<forall>c \<in> set (ustr (key_id_display E k)). 48 \<le> c \<and> c \<le> 57 \<or> 97 \<le> c \<and> c \<le> 102"
  using assms by (auto simp: ustr_def key_id_display_def hex_laws_def is_lower_hex_char_def Let_def)

lemma base_of_identity:
  assumes "hex_laws E"
  shows "base_of (identity_for E base key) = base"
proof (cases key)
  case None
  then show ?thesis by (simp add: base_of_def identity_for_def strip_suffix_def ends_with_def)
next
  case (Some k)
  let ?h = "ustr (key_id_display E k)" and ?sep = "ustr '' key ''"
  have h: "\<forall>c \<in> set ?h. 48 \<le> c \<and> c \<le> 57 \<or> 97 \<le> c \<and> c \<le> 102" by (rule hex_identity [OF assms])
  have sep: "?sep = [32, 107, 101, 121, 32]" by (simp add: ustr_def)
  have last: "last (base @ ?sep @ ?h) \<noteq> 110"
  proof (cases "?h = []")
    case False
    then have "last ?h \<in> set ?h" by (rule last_in_set)
    then show ?thesis using h False by fastforce
  qed (simp add: sep)
  have "strip_suffix (ustr '' plain'') (base @ ?sep @ ?h) = None"
  proof (rule ccontr)
    assume "\<not> ?thesis"
    then have "ends_with (base @ ?sep @ ?h) (ustr '' plain'')" by (simp add: strip_suffix_def split: if_splits)
    then obtain x where "base @ ?sep @ ?h = x @ ustr '' plain''"
      unfolding ends_with_def by (metis append_take_drop_id)
    then have "last (base @ ?sep @ ?h) = last (x @ ustr '' plain'')" by simp
    then show False using last by (simp add: ustr_def)
  qed
  moreover have "rsplit_once_str ?sep (tl (?sep @ ?h)) = None"
  proof -
    have none: "rsplit_once_str ?sep ?h = None" by (rule rsplit_once_str_none) (use h sep in auto)
    have "\<not> starts_with (32 # ?h) ?sep"
    proof
      assume "starts_with (32 # ?h) ?sep"
      then have "take (Suc (Suc (Suc (Suc 0)))) ?h = [107, 101, 121, 32]" by (simp add: starts_with_def sep)
      then have "107 \<in> set ?h" by (metis in_set_takeD list.set_intros(1))
      then show False using h by auto
    qed
    then show ?thesis using none by (simp add: sep starts_with_def)
  qed
  ultimately show ?thesis
    using rsplit_once_str_last [of "?sep @ ?h" ?sep base]
    by (simp add: Some base_of_def identity_for_def sep starts_with_def)
qed

text \<open>The name a cache is saved under tells stores and keys apart: the store it names can be read
  back from it, and two names are equal only for one store and one key, so that a cache written
  before a migration, a rotation or a join is never taken for one of the store as it is now.\<close>

theorem identity_exact:
  assumes "hex_laws E"
  shows "base_of (identity_for E base key) = base
    \<and> (identity_for E base key = identity_for E base' key' \<longleftrightarrow> base = base' \<and> key = key')"
proof -
  have "key = key'" if "identity_for E base key = identity_for E base key'"
  proof -
    have plain: "ustr '' plain'' \<noteq> ustr '' key '' @ x" for x by (simp add: ustr_def)
    have "k = k'" if "ustr (key_id_display E k) = ustr (key_id_display E k')" for k k'
    proof -
      have "key_id_display E k = key_id_display E k'"
        using that unfolding ustr_def by (rule inj_map_eq_map [THEN iffD1, rotated]) (simp add: inj_def)
      then have "kid_bytes k = kid_bytes k'"
        using assms unfolding key_id_display_def hex_laws_def by (metis option.inject)
      then show ?thesis by (simp add: key_id.expand)
    qed
    then show ?thesis using that plain plain [symmetric]
      by (auto simp: identity_for_def split: option.splits)
  qed
  then show ?thesis using base_of_identity [OF assms] by metis
qed

theorem identity_exact_witness:
  "base_of (identity_for sample_ext (ustr ''ssh me@host:22 box'') (Some (KeyId [1, 2]))) = ustr ''ssh me@host:22 box''
    \<and> (identity_for sample_ext (ustr ''a key 00'') None = identity_for sample_ext (ustr ''a'') (Some (KeyId [1, 2]))
        \<longleftrightarrow> ustr ''a key 00'' = ustr ''a'' \<and> None = Some (KeyId [1, 2]))"
proof -
  have l: "hex_laws sample_ext" by (rule fext_lawsD(1) [OF sample_ext_laws(1)])
  from identity_exact [OF l, of "ustr ''ssh me@host:22 box''"] identity_exact [OF l, of "ustr ''a key 00''" None "ustr ''a''"]
  show ?thesis by blast
qed

end
