(* ===== verification/Os_Files.thy ===== *)
theory Os_Files
  imports Local_Fs
begin

text \<open>
  The files of this device, as the code that writes them directly sees them through \<^verbatim>\<open>tokio::fs\<close>
  and \<^verbatim>\<open>std::fs\<close>: a file at each path, calls that may fail, and other programs that may change
  files before each call. Folders are left out: a missing one is a call that fails. A run is
  determined by its plan, which says for each call what others do before it and whether it fails; the
  calls' effects are kept in a log, the latest first, so that what happened on the way can be stated.
\<close>

section \<open>A run\<close>

type_synonym path = "nat list"
type_synonym files = "path \<rightharpoonup> bytes"

text \<open>What precedes a call, the error it fails with and how much a failing write gets through.\<close>

record os_event =
  ev_others :: "files \<Rightarrow> files"
  ev_fault :: "io_error option"
  ev_written :: nat

record os_run =
  or_files :: files
  or_plan :: "os_event list"
  or_log :: "(files \<times> files) list"

definition os_quiet :: os_event where
  "os_quiet = \<lparr>ev_others = (\<lambda>fs. fs), ev_fault = None, ev_written = 0\<rparr>"

text \<open>One call: \<open>f\<close> gives its answer and effect, \<open>broken\<close> the effect of a failed one.\<close>

definition os_call ::
  "(files \<Rightarrow> (io_error + 'a) \<times> files) \<Rightarrow> (nat \<Rightarrow> files \<Rightarrow> files) \<Rightarrow> os_run \<Rightarrow> (io_error + 'a) \<times> os_run" where
  "os_call f broken w =
     (let (ev, plan) = (case or_plan w of [] \<Rightarrow> (os_quiet, []) | e # es \<Rightarrow> (e, es));
          before = ev_others ev (or_files w);
          (r, done) = (case ev_fault ev of
                         Some e \<Rightarrow> (Inl e, broken (ev_written ev) before)
                       | None \<Rightarrow> f before) in
      (r, \<lparr>or_files = done, or_plan = plan, or_log = (before, done) # or_log w\<rparr>))"

definition no_such_file :: io_error where
  "no_such_file = IoError IoNotFound ''No such file or directory''"

definition file_exists :: io_error where
  "file_exists = IoError IoAlreadyExists ''File exists''"

text \<open>\<open>File::create\<close>, \<open>OpenOptions::create_new\<close>, \<open>write_all\<close> at the end of the open file, \<open>flush\<close>,
  \<open>rename\<close>, \<open>hard_link\<close>, \<open>remove_file\<close>, \<open>try_exists\<close>.\<close>

definition fs_create :: "path \<Rightarrow> os_run \<Rightarrow> (io_error + unit) \<times> os_run" where
  "fs_create p = os_call (\<lambda>fs. (Inr (), fs(p \<mapsto> []))) (\<lambda>_ fs. fs)"

definition fs_create_new :: "path \<Rightarrow> os_run \<Rightarrow> (io_error + unit) \<times> os_run" where
  "fs_create_new p =
     os_call (\<lambda>fs. if fs p = None then (Inr (), fs(p \<mapsto> [])) else (Inl file_exists, fs)) (\<lambda>_ fs. fs)"

definition append_to :: "path \<Rightarrow> bytes \<Rightarrow> files \<Rightarrow> files" where
  "append_to p b fs = (case fs p of Some old \<Rightarrow> fs(p \<mapsto> old @ b) | None \<Rightarrow> fs)"

definition fs_write_all :: "path \<Rightarrow> bytes \<Rightarrow> os_run \<Rightarrow> (io_error + unit) \<times> os_run" where
  "fs_write_all p b = os_call (\<lambda>fs. (Inr (), append_to p b fs)) (\<lambda>n. append_to p (take n b))"

definition fs_flush :: "os_run \<Rightarrow> (io_error + unit) \<times> os_run" where
  "fs_flush = os_call (\<lambda>fs. (Inr (), fs)) (\<lambda>_ fs. fs)"

definition fs_rename :: "path \<Rightarrow> path \<Rightarrow> os_run \<Rightarrow> (io_error + unit) \<times> os_run" where
  "fs_rename a b =
     os_call (\<lambda>fs. case fs a of None \<Rightarrow> (Inl no_such_file, fs) | Some c \<Rightarrow> (Inr (), (fs(a := None))(b \<mapsto> c))) (\<lambda>_ fs. fs)"

definition fs_hard_link :: "path \<Rightarrow> path \<Rightarrow> os_run \<Rightarrow> (io_error + unit) \<times> os_run" where
  "fs_hard_link a b =
     os_call (\<lambda>fs. case fs a of
                     None \<Rightarrow> (Inl no_such_file, fs)
                   | Some c \<Rightarrow> if fs b \<noteq> None then (Inl file_exists, fs) else (Inr (), fs(b \<mapsto> c))) (\<lambda>_ fs. fs)"

definition fs_remove_file :: "path \<Rightarrow> os_run \<Rightarrow> (io_error + unit) \<times> os_run" where
  "fs_remove_file p =
     os_call (\<lambda>fs. if fs p = None then (Inl no_such_file, fs) else (Inr (), fs(p := None))) (\<lambda>_ fs. fs)"

definition fs_try_exists :: "path \<Rightarrow> os_run \<Rightarrow> (io_error + bool) \<times> os_run" where
  "fs_try_exists p = os_call (\<lambda>fs. (Inr (fs p \<noteq> None), fs)) (\<lambda>_ fs. fs)"

text \<open>\<open>Path::join\<close> on a Unix system.\<close>

definition path_join :: "path \<Rightarrow> path \<Rightarrow> path" where
  "path_join dir name =
     (if starts_with name [47] then name
      else if dir = [] \<or> ends_with dir [47] then dir @ name
      else dir @ 47 # name)"

text \<open>\<open>?\<close> with a conversion of the error.\<close>

definition os_try ::
  "('e \<Rightarrow> 'f) \<Rightarrow> ('e + 'a) \<times> os_run \<Rightarrow> ('a \<Rightarrow> os_run \<Rightarrow> ('f + 'b) \<times> os_run) \<Rightarrow> ('f + 'b) \<times> os_run" where
  "os_try c rw k = (case rw of (Inl e, w) \<Rightarrow> (Inl (c e), w) | (Inr x, w) \<Rightarrow> k x w)"

section \<open>Steps and what they keep\<close>

text \<open>
  \<open>steps_ok P w w'\<close>: every call between \<open>w\<close> and \<open>w'\<close> did only what \<open>P\<close> allows of it.
\<close>

definition steps_ok :: "(files \<Rightarrow> files \<Rightarrow> bool) \<Rightarrow> os_run \<Rightarrow> os_run \<Rightarrow> bool" where
  "steps_ok P w w' \<longleftrightarrow> (\<exists>log. or_log w' = log @ or_log w \<and> (\<forall>(a, b) \<in> set log. P a b))"

lemma steps_ok_refl [simp]: "steps_ok P w w"
  by (simp add: steps_ok_def)

lemma steps_ok_trans [trans]: "steps_ok P w w1 \<Longrightarrow> steps_ok P w1 w2 \<Longrightarrow> steps_ok P w w2"
proof -
  assume "steps_ok P w w1" "steps_ok P w1 w2"
  then obtain l1 l2 where "or_log w1 = l1 @ or_log w" "\<forall>(a, b) \<in> set l1. P a b"
    "or_log w2 = l2 @ or_log w1" "\<forall>(a, b) \<in> set l2. P a b" unfolding steps_ok_def by blast
  then show "steps_ok P w w2" unfolding steps_ok_def by (intro exI [of _ "l2 @ l1"]) auto
qed

text \<open>For the rest of the run others leave the files of \<open>L\<close> alone, and calls fail only with errors in \<open>K\<close>.\<close>

definition calm :: "path set \<Rightarrow> io_error set \<Rightarrow> os_run \<Rightarrow> bool" where
  "calm L K w \<longleftrightarrow>
     (\<forall>ev \<in> set (or_plan w). (\<forall>fs. \<forall>p \<in> L. ev_others ev fs p = fs p) \<and> (\<forall>e. ev_fault ev = Some e \<longrightarrow> e \<in> K))"

lemma os_call_steps:
  assumes "os_call f broken w = (r, w')" "calm L K w"
    and "\<And>before. \<forall>p \<in> L. before p = or_files w p \<Longrightarrow>
      (\<exists>n e. e \<in> K \<and> r = Inl e \<and> or_files w' = broken n before) \<or> r = fst (f before) \<and> or_files w' = snd (f before) \<Longrightarrow>
      P before (or_files w') \<and> Q"
  shows "steps_ok P w w' \<and> calm L K w' \<and> Q"
proof -
  obtain ev plan where p: "(case or_plan w of [] \<Rightarrow> (os_quiet, []) | e # es \<Rightarrow> (e, es)) = (ev, plan)" by fastforce
  let ?b = "ev_others ev (or_files w)"
  have ev: "(\<forall>fs. \<forall>p \<in> L. ev_others ev fs p = fs p) \<and> (\<forall>e. ev_fault ev = Some e \<longrightarrow> e \<in> K)" "set plan \<subseteq> set (or_plan w)"
    using p assms(2) by (auto simp: calm_def os_quiet_def split: list.splits)
  have log: "or_log w' = (?b, or_files w') # or_log w" "or_plan w' = plan"
    using assms(1) p by (auto simp: os_call_def Let_def split: option.splits prod.splits)
  have "(\<exists>n e. e \<in> K \<and> r = Inl e \<and> or_files w' = broken n ?b) \<or> r = fst (f ?b) \<and> or_files w' = snd (f ?b)"
    using assms(1) p ev(1) by (auto simp: os_call_def Let_def split: option.splits prod.splits)
  from assms(3) [OF _ this] ev have "P ?b (or_files w') \<and> Q" by blast
  moreover have "calm L K w'" using ev log(2) assms(2) unfolding calm_def by blast
  ultimately show ?thesis using log(1) unfolding steps_ok_def by (intro conjI exI [of _ "[(?b, or_files w')]"]) auto
qed

lemma os_call_quiet:
  assumes "or_plan w = []"
  shows "os_call f broken w =
    (let (r, fs) = f (or_files w) in (r, \<lparr>or_files = fs, or_plan = [], or_log = (or_files w, fs) # or_log w\<rparr>))"
  using assms by (simp add: os_call_def os_quiet_def Let_def)

lemma os_try_cases:
  assumes "os_try c rw k = (r, w')"
  obtains (failed) e where "rw = (Inl e, w')" "r = Inl (c e)" | (went) x w1 where "rw = (Inr x, w1)" "k x w1 = (r, w')"
  using assms by (auto simp: os_try_def split: prod.splits sum.splits)

end
