(* ===== verification/Watching.thy ===== *)
theory Watching
  imports Item
begin

text \<open>
  What \<open>serve\<close> watches: \<^verbatim>\<open>serve/retry.rs\<close> (the delays between attempts),
  \<^verbatim>\<open>serve/drop_watcher.rs\<close> (which files of the drop folder are ready to send) and
  \<^verbatim>\<open>serve/clipboard_watcher.rs\<close> (which clipboard contents are new). Durations and instants are
  natural numbers of nanoseconds; paths are the texts \<open>PathBuf\<close> compares by.
\<close>

section \<open>Delays between attempts\<close>

definition secs :: "nat \<Rightarrow> nat" where "secs n = n * 1000000000"

definition FIRST_DELAY :: nat where "FIRST_DELAY = secs 1"
definition MAX_DELAY :: nat where "MAX_DELAY = secs 60"

record backoff =
  bo_next :: nat

definition backoff_default :: backoff where
  "backoff_default = \<lparr>bo_next = FIRST_DELAY\<rparr>"

definition next_delay :: "backoff \<Rightarrow> nat \<times> backoff" where
  "next_delay b = (let delay = bo_next b in (delay, b\<lparr>bo_next := min (delay * 2) MAX_DELAY\<rparr>))"

definition backoff_reset :: "backoff \<Rightarrow> backoff" where
  "backoff_reset b = b\<lparr>bo_next := FIRST_DELAY\<rparr>"

section \<open>The drop folder\<close>

definition IGNORED_SUFFIXES :: "ustring list" where
  "IGNORED_SUFFIXES = map ustr [''.part'', ''.crdownload'', ''.tmp'', ''.passalong-part'']"

record file_state =
  fi_path :: ustring
  fi_size :: u64
  fi_modified :: int

definition to_ascii_lowercase :: "ustring \<Rightarrow> ustring" where
  "to_ascii_lowercase s = map (\<lambda>c. if 65 \<le> c \<and> c \<le> 90 then c + 32 else c) s"

definition is_ignored :: "ustring \<Rightarrow> bool" where
  "is_ignored name \<longleftrightarrow>
     (let lower = to_ascii_lowercase name in
      starts_with name (ustr ''.'') \<or> list_ex (ends_with lower) IGNORED_SUFFIXES)"

text \<open>
  What the operating system answers about one entry of the folder: its name, unless it is not
  Unicode, and its metadata, unless it vanished.
\<close>

record entry_stat =
  es_is_file :: bool
  es_len :: u64
  es_modified :: "int option"

definition scan_entries :: "(ustring \<Rightarrow> ustring) \<Rightarrow> (ustring option \<times> entry_stat option) list \<Rightarrow> file_state list" where
  "scan_entries join entries =
     sort_key fi_path
       (List.map_filter (\<lambda>(name, meta).
          case name of
            None \<Rightarrow> None
          | Some name \<Rightarrow>
              if is_ignored name then None
              else
                (case meta of
                   None \<Rightarrow> None
                 | Some meta \<Rightarrow>
                     if \<not> es_is_file meta then None
                     else Some \<lparr>fi_path = join name, fi_size = es_len meta,
                                fi_modified = (case es_modified meta of Some t \<Rightarrow> t | None \<Rightarrow> 0)\<rparr>))
          entries)"

record candidate =
  ca_size :: u64
  ca_modified :: int
  ca_since :: nat

record in_flight =
  if_size :: u64
  if_modified :: int
  if_skipped :: bool

record drop_tracker =
  tr_stable_wait :: nat
  tr_candidates :: "ustring \<rightharpoonup> candidate"
  tr_in_flight :: "ustring \<rightharpoonup> in_flight"

definition tracker_new :: "nat \<Rightarrow> drop_tracker" where
  "tracker_new stable_wait =
     \<lparr>tr_stable_wait = stable_wait, tr_candidates = Map.empty, tr_in_flight = Map.empty\<rparr>"

definition mark_skipped :: "ustring \<Rightarrow> drop_tracker \<Rightarrow> drop_tracker" where
  "mark_skipped path tr =
     (case tr_in_flight tr path of
        Some sent \<Rightarrow> tr\<lparr>tr_in_flight := (tr_in_flight tr)(path \<mapsto> sent\<lparr>if_skipped := True\<rparr>)\<rparr>
      | None \<Rightarrow> tr)"

definition has_pending :: "drop_tracker \<Rightarrow> bool" where
  "has_pending tr \<longleftrightarrow> tr_candidates tr \<noteq> Map.empty"

text \<open>One file of the scan; \<open>duration_since\<close> saturates at zero.\<close>

definition settle :: "nat \<Rightarrow> file_state \<Rightarrow> drop_tracker \<Rightarrow> ustring list \<times> drop_tracker" where
  "settle now f tr =
     (case tr_candidates tr (fi_path f) of
        Some seen \<Rightarrow>
          if ca_size seen = fi_size f \<and> ca_modified seen = fi_modified f
          then
            if tr_stable_wait tr \<le> now - ca_since seen
            then
              ([fi_path f],
               tr\<lparr>tr_candidates := (tr_candidates tr)(fi_path f := None),
                  tr_in_flight := (tr_in_flight tr)(fi_path f \<mapsto>
                    \<lparr>if_size = fi_size f, if_modified = fi_modified f, if_skipped = False\<rparr>)\<rparr>)
            else ([], tr)
          else
            ([], tr\<lparr>tr_candidates := (tr_candidates tr)(fi_path f \<mapsto>
                   \<lparr>ca_size = fi_size f, ca_modified = fi_modified f, ca_since = now\<rparr>)\<rparr>)
      | None \<Rightarrow>
          ([], tr\<lparr>tr_candidates := (tr_candidates tr)(fi_path f \<mapsto>
                 \<lparr>ca_size = fi_size f, ca_modified = fi_modified f, ca_since = now\<rparr>)\<rparr>))"

definition observe_file :: "nat \<Rightarrow> file_state \<Rightarrow> drop_tracker \<Rightarrow> ustring list \<times> drop_tracker" where
  "observe_file now f tr =
     (case tr_in_flight tr (fi_path f) of
        Some sent \<Rightarrow>
          (let changed = (if_size sent \<noteq> fi_size f \<or> if_modified sent \<noteq> fi_modified f) in
           if \<not> (if_skipped sent \<and> changed) then ([], tr)
           else settle now f (tr\<lparr>tr_in_flight := (tr_in_flight tr)(fi_path f := None)\<rparr>))
      | None \<Rightarrow> settle now f tr)"

fun observe_files :: "nat \<Rightarrow> file_state list \<Rightarrow> drop_tracker \<Rightarrow> ustring list \<times> drop_tracker" where
  "observe_files now [] tr = ([], tr)"
| "observe_files now (f # fs) tr =
     (let (ready, tr1) = observe_file now f tr; (more, tr2) = observe_files now fs tr1 in
      (ready @ more, tr2))"

definition observe :: "file_state list \<Rightarrow> nat \<Rightarrow> drop_tracker \<Rightarrow> ustring list \<times> drop_tracker" where
  "observe files now tr =
     (let present = fi_path ` set files;
          tr' = tr\<lparr>tr_in_flight := tr_in_flight tr |` present, tr_candidates := tr_candidates tr |` present\<rparr> in
      observe_files now files tr')"

text \<open>
  The name for a file moved aside: the first that does not exist. The numbers are those of a
  32-bit counter, tried in order; \<open>exists\<close> is what the file system answers, \<open>fuel\<close> how many of
  them there are.
\<close>

fun first_free :: "(nat \<Rightarrow> 'p) \<Rightarrow> ('p \<Rightarrow> bool) \<Rightarrow> nat \<Rightarrow> nat \<Rightarrow> 'p option" where
  "first_free name_at taken n 0 = None"
| "first_free name_at taken n (Suc fuel) =
     (if \<not> taken (name_at n) then Some (name_at n) else first_free name_at taken (n + 1) fuel)"

fun rfind :: "'a \<Rightarrow> 'a list \<Rightarrow> nat option" where
  "rfind c [] = None"
| "rfind c (x # xs) =
     (case rfind c xs of Some i \<Rightarrow> Some (Suc i) | None \<Rightarrow> if x = c then Some 0 else None)"

fun decimal :: "nat \<Rightarrow> ustring" where
  "decimal n = (if n < 10 then [48 + n] else decimal (n div 10) @ [48 + n mod 10])"

declare decimal.simps [simp del]

definition numbered_target :: "ustring \<Rightarrow> nat \<Rightarrow> ustring" where
  "numbered_target name n =
     (case rfind 46 name of
        Some dot \<Rightarrow>
          if 0 < dot then take dot name @ ustr '' ('' @ decimal n @ ustr '')'' @ ustr ''.'' @ drop (dot + 1) name
          else name @ ustr '' ('' @ decimal n @ ustr '')''
      | None \<Rightarrow> name @ ustr '' ('' @ decimal n @ ustr '')'')"

definition unique_target :: "(ustring \<Rightarrow> bool) \<Rightarrow> ustring \<Rightarrow> ustring" where
  "unique_target taken name =
     (if \<not> taken name then name
      else (case first_free (numbered_target name) taken 1 (2 ^ 32 - 1) of
              Some candidate \<Rightarrow> candidate
            | None \<Rightarrow> name))"

text \<open>The kinds of watcher events the code tells apart.\<close>

datatype event_kind = CloseWrite | OtherAccess | NotAccess

definition is_change :: "event_kind \<Rightarrow> bool" where
  "is_change k = (case k of CloseWrite \<Rightarrow> True | OtherAccess \<Rightarrow> False | NotAccess \<Rightarrow> True)"

section \<open>The clipboard\<close>

record rgba_image =
  im_width :: u32
  im_height :: u32
  im_rgba :: bytes

record clipboard_watcher =
  cw_last :: "bytes option"
  cw_last_image :: "bytes option"

definition watcher_new :: clipboard_watcher where
  "watcher_new = \<lparr>cw_last = None, cw_last_image = None\<rparr>"

definition text_digest :: "'z ext_scheme \<Rightarrow> ustring \<Rightarrow> bytes" where
  "text_digest E t = cd_sha256 (hasher_finalize E (hasher_update (utf8_encode t) hasher_new))"

definition le_bytes :: "u32 \<Rightarrow> bytes" where
  "le_bytes w = map (\<lambda>i. ucast (drop_bit (8 * i) w)) [0, 1, 2, 3]"

definition image_digest :: "'z ext_scheme \<Rightarrow> rgba_image \<Rightarrow> bytes" where
  "image_digest E im =
     cd_sha256 (hasher_finalize E (hasher_update (im_rgba im)
       (hasher_update (le_bytes (im_height im)) (hasher_update (le_bytes (im_width im)) hasher_new))))"

definition observe_text :: "'z ext_scheme \<Rightarrow> ustring option \<Rightarrow> clipboard_watcher \<Rightarrow> ustring option \<times> clipboard_watcher" where
  "observe_text E t w =
     (case t of
        None \<Rightarrow> (None, w)
      | Some t \<Rightarrow>
          (let digest = text_digest E t in
           if cw_last w = Some digest then (None, w)
           else (if trim_both is_whitespace t \<noteq> [] then Some t else None, w\<lparr>cw_last := Some digest\<rparr>)))"

definition mark_text :: "'z ext_scheme \<Rightarrow> ustring \<Rightarrow> clipboard_watcher \<Rightarrow> clipboard_watcher" where
  "mark_text E t w = w\<lparr>cw_last := Some (text_digest E t)\<rparr>"

definition observe_image ::
  "'z ext_scheme \<Rightarrow> rgba_image option \<Rightarrow> clipboard_watcher \<Rightarrow> rgba_image option \<times> clipboard_watcher" where
  "observe_image E im w =
     (case im of
        None \<Rightarrow> (None, w)
      | Some im \<Rightarrow>
          (let digest = image_digest E im in
           if cw_last_image w = Some digest then (None, w)
           else (Some im, w\<lparr>cw_last_image := Some digest\<rparr>)))"

definition mark_image :: "'z ext_scheme \<Rightarrow> rgba_image \<Rightarrow> clipboard_watcher \<Rightarrow> clipboard_watcher" where
  "mark_image E im w = w\<lparr>cw_last_image := Some (image_digest E im)\<rparr>"

section \<open>The delays\<close>

lemma delay_after: "bo_next (((snd \<circ> next_delay) ^^ n) (backoff_reset b)) = secs (min (2 ^ n) 60)"
proof (induction n)
  case 0
  then show ?case by (simp add: backoff_reset_def FIRST_DELAY_def)
next
  case (Suc n)
  have "min (min (2 ^ n) 60 * 2) 60 = min (2 ^ Suc n) (60 :: nat)" by (auto simp: min_def)
  then have "min (secs (min (2 ^ n) 60) * 2) MAX_DELAY = secs (min (2 ^ Suc n) 60)"
    unfolding MAX_DELAY_def secs_def by (simp only: min_mult_distrib_right [symmetric] mult.assoc mult.commute)
  with Suc show ?case by (simp add: next_delay_def Let_def)
qed

text \<open>After a reset (or at the start) the delays before the attempts are 1, 2, 4, \<open>\<dots>\<close> seconds,
  doubling each time, and never more than a minute.\<close>

theorem backoff_delays:
  "fst (next_delay (((snd \<circ> next_delay) ^^ n) (backoff_reset b))) = min (2 ^ n) 60 * 1000000000
    \<and> backoff_reset b = backoff_default"
  by (simp add: next_delay_def Let_def delay_after secs_def) (simp add: backoff_reset_def backoff_default_def)

section \<open>Files of the drop folder, one at a time\<close>

text \<open>What the tracker knows of one path, and one step of it.\<close>

definition known :: "drop_tracker \<Rightarrow> ustring \<Rightarrow> candidate option \<times> in_flight option" where
  "known tr p = (tr_candidates tr p, tr_in_flight tr p)"

definition settle1 :: "nat \<Rightarrow> nat \<Rightarrow> file_state \<Rightarrow> candidate option \<Rightarrow> bool \<times> candidate option \<times> in_flight option" where
  "settle1 wait now f c =
     (let fresh = Some \<lparr>ca_size = fi_size f, ca_modified = fi_modified f, ca_since = now\<rparr> in
      case c of
        Some seen \<Rightarrow>
          if ca_size seen = fi_size f \<and> ca_modified seen = fi_modified f
          then
            if wait \<le> now - ca_since seen
            then (True, None, Some \<lparr>if_size = fi_size f, if_modified = fi_modified f, if_skipped = False\<rparr>)
            else (False, c, None)
          else (False, fresh, None)
      | None \<Rightarrow> (False, fresh, None))"

definition step1 ::
  "nat \<Rightarrow> nat \<Rightarrow> file_state \<Rightarrow> candidate option \<times> in_flight option \<Rightarrow> bool \<times> candidate option \<times> in_flight option" where
  "step1 wait now f = (\<lambda>(c, sent).
     case sent of
       Some s \<Rightarrow>
         if if_skipped s \<and> (if_size s \<noteq> fi_size f \<or> if_modified s \<noteq> fi_modified f)
         then settle1 wait now f c else (False, c, sent)
     | None \<Rightarrow> settle1 wait now f c)"

lemma observe_file_at:
  assumes "observe_file now f tr = (ready, tr')"
  shows "tr_stable_wait tr' = tr_stable_wait tr"
    and "p \<noteq> fi_path f \<Longrightarrow> known tr' p = known tr p"
    and "set ready \<subseteq> {fi_path f}"
    and "(fi_path f \<in> set ready, known tr' (fi_path f)) = step1 (tr_stable_wait tr) now f (known tr (fi_path f))"
  using assms
  by (auto simp: observe_file_def settle_def step1_def settle1_def known_def Let_def split: option.splits if_splits)

lemma observe_files_at:
  assumes "distinct (map fi_path fs)" "observe_files now fs tr = (ready, tr')"
  shows "tr_stable_wait tr' = tr_stable_wait tr
    \<and> (\<forall>p. p \<notin> fi_path ` set fs \<longrightarrow> known tr' p = known tr p \<and> p \<notin> set ready)
    \<and> (\<forall>f \<in> set fs. (fi_path f \<in> set ready, known tr' (fi_path f))
          = step1 (tr_stable_wait tr) now f (known tr (fi_path f)))"
  using assms
proof (induction fs arbitrary: tr ready tr')
  case (Cons g fs)
  obtain r1 t1 r2 t2 where one: "observe_file now g tr = (r1, t1)" and rest: "observe_files now fs t1 = (r2, t2)"
    by (cases "observe_file now g tr", cases "observe_files now fs (snd (observe_file now g tr))") auto
  then have r: "ready = r1 @ r2" "tr' = t2" using Cons.prems by auto
  note o = observe_file_at [OF one]
  have d: "distinct (map fi_path fs)" "fi_path g \<notin> fi_path ` set fs" using Cons.prems by auto
  from Cons.IH [OF d(1) rest] have ih: "tr_stable_wait t2 = tr_stable_wait t1"
    "\<And>p. p \<notin> fi_path ` set fs \<Longrightarrow> known t2 p = known t1 p \<and> p \<notin> set r2"
    "\<And>f. f \<in> set fs \<Longrightarrow> (fi_path f \<in> set r2, known t2 (fi_path f)) = step1 (tr_stable_wait t1) now f (known t1 (fi_path f))"
    by blast+
  have "(fi_path f \<in> set ready, known tr' (fi_path f)) = step1 (tr_stable_wait tr) now f (known tr (fi_path f))"
    if f: "f \<in> set (g # fs)" for f
  proof (cases "f = g")
    case True
    then show ?thesis using ih(2) [OF d(2)] o(3,4) r by auto
  next
    case False
    then have f: "f \<in> set fs" using f by simp
    then have ne: "fi_path f \<noteq> fi_path g" using d(2) by (metis image_eqI)
    then have "fi_path f \<notin> set r1" using o(3) by blast
    then have "(fi_path f \<in> set ready) = (fi_path f \<in> set r2)" unfolding r(1) by simp
    then show ?thesis using ih(3) [OF f] unfolding r(2) o(1) o(2) [OF ne] by simp
  qed
  moreover have "known tr' p = known tr p \<and> p \<notin> set ready" if "p \<notin> fi_path ` set (g # fs)" for p
    using ih(2) [of p] o(2) [of p] o(3) r that by auto
  moreover have "tr_stable_wait tr' = tr_stable_wait tr" using ih(1) o(1) r(2) by simp
  ultimately show ?case by (simp only: simp_thms Ball_def) blast
qed simp

lemma observe_at:
  assumes "distinct (map fi_path fs)" "observe fs now tr = (ready, tr')"
  shows "tr_stable_wait tr' = tr_stable_wait tr"
    and "p \<notin> fi_path ` set fs \<Longrightarrow> known tr' p = (None, None) \<and> p \<notin> set ready"
    and "f \<in> set fs \<Longrightarrow> (fi_path f \<in> set ready, known tr' (fi_path f)) = step1 (tr_stable_wait tr) now f (known tr (fi_path f))"
proof -
  let ?present = "fi_path ` set fs"
  let ?tr = "tr\<lparr>tr_in_flight := tr_in_flight tr |` ?present, tr_candidates := tr_candidates tr |` ?present\<rparr>"
  have e: "observe_files now fs ?tr = (ready, tr')" using assms(2) by (simp add: observe_def Let_def)
  have k: "known ?tr q = (if q \<in> ?present then known tr q else (None, None))" for q by (simp add: known_def)
  note h = observe_files_at [OF assms(1) e]
  show "tr_stable_wait tr' = tr_stable_wait tr" using h by simp
  show "p \<notin> ?present \<Longrightarrow> known tr' p = (None, None) \<and> p \<notin> set ready" using h k by simp
  show "f \<in> set fs \<Longrightarrow> (fi_path f \<in> set ready, known tr' (fi_path f)) = step1 (tr_stable_wait tr) now f (known tr (fi_path f))"
    using h k by simp
qed

section \<open>Over many scans\<close>

definition shown :: "ustring \<Rightarrow> u64 \<Rightarrow> int \<Rightarrow> file_state list \<Rightarrow> bool" where
  "shown p sz m fs \<longleftrightarrow> (\<exists>f \<in> set fs. fi_path f = p \<and> fi_size f = sz \<and> fi_modified f = m)"

text \<open>
  The states a tracker gets into, with the scans it has seen, the newest first. A scan lists each
  path once.
\<close>

inductive tracked :: "nat \<Rightarrow> (nat \<times> file_state list) list \<Rightarrow> drop_tracker \<Rightarrow> bool" for wait where
  start: "tracked wait [] (tracker_new wait)"
| scan: "tracked wait h tr \<Longrightarrow> distinct (map fi_path fs) \<Longrightarrow> tracked wait ((now, fs) # h) (snd (observe fs now tr))"
| skip: "tracked wait h tr \<Longrightarrow> tracked wait h (mark_skipped p tr)"

definition settling :: "(nat \<times> file_state list) list \<Rightarrow> ustring \<Rightarrow> candidate \<Rightarrow> bool" where
  "settling h p c \<longleftrightarrow>
     (\<exists>k. 0 < k \<and> k \<le> length h \<and> fst (h ! (k - 1)) = ca_since c
        \<and> (\<forall>(t, fs) \<in> set (take k h). shown p (ca_size c) (ca_modified c) fs))"

lemma settling_start: "shown p (ca_size c) (ca_modified c) fs \<Longrightarrow> ca_since c = now \<Longrightarrow> settling ((now, fs) # h) p c"
  unfolding settling_def by (rule exI [of _ 1]) simp

lemma settling_more:
  assumes "settling h p c" "shown p (ca_size c) (ca_modified c) fs"
  shows "settling ((now, fs) # h) p c"
proof -
  obtain k where "0 < k" "k \<le> length h" "fst (h ! (k - 1)) = ca_since c"
    "\<forall>(t, fs) \<in> set (take k h). shown p (ca_size c) (ca_modified c) fs"
    using assms(1) by (auto simp: settling_def)
  then show ?thesis
    unfolding settling_def using assms(2) by (intro exI [of _ "Suc k"]) (auto simp: nth_Cons')
qed

lemma tracked_settling:
  "tracked wait h tr \<Longrightarrow> tr_stable_wait tr = wait
     \<and> (\<forall>p c. tr_candidates tr p = Some c \<longrightarrow> settling h p c \<and> tr_in_flight tr p = None)"
proof (induction rule: tracked.induct)
  case start
  then show ?case by (simp add: tracker_new_def)
next
  case (scan h tr fs now)
  obtain ready tr' where o: "observe fs now tr = (ready, tr')" by fastforce
  note at = observe_at [OF scan.hyps(2) o]
  have "settling ((now, fs) # h) p c \<and> tr_in_flight tr' p = None" if c: "tr_candidates tr' p = Some c" for p c
  proof -
    have "p \<in> fi_path ` set fs" using at(2) [of p] c by (auto simp: known_def)
    then obtain f where f: "f \<in> set fs" "fi_path f = p" by auto
    have s: "shown p (fi_size f) (fi_modified f) fs" using f by (auto simp: shown_def)
    have step: "step1 (tr_stable_wait tr) now f (known tr p) = (p \<in> set ready, Some c, tr_in_flight tr' p)"
      using at(3) [OF f(1)] f(2) c by (simp add: known_def)
    have i: "tr_in_flight tr' p = None"
      and cs: "c = \<lparr>ca_size = fi_size f, ca_modified = fi_modified f, ca_since = now\<rparr>
        \<or> tr_candidates tr p = Some c \<and> ca_size c = fi_size f \<and> ca_modified c = fi_modified f"
      using step scan.IH by (auto simp: step1_def settle1_def known_def Let_def split: option.splits if_splits)
    from cs have "settling ((now, fs) # h) p c"
      using settling_start settling_more scan.IH s by (metis candidate.select_convs)
    with i show ?thesis by simp
  qed
  then show ?case using scan.IH o at(1) by simp
next
  case (skip h tr p)
  then have "tr_candidates tr p = None" if "tr_in_flight tr p = Some s" for s
    using that by (metis option.exhaust option.simps(3))
  then show ?case using skip.IH by (cases "tr_in_flight tr p") (auto simp: mark_skipped_def)
qed

text \<open>C23: A file of the drop folder is handed out only when it has settled: the scan that hands it
  out, and every scan before it for at least the waiting time, all showed it with one size and one
  modification time. This holds in every state the tracker gets into.\<close>

theorem drop_ready_settled:
  assumes "tracked wait h tr" "distinct (map fi_path fs)" "p \<in> set (fst (observe fs now tr))"
  shows "\<exists>k sz m. 0 < k \<and> k \<le> length h \<and> wait \<le> now - fst (h ! (k - 1))
    \<and> shown p sz m fs \<and> (\<forall>(t, fs') \<in> set (take k h). shown p sz m fs')"
proof -
  obtain ready tr' where o: "observe fs now tr = (ready, tr')" by fastforce
  note at = observe_at [OF assms(2) o] and inv = tracked_settling [OF assms(1)]
  have r: "p \<in> set ready" using assms(3) o by simp
  then obtain f where f: "f \<in> set fs" "fi_path f = p" using at(2) [of p] by auto
  have s: "shown p (fi_size f) (fi_modified f) fs" using f by (auto simp: shown_def)
  have step: "fst (step1 (tr_stable_wait tr) now f (known tr p))" using at(3) [OF f(1)] f(2) r by (metis fst_conv)
  then obtain c where c: "tr_candidates tr p = Some c" "ca_size c = fi_size f" "ca_modified c = fi_modified f"
    "wait \<le> now - ca_since c"
    using inv by (auto simp: step1_def settle1_def known_def Let_def split: option.splits if_splits)
  then have "settling h p c" using inv by blast
  then obtain k where "0 < k" "k \<le> length h" "fst (h ! (k - 1)) = ca_since c"
    "\<forall>(t, fs') \<in> set (take k h). shown p (ca_size c) (ca_modified c) fs'"
    by (auto simp: settling_def)
  then show ?thesis using c s by (intro exI [of _ k] exI [of _ "fi_size f"] exI [of _ "fi_modified f"]) auto
qed

text \<open>A file seen at 0 and again at 5 with a waiting time of 5.\<close>

definition sample_seen :: "file_state list" where
  "sample_seen = [\<lparr>fi_path = ustr ''a'', fi_size = 3, fi_modified = 7\<rparr>]"

lemma sample_tracked: "tracked 5 [(0, sample_seen)] (snd (observe sample_seen 0 (tracker_new 5)))"
  by (rule tracked.scan [OF tracked.start]) (simp add: sample_seen_def)

lemma sample_ready: "ustr ''a'' \<in> set (fst (observe sample_seen 5 (snd (observe sample_seen 0 (tracker_new 5)))))"
  by (simp add: sample_seen_def observe_def observe_file_def settle_def tracker_new_def Let_def restrict_map_def)

theorem drop_ready_settled_witness:
  "\<exists>k sz m. 0 < k \<and> k \<le> length [(0 :: nat, sample_seen)] \<and> 5 \<le> 5 - fst ([(0 :: nat, sample_seen)] ! (k - 1))
    \<and> shown (ustr ''a'') sz m sample_seen \<and> (\<forall>(t, fs') \<in> set (take k [(0 :: nat, sample_seen)]). shown (ustr ''a'') sz m fs')"
  by (rule drop_ready_settled [OF sample_tracked _ sample_ready]) (simp add: sample_seen_def)

text \<open>A series of scans, and what each handed out.\<close>

fun scans :: "(nat \<times> file_state list) list \<Rightarrow> drop_tracker \<Rightarrow> ustring list list \<times> drop_tracker" where
  "scans [] tr = ([], tr)"
| "scans ((now, fs) # later) tr =
     (let (ready, tr1) = observe fs now tr; (readies, tr2) = scans later tr1 in (ready # readies, tr2))"

lemma scans_in_flight:
  assumes "tr_in_flight tr p = Some s" "\<not> if_skipped s"
    and "\<forall>(t, fs) \<in> set later. distinct (map fi_path fs) \<and> p \<in> fi_path ` set fs"
  shows "\<forall>ready \<in> set (fst (scans later tr)). p \<notin> set ready"
  using assms
proof (induction later arbitrary: tr)
  case (Cons e later)
  obtain now fs where e: "e = (now, fs)" by fastforce
  obtain ready tr1 where o: "observe fs now tr = (ready, tr1)" by fastforce
  have d: "distinct (map fi_path fs)" and "p \<in> fi_path ` set fs" using Cons.prems(3) e by auto
  then obtain f where f: "f \<in> set fs" "fi_path f = p" by auto
  have "(p \<in> set ready, known tr1 p) = (False, known tr p)"
    using observe_at(3) [OF d o f(1)] f(2) Cons.prems(1,2) by (simp add: step1_def known_def)
  then have "p \<notin> set ready" "tr_in_flight tr1 p = Some s" using Cons.prems(1) by (auto simp: known_def)
  then show ?case using Cons.IH [of tr1] Cons.prems e o by (auto simp: Let_def split: prod.splits)
qed simp



lemma scans_reports:
  assumes "tr_candidates tr p = Some \<lparr>ca_size = sz, ca_modified = m, ca_since = t0\<rparr>" "tr_in_flight tr p = None"
    and "\<forall>(t, fs) \<in> set later. distinct (map fi_path fs) \<and> shown p sz m fs"
    and "\<exists>(t, fs) \<in> set later. tr_stable_wait tr \<le> t - t0"
  shows "\<exists>ready \<in> set (fst (scans later tr)). p \<in> set ready"
  using assms
proof (induction later arbitrary: tr)
  case (Cons e later)
  obtain now fs where e: "e = (now, fs)" by fastforce
  obtain ready tr1 where o: "observe fs now tr = (ready, tr1)" by fastforce
  have d: "distinct (map fi_path fs)" and "shown p sz m fs" using Cons.prems(3) e by auto
  then obtain f where f: "f \<in> set fs" "fi_path f = p" "fi_size f = sz" "fi_modified f = m" by (auto simp: shown_def)
  note at = observe_at [OF d o]
  have step: "(p \<in> set ready, known tr1 p) = step1 (tr_stable_wait tr) now f (known tr p)" using at(3) [OF f(1)] f(2) by simp
  show ?case
  proof (cases "tr_stable_wait tr \<le> now - t0")
    case True
    then have "p \<in> set ready" using step f Cons.prems(1,2) by (simp add: step1_def settle1_def known_def Let_def)
    then show ?thesis using e o by (auto simp: Let_def split: prod.splits)
  next
    case False
    then have "known tr1 p = known tr p" using step f Cons.prems(1,2) by (simp add: step1_def settle1_def known_def Let_def)
    moreover have "\<exists>(t, fs) \<in> set later. tr_stable_wait tr1 \<le> t - t0" using Cons.prems(4) False e at(1) by auto
    ultimately have "\<exists>ready \<in> set (fst (scans later tr1)). p \<in> set ready"
      using Cons.IH [of tr1] Cons.prems(1,2,3) by (simp add: known_def)
    then show ?thesis using e o by (auto simp: Let_def split: prod.splits)
  qed
qed simp

text \<open>C25: A file that appears in the folder and is left alone is handed out: if scans go on showing
  it with the same size and modification time until one is at least the waiting time after the first,
  one of them reports it.\<close>

theorem drop_reported:
  assumes "tr_candidates tr p = None" "tr_in_flight tr p = None"
    and "\<forall>(t, fs) \<in> set ((t0, fs0) # later). distinct (map fi_path fs) \<and> shown p sz m fs"
    and "\<exists>(t, fs) \<in> set later. tr_stable_wait tr \<le> t - t0"
  shows "\<exists>ready \<in> set (fst (scans ((t0, fs0) # later) tr)). p \<in> set ready"
proof -
  obtain ready tr1 where o: "observe fs0 t0 tr = (ready, tr1)" by fastforce
  have d: "distinct (map fi_path fs0)" and "shown p sz m fs0" using assms(3) by auto
  then obtain f where f: "f \<in> set fs0" "fi_path f = p" "fi_size f = sz" "fi_modified f = m" by (auto simp: shown_def)
  note at = observe_at [OF d o]
  have "known tr1 p = (Some \<lparr>ca_size = sz, ca_modified = m, ca_since = t0\<rparr>, None)"
    using at(3) [OF f(1)] f assms(1,2) by (simp add: step1_def settle1_def known_def Let_def)
  then have "\<exists>ready \<in> set (fst (scans later tr1)). p \<in> set ready"
    using scans_reports [of tr1 p sz m t0 later] assms(3,4) at(1) by (simp add: known_def)
  then show ?thesis using o by (auto simp: Let_def split: prod.splits)
qed

theorem drop_reported_witness:
  "\<exists>ready \<in> set (fst (scans [(0, sample_seen), (2, sample_seen), (6, sample_seen)] (tracker_new 5))). ustr ''a'' \<in> set ready"
  by (rule drop_reported [where sz = 3 and m = 7]) (simp_all add: tracker_new_def sample_seen_def shown_def)

section \<open>Names for files moved aside\<close>

lemma first_free_Some: "first_free g taken n fuel = Some x \<Longrightarrow> \<not> taken x"
  by (induction g taken n fuel rule: first_free.induct) (auto split: if_splits)

lemma first_free_None: "first_free g taken n fuel = None \<Longrightarrow> i < fuel \<Longrightarrow> taken (g (n + i))"
proof (induction g taken n fuel arbitrary: i rule: first_free.induct)
  case (2 g taken n fuel)
  then show ?case by (cases i) (auto split: if_splits)
qed simp

lemma first_free_finds:
  assumes "inj g" "finite {x. taken x}" "card {x. taken x} < fuel"
  shows "\<exists>x. first_free g taken n fuel = Some x"
proof (rule ccontr)
  assume "\<not> ?thesis"
  then have "first_free g taken n fuel = None" by simp
  then have "(\<lambda>i. g (n + i)) ` {..<fuel} \<subseteq> {x. taken x}" using first_free_None [of g taken n fuel] by auto
  moreover have "card ((\<lambda>i. g (n + i)) ` {..<fuel}) = fuel"
    by (subst card_image) (auto intro!: inj_onI dest: injD [OF assms(1)])
  ultimately show False using assms(2,3) by (metis card_mono not_less)
qed

lemma decimal_neq_Nil: "decimal n \<noteq> []"
  by (subst decimal.simps) simp

lemma decimal_inj: "decimal m = decimal n \<Longrightarrow> m = n"
proof (induction m arbitrary: n rule: less_induct)
  case (less m)
  show ?case
  proof (cases "m < 10")
    case True
    then have "decimal n = [48 + m]" using less.prems decimal.simps [of m] by simp
    then show ?thesis using decimal.simps [of n] decimal_neq_Nil [of "n div 10"] by (auto split: if_splits)
  next
    case False
    then have m: "decimal m = decimal (m div 10) @ [48 + m mod 10]" by (subst decimal.simps) simp
    then have "\<not> n < 10" using less.prems decimal.simps [of n] decimal_neq_Nil [of "m div 10"] by auto
    then have n: "decimal n = decimal (n div 10) @ [48 + n mod 10]" by (subst decimal.simps) simp
    have "decimal (m div 10) = decimal (n div 10)" "m mod 10 = n mod 10" using m n less.prems by auto
    then have "m div 10 = n div 10" using less.IH [of "m div 10"] False by simp
    then show ?thesis using \<open>m mod 10 = n mod 10\<close> by (metis div_mult_mod_eq)
  qed
qed

lemma numbered_target_inj: "inj (numbered_target name)"
  unfolding inj_def numbered_target_def using decimal_inj by (auto split: option.splits if_splits)

text \<open>C34: The name chosen for a file that is moved aside is free, whatever names are taken, as long as
  fewer than \<open>2^32 - 1\<close> of them are: the search ends with a name nothing has, so nothing is overwritten.\<close>

theorem unique_target_free:
  assumes "finite {x. taken x}" "card {x. taken x} < 2 ^ 32 - 1"
  shows "\<not> taken (unique_target taken name)"
proof (cases "taken name")
  case True
  obtain x where "first_free (numbered_target name) taken 1 (2 ^ 32 - 1) = Some x"
    using first_free_finds [OF numbered_target_inj assms] by blast
  with True show ?thesis using first_free_Some unfolding unique_target_def by fastforce
qed (simp add: unique_target_def)

theorem unique_target_free_witness:
  "\<not> (\<lambda>x. x = ustr ''a'' \<or> x = ustr ''a (1)'')
     (unique_target (\<lambda>x. x = ustr ''a'' \<or> x = ustr ''a (1)'') (ustr ''a''))"
proof (rule unique_target_free)
  have e: "{x. x = ustr ''a'' \<or> x = ustr ''a (1)''} = {ustr ''a'', ustr ''a (1)''}" by auto
  show "finite {x. x = ustr ''a'' \<or> x = ustr ''a (1)''}" unfolding e by simp
  have "card {ustr ''a'', ustr ''a (1)''} \<le> 2" by (simp add: card_insert_le_m1)
  then show "card {x. x = ustr ''a'' \<or> x = ustr ''a (1)''} < 2 ^ 32 - 1" unfolding e by simp
qed

end
