(* ===== verification/Download.thy ===== *)
theory Download
  imports Os_Files Watching Sample_Size
begin

text \<open>
  Writing items to local files: \<^verbatim>\<open>passalong-core/src/download.rs\<close>, over the calls of
  \<open>Os_Files\<close>. The random numbers for part names are an argument.
\<close>

section \<open>Integrity\<close>

definition PART_SUFFIX :: path where "PART_SUFFIX = ustr ''.passalong-part''"
definition MAX_NUMBERED_NAMES :: nat where "MAX_NUMBERED_NAMES = 999"
definition CHUNK_SIZE :: nat where "CHUNK_SIZE = 64 * 1024"

datatype download_error =
    DlRead io_error
  | DlCreate path io_error
  | DlWrite path io_error
  | DlIntegrity string string u64 string u64
  | DlNoFreeName path ustring nat

definition check_integrity :: "'z ext_scheme \<Rightarrow> item_meta \<Rightarrow> content_hasher \<Rightarrow> download_error + unit" where
  "check_integrity E m hasher =
     (let digest = hasher_finalize E hasher; actual = sha256_hex E digest in
      if actual \<noteq> meta_sha256 m \<or> cd_size digest \<noteq> meta_size m
      then Inl (DlIntegrity (id_repr (meta_id m)) (meta_sha256 m) (meta_size m) actual (cd_size digest))
      else Inr ())"

definition read_verified :: "'z ext_scheme \<Rightarrow> box_read \<Rightarrow> item_meta \<Rightarrow> download_error + bytes" where
  "read_verified E content m =
     and_then (map_err DlRead (rd_to_end content)) (\<lambda>b.
     and_then (check_integrity E m (hasher_update b hasher_new)) (\<lambda>_. Inr b))"

section \<open>Verified writes\<close>

function copy_to :: "box_read \<Rightarrow> path \<Rightarrow> content_hasher \<Rightarrow> os_run \<Rightarrow> (download_error + content_hasher) \<times> os_run" where
  "copy_to content part h w =
     (case rd_read CHUNK_SIZE content of
        (Inl e, _) \<Rightarrow> (Inl (DlRead e), w)
      | (Inr b, rest) \<Rightarrow>
          if b = [] then (Inr h, w)
          else os_try (DlWrite part) (fs_write_all part b w) (\<lambda>_ w. copy_to rest part (hasher_update b h) w))"
  by pat_completeness auto
termination
  by (relation "measure (\<lambda>(content, part, h, w). length (br_bytes content))") (auto dest: rd_read_shrinks [OF sym])

declare copy_to.simps [simp del]

definition stream_to ::
  "'z ext_scheme \<Rightarrow> box_read \<Rightarrow> item_meta \<Rightarrow> path \<Rightarrow> os_run \<Rightarrow> (download_error + unit) \<times> os_run" where
  "stream_to E content m part w =
     os_try (DlCreate part) (fs_create part w) (\<lambda>_ w.
     os_try id (copy_to content part hasher_new w) (\<lambda>h w.
     os_try (DlWrite part) (fs_flush w) (\<lambda>_ w.
     (check_integrity E m h, w))))"

definition write_verified ::
  "'z ext_scheme \<Rightarrow> box_read \<Rightarrow> item_meta \<Rightarrow> path \<Rightarrow> os_run \<Rightarrow> (download_error + unit) \<times> os_run" where
  "write_verified E content m target w =
     (let part = target @ PART_SUFFIX;
          (result, w) = os_try id (stream_to E content m part w) (\<lambda>_ w.
                          os_try (DlWrite target) (fs_rename part target w) (\<lambda>_ w. (Inr (), w))) in
      case result of
        Inl e \<Rightarrow> (Inl e, snd (fs_remove_file part w))
      | Inr _ \<Rightarrow> (Inr (), w))"

section \<open>Free names\<close>

definition numbered_name :: "ustring \<Rightarrow> nat \<Rightarrow> ustring" where
  "numbered_name name n =
     (case rfind 46 name of
        Some dot \<Rightarrow>
          if 0 < dot \<and> dot + 1 < length name
          then take dot name @ ustr '' ('' @ decimal n @ ustr '')'' @ drop dot name
          else name @ ustr '' ('' @ decimal n @ ustr '')''
      | None \<Rightarrow> name @ ustr '' ('' @ decimal n @ ustr '')'')"

definition candidate_name :: "path \<Rightarrow> ustring \<Rightarrow> nat \<Rightarrow> path" where
  "candidate_name dir name n = path_join dir (if n = 0 then name else numbered_name name n)"

definition no_free_name :: "path \<Rightarrow> ustring \<Rightarrow> download_error" where
  "no_free_name dir name = DlNoFreeName dir name MAX_NUMBERED_NAMES"

definition taken :: "path \<Rightarrow> os_run \<Rightarrow> bool \<times> os_run" where
  "taken p w = (case fs_try_exists p w of (Inr b, w) \<Rightarrow> (b, w) | (Inl _, w) \<Rightarrow> (True, w))"

definition part_name :: "path \<Rightarrow> ustring \<Rightarrow> u64 \<Rightarrow> path" where
  "part_name dir name r =
     path_join dir (name @ ustr ''.'' @ ustr (hex_pad 8 (unat (and r 0xFFFFFFFF))) @ PART_SUFFIX)"

text \<open>\<open>rand\<close> is what the random source yields, \<open>k\<close> how much of it is used, \<open>fuel\<close> the attempts left.\<close>

fun create_part_from ::
  "(nat \<Rightarrow> u64) \<Rightarrow> path \<Rightarrow> ustring \<Rightarrow> nat \<Rightarrow> path \<Rightarrow> nat \<Rightarrow> os_run \<Rightarrow> (download_error + path) \<times> os_run" where
  "create_part_from rand dir name k latest 0 w =
     (Inl (DlCreate latest (IoError IoOther ''no unused part file name'')), w)"
| "create_part_from rand dir name k latest (Suc fuel) w =
     (let latest = part_name dir name (rand k) in
      case fs_create_new latest w of
        (Inr _, w) \<Rightarrow> (Inr latest, w)
      | (Inl e, w) \<Rightarrow>
          if io_kind_of e = IoAlreadyExists then create_part_from rand dir name (k + 1) latest fuel w
          else (Inl (DlCreate latest e), w))"

definition create_part :: "(nat \<Rightarrow> u64) \<Rightarrow> path \<Rightarrow> ustring \<Rightarrow> os_run \<Rightarrow> (download_error + path) \<times> os_run" where
  "create_part rand dir name w = create_part_from rand dir name 0 (path_join dir name) 16 w"

fun rename_from :: "path \<Rightarrow> path \<Rightarrow> ustring \<Rightarrow> nat \<Rightarrow> nat \<Rightarrow> os_run \<Rightarrow> (download_error + path) \<times> os_run" where
  "rename_from part dir name n 0 w = (Inl (no_free_name dir name), w)"
| "rename_from part dir name n (Suc fuel) w =
     (let candidate = candidate_name dir name n; (t, w) = taken candidate w in
      if \<not> t
      then os_try (DlWrite candidate) (fs_rename part candidate w) (\<lambda>_ w. (Inr candidate, w))
      else rename_from part dir name (n + 1) fuel w)"

definition rename_to_free_name :: "path \<Rightarrow> path \<Rightarrow> ustring \<Rightarrow> os_run \<Rightarrow> (download_error + path) \<times> os_run" where
  "rename_to_free_name part dir name w = rename_from part dir name 0 (MAX_NUMBERED_NAMES + 1) w"

fun link_from :: "path \<Rightarrow> path \<Rightarrow> ustring \<Rightarrow> nat \<Rightarrow> nat \<Rightarrow> os_run \<Rightarrow> (download_error + path) \<times> os_run" where
  "link_from part dir name n 0 w = (Inl (no_free_name dir name), w)"
| "link_from part dir name n (Suc fuel) w =
     (let candidate = candidate_name dir name n in
      case fs_hard_link part candidate w of
        (Inr _, w) \<Rightarrow> (Inr candidate, w)
      | (Inl e, w) \<Rightarrow>
          (if io_kind_of e = IoAlreadyExists then link_from part dir name (n + 1) fuel w
           else if io_kind_of e \<in> {IoUnsupported, IoPermissionDenied} then rename_to_free_name part dir name w
           else (Inl (DlWrite candidate e), w)))"

definition link_to_free_name :: "path \<Rightarrow> path \<Rightarrow> ustring \<Rightarrow> os_run \<Rightarrow> (download_error + path) \<times> os_run" where
  "link_to_free_name part dir name w = link_from part dir name 0 (MAX_NUMBERED_NAMES + 1) w"

definition download_into ::
  "'z ext_scheme \<Rightarrow> (nat \<Rightarrow> u64) \<Rightarrow> box_read \<Rightarrow> item_meta \<Rightarrow> path \<Rightarrow> ustring \<Rightarrow> os_run
   \<Rightarrow> (download_error + path) \<times> os_run" where
  "download_into E rand content m dir name w =
     os_try id (create_part rand dir name w) (\<lambda>part w.
     let (result, w) = os_try id (stream_to E content m part w) (\<lambda>_ w. link_to_free_name part dir name w) in
     (result, snd (fs_remove_file part w)))"

fun free_from :: "path \<Rightarrow> ustring \<Rightarrow> nat \<Rightarrow> nat \<Rightarrow> os_run \<Rightarrow> (download_error + path) \<times> os_run" where
  "free_from dir name n 0 w = (Inl (no_free_name dir name), w)"
| "free_from dir name n (Suc fuel) w =
     (let candidate = candidate_name dir name n; (t, w) = taken candidate w in
      if \<not> t then (Inr candidate, w) else free_from dir name (n + 1) fuel w)"

definition free_target :: "path \<Rightarrow> ustring \<Rightarrow> os_run \<Rightarrow> (download_error + path) \<times> os_run" where
  "free_target dir name w = free_from dir name 0 (MAX_NUMBERED_NAMES + 1) w"

section \<open>What a download does on the way\<close>

definition verified :: "'z ext_scheme \<Rightarrow> item_meta \<Rightarrow> bytes \<Rightarrow> bool" where
  "verified E m c \<longleftrightarrow> sha256_hex E (digest_of E c) = meta_sha256 m \<and> of_nat (length c) = meta_size m"

definition hashed :: "bytes \<Rightarrow> content_hasher" where
  "hashed c = \<lparr>ch_inner = c, ch_size = of_nat (length c)\<rparr>"

lemma hashed_update [simp]: "hasher_update b (hashed c) = hashed (c @ b)" "hasher_new = hashed []"
  by (simp_all add: hasher_update_def hashed_def hasher_new_def)

lemma hashed_digest: "hasher_finalize E (hashed c) = digest_of E c"
  by (simp add: hasher_finalize_def hashed_def digest_of_def)

lemma check_integrity_verified: "check_integrity E m (hashed c) = Inr () \<longleftrightarrow> verified E m c"
  by (auto simp: check_integrity_def hashed_digest verified_def Let_def digest_of_def)

text \<open>
  A step of this client that leaves every file there is as it is, except those of \<open>L\<close>, and creates
  other files only with the item's whole, verified content.
\<close>

definition creates_whole :: "'z ext_scheme \<Rightarrow> item_meta \<Rightarrow> path set \<Rightarrow> files \<Rightarrow> files \<Rightarrow> bool" where
  "creates_whole E m L a b \<longleftrightarrow>
     (\<forall>p. p \<notin> L \<longrightarrow> b p = a p \<or> a p = None \<and> (\<exists>c. b p = Some c \<and> verified E m c))"

text \<open>\<open>P\<close> allows whatever is done to the files of \<open>L\<close> alone.\<close>

definition allows :: "path set \<Rightarrow> (files \<Rightarrow> files \<Rightarrow> bool) \<Rightarrow> bool" where
  "allows L P \<longleftrightarrow> (\<forall>a b. (\<forall>p. p \<notin> L \<longrightarrow> b p = a p) \<longrightarrow> P a b)"

definition only :: "path set \<Rightarrow> files \<Rightarrow> files \<Rightarrow> bool" where
  "only L a b \<longleftrightarrow> (\<forall>p. p \<notin> L \<longrightarrow> b p = a p)"

lemma allows_simps [simp]: "allows L (creates_whole E m L)" "allows L (only L)"
  by (simp_all add: allows_def creates_whole_def only_def)

lemma allowed: "allows L P \<Longrightarrow> \<forall>p. p \<notin> L \<longrightarrow> b p = a p \<Longrightarrow> P a b"
  by (simp add: allows_def)

lemma create_step:
  assumes "fs_create p w = (r, w')" "calm L K w" "allows L P" "p \<in> L"
  shows "steps_ok P w w' \<and> calm L K w' \<and> (r = Inr () \<longrightarrow> or_files w' p = Some [])"
  by (rule os_call_steps [OF assms(1) [unfolded fs_create_def] assms(2)])
    (use assms(4) in \<open>auto intro!: allowed [OF assms(3)]\<close>)

lemma create_new_step:
  assumes "fs_create_new p w = (r, w')" "calm L K w" "allows L P" "p \<in> L"
  shows "steps_ok P w w' \<and> calm L K w' \<and> True"
  by (rule os_call_steps [OF assms(1) [unfolded fs_create_new_def] assms(2)])
    (use assms(4) in \<open>auto intro!: allowed [OF assms(3)] split: if_splits\<close>)

lemma write_step:
  assumes "fs_write_all p b w = (r, w')" "calm L K w" "allows L P" "p \<in> L" "or_files w p = Some old"
  shows "steps_ok P w w' \<and> calm L K w' \<and> (r = Inr () \<longrightarrow> or_files w' p = Some (old @ b))"
  by (rule os_call_steps [OF assms(1) [unfolded fs_write_all_def] assms(2)])
    (use assms(4,5) in \<open>auto intro!: allowed [OF assms(3)] simp: append_to_def\<close>)

lemma flush_step:
  assumes "fs_flush w = (r, w')" "calm L K w" "allows L P"
  shows "steps_ok P w w' \<and> calm L K w' \<and> (\<forall>p \<in> L. or_files w' p = or_files w p)"
  by (rule os_call_steps [OF assms(1) [unfolded fs_flush_def] assms(2)]) (auto intro!: allowed [OF assms(3)])

lemma remove_step:
  assumes "fs_remove_file p w = (r, w')" "calm L K w" "allows L P" "p \<in> L"
  shows "steps_ok P w w' \<and> calm L K w' \<and> True"
  by (rule os_call_steps [OF assms(1) [unfolded fs_remove_file_def] assms(2)])
    (use assms(4) in \<open>auto intro!: allowed [OF assms(3)] split: if_splits\<close>)

lemma link_step:
  assumes "fs_hard_link p q w = (r, w')" "calm L K w" "p \<in> L" "or_files w p = Some c" "verified E m c"
  shows "steps_ok (creates_whole E m L) w w' \<and> calm L K w'
    \<and> (case r of Inl e \<Rightarrow> e \<in> K \<union> {file_exists} \<and> or_files w' p = Some c | Inr _ \<Rightarrow> or_files w' q = Some c)"
proof (rule os_call_steps [OF assms(1) [unfolded fs_hard_link_def] assms(2)])
  fix before
  assume "\<forall>p \<in> L. before p = or_files w p"
  then have b: "before p = Some c" using assms(3,4) by simp
  let ?f = "case before p of
         None \<Rightarrow> (Inl no_such_file, before)
       | Some c \<Rightarrow> if before q \<noteq> None then (Inl file_exists, before) else (Inr (), before(q \<mapsto> c))"
  assume "(\<exists>n e. e \<in> K \<and> r = Inl e \<and> or_files w' = before) \<or> r = fst ?f \<and> or_files w' = snd ?f"
  then consider e where "e \<in> K \<union> {file_exists}" "r = Inl e" "or_files w' = before"
    | "before q = None" "r = Inr ()" "or_files w' = before(q \<mapsto> c)"
    using b by (cases "before q") auto
  then show "creates_whole E m L before (or_files w')
    \<and> (case r of Inl e \<Rightarrow> e \<in> K \<union> {file_exists} \<and> or_files w' p = Some c | Inr _ \<Rightarrow> or_files w' q = Some c)"
    using b assms(5) by cases (auto simp: creates_whole_def)
qed

lemma copy_steps:
  assumes "copy_to content part (hashed old) w = (r, w')" "calm L K w" "allows L P" "part \<in> L" "or_files w part = Some old"
  shows "steps_ok P w w' \<and> calm L K w'
    \<and> (\<forall>h. r = Inr h \<longrightarrow> (\<exists>c. h = hashed c \<and> or_files w' part = Some c))"
  using assms
proof (induction content part "hashed old" w arbitrary: old r w' rule: copy_to.induct)
  case (1 content part w)
  obtain b rest where read: "rd_read CHUNK_SIZE content = (b, rest)" by fastforce
  show ?case
  proof (cases b)
    case (Inl e)
    then show ?thesis using 1 read by (auto simp: copy_to.simps [of content])
  next
    case (Inr c)
    show ?thesis
    proof (cases "c = []")
      case True
      then show ?thesis using 1 read Inr by (auto simp: copy_to.simps [of content])
    next
      case False
      then have "os_try (DlWrite part) (fs_write_all part c w)
          (\<lambda>_ w. copy_to rest part (hashed (old @ c)) w) = (r, w')"
        using 1(2) read Inr by (simp add: copy_to.simps [of content])
      then show ?thesis
      proof (cases rule: os_try_cases)
        case (failed e)
        with write_step [OF failed(1) 1(3-6)] show ?thesis by simp
      next
        case (went x w1)
        then have s: "steps_ok P w w1 \<and> calm L K w1 \<and> or_files w1 part = Some (old @ c)"
          using write_step [OF went(1) 1(3-6)] by simp
        from 1(1) [OF read [symmetric] Inr False _ went(2)] s 1(4,5)
        have "steps_ok P w1 w' \<and> calm L K w'
          \<and> (\<forall>h. r = Inr h \<longrightarrow> (\<exists>c. h = hashed c \<and> or_files w' part = Some c))" by simp
        with s show ?thesis using steps_ok_trans by blast
      qed
    qed
  qed
qed

lemma stream_steps:
  assumes "stream_to E content m part w = (r, w')" "calm L K w" "allows L P" "part \<in> L"
  shows "steps_ok P w w' \<and> calm L K w'
    \<and> (r = Inr () \<longrightarrow> (\<exists>c. or_files w' part = Some c \<and> verified E m c))"
  using assms(1) [unfolded stream_to_def]
proof (cases rule: os_try_cases)
  case (failed e)
  with create_step [OF failed(1) assms(2-4)] show ?thesis by simp
next
  case (went x w1)
  then have s1: "steps_ok P w w1" "calm L K w1" "or_files w1 part = Some []"
    using create_step [OF went(1) assms(2-4)] by auto
  from went(2) show ?thesis
  proof (cases rule: os_try_cases)
    case (failed e)
    with copy_steps [of content part "[]" w1 _ w', OF _ s1(2) assms(3,4) s1(3)] s1(1)
    show ?thesis by (auto intro: steps_ok_trans)
  next
    case (went h w2)
    then obtain c where s2: "steps_ok P w1 w2" "calm L K w2" "h = hashed c" "or_files w2 part = Some c"
      using copy_steps [of content part "[]" w1 "Inr h" w2, OF _ s1(2) assms(3,4) s1(3)] by auto
    from went(2) show ?thesis
    proof (cases rule: os_try_cases)
      case (failed e)
      with flush_step [OF failed(1) s2(2) assms(3)] s1(1) s2(1) show ?thesis by (auto intro: steps_ok_trans)
    next
      case (went x w3)
      then have e: "w3 = w'" "r = check_integrity E m (hashed c)" using s2(3) by simp_all
      with flush_step [OF went(1) s2(2) assms(3)] s2(4) assms(4)
      have "steps_ok P w2 w'" "calm L K w'" "or_files w' part = Some c" by auto
      then show ?thesis using s1(1) s2(1) e(2) check_integrity_verified by (auto intro: steps_ok_trans)
    qed
  qed
qed

text \<open>Hard links are to be had: no call fails for the lack of them.\<close>

definition links :: "io_error set" where
  "links = {e. io_kind_of e \<notin> {IoUnsupported, IoPermissionDenied}}"

lemma link_from_steps:
  assumes "link_from part dir name n fuel w = (r, w')" "calm L links w" "part \<in> L"
    and "or_files w part = Some c" "verified E m c"
  shows "steps_ok (creates_whole E m L) w w' \<and> calm L links w' \<and> (\<forall>p. r = Inr p \<longrightarrow> or_files w' p = Some c)"
  using assms
proof (induction part dir name n fuel w arbitrary: r w' rule: link_from.induct)
  case (2 part dir name n fuel w)
  let ?p = "candidate_name dir name n"
  obtain r1 w1 where link: "fs_hard_link part ?p w = (r1, w1)" by fastforce
  note s = link_step [OF link 2(3-6)]
  show ?case
  proof (cases r1)
    case (Inr x)
    then show ?thesis using 2(2) link s by (auto simp: Let_def)
  next
    case (Inl e)
    then have e: "e \<in> links \<union> {file_exists}" "or_files w1 part = Some c" using s by auto
    then have k: "io_kind_of e \<notin> {IoUnsupported, IoPermissionDenied}" by (auto simp: links_def file_exists_def)
    show ?thesis
    proof (cases "io_kind_of e = IoAlreadyExists")
      case True
      then have "link_from part dir name (n + 1) fuel w1 = (r, w')" using 2(2) link Inl by (simp add: Let_def)
      from 2(1) [OF refl link [symmetric] Inl True this] s 2(4,6) e(2)
      have "steps_ok (creates_whole E m L) w1 w' \<and> calm L links w' \<and> (\<forall>p. r = Inr p \<longrightarrow> or_files w' p = Some c)" by simp
      with s show ?thesis by (auto intro: steps_ok_trans)
    next
      case False
      then show ?thesis using 2(2) link Inl s k by (auto simp: Let_def)
    qed
  qed
qed simp

lemma create_part_steps:
  assumes "create_part_from rand dir name k latest fuel w = (r, w')" "calm (range (part_name dir name)) K w"
  shows "steps_ok (creates_whole E m (range (part_name dir name))) w w' \<and> calm (range (part_name dir name)) K w'
    \<and> (\<forall>p. r = Inr p \<longrightarrow> p \<in> range (part_name dir name))"
  using assms
proof (induction rand dir name k latest fuel w arbitrary: r w' rule: create_part_from.induct)
  case (2 rand dir name k latest fuel w)
  let ?p = "part_name dir name (rand k)"
  obtain r1 w1 where c: "fs_create_new ?p w = (r1, w1)" by fastforce
  note s = create_new_step [OF c 2(3) allows_simps(1) rangeI, of E m]
  show ?case
  proof (cases r1)
    case (Inr x)
    then show ?thesis using 2(2) c s by (auto simp: Let_def)
  next
    case (Inl e)
    show ?thesis
    proof (cases "io_kind_of e = IoAlreadyExists")
      case True
      then have "create_part_from rand dir name (k + 1) ?p fuel w1 = (r, w')" using 2(2) c Inl by (simp add: Let_def)
      from 2(1) [OF refl c [symmetric] Inl True this] s show ?thesis by (auto intro: steps_ok_trans)
    next
      case False
      then show ?thesis using 2(2) c Inl s by (auto simp: Let_def)
    qed
  qed
qed simp

text \<open>What each step of a download does to the files.\<close>

lemma download_steps:
  assumes "download_into E rand content m dir name w = (r, w')" "calm (range (part_name dir name)) links w"
  shows "steps_ok (creates_whole E m (range (part_name dir name))) w w'"
  using assms(1) [unfolded download_into_def]
proof (cases rule: os_try_cases)
  case (failed e)
  with create_part_steps [OF failed(1) [unfolded create_part_def] assms(2)] show ?thesis by blast
next
  case (went part w1)
  let ?L = "range (part_name dir name)"
  have s1: "steps_ok (creates_whole E m ?L) w w1" "calm ?L links w1" "part \<in> ?L"
    using create_part_steps [OF went(1) [unfolded create_part_def] assms(2)] by auto
  obtain r2 w2 where mid: "os_try id (stream_to E content m part w1) (\<lambda>_ w. link_to_free_name part dir name w) = (r2, w2)"
    by fastforce
  have s2: "steps_ok (creates_whole E m ?L) w1 w2 \<and> calm ?L links w2"
    using mid
  proof (cases rule: os_try_cases)
    case (failed e)
    with stream_steps [OF failed(1) s1(2) allows_simps(1) s1(3)] show ?thesis by blast
  next
    case (went x w3)
    then obtain c where s3: "steps_ok (creates_whole E m ?L) w1 w3" "calm ?L links w3" "or_files w3 part = Some c" "verified E m c"
      using stream_steps [OF went(1) s1(2) allows_simps(1) s1(3)] by auto
    from link_from_steps [OF went(2) [unfolded link_to_free_name_def] s3(2) s1(3) s3(3,4)] s3(1)
    show ?thesis by (auto intro: steps_ok_trans)
  qed
  have "w' = snd (fs_remove_file part w2)" using went(2) mid by simp
  then have "steps_ok (creates_whole E m ?L) w2 w'"
    using remove_step [OF prod.collapse [symmetric] s2 [THEN conjunct2] allows_simps(1) s1(3), of E m] by simp
  with s1(1) s2 show ?thesis by (blast intro: steps_ok_trans)
qed


section \<open>What a download leaves behind\<close>

lemma quiet_calls:
  assumes "or_plan w = []"
  shows "fs_create p w = (Inr (), \<lparr>or_files = (or_files w)(p \<mapsto> []), or_plan = [], or_log = (or_files w, (or_files w)(p \<mapsto> [])) # or_log w\<rparr>)"
    and "fs_write_all p b w = (Inr (), \<lparr>or_files = append_to p b (or_files w), or_plan = [],
       or_log = (or_files w, append_to p b (or_files w)) # or_log w\<rparr>)"
    and "fs_flush w = (Inr (), \<lparr>or_files = or_files w, or_plan = [], or_log = (or_files w, or_files w) # or_log w\<rparr>)"
  using assms by (simp_all add: fs_create_def fs_write_all_def fs_flush_def os_call_quiet Let_def)

lemma copy_quiet:
  assumes "or_plan w = []" "or_files w part = Some old"
  shows "case copy_to content part (hashed old) w of (r, w') \<Rightarrow>
    or_plan w' = [] \<and> or_files w' = (or_files w)(part \<mapsto> old @ br_bytes content)
    \<and> r = (case br_end content of None \<Rightarrow> Inr (hashed (old @ br_bytes content)) | Some e \<Rightarrow> Inl (DlRead e))"
  using assms
proof (induction content part "hashed old" w arbitrary: old rule: copy_to.induct)
  case (1 content part w)
  obtain b rest where read: "rd_read CHUNK_SIZE content = (b, rest)" by fastforce
  note res = rd_read_result [OF read]
  show ?case
  proof (cases "\<exists>c. b = Inr c \<and> c \<noteq> []")
    case False
    then have "br_bytes content = []" "b = (case br_end content of None \<Rightarrow> Inr [] | Some e \<Rightarrow> Inl e)"
      using res by (cases b; simp add: CHUNK_SIZE_def)+
    then show ?thesis using 1(2,3) read
      by (auto simp: copy_to.simps [of content] split: option.splits)
  next
    case True
    then obtain c where c: "b = Inr c" "c \<noteq> []" by blast
    then have rest: "br_bytes content = c @ br_bytes rest" "br_end rest = br_end content" using res by auto
    let ?fs = "(or_files w)(part \<mapsto> old @ c)"
    let ?w = "\<lparr>or_files = ?fs, or_plan = [], or_log = (or_files w, ?fs) # or_log w\<rparr>"
    have "append_to part c (or_files w) = ?fs" using 1(3) by (simp add: append_to_def)
    then have step: "copy_to content part (hashed old) w = copy_to rest part (hashed (old @ c)) ?w"
      using read c quiet_calls(2) [OF 1(2), of part c] by (simp add: copy_to.simps [of content] os_try_def)
    have ih: "case copy_to rest part (hashed (old @ c)) ?w of (r, w') \<Rightarrow>
      or_plan w' = [] \<and> or_files w' = ?fs(part \<mapsto> (old @ c) @ br_bytes rest)
      \<and> r = (case br_end rest of None \<Rightarrow> Inr (hashed ((old @ c) @ br_bytes rest)) | Some e \<Rightarrow> Inl (DlRead e))"
      using 1(1) [OF read [symmetric] c(1) c(2), of "old @ c" ?w] by simp
    show ?thesis unfolding step rest(1) rest(2) [symmetric]
      using ih unfolding fun_upd_upd append_assoc .
  qed
qed

lemma link_quiet:
  assumes "or_plan w = []" "or_files w part = Some c"
  shows "case link_from part dir name n fuel w of (r, w') \<Rightarrow>
    or_plan w' = []
    \<and> (case first_free (candidate_name dir name) (\<lambda>p. or_files w p \<noteq> None) n fuel of
         Some p \<Rightarrow> r = Inr p \<and> or_files w' = (or_files w)(p \<mapsto> c)
       | None \<Rightarrow> r = Inl (no_free_name dir name) \<and> or_files w' = or_files w)"
  using assms
proof (induction fuel arbitrary: n w)
  case (Suc fuel)
  let ?p = "candidate_name dir name n"
  show ?case
  proof (cases "or_files w ?p")
    case None
    then show ?thesis using Suc.prems
      by (simp add: Let_def fs_hard_link_def os_call_quiet)
  next
    case (Some x)
    let ?w = "\<lparr>or_files = or_files w, or_plan = [], or_log = (or_files w, or_files w) # or_log w\<rparr>"
    have step: "link_from part dir name n (Suc fuel) w = link_from part dir name (n + 1) fuel ?w"
      using Some Suc.prems by (simp add: Let_def fs_hard_link_def os_call_quiet file_exists_def)
    have ff: "first_free (candidate_name dir name) (\<lambda>p. or_files w p \<noteq> None) n (Suc fuel)
        = first_free (candidate_name dir name) (\<lambda>p. or_files w p \<noteq> None) (n + 1) fuel"
      using Some by simp
    show ?thesis
      unfolding step ff by (rule Suc.IH [of ?w "n + 1", unfolded os_run.select_convs, OF refl Suc.prems(2)])
  qed
qed simp

lemma create_part_quiet:
  assumes "or_plan w = []"
  shows "case create_part_from rand dir name k latest fuel w of (r, w') \<Rightarrow>
    or_plan w' = []
    \<and> (case first_free (\<lambda>k. part_name dir name (rand k)) (\<lambda>p. or_files w p \<noteq> None) k fuel of
         Some p \<Rightarrow> r = Inr p \<and> or_files w' = (or_files w)(p \<mapsto> [])
       | None \<Rightarrow> (\<exists>p e. r = Inl (DlCreate p e)) \<and> or_files w' = or_files w)"
  using assms
proof (induction fuel arbitrary: k latest w)
  case (Suc fuel)
  let ?p = "part_name dir name (rand k)"
  show ?case
  proof (cases "or_files w ?p")
    case None
    then show ?thesis using Suc.prems by (simp add: Let_def fs_create_new_def os_call_quiet)
  next
    case (Some x)
    let ?w = "\<lparr>or_files = or_files w, or_plan = [], or_log = (or_files w, or_files w) # or_log w\<rparr>"
    have step: "create_part_from rand dir name k latest (Suc fuel) w = create_part_from rand dir name (k + 1) ?p fuel ?w"
      using Some Suc.prems by (simp add: Let_def fs_create_new_def os_call_quiet file_exists_def)
    have ff: "first_free (\<lambda>k. part_name dir name (rand k)) (\<lambda>p. or_files w p \<noteq> None) k (Suc fuel)
        = first_free (\<lambda>k. part_name dir name (rand k)) (\<lambda>p. or_files w p \<noteq> None) (k + 1) fuel"
      using Some by simp
    show ?thesis
      unfolding step ff by (rule Suc.IH [of ?w "k + 1" ?p, unfolded os_run.select_convs, OF refl])
  qed
qed simp

text \<open>
  What a download does to the files, as one function of them: the answer and the files afterwards.
\<close>

definition downloaded ::
  "'z ext_scheme \<Rightarrow> (nat \<Rightarrow> u64) \<Rightarrow> box_read \<Rightarrow> item_meta \<Rightarrow> path \<Rightarrow> ustring \<Rightarrow> files \<Rightarrow> (download_error + path) \<times> files \<Rightarrow> bool" where
  "downloaded E rand content m dir name fs res \<longleftrightarrow>
     (case first_free (\<lambda>k. part_name dir name (rand k)) (\<lambda>p. fs p \<noteq> None) 0 16 of
        None \<Rightarrow> \<exists>p e. res = (Inl (DlCreate p e), fs)
      | Some part \<Rightarrow>
          (case br_end content of
             Some e \<Rightarrow> res = (Inl (DlRead e), fs)
           | None \<Rightarrow>
               (case check_integrity E m (hashed (br_bytes content)) of
                  Inl e \<Rightarrow> res = (Inl e, fs)
                | Inr _ \<Rightarrow>
                    (case first_free (candidate_name dir name) (\<lambda>p. p = part \<or> fs p \<noteq> None) 0 1000 of
                       Some p \<Rightarrow> res = (Inr p, fs(p \<mapsto> br_bytes content))
                     | None \<Rightarrow> res = (Inl (no_free_name dir name), fs)))))"

lemma stream_quiet:
  assumes "or_plan w = []"
  shows "case stream_to E content m part w of (r, w') \<Rightarrow>
    or_plan w' = [] \<and> or_files w' = (or_files w)(part \<mapsto> br_bytes content)
    \<and> r = (case br_end content of None \<Rightarrow> check_integrity E m (hashed (br_bytes content)) | Some e \<Rightarrow> Inl (DlRead e))"
proof -
  let ?w = "\<lparr>or_files = (or_files w)(part \<mapsto> []), or_plan = [], or_log = (or_files w, (or_files w)(part \<mapsto> [])) # or_log w\<rparr>"
  obtain r w2 where c: "copy_to content part (hashed []) ?w = (r, w2)" by fastforce
  from copy_quiet [of ?w part "[]" content] c
  have w2: "or_plan w2 = []" "or_files w2 = (or_files w)(part \<mapsto> br_bytes content)"
    and r: "r = (case br_end content of None \<Rightarrow> Inr (hashed (br_bytes content)) | Some e \<Rightarrow> Inl (DlRead e))"
    by (simp_all split: option.splits)
  show ?thesis
    using c w2 r quiet_calls(1) [OF assms, of part] quiet_calls(3) [OF w2(1)]
    by (simp add: stream_to_def os_try_def split: option.splits)
qed

text \<open>C14: Left to itself a download does exactly this to the files: it takes the first free of its
  sixteen part names; a content that breaks off or does not match the item's SHA-256 and size leaves
  no trace; otherwise the content is stored under the first name of \<open>name\<close>, \<open>name (1)\<close>, up to
  \<open>name (999)\<close> that is free, and no other file differs; with all of them taken nothing changes.\<close>

theorem download_exact:
  assumes "or_plan w = []"
  shows "case download_into E rand content m dir name w of (r, w') \<Rightarrow>
    downloaded E rand content m dir name (or_files w) (r, or_files w')"
proof -
  let ?fs = "or_files w"
  obtain r1 w1 where c: "create_part_from rand dir name 0 (path_join dir name) 16 w = (r1, w1)" by fastforce
  note cq = create_part_quiet [OF assms, where rand = rand and dir = dir and name = name and k = 0
      and latest = "path_join dir name" and fuel = 16, unfolded c prod.case]
  show ?thesis
  proof (cases "first_free (\<lambda>k. part_name dir name (rand k)) (\<lambda>p. ?fs p \<noteq> None) 0 16")
    case None
    then show ?thesis using cq c by (auto simp: download_into_def create_part_def os_try_def downloaded_def)
  next
    case (Some part)
    then have r1: "r1 = Inr part" "or_plan w1 = []" "or_files w1 = ?fs(part \<mapsto> [])" using cq by auto
    have free: "?fs part = None" using first_free_Some [OF Some] by simp
    obtain r2 w2 where s: "stream_to E content m part w1 = (r2, w2)" by fastforce
    from stream_quiet [OF r1(2), where E = E and content = content and m = m and part = part] s
    have w2: "or_plan w2 = []" "or_files w2 = ?fs(part \<mapsto> br_bytes content)"
      and r2: "r2 = (case br_end content of None \<Rightarrow> check_integrity E m (hashed (br_bytes content)) | Some e \<Rightarrow> Inl (DlRead e))"
      by (simp_all add: r1(3))
    obtain r3 w3 where l: "link_from part dir name 0 1000 w2 = (r3, w3)" by fastforce
    have gone: "or_files (snd (fs_remove_file part u)) = (or_files u)(part := None)" if "or_plan u = []" for u
      using that by (auto simp: fs_remove_file_def os_call_quiet Let_def)
    have undone: "(?fs(part \<mapsto> x))(part := None) = ?fs" for x using free by auto
    have into: "download_into E rand content m dir name w =
        (let (result, u) = os_try id (r2, w2) (\<lambda>_ u. link_from part dir name 0 1000 u)
         in (result, snd (fs_remove_file part u)))"
      using c r1(1) s by (simp add: download_into_def create_part_def os_try_def link_to_free_name_def MAX_NUMBERED_NAMES_def)
    show ?thesis
    proof (cases r2)
      case (Inl e)
      then have "download_into E rand content m dir name w = (Inl e, snd (fs_remove_file part w2))"
        by (simp add: into os_try_def)
      moreover have "or_files (snd (fs_remove_file part w2)) = ?fs" using gone [OF w2(1)] w2(2) undone by simp
      ultimately show ?thesis using Some Inl r2 by (simp add: downloaded_def split: option.splits)
    next
      case (Inr x)
      then have d: "download_into E rand content m dir name w = (r3, snd (fs_remove_file part w3))"
        using l by (simp add: into os_try_def)
      have t: "(\<lambda>p. or_files w2 p \<noteq> None) = (\<lambda>p. p = part \<or> ?fs p \<noteq> None)" using w2(2) by auto
      from link_quiet [OF w2(1), where part = part and c = "br_bytes content" and dir = dir and name = name and n = 0
        and fuel = 1000] w2(2) l
      have w3: "or_plan w3 = []"
        and r3: "case first_free (candidate_name dir name) (\<lambda>p. p = part \<or> ?fs p \<noteq> None) 0 1000 of
          Some p \<Rightarrow> r3 = Inr p \<and> or_files w3 = (or_files w2)(p \<mapsto> br_bytes content)
        | None \<Rightarrow> r3 = Inl (no_free_name dir name) \<and> or_files w3 = or_files w2"
        unfolding t by simp_all
      have ok: "br_end content = None" "check_integrity E m (hashed (br_bytes content)) = Inr ()"
        using r2 Inr by (simp_all split: option.splits)
      show ?thesis
      proof (cases "first_free (candidate_name dir name) (\<lambda>p. p = part \<or> ?fs p \<noteq> None) 0 1000")
        case None
        then have "or_files (snd (fs_remove_file part w3)) = ?fs" using r3 gone [OF w3] w2(2) undone by simp
        then show ?thesis using d r3 None Some ok by (simp add: downloaded_def)
      next
        case (Some p)
        then have p: "p \<noteq> part" using first_free_Some by fastforce
        have "or_files (snd (fs_remove_file part w3)) = ?fs(p \<mapsto> br_bytes content)"
          using r3 Some gone [OF w3] w2(2) undone p by (simp add: fun_upd_twist)
        then show ?thesis
          using d r3 Some ok \<open>first_free (\<lambda>k. part_name dir name (rand k)) (\<lambda>p. ?fs p \<noteq> None) 0 16 = Some part\<close>
          by (simp add: downloaded_def)
      qed
    qed
  qed
qed

definition sample_meta_for :: "bytes \<Rightarrow> item_meta" where
  "sample_meta_for b =
     \<lparr>meta_schema = 1, meta_id = sample_id, meta_kind = KFile, meta_name = None, meta_mime = [],
      meta_size = of_nat (length b), meta_sha256 = sha256_hex sample_ext (digest_of sample_ext b), meta_created_at = 0,
      meta_device = [], meta_preview = None, meta_origin = None\<rparr>"

definition sample_run :: os_run where
  "sample_run = \<lparr>or_files = [ustr ''d/a'' \<mapsto> [1]], or_plan = [], or_log = []\<rparr>"


theorem download_exact_witness:
  "\<exists>r w'. download_into sample_ext (\<lambda>_. 7) (reader_of [104, 105]) (sample_meta_for [104, 105]) (ustr ''d'') (ustr ''a'') sample_run = (r, w')
     \<and> downloaded sample_ext (\<lambda>_. 7) (reader_of [104, 105]) (sample_meta_for [104, 105]) (ustr ''d'') (ustr ''a'')
         [ustr ''d/a'' \<mapsto> [1]] (r, or_files w')"
proof -
  have "or_plan sample_run = []" "or_files sample_run = [ustr ''d/a'' \<mapsto> [1]]" by (simp_all add: sample_run_def)
  with download_exact [of sample_run sample_ext "\<lambda>_. 7" "reader_of [104, 105]" "sample_meta_for [104, 105]"
      "ustr ''d''" "ustr ''a''"]
  show ?thesis by (auto split: prod.splits)
qed

section \<open>Replacing a file\<close>

definition replaces_whole :: "(bytes \<Rightarrow> bool) \<Rightarrow> path \<Rightarrow> path \<Rightarrow> files \<Rightarrow> files \<Rightarrow> bool" where
  "replaces_whole good part target a b \<longleftrightarrow>
     (\<forall>p. p \<noteq> part \<longrightarrow> b p = a p \<or> p = target \<and> (\<exists>c. b p = Some c \<and> good c))"

lemma replaces_allows [simp]: "allows {part} (replaces_whole good part target)"
  by (simp add: allows_def replaces_whole_def)

lemma rename_step:
  assumes "fs_rename part target w = (r, w')" "calm {part} K w" "or_files w part = Some c" "good c"
  shows "steps_ok (replaces_whole good part target) w w' \<and> calm {part} K w'
    \<and> (r \<noteq> Inr () \<longrightarrow> steps_ok (only {part}) w w')"
proof -
  have "steps_ok (\<lambda>a b. replaces_whole good part target a b \<and> (r \<noteq> Inr () \<longrightarrow> only {part} a b)) w w' \<and> calm {part} K w' \<and> True"
    by (rule os_call_steps [OF assms(1) [unfolded fs_rename_def] assms(2)])
      (use assms(3,4) in \<open>auto simp: replaces_whole_def only_def split: if_splits\<close>)
  then show ?thesis unfolding steps_ok_def by fast
qed

text \<open>What each step of a verified write does to the files.\<close>

lemma write_verified_steps:
  assumes "write_verified E content m target w = (r, w')" "calm {target @ PART_SUFFIX} K w"
  shows "steps_ok (replaces_whole (verified E m) (target @ PART_SUFFIX) target) w w'
    \<and> (r \<noteq> Inr () \<longrightarrow> steps_ok (only {target @ PART_SUFFIX}) w w')"
proof -
  let ?part = "target @ PART_SUFFIX"
  let ?P = "replaces_whole (verified E m) ?part target" and ?O = "only {?part}"
  obtain r1 w1 where mid: "os_try id (stream_to E content m ?part w) (\<lambda>_ w.
      os_try (DlWrite target) (fs_rename ?part target w) (\<lambda>_ w. (Inr (), w))) = (r1, w1)" by fastforce
  have m: "steps_ok ?P w w1 \<and> calm {?part} K w1 \<and> (r1 \<noteq> Inr () \<longrightarrow> steps_ok ?O w w1)"
    using mid
  proof (cases rule: os_try_cases)
    case (failed e)
    with stream_steps [OF failed(1) assms(2) replaces_allows] stream_steps [OF failed(1) assms(2) allows_simps(2)]
    show ?thesis by simp
  next
    case (went x w2)
    have s: "steps_ok ?P w w2" "steps_ok ?O w w2" "calm {?part} K w2"
      and "\<exists>c. or_files w2 ?part = Some c \<and> verified E m c"
      using stream_steps [OF went(1) assms(2) replaces_allows] stream_steps [OF went(1) assms(2) allows_simps(2)] by simp_all
    then obtain c where c: "or_files w2 ?part = Some c" "verified E m c" by blast
    obtain r2 w3 where n: "fs_rename ?part target w2 = (r2, w3)" by fastforce
    from rename_step [OF n s(3) c(1), where good = "verified E m"] c(2)
    have "steps_ok ?P w2 w3" "calm {?part} K w3" "r2 \<noteq> Inr () \<longrightarrow> steps_ok ?O w2 w3" by auto
    then show ?thesis using went(2) n s(1,2)
      by (auto simp: os_try_def intro: steps_ok_trans split: sum.splits)
  qed
  show ?thesis
  proof (cases r1)
    case (Inl e)
    then have "w' = snd (fs_remove_file ?part w1)" using assms(1) mid by (simp add: write_verified_def Let_def)
    then have "steps_ok ?P w1 w'" "steps_ok ?O w1 w'"
      using remove_step [OF prod.collapse [symmetric] m [THEN conjunct2, THEN conjunct1] replaces_allows]
        remove_step [OF prod.collapse [symmetric] m [THEN conjunct2, THEN conjunct1] allows_simps(2)] by simp_all
    with m Inl show ?thesis by (auto intro: steps_ok_trans)
  next
    case (Inr x)
    then show ?thesis using assms(1) mid m by (simp add: write_verified_def Let_def)
  qed
qed

text \<open>Writing an item over a file is all or nothing: at every step the target is as it was or holds
  the item's whole content, checked against its SHA-256 and size, and nothing else but the part file
  is touched; when the writing fails, the target was never touched at all.\<close>

theorem write_verified_atomic:
  assumes "write_verified E content m target w = (r, w')" "calm {target @ PART_SUFFIX} K w"
  shows "steps_ok (replaces_whole (verified E m) (target @ PART_SUFFIX) target) w w'
    \<and> (r \<noteq> Inr () \<longrightarrow> steps_ok (only {target @ PART_SUFFIX}) w w')"
  by (rule write_verified_steps [OF assms])

theorem write_verified_atomic_witness:
  "\<exists>r w'. write_verified sample_ext (reader_of [104, 105]) (sample_meta_for [104, 105]) (ustr ''d/a'') sample_run = (r, w')
     \<and> steps_ok (replaces_whole (verified sample_ext (sample_meta_for [104, 105])) (ustr ''d/a'' @ PART_SUFFIX) (ustr ''d/a'')) sample_run w'"
proof -
  obtain r w' where run: "write_verified sample_ext (reader_of [104, 105]) (sample_meta_for [104, 105]) (ustr ''d/a'') sample_run = (r, w')"
    by fastforce
  have "calm {ustr ''d/a'' @ PART_SUFFIX} {} sample_run" by (simp add: calm_def sample_run_def)
  from write_verified_atomic [OF run this] run show ?thesis by blast
qed

end
