(* ===== verification/Cache_File.thy ===== *)
theory Cache_File
  imports List_Cache Download
begin

text \<open>
  Saving the list cache: \<open>ListCache::save\<close> and \<open>write_private\<close> of \<^verbatim>\<open>passalong-core/src/cache.rs\<close>
  over the calls of \<open>Os_Files\<close>, and the loop that keeps the file current. The encoder is an
  argument; permissions and folders are left out.
\<close>

definition write_private :: "path \<Rightarrow> bytes \<Rightarrow> os_run \<Rightarrow> (io_error + unit) \<times> os_run" where
  "write_private p b w =
     os_try id (fs_create p w) (\<lambda>_ w.
     os_try id (fs_write_all p b w) (\<lambda>_ w.
     fs_flush w))"

definition cache_temp :: "path \<Rightarrow> nat \<Rightarrow> path" where
  "cache_temp p pid = p @ ustr ''.'' @ decimal pid @ ustr ''.tmp''"

definition save_cache ::
  "(list_cache \<Rightarrow> io_error + bytes) \<Rightarrow> nat \<Rightarrow> path \<Rightarrow> list_cache \<Rightarrow> os_run \<Rightarrow> (io_error + unit) \<times> os_run" where
  "save_cache enc pid p c w =
     (case enc c of
        Inl e \<Rightarrow> (Inl e, w)
      | Inr json \<Rightarrow>
          (let temp = cache_temp p pid;
               (written, w) = os_try id (write_private temp json w) (\<lambda>_ w. fs_rename temp p w) in
           case written of
             Inl e \<Rightarrow> (Inl e, snd (fs_remove_file temp w))
           | Inr _ \<Rightarrow> (Inr (), w)))"

text \<open>
  One turn of \<open>refresh_loop\<close>: what to do once the refresh is through. The state is the last message
  logged; the answer is whether this one is logged.
\<close>

definition loop_outcome ::
  "(store_error \<Rightarrow> string) \<Rightarrow> (io_error \<Rightarrow> string) \<Rightarrow> store_error + unit \<Rightarrow> list_cache option \<Rightarrow> (io_error + unit)
   \<Rightarrow> string option \<Rightarrow> (string + nat) \<times> bool \<times> string option" where
  "loop_outcome show_store show_io refreshed cache saved last_error =
     (let outcome = (case refreshed of
                       Inl e \<Rightarrow> Inl (''cannot read the store: '' @ show_store e)
                     | Inr _ \<Rightarrow>
                         (case cache of
                            Some c \<Rightarrow> (case saved of Inr _ \<Rightarrow> Inr (length (lc_items c))
                                                | Inl e \<Rightarrow> Inl (''cannot write '' @ show_io e))
                          | None \<Rightarrow> Inr 0)) in
      case outcome of
        Inr n \<Rightarrow> (outcome, False, None)
      | Inl message \<Rightarrow> (outcome, last_error \<noteq> Some message, Some message))"

section \<open>Saving\<close>

lemma write_private_steps:
  assumes "write_private p b w = (r, w')" "calm L K w" "allows L P" "p \<in> L"
  shows "steps_ok P w w' \<and> calm L K w' \<and> (r = Inr () \<longrightarrow> or_files w' p = Some b)"
  using assms(1) [unfolded write_private_def]
proof (cases rule: os_try_cases)
  case (failed e)
  with create_step [OF failed(1) assms(2-4)] show ?thesis by simp
next
  case (went x w1)
  then have s1: "steps_ok P w w1" "calm L K w1" "or_files w1 p = Some []"
    using create_step [OF went(1) assms(2-4)] by auto
  from went(2) show ?thesis
  proof (cases rule: os_try_cases)
    case (failed e)
    with write_step [OF failed(1) s1(2) assms(3,4) s1(3)] s1(1) show ?thesis by (auto intro: steps_ok_trans)
  next
    case (went x w2)
    then have s2: "steps_ok P w1 w2" "calm L K w2" "or_files w2 p = Some b"
      using write_step [OF went(1) s1(2) assms(3,4) s1(3)] by auto
    from flush_step [OF went(2) s2(2) assms(3)] s1(1) s2(1,3) assms(4)
    show ?thesis by (auto intro: steps_ok_trans)
  qed
qed

text \<open>C15: Saving the list cache is all or nothing: whatever calls fail and whatever other programs do to
  other files, at every step the cache file is as it was or holds the whole new cache, so a reader
  never sees half a file; a save that fails has left it as it was.\<close>

theorem save_cache_atomic:
  assumes "save_cache enc pid p c w = (r, w')" "calm {cache_temp p pid} K w"
  shows "steps_ok (replaces_whole (\<lambda>b. enc c = Inr b) (cache_temp p pid) p) w w'
    \<and> (r \<noteq> Inr () \<longrightarrow> steps_ok (only {cache_temp p pid}) w w')"
proof (cases "enc c")
  case (Inl e)
  then show ?thesis using assms(1) by (simp add: save_cache_def)
next
  case (Inr json)
  let ?temp = "cache_temp p pid" and ?good = "\<lambda>b. enc c = Inr b"
  let ?P = "replaces_whole ?good ?temp p" and ?O = "only {?temp}"
  obtain r1 w1 where mid: "os_try id (write_private ?temp json w) (\<lambda>_ w. fs_rename ?temp p w) = (r1, w1)" by fastforce
  have m: "steps_ok ?P w w1 \<and> calm {?temp} K w1 \<and> (r1 \<noteq> Inr () \<longrightarrow> steps_ok ?O w w1)"
    using mid
  proof (cases rule: os_try_cases)
    case (failed e)
    with write_private_steps [OF failed(1) assms(2) replaces_allows] write_private_steps [OF failed(1) assms(2) allows_simps(2)]
    show ?thesis by simp
  next
    case (went x w2)
    have s: "steps_ok ?P w w2" "steps_ok ?O w w2" "calm {?temp} K w2" "or_files w2 ?temp = Some json"
      using write_private_steps [OF went(1) assms(2) replaces_allows]
        write_private_steps [OF went(1) assms(2) allows_simps(2)] by simp_all
    from rename_step [OF went(2) s(3,4), where good = ?good] Inr s(1,2)
    show ?thesis by (auto intro: steps_ok_trans)
  qed
  show ?thesis
  proof (cases r1)
    case (Inl e)
    then have "w' = snd (fs_remove_file ?temp w1)" using assms(1) mid Inr by (simp add: save_cache_def Let_def)
    then have "steps_ok ?P w1 w'" "steps_ok ?O w1 w'"
      using remove_step [OF prod.collapse [symmetric] m [THEN conjunct2, THEN conjunct1] replaces_allows]
        remove_step [OF prod.collapse [symmetric] m [THEN conjunct2, THEN conjunct1] allows_simps(2)] by simp_all
    with m Inl show ?thesis by (auto intro: steps_ok_trans)
  next
    case (Inr x)
    then show ?thesis using assms(1) mid m \<open>enc c = Inr json\<close> by (simp add: save_cache_def Let_def)
  qed
qed

theorem save_cache_atomic_witness:
  "\<exists>r w'. save_cache (\<lambda>_. Inr [1, 2]) 42 (ustr ''d/a'') sample_cache sample_run = (r, w')
     \<and> steps_ok (replaces_whole (\<lambda>b. (Inr [1, 2] :: io_error + bytes) = Inr b) (cache_temp (ustr ''d/a'') 42) (ustr ''d/a'')) sample_run w'"
proof -
  obtain r w' where run: "save_cache (\<lambda>_. Inr [1, 2]) 42 (ustr ''d/a'') sample_cache sample_run = (r, w')" by fastforce
  have "calm {cache_temp (ustr ''d/a'') 42} {} sample_run" by (simp add: calm_def sample_run_def)
  from save_cache_atomic [OF run this] run show ?thesis by blast
qed

end
