(* ===== verification/Journal.thy ===== *)
theory Journal
  imports Header
begin

text \<open>
  The journal of a change to a store's encryption, which is also the lock:
  \<^verbatim>\<open>passalong-core/src/encryption/journal.rs\<close>, and the data it records from \<^verbatim>\<open>rewrite.rs\<close>. The JSON
  codec is a parameter.
\<close>

section \<open>What a journal records\<close>

definition PLAN_FILE :: string where "PLAN_FILE = ''plan.json''"
definition NEW_HEADER :: string where "NEW_HEADER = ''header''"
definition OLD_HEADER :: string where "OLD_HEADER = ''old-header''"
definition PREVIOUS :: string where "PREVIOUS = ''previous''"
definition RECOVERY :: string where "RECOVERY = ''recovery''"
definition STAGING_PREFIX :: string where "STAGING_PREFIX = ''.rewrite-''"
definition MAX_JOURNAL_BYTES :: nat where "MAX_JOURNAL_BYTES = 64 * 1024"
definition RECOVERY_STALE_SECS :: int where "RECOVERY_STALE_SECS = 10 * 60"

datatype rewrite_kind = Migrate | Rotate

record rewrite_plan =
  pl_kind :: rewrite_kind
  pl_started_at :: string
  pl_from_key :: "string option"
  pl_to_key :: string
  pl_items :: nat

datatype header_change_kind = SetUp | FreshStart | NewWords

record header_change =
  hc_kind :: header_change_kind
  hc_started_at :: string
  hc_key :: string

datatype journal =
    JRewrite rewrite_plan
  | JHeaderChange header_change
  | JNewer string
  | JUnreadable string

definition rewrite_kind_name :: "rewrite_kind \<Rightarrow> string" where
  "rewrite_kind_name k = (case k of Migrate \<Rightarrow> ''migrate'' | Rotate \<Rightarrow> ''rotate'')"

definition change_kind_name :: "header_change_kind \<Rightarrow> string" where
  "change_kind_name k = (case k of SetUp \<Rightarrow> ''set-up'' | FreshStart \<Rightarrow> ''fresh-start'' | NewWords \<Rightarrow> ''words'')"

text \<open>
  The codec: the \<open>kind\<close> of a JSON value, empty when it has none or it is no text, the two records,
  and the \<open>started_at\<close> of any value that has one; and chrono's RFC 3339 with seconds.
\<close>

record jext = hext +
  x_kind_of_json :: "bytes \<Rightarrow> string + string"
  x_plan_of_json :: "bytes \<Rightarrow> string + rewrite_plan"
  x_change_of_json :: "bytes \<Rightarrow> string + header_change"
  x_started_of_json :: "bytes \<Rightarrow> string option"
  x_plan_to_json :: "rewrite_plan \<Rightarrow> bytes"
  x_change_to_json :: "header_change \<Rightarrow> bytes"
  x_rfc3339 :: "datetime \<Rightarrow> string"

text \<open>What is written reads back, by each of the readers.\<close>

definition journal_laws :: "'z jext_scheme \<Rightarrow> bool" where
  "journal_laws E \<longleftrightarrow>
     (\<forall>p. x_kind_of_json E (x_plan_to_json E p) = Inr (rewrite_kind_name (pl_kind p))
        \<and> x_plan_of_json E (x_plan_to_json E p) = Inr p
        \<and> x_started_of_json E (x_plan_to_json E p) = Some (pl_started_at p))
     \<and> (\<forall>c. x_kind_of_json E (x_change_to_json E c) = Inr (change_kind_name (hc_kind c))
        \<and> x_change_of_json E (x_change_to_json E c) = Inr c
        \<and> x_started_of_json E (x_change_to_json E c) = Some (hc_started_at c))"

definition under_rewrite :: "string \<Rightarrow> fs_error + remote_path" where
  "under_rewrite rel = rp_new (REWRITE_DIR @ ''/'' @ rel)"

definition journal_parse :: "'z jext_scheme \<Rightarrow> bytes \<Rightarrow> journal" where
  "journal_parse E b =
     (case x_kind_of_json E b of
        Inl e \<Rightarrow> JUnreadable e
      | Inr kind \<Rightarrow>
          if kind \<in> {''migrate'', ''rotate''}
          then (case x_plan_of_json E b of Inr p \<Rightarrow> JRewrite p | Inl e \<Rightarrow> JUnreadable e)
          else if kind \<in> {''set-up'', ''fresh-start'', ''words''}
          then (case x_change_of_json E b of Inr c \<Rightarrow> JHeaderChange c | Inl e \<Rightarrow> JUnreadable e)
          else if kind = [] then JUnreadable ''it has no `kind`''
          else JNewer kind)"

definition read_journal :: "'z jext_scheme \<Rightarrow> (store_error + journal option) prog" where
  "read_journal E =
     try_res SeFs (under_rewrite PLAN_FILE) (\<lambda>path.
     OpenRead path (\<lambda>r.
       case r of
         Inr reader \<Rightarrow>
           try_res SeFs (map_err (from_io path) (rd_take_to_end MAX_JOURNAL_BYTES reader)) (\<lambda>b.
           Done (Inr (Some (journal_parse E b))))
       | Inl (FsNotFound _) \<Rightarrow> Done (Inr None)
       | Inl e \<Rightarrow> Done (Inl (SeFs e))))"

definition unsupported :: "journal \<Rightarrow> store_error" where
  "unsupported j =
     SeEncryption (EnLayout (case j of
         JRewrite _ \<Rightarrow> ''the store's items are being re-encrypted''
       | JHeaderChange _ \<Rightarrow> ''the store's header is being changed, not its items re-encrypted''
       | JNewer kind \<Rightarrow> ''the lock's journal (`'' @ kind @ ''`) needs a newer version of passalong''
       | JUnreadable reason \<Rightarrow> ''the lock's journal cannot be read: '' @ reason))"

definition nothing_to_recover :: store_error where
  "nothing_to_recover = SeEncryption (EnLayout ''no re-encryption is in progress'')"

section \<open>Taking and releasing the lock\<close>

fun write_headers ::
  "'z jext_scheme \<Rightarrow> remote_path \<Rightarrow> (string \<times> store_header) list \<Rightarrow> (store_error + unit) prog" where
  "write_headers E staged [] = Done (Inr ())"
| "write_headers E staged ((folder, header) # hs) =
     try_res SeFs (rp_join staged folder) (\<lambda>dir.
     tryP (write_header_in E dir header) (\<lambda>_.
     write_headers E staged hs))"

definition publish_staged ::
  "'z jext_scheme \<Rightarrow> bytes \<Rightarrow> (string \<times> store_header) list \<Rightarrow> remote_path \<Rightarrow> remote_path
   \<Rightarrow> (store_error + unit) prog" where
  "publish_staged E json headers staged lock =
     try_res SeFs (rp_join staged PLAN_FILE) (\<lambda>path.
     try_as SeFs (write_file path json) (\<lambda>_.
     tryP (write_headers E staged headers) (\<lambda>_.
     Rename staged lock (\<lambda>r.
       Done (case r of
               Inr _ \<Rightarrow> Inr ()
             | Inl (FsAlreadyExists _) \<Rightarrow> Inl (SeEncryption (EnRewriting None))
             | Inl e \<Rightarrow> Inl (SeFs e))))))"

text \<open>\<open>json\<close> is the journal as the codec writes it.\<close>

definition publish ::
  "'z jext_scheme \<Rightarrow> bytes \<Rightarrow> (string \<times> store_header) list \<Rightarrow> (store_error + unit) prog" where
  "publish E json headers =
     try_res SeFs (rp_new REWRITE_DIR) (\<lambda>lock.
     try_as SeFs (Stat lock Done) (\<lambda>found.
     if found \<noteq> None then Done (Inl (SeEncryption (EnRewriting None))) else
     try_as crypto_err (random_bytes 8) (\<lambda>token.
     try_res SeFs (rp_new (STAGING_PREFIX @ x_hex_encode E token)) (\<lambda>staged.
     try_as SeFs (CreateDir staged Done) (\<lambda>_.
     bind (publish_staged E json headers staged lock) (\<lambda>published.
     case published of
       Inl e \<Rightarrow> RemoveDirAll staged (\<lambda>_. Done (Inl e))
     | Inr _ \<Rightarrow> Done (Inr ())))))))"

definition is_staged :: "dir_entry \<Rightarrow> bool" where
  "is_staged e \<longleftrightarrow> de_is_dir e \<and> starts_with (de_name e) STAGING_PREFIX"

fun sweep_entries :: "dir_entry list \<Rightarrow> (store_error + unit) prog" where
  "sweep_entries [] = Done (Inr ())"
| "sweep_entries (e # es) =
     (if is_staged e
      then try_res SeFs (rp_new (de_name e)) (\<lambda>p. try_as SeFs (RemoveDirAll p Done) (\<lambda>_. sweep_entries es))
      else sweep_entries es)"

definition sweep_staged :: "(store_error + unit) prog" where
  "sweep_staged = try_as SeFs (ReadDir rp_root Done) sweep_entries"

definition count_staged :: "(store_error + nat) prog" where
  "count_staged = try_as SeFs (ReadDir rp_root Done) (\<lambda>es. Done (Inr (length (filter is_staged es))))"

definition release_lock :: "(store_error + unit) prog" where
  "release_lock =
     tryP sweep_staged (\<lambda>_.
     try_res SeFs (rp_new REWRITE_DIR) (\<lambda>lock.
     try_as SeFs (RemoveDirAll lock Done) (\<lambda>_. Done (Inr ()))))"

definition release_unstarted :: "(store_error + unit) prog" where
  "release_unstarted =
     try_res SeFs (rp_new REWRITE_DIR) (\<lambda>lock.
     try_as SeFs (ReadDir lock Done) (\<lambda>es.
     let held = filter (\<lambda>n. n \<noteq> PLAN_FILE \<and> n \<noteq> RECOVERY) (map de_name es) in
     if held \<noteq> []
     then Done (Inl (SeEncryption (EnLayout (''the lock's journal is missing or cannot be read, but the lock holds ''
       @ join_with '', '' held
       @ ''; nothing was changed. Back up the store folder before repairing it by hand''))))
     else release_lock))"

section \<open>Recoveries\<close>

datatype recovery_marker = RecoveryMarker (rm_started: "datetime option")

definition is_stale :: "datetime \<Rightarrow> recovery_marker \<Rightarrow> bool" where
  "is_stale now m =
     (case rm_started m of None \<Rightarrow> True | Some at \<Rightarrow> RECOVERY_STALE_SECS * 1000000000 \<le> now - at)"

definition recovery_path :: "fs_error + remote_path" where
  "recovery_path = under_rewrite RECOVERY"

definition recovery_in_progress :: "(store_error + recovery_marker option) prog" where
  "recovery_in_progress =
     try_res SeFs recovery_path (\<lambda>p.
     try_as SeFs (Stat p Done) (\<lambda>found.
     Done (Inr (map_option (\<lambda>m. RecoveryMarker (md_modified m)) found))))"

definition release_recovery :: "(store_error + unit) prog" where
  "release_recovery =
     try_res SeFs recovery_path (\<lambda>p. try_as SeFs (RemoveDirAll p Done) (\<lambda>_. Done (Inr ())))"

definition claim_recovery :: "'z jext_scheme \<Rightarrow> (store_error + unit) prog" where
  "claim_recovery E =
     try_res SeFs (rp_new REWRITE_DIR) (\<lambda>lock.
     try_as SeFs (Stat lock Done) (\<lambda>found.
     if found = None then Done (Inl nothing_to_recover) else
     try_res SeFs recovery_path (\<lambda>p.
     CreateDir p (\<lambda>r.
       case r of
         Inr _ \<Rightarrow> Done (Inr ())
       | Inl (FsAlreadyExists _) \<Rightarrow>
           tryP recovery_in_progress (\<lambda>m.
           Done (Inl (SeEncryption (EnRecovering
             (map_option (x_rfc3339 E) (Option.bind m rm_started))))))
       | Inl (FsNotFound _) \<Rightarrow> Done (Inl nothing_to_recover)
       | Inl e \<Rightarrow> Done (Inl (SeFs e))))))"

definition unclaim :: "store_error + 'a \<Rightarrow> (store_error + 'a) prog" where
  "unclaim result =
     (case result of
        Inr a \<Rightarrow> Done (Inr a)
      | Inl e \<Rightarrow> bind release_recovery (\<lambda>_. Done (Inl e)))"

end
