(* ===== verification/Slots.thy ===== *)
theory Slots
  imports Journal Header_Laws
begin

text \<open>
  Folders that move as a whole: \<open>sub v p\<close> is the tree below \<open>p\<close>. A rename takes the tree from one
  place to another and leaves every disjoint place as it is, so proofs about programs that rename
  folders only say which tree is where.
\<close>

type_synonym tree = "string list \<Rightarrow> vnode option"

definition sub :: "fsview \<Rightarrow> string list \<Rightarrow> tree" where
  "sub v p = (\<lambda>s. v (p @ s))"

abbreviation nothing :: tree where
  "nothing \<equiv> (\<lambda>_. None)"

definition apart :: "string list \<Rightarrow> string list \<Rightarrow> bool" where
  "apart p q \<longleftrightarrow> \<not> is_under p q \<and> \<not> is_under q p"

lemma sub_here: "sub v p [] = v p" "sub v (p @ s) t = sub v p (s @ t)"
  by (simp_all add: sub_def)

lemma tree_at_sub: "tree_at v p m \<longleftrightarrow> sub v p = m"
  by (auto simp: tree_at_def sub_def fun_eq_iff)

lemma sub_sub: "sub v (p @ s) = (\<lambda>t. sub v p (s @ t))"
  by (simp add: sub_def)

lemma apart_sym: "apart p q \<Longrightarrow> apart q p"
  by (simp add: apart_def)

lemma apart_under: "apart p q \<Longrightarrow> is_under q (q @ s) \<and> \<not> is_under p (q @ s)"
proof (intro conjI notI)
  assume a: "apart p q" and u: "is_under p (q @ s)"
  then obtain t where "q @ s = p @ t" by (auto simp: under_iff)
  then have "is_under p q \<or> is_under q p" by (metis append_eq_append_conv2 under_iff)
  with a show False by (simp add: apart_def)
qed simp

lemma apart_Cons [simp]: "apart (a # p) (b # q) \<longleftrightarrow> a \<noteq> b \<or> apart p q" "\<not> apart [] q" "\<not> apart p []"
  by (auto simp: apart_def is_under_def)

lemma sub_move [simp]:
  "sub (move_tree a b v) b = sub v a"
  "apart a b \<Longrightarrow> sub (move_tree a b v) a = nothing"
  "apart a c \<Longrightarrow> apart b c \<Longrightarrow> sub (move_tree a b v) c = sub v c"
  using apart_under [of a c] apart_under [of b c] apart_under [of b a] apart_sym [of a b]
  by (auto simp: sub_def move_tree_def fun_eq_iff)

lemma move_at: "\<not> is_under a q \<Longrightarrow> \<not> is_under b q \<Longrightarrow> move_tree a b v q = v q"
  by (simp add: move_tree_def)

lemma sub_cut [simp]:
  "sub (cut_tree p v) p = nothing"
  "apart p c \<Longrightarrow> sub (cut_tree p v) c = sub v c"
  using apart_under [of p c] by (auto simp: sub_def cut_tree_def fun_eq_iff)

lemma cut_at: "\<not> is_under p q \<Longrightarrow> cut_tree p v q = v q"
  by (simp add: cut_tree_def)

text \<open>A tree partly removed: what is apart from it stays.\<close>

lemma sub_partly_cut:
  assumes "\<forall>q. u' q = u q \<or> (is_under p q \<and> u' q = None)" "apart p c"
  shows "sub u' c = sub u c"
  using assms(1) apart_under [OF assms(2)] by (auto simp: sub_def fun_eq_iff)

lemma sub_update [simp]:
  "apart p c \<Longrightarrow> sub (v(p := x)) c = sub v c"
  "sub (v(p @ s := x)) p = (sub v p)(s := x)"
  by (auto simp: sub_def fun_eq_iff apart_def)

text \<open>Renaming a folder from a place to another that is apart from it.\<close>

lemma safe_move:
  assumes J: "stable S J" "\<And>u. J u \<Longrightarrow> I u" and v: "J v"
    and can: "\<And>u. J u \<Longrightarrow> u (comps p) \<noteq> None \<and> u (comps q) = None \<and> u (butlast (comps q)) = Some VDir"
    and ap: "apart (comps p) (comps q)"
    and moved: "\<And>u. J u \<Longrightarrow> safe S I (k (Inr ())) Q (move_tree (comps p) (comps q) u)"
    and failed: "\<And>e u. st_faulty S \<Longrightarrow> J u \<Longrightarrow> safe S I (k (Inl e)) Q u"
    and unsure: "\<And>e u. st_faulty S \<Longrightarrow> J u \<Longrightarrow> safe S I (k (Inl e)) Q (move_tree (comps p) (comps q) u)"
  shows "safe S I (Rename p q k) Q v"
proof (rule safe_call(5) [OF J v])
  fix u r u' assume u: "J u" and r: "rename_spec (st_faulty S) (comps p) (comps q) u r u'"
  have ne: "comps q \<noteq> []" "\<not> is_under (comps p) (comps q)" using ap by (auto simp: apart_def)
  then have c: "can_rename u (comps p) (comps q)" using can [OF u] by (simp add: can_rename_def)
  show "safe S I (k r) Q u'"
  proof (cases r)
    case (Inr x)
    then show ?thesis using r moved [OF u] by (simp add: rename_spec_def)
  next
    case (Inl e)
    then have "st_faulty S" "u' = u \<or> u' = move_tree (comps p) (comps q) u"
      using r c by (auto simp: rename_spec_def)
    then show ?thesis using Inl failed u unsure by blast
  qed
qed

text \<open>Looking whether something is there.\<close>

lemma safe_stat:
  assumes J: "stable S J" "\<And>u. J u \<Longrightarrow> I u" and v: "J v"
    and there: "\<And>m u. J u \<Longrightarrow> u (comps p) \<noteq> None \<Longrightarrow> md_is_dir m = (u (comps p) = Some VDir)
        \<Longrightarrow> safe S I (k (Inr (Some m))) Q u"
    and absent: "\<And>u. J u \<Longrightarrow> u (comps p) = None \<Longrightarrow> safe S I (k (Inr None)) Q u"
    and failed: "\<And>e u. st_faulty S \<Longrightarrow> J u \<Longrightarrow> safe S I (k (Inl e)) Q u"
  shows "safe S I (Stat p k) Q v"
proof (rule safe_call(4) [OF J v])
  fix u r assume u: "J u" and r: "stat_spec (st_faulty S) (comps p) u r"
  show "safe S I (k r) Q u"
  proof (cases r)
    case (Inl e)
    then show ?thesis using r failed u by (simp add: stat_spec_def)
  next
    case (Inr found)
    then show ?thesis using r there absent u by (cases found) (auto simp: stat_spec_def)
  qed
qed

text \<open>The same before the rest of a function.\<close>

lemma safe_try_stat:
  assumes "stable S J" "\<And>u. J u \<Longrightarrow> I u" "J v"
    and "\<And>m u. J u \<Longrightarrow> u (comps p) \<noteq> None \<Longrightarrow> md_is_dir m = (u (comps p) = Some VDir)
        \<Longrightarrow> safe S I (g (Some m)) Q u"
    and "\<And>u. J u \<Longrightarrow> u (comps p) = None \<Longrightarrow> safe S I (g None) Q u"
    and "\<And>e u. st_faulty S \<Longrightarrow> J u \<Longrightarrow> safe S I (Done (Inl (c e))) Q u"
  shows "safe S I (try_as c (Stat p Done) g) Q v"
  unfolding prog_simps by (rule safe_stat [OF assms(1-3)]) (use assms(4-6) in simp_all)

lemma safe_try_move:
  assumes "stable S J" "\<And>u. J u \<Longrightarrow> I u" "J v"
    and "\<And>u. J u \<Longrightarrow> u (comps p) \<noteq> None \<and> u (comps q) = None \<and> u (butlast (comps q)) = Some VDir"
    and "apart (comps p) (comps q)"
    and "\<And>u. J u \<Longrightarrow> safe S I (g ()) Q (move_tree (comps p) (comps q) u)"
    and "\<And>e u. st_faulty S \<Longrightarrow> J u \<Longrightarrow> safe S I (Done (Inl (c e))) Q u"
    and "\<And>e u. st_faulty S \<Longrightarrow> J u \<Longrightarrow> safe S I (Done (Inl (c e))) Q (move_tree (comps p) (comps q) u)"
  shows "safe S I (try_as c (Rename p q Done) g) Q v"
  unfolding prog_simps by (rule safe_move [OF assms(1-5)]) (use assms(6-8) in simp_all)

lemma safe_call_remove_file:
  assumes J: "stable S J" "\<And>u. J u \<Longrightarrow> I u" and v: "J v"
    and k: "\<And>u r u'. J u \<Longrightarrow> remove_file_spec (st_faulty S) (comps p) u r u' \<Longrightarrow> safe S I (k r) Q u'"
  shows "safe S I (RemoveFile p k) Q v"
  unfolding safe.simps
proof (intro allI impI conjI)
  fix u assume "st_others S v u"
  then have u: "J u" using stableD [OF J(1)] v by blast
  then show "I u" by (rule J(2))
  fix r u' assume "remove_file_spec (st_faulty S) (comps p) u r u'"
  with u show "safe S I (k r) Q u'" by (rule k)
qed

lemma safe_call_create_dir:
  assumes J: "stable S J" "\<And>u. J u \<Longrightarrow> I u" and v: "J v"
    and k: "\<And>u r u'. J u \<Longrightarrow> create_dir_spec (st_faulty S) (comps p) u r u' \<Longrightarrow> safe S I (k r) Q u'"
  shows "safe S I (CreateDir p k) Q v"
  unfolding safe.simps
proof (intro allI impI conjI)
  fix u assume "st_others S v u"
  then have u: "J u" using stableD [OF J(1)] v by blast
  then show "I u" by (rule J(2))
  fix r u' assume "create_dir_spec (st_faulty S) (comps p) u r u'"
  with u show "safe S I (k r) Q u'" by (rule k)
qed

section \<open>A client on its own\<close>

text \<open>
  The same rules for a client nobody else disturbs: the files are exactly as it left them, so a
  program is stepped through by applying the rule of its next call.
\<close>

lemma alone_done: "I u \<Longrightarrow> Q r u \<Longrightarrow> safe (alone F) I (Done r) Q u"
  by (rule safe_done [where J = "\<lambda>w. w = u"]) simp_all

lemma alone_stat:
  assumes "I u"
    and "\<And>m. u (comps p) \<noteq> None \<Longrightarrow> md_is_dir m = (u (comps p) = Some VDir) \<Longrightarrow> safe (alone F) I (k (Inr (Some m))) Q u"
    and "u (comps p) = None \<Longrightarrow> safe (alone F) I (k (Inr None)) Q u"
    and "\<And>e. F \<Longrightarrow> safe (alone F) I (k (Inl e)) Q u"
  shows "safe (alone F) I (Stat p k) Q u"
  by (rule safe_stat [where J = "\<lambda>w. w = u"]) (use assms in auto)

lemma alone_there:
  assumes "I u" "u (comps p) \<noteq> None" "\<And>m. safe (alone F) I (k (Inr (Some m))) Q u"
    and "\<And>e. F \<Longrightarrow> safe (alone F) I (k (Inl e)) Q u"
  shows "safe (alone F) I (Stat p k) Q u"
  by (rule alone_stat) (use assms in auto)

lemma alone_absent:
  assumes "I u" "u (comps p) = None" "safe (alone F) I (k (Inr None)) Q u"
    and "\<And>e. F \<Longrightarrow> safe (alone F) I (k (Inl e)) Q u"
  shows "safe (alone F) I (Stat p k) Q u"
  by (rule alone_stat) (use assms in auto)

lemma alone_move:
  assumes "I u" "u (comps p) \<noteq> None" "u (comps q) = None" "u (butlast (comps q)) = Some VDir"
    "apart (comps p) (comps q)"
    and "safe (alone F) I (k (Inr ())) Q (move_tree (comps p) (comps q) u)"
    and "\<And>e. F \<Longrightarrow> safe (alone F) I (k (Inl e)) Q u"
    and "\<And>e. F \<Longrightarrow> safe (alone F) I (k (Inl e)) Q (move_tree (comps p) (comps q) u)"
  shows "safe (alone F) I (Rename p q k) Q u"
  by (rule safe_move [where J = "\<lambda>w. w = u"]) (use assms in auto)

lemma alone_read_dir:
  assumes "I u"
    and "\<And>es. u (comps p) = Some VDir \<Longrightarrow> entries_of u (comps p) es \<Longrightarrow> safe (alone F) I (k (Inr es)) Q u"
    and "\<And>e. F \<or> u (comps p) \<noteq> Some VDir \<Longrightarrow> safe (alone F) I (k (Inl e)) Q u"
  shows "safe (alone F) I (ReadDir p k) Q u"
proof (rule safe_call(2) [where J = "\<lambda>w. w = u"])
  fix w r assume w: "w = u" and r: "read_dir_spec (st_faulty (alone F)) (comps p) w r"
  show "safe (alone F) I (k r) Q w"
  proof (cases r)
    case (Inl e)
    have "F \<or> u (comps p) \<noteq> Some VDir"
      using r w Inl by (cases e) (auto simp: read_dir_spec_def)
    then show ?thesis using Inl w assms(3) by simp
  next
    case (Inr es)
    then show ?thesis using r w assms(2) by (simp add: read_dir_spec_def)
  qed
qed (use assms in simp_all)

lemma alone_remove:
  assumes "I u" "comps p \<noteq> []"
    and "safe (alone F) I (k (Inr ())) Q (cut_tree (comps p) u)"
    and "\<And>e u'. F \<or> (\<exists>b. u (comps p) = Some (VFile b)) \<Longrightarrow>
      \<forall>q. u' q = u q \<or> (is_under (comps p) q \<and> u' q = None) \<Longrightarrow> safe (alone F) I (k (Inl e)) Q u'"
  shows "safe (alone F) I (RemoveDirAll p k) Q u"
proof (rule safe_call(9) [where J = "\<lambda>w. w = u"])
  fix w r u' assume w: "w = u" and r: "remove_dir_all_spec (st_faulty (alone F)) (comps p) w r u'"
  show "safe (alone F) I (k r) Q u'"
    using r w assms by (cases r) (auto simp: remove_dir_all_spec_def)
qed (use assms in simp_all)

lemma alone_remove_file:
  assumes "I u"
    and "u (comps p) \<noteq> Some VDir \<Longrightarrow> safe (alone F) I (k (Inr ())) Q (u(comps p := None))"
    and "\<And>e. F \<or> u (comps p) = Some VDir \<Longrightarrow> safe (alone F) I (k (Inl e)) Q u"
    and "\<And>e. F \<Longrightarrow> u (comps p) \<noteq> Some VDir \<Longrightarrow> safe (alone F) I (k (Inl e)) Q (u(comps p := None))"
  shows "safe (alone F) I (RemoveFile p k) Q u"
proof (rule safe_call_remove_file [where J = "\<lambda>w. w = u"])
  fix w r u' assume w: "w = u" and r: "remove_file_spec (st_faulty (alone F)) (comps p) w r u'"
  show "safe (alone F) I (k r) Q u'"
    using r w assms by (cases r) (auto simp: remove_file_spec_def)
qed (use assms in simp_all)

lemmas alone_intros = alone_done alone_stat alone_move alone_read_dir alone_remove alone_remove_file

lemma try_as_if [prog_simps]: "try_as c (if b then m else n) g = (if b then try_as c m g else try_as c n g)"
  by simp

section \<open>The paths of a change\<close>

lemma valid_change [simp]:
  "\<not> invalid_component ''header''" "\<not> invalid_component ''old-header''" "\<not> invalid_component ''previous''"
  "\<not> invalid_component ''plan.json''" "\<not> invalid_component ''recovery''" "\<not> invalid_component ''source''"
  by (simp_all add: invalid_component_def)

lemma change_paths:
  "under_rewrite ''header'' = Inr (rp_of [''.rewrite'', ''header''])"
  "under_rewrite ''old-header'' = Inr (rp_of [''.rewrite'', ''old-header''])"
  "under_rewrite ''previous'' = Inr (rp_of [''.rewrite'', ''previous''])"
  "under_rewrite ''plan.json'' = Inr (rp_of [''.rewrite'', ''plan.json''])"
  "under_rewrite ''recovery'' = Inr (rp_of [''.rewrite'', ''recovery''])"
  using rp_new_of [of "[''.rewrite'', ''header'']"] rp_new_of [of "[''.rewrite'', ''old-header'']"]
    rp_new_of [of "[''.rewrite'', ''previous'']"] rp_new_of [of "[''.rewrite'', ''plan.json'']"]
    rp_new_of [of "[''.rewrite'', ''recovery'']"]
  by (simp_all add: under_rewrite_def REWRITE_DIR_def slash_def)

lemmas change_names = NEW_HEADER_def OLD_HEADER_def PREVIOUS_def PLAN_FILE_def RECOVERY_def REWRITE_DIR_def
  encryption_dir_def ENCRYPTION_DIR_def HEADER_FILE_def STOP_FILE_def PLAIN_DIR_def TMP_DIR_def

end
