(* ===== verification/Sub_Prog.thy ===== *)
theory Sub_Prog
  imports Sub_Fs
begin

text \<open>
  A store of its own inside a folder of another store (\<open>plain/\<close>, \<open>.rewrite/source/\<close>) runs over a
  \<open>SubFs\<close>. \<open>sub_prog\<close> is such a program as a program over the outer file system: every call goes
  below the folder. It is the program run on \<open>sub_fs\<close>.
\<close>

definition under_or :: "remote_path \<Rightarrow> remote_path \<Rightarrow> (fs_error \<Rightarrow> 'a) \<Rightarrow> (remote_path \<Rightarrow> 'a) \<Rightarrow> 'a" where
  "under_or pre p bad good = (case sub_under pre p of Inl e \<Rightarrow> bad e | Inr q \<Rightarrow> good q)"

primrec sub_prog :: "remote_path \<Rightarrow> 'a prog \<Rightarrow> 'a prog" where
  "sub_prog pre (Done a) = Done a"
| "sub_prog pre (CreateDirAll p k) =
     under_or pre p (\<lambda>e. sub_prog pre (k (Inl e))) (\<lambda>q. CreateDirAll q (\<lambda>r. sub_prog pre (k r)))"
| "sub_prog pre (ReadDir p k) =
     under_or pre p (\<lambda>e. sub_prog pre (k (Inl e))) (\<lambda>q. ReadDir q (\<lambda>r. sub_prog pre (k r)))"
| "sub_prog pre (OpenRead p k) =
     under_or pre p (\<lambda>e. sub_prog pre (k (Inl e))) (\<lambda>q. OpenRead q (\<lambda>r. sub_prog pre (k r)))"
| "sub_prog pre (OpenWrite p k) =
     under_or pre p (\<lambda>e. sub_prog pre (k (Inl e))) (\<lambda>q. OpenWrite q (\<lambda>r. sub_prog pre (k r)))"
| "sub_prog pre (WriteAll p b k) =
     under_or pre p (\<lambda>e. sub_prog pre (k (Inl (IoError IoOther ''never opened''))))
       (\<lambda>q. WriteAll q b (\<lambda>r. sub_prog pre (k r)))"
| "sub_prog pre (Shutdown p k) =
     under_or pre p (\<lambda>e. sub_prog pre (k (Inl (IoError IoOther ''never opened''))))
       (\<lambda>q. Shutdown q (\<lambda>r. sub_prog pre (k r)))"
| "sub_prog pre (Rename p p' k) =
     under_or pre p (\<lambda>e. sub_prog pre (k (Inl e))) (\<lambda>q.
     under_or pre p' (\<lambda>e. sub_prog pre (k (Inl e))) (\<lambda>q'. Rename q q' (\<lambda>r. sub_prog pre (k r))))"
| "sub_prog pre (RemoveDirAll p k) =
     under_or pre p (\<lambda>e. sub_prog pre (k (Inl e))) (\<lambda>q. RemoveDirAll q (\<lambda>r. sub_prog pre (k r)))"
| "sub_prog pre (Stat p k) =
     under_or pre p (\<lambda>e. sub_prog pre (k (Inl e))) (\<lambda>q. Stat q (\<lambda>r. sub_prog pre (k r)))"
| "sub_prog pre (CreateDir p k) =
     under_or pre p (\<lambda>e. sub_prog pre (k (Inl e))) (\<lambda>q. CreateDir q (\<lambda>r. sub_prog pre (k r)))"
| "sub_prog pre (RemoveFile p k) =
     under_or pre p (\<lambda>e. sub_prog pre (k (Inl e))) (\<lambda>q. RemoveFile q (\<lambda>r. sub_prog pre (k r)))"
| "sub_prog pre (Now k) = Now (\<lambda>t. sub_prog pre (k t))"
| "sub_prog pre (NextU64 k) = NextU64 (\<lambda>n. sub_prog pre (k n))"
| "sub_prog pre (RandomBytes n k) = RandomBytes n (\<lambda>r. sub_prog pre (k r))"

lemma sub_prog_run_from:
  assumes "ws \<noteq> []" "ws' \<noteq> []" "hd ws' = hd ws"
  shows "fst (run_from (sub_fs B pre) m ws') = fst (run_from B (sub_prog pre m) ws)
    \<and> hd (snd (run_from (sub_fs B pre) m ws')) = hd (snd (run_from B (sub_prog pre m) ws))"
  using assms
  by (induction m arbitrary: ws ws')
    (auto simp: sub_fs_def at_under_def writer_under_def under_or_def then_run_def split_beta rangeI split: sum.splits)

text \<open>A program run on a file system rooted at a folder and its translation run on the outer file
  system answer the same and leave the files the same.\<close>

theorem sub_prog_is_sub_fs: "run (sub_fs B pre) m w = run B (sub_prog pre m) w"
  using sub_prog_run_from [of "[w]" "[w]" B pre m] by (simp add: run_def split_beta)

end
