(* ===== verification/Confined.thy ===== *)
theory Confined
  imports Slots Sub_Prog
begin

text \<open>
  Where a program writes: \<open>changes A m\<close> says that every call of \<open>m\<close> that changes files names a path
  with \<open>A\<close>, whatever the calls answer. What such calls cannot touch stays as it is.
\<close>

primrec changes :: "(string list \<Rightarrow> bool) \<Rightarrow> 'a prog \<Rightarrow> bool" where
  "changes A (Done a) = True"
| "changes A (CreateDirAll p k) = (A (comps p) \<and> (\<forall>r. changes A (k r)))"
| "changes A (ReadDir p k) = (\<forall>r. changes A (k r))"
| "changes A (OpenRead p k) = (\<forall>r. changes A (k r))"
| "changes A (OpenWrite p k) = (A (comps p) \<and> (\<forall>r. changes A (k r)))"
| "changes A (WriteAll p b k) = (A (comps p) \<and> (\<forall>r. changes A (k r)))"
| "changes A (Shutdown p k) = (\<forall>r. changes A (k r))"
| "changes A (Rename p q k) = (A (comps p) \<and> A (comps q) \<and> (\<forall>r. changes A (k r)))"
| "changes A (RemoveDirAll p k) = (A (comps p) \<and> (\<forall>r. changes A (k r)))"
| "changes A (Stat p k) = (\<forall>r. changes A (k r))"
| "changes A (CreateDir p k) = (A (comps p) \<and> (\<forall>r. changes A (k r)))"
| "changes A (RemoveFile p k) = (A (comps p) \<and> (\<forall>r. changes A (k r)))"
| "changes A (Now k) = (\<forall>r. changes A (k r))"
| "changes A (NextU64 k) = (\<forall>r. changes A (k r))"
| "changes A (RandomBytes n k) = (\<forall>r. changes A (k r))"

named_theorems changes_simps \<open>where programs write\<close>

lemma changes_bind [changes_simps]: "changes A m \<Longrightarrow> (\<And>x. changes A (g x)) \<Longrightarrow> changes A (bind m g)"
  by (induction m) auto

lemma changes_try [changes_simps]: "changes A m \<Longrightarrow> (\<And>x. changes A (g x)) \<Longrightarrow> changes A (try_as c m g)"
  unfolding try_as_def by (rule changes_bind) (auto split: sum.splits)

lemma changes_try_res [changes_simps]: "(\<And>x. r = Inr x \<Longrightarrow> changes A (g x)) \<Longrightarrow> changes A (try_res c r g)"
  by (auto simp: try_res_def split: sum.splits)

lemma changes_reads: "reads_only m \<Longrightarrow> changes A m"
  by (induction m) auto

lemma changes_mono: "changes A m \<Longrightarrow> (\<And>p. A p \<Longrightarrow> B p) \<Longrightarrow> changes B m"
  by (induction m) auto

section \<open>What stays\<close>

text \<open>A call below \<open>p\<close> changes what is below \<open>p\<close> and may make the folders above it.\<close>

definition touched :: "(string list \<Rightarrow> bool) \<Rightarrow> fsview \<Rightarrow> fsview \<Rightarrow> bool" where
  "touched A u u' \<longleftrightarrow>
     (\<forall>q. u' q = u q \<or> (\<exists>p. A p \<and> (is_under p q \<or> is_under q p \<and> u q = None \<and> u' q = Some VDir)))"

definition spared :: "(string list \<Rightarrow> bool) \<Rightarrow> (fsview \<Rightarrow> bool) \<Rightarrow> bool" where
  "spared A K \<longleftrightarrow> (\<forall>u u'. K u \<longrightarrow> touched A u u' \<longrightarrow> K u')"

lemma touched_refl [simp]: "touched A u u"
  by (simp add: touched_def)

lemma touchedI:
  assumes "A p" "\<And>q. u' q = u q \<or> is_under p q \<or> is_under q p \<and> u q = None \<and> u' q = Some VDir"
  shows "touched A u u'"
  unfolding touched_def using assms by blast

lemma touched_mk_dirs: "A p \<Longrightarrow> is_under q p \<Longrightarrow> touched A u (mk_dirs q u)"
  by (rule touchedI) (auto simp: mk_dirs_def intro: under_trans)

lemma touched_append: "A p \<Longrightarrow> touched A u (append_file p b u)"
  by (rule touchedI) (auto simp: append_file_def split: option.splits vnode.splits)

lemma touched_upd: "A p \<Longrightarrow> touched A u (u(p := x))"
  by (rule touchedI) auto

lemma touched_move: "A p \<Longrightarrow> A p' \<Longrightarrow> touched A u (move_tree p p' u)"
  unfolding touched_def move_tree_def by auto

lemma touched_cut: "A p \<Longrightarrow> touched A u (cut_tree p u)"
  by (rule touchedI) (auto simp: cut_tree_def)

lemma spec_touched:
  fixes A :: "string list \<Rightarrow> bool"
  shows "create_dir_all_spec F p u r u' \<Longrightarrow> A p \<Longrightarrow> touched A u u'"
    and "open_write_spec F p u r u' \<Longrightarrow> A p \<Longrightarrow> touched A u u'"
    and "write_all_spec F p b u r2 u' \<Longrightarrow> A p \<Longrightarrow> touched A u u'"
    and "rename_spec F p p' u r u' \<Longrightarrow> A p \<Longrightarrow> A p' \<Longrightarrow> touched A u u'"
    and "remove_dir_all_spec F p u r' u' \<Longrightarrow> A p \<Longrightarrow> touched A u u'"
    and "create_dir_spec F p u r u' \<Longrightarrow> A p \<Longrightarrow> touched A u u'"
    and "remove_file_spec F p u r u' \<Longrightarrow> A p \<Longrightarrow> touched A u u'"
proof -
  show "create_dir_all_spec F p u r u' \<Longrightarrow> A p \<Longrightarrow> touched A u u'"
    by (cases r) (auto simp: create_dir_all_spec_def intro: touched_mk_dirs)
  show "open_write_spec F p u r u' \<Longrightarrow> A p \<Longrightarrow> touched A u u'"
    by (cases r) (auto simp: open_write_spec_def intro: touched_upd)
  show "write_all_spec F p b u r2 u' \<Longrightarrow> A p \<Longrightarrow> touched A u u'"
    by (cases r2) (auto simp: write_all_spec_def intro: touched_append)
  show "rename_spec F p p' u r u' \<Longrightarrow> A p \<Longrightarrow> A p' \<Longrightarrow> touched A u u'"
    by (cases r) (auto simp: rename_spec_def intro: touched_move)
  show "touched A u u'" if s: "remove_dir_all_spec F p u r' u'" "A p"
  proof (cases r')
    case (Inl e)
    then show ?thesis using s by (intro touchedI [of A p]) (auto simp: remove_dir_all_spec_def)
  qed (use s in \<open>simp add: remove_dir_all_spec_def touched_cut\<close>)
  show "create_dir_spec F p u r u' \<Longrightarrow> A p \<Longrightarrow> touched A u u'"
    by (cases r) (auto simp: create_dir_spec_def Let_def intro: touched_upd)
  show "remove_file_spec F p u r u' \<Longrightarrow> A p \<Longrightarrow> touched A u u'"
    by (cases r) (auto simp: remove_file_spec_def intro: touched_upd)
qed

lemma changes_safe:
  assumes "changes A m" "spared A K" "\<not> A []" "K v"
  shows "safe (alone F) K m (\<lambda>_. K) v"
proof -
  have K: "K u'" if "K u" "touched A u u'" for u u' using assms(2) that by (simp add: spared_def)
  show ?thesis
    using assms(1,4)
  proof (induction m arbitrary: v)
    case (RemoveDirAll p k)
    then show ?case using assms(3) spec_touched(5) K by (fastforce simp: safe.simps)
  next
    case (Rename p q k)
    then show ?case using spec_touched(4) K by (fastforce simp: safe.simps)
  next
    case (WriteAll p b k)
    then show ?case using spec_touched(3) K by (fastforce simp: safe.simps)
  next
    case (CreateDirAll p k)
    then show ?case using spec_touched(1) K by (fastforce simp: safe.simps)
  next
    case (OpenWrite p k)
    then show ?case using spec_touched(2) K by (fastforce simp: safe.simps)
  next
    case (CreateDir p k)
    then show ?case using spec_touched(6) K by (fastforce simp: safe.simps)
  next
    case (RemoveFile p k)
    then show ?case using spec_touched(7) K by (fastforce simp: safe.simps)
  qed (auto simp: safe.simps shutdown_spec_def)
qed

lemma changes_wf:
  assumes "changes A m" "\<not> A []" "fs_wf v"
  shows "safe (alone F) fs_wf m (\<lambda>_. fs_wf) v"
  using assms(1,3)
proof (induction m arbitrary: v)
  case (RemoveDirAll p k)
  then have "comps p \<noteq> []" using assms(2) by auto
  then show ?case using RemoveDirAll spec_wf(6) by (auto simp: safe.simps)
qed (auto simp: safe.simps shutdown_spec_def dest: spec_wf)

lemma safe_both: "safe S I m P v \<Longrightarrow> safe S J m Q v \<Longrightarrow> safe S (\<lambda>u. I u \<and> J u) m (\<lambda>r u. P r u \<and> Q r u) v"
  by (induction m arbitrary: v) (simp_all add: safe.simps)

text \<open>A tree apart from everything that is written, and everything outside the folder that is.\<close>

lemma spared_sub:
  assumes "\<And>p. A p \<Longrightarrow> apart p c"
  shows "spared A (\<lambda>u. sub u c = t)"
  unfolding spared_def
proof (intro allI impI)
  fix u u' assume u: "sub u c = t" and t: "touched A u u'"
  have "u' (c @ s) = u (c @ s)" for s
  proof (rule ccontr)
    assume "u' (c @ s) \<noteq> u (c @ s)"
    then obtain p where "A p" "is_under p (c @ s) \<or> is_under (c @ s) p" using t unfolding touched_def by blast
    then show False using apart_under [OF assms, of p s] assms [of p] by (auto simp: apart_def under_iff)
  qed
  then have "sub u' c = sub u c" by (simp add: sub_def)
  with u show "sub u' c = t" by simp
qed

definition kept_but :: "string \<Rightarrow> fsview \<Rightarrow> fsview \<Rightarrow> bool" where
  "kept_but n v u \<longleftrightarrow> u [] = v [] \<and> (\<forall>q. \<not> is_under [n] q \<longrightarrow> u q = v q)"

lemma spared_kept:
  assumes "\<And>p. A p \<Longrightarrow> is_under [n] p" "v [] = Some VDir"
  shows "spared A (kept_but n v)"
  unfolding spared_def kept_but_def
proof (intro allI impI)
  fix u u' assume u: "u [] = v [] \<and> (\<forall>q. \<not> is_under [n] q \<longrightarrow> u q = v q)" and t: "touched A u u'"
  have "u' q = u q" if q: "\<not> is_under [n] q" for q
  proof (rule ccontr)
    assume "u' q \<noteq> u q"
    then obtain p where p: "A p" "is_under p q \<or> is_under q p \<and> u q = None" using t unfolding touched_def by metis
    have "is_under [n] p" using assms(1) p(1) .
    then obtain s where s: "p = n # s" by (auto simp: under_iff)
    from p(2) show False
    proof
      assume "is_under p q"
      then show False using \<open>is_under [n] p\<close> q under_trans by blast
    next
      assume "is_under q p \<and> u q = None"
      then have "q = []" using s q by (cases q) (auto simp: is_under_def)
      then show False using \<open>is_under q p \<and> u q = None\<close> u assms(2) by simp
    qed
  qed
  with u show "u' [] = v [] \<and> (\<forall>q. \<not> is_under [n] q \<longrightarrow> u' q = v q)" by (simp add: is_under_def)
qed

lemma kept_sub: "kept_but n v u \<Longrightarrow> c \<noteq> [] \<Longrightarrow> hd c \<noteq> n \<Longrightarrow> sub u c = sub v c"
  by (cases c) (auto simp: kept_but_def sub_def is_under_def)

section \<open>Reading below a folder\<close>

lemma reads_only_sub: "reads_only m \<Longrightarrow> reads_only (sub_prog pre m)"
  by (induction m) (auto simp: under_or_def split: sum.splits)

end
