(* ===== verification/Sample_Journal.thy ===== *)
theory Sample_Journal
  imports Journal Sample_Store
begin

text \<open>
  A concrete codec for journals, for the witnesses: a first byte tells the two records apart.
\<close>

definition bool_codec :: "bool codec" where
  "bool_codec = iso_codec (\<lambda>b. if b then 1 else 0) (\<lambda>n. n = 1) nat_codec"

definition plan_codec :: "rewrite_plan codec" where
  "plan_codec =
     iso_codec (\<lambda>p. ((pl_kind p = Migrate, pl_started_at p), (pl_from_key p, pl_to_key p), pl_items p))
       (\<lambda>((k, s), (f, t), n).
          \<lparr>pl_kind = (if k then Migrate else Rotate), pl_started_at = s, pl_from_key = f, pl_to_key = t, pl_items = n\<rparr>)
       (pair_codec (pair_codec bool_codec string_codec)
         (pair_codec (pair_codec (option_codec string_codec) string_codec) nat_codec))"

definition change_codec :: "header_change codec" where
  "change_codec =
     iso_codec (\<lambda>c. ((hc_kind c = SetUp, hc_kind c = FreshStart), hc_started_at c, hc_key c))
       (\<lambda>((a, b), s, k). \<lparr>hc_kind = (if a then SetUp else if b then FreshStart else NewWords), hc_started_at = s, hc_key = k\<rparr>)
       (pair_codec (pair_codec bool_codec bool_codec) (pair_codec string_codec string_codec))"

lemma bool_codec_ok: "codec_ok bool_codec"
  unfolding bool_codec_def by (intro codecs_ok) simp

lemma change_codecs_ok: "codec_ok plan_codec" "codec_ok change_codec"
proof -
  have p: "(case ((pl_kind p = Migrate, pl_started_at p), (pl_from_key p, pl_to_key p), pl_items p) of
      ((k, s), (f, t), n) \<Rightarrow>
        \<lparr>pl_kind = (if k then Migrate else Rotate), pl_started_at = s, pl_from_key = f, pl_to_key = t, pl_items = n\<rparr>) = p"
    for p by (cases "pl_kind p") simp_all
  have c: "(case ((hc_kind c = SetUp, hc_kind c = FreshStart), hc_started_at c, hc_key c) of
      ((a, b), s, k) \<Rightarrow> \<lparr>hc_kind = (if a then SetUp else if b then FreshStart else NewWords), hc_started_at = s, hc_key = k\<rparr>) = c"
    for c by (cases "hc_kind c") simp_all
  show "codec_ok plan_codec" unfolding plan_codec_def by (intro codecs_ok bool_codec_ok) (use p in auto)
  show "codec_ok change_codec" unfolding change_codec_def by (intro codecs_ok bool_codec_ok) (use c in auto)
qed

definition tagged :: "byte \<Rightarrow> 'a codec \<Rightarrow> bytes \<Rightarrow> string + 'a" where
  "tagged t C b = (case b of x # r \<Rightarrow> if x = t then reading C r else Inl ''another kind'' | [] \<Rightarrow> Inl ''empty'')"

definition sample_jext :: jext where
  "sample_jext = hext.extend sample_ext
     (jext.fields
       (\<lambda>b. case (tagged 0 plan_codec b, tagged 1 change_codec b) of
              (Inr p, _) \<Rightarrow> Inr (rewrite_kind_name (pl_kind p))
            | (_, Inr c) \<Rightarrow> Inr (change_kind_name (hc_kind c))
            | _ \<Rightarrow> Inl ''not a journal'')
       (tagged 0 plan_codec) (tagged 1 change_codec)
       (\<lambda>b. case (tagged 0 plan_codec b, tagged 1 change_codec b) of
              (Inr p, _) \<Rightarrow> Some (pl_started_at p)
            | (_, Inr c) \<Rightarrow> Some (hc_started_at c)
            | _ \<Rightarrow> None)
       (\<lambda>p. 0 # fst plan_codec p) (\<lambda>c. 1 # fst change_codec c)
       (\<lambda>_. ''1970-01-01T00:00:00Z''))"

lemma sample_jext_laws:
  "hex_laws sample_jext" "sha256_laws sample_jext" "kdf_laws sample_jext" "aead_laws sample_jext"
  "header_laws sample_jext" "journal_laws sample_jext"
proof -
  show "hex_laws sample_jext" "sha256_laws sample_jext" "kdf_laws sample_jext" "aead_laws sample_jext"
    using sample_ext_laws(1)
    by (simp_all add: sample_jext_def hext.extend_def jext.fields_def fext_laws_def
        hex_laws_def sha256_laws_def kdf_laws_def aead_laws_def)
  show "header_laws sample_jext"
    using sample_ext_laws(2) by (simp add: sample_jext_def hext.extend_def jext.fields_def header_laws_def)
  have r: "reading C (fst C x) = Inr x" if "codec_ok C" for C :: "'c codec" and x
    using reading_back [OF that, of x "[]"] by simp
  show "journal_laws sample_jext"
    by (simp add: sample_jext_def hext.extend_def jext.fields_def journal_laws_def tagged_def r change_codecs_ok)
qed

end
