(* ===== verification/Journal_Laws.thy ===== *)
theory Journal_Laws
  imports Slots Sample_Journal
begin

text \<open>
  Taking the lock: the journal and the headers are written into a private folder, which becomes the
  lock in one rename. Whatever fails and whatever other clients do, the lock is never there without
  its whole contents, and of several clients that reach for it one gets it.
\<close>

section \<open>What a lock holds\<close>

definition staged_name :: "'z jext_scheme \<Rightarrow> bytes \<Rightarrow> string" where
  "staged_name E b = STAGING_PREFIX @ x_hex_encode E b"

fun add_headers :: "'z jext_scheme \<Rightarrow> (string \<times> store_header) list \<Rightarrow> tree \<Rightarrow> tree" where
  "add_headers E [] m = m"
| "add_headers E ((f, h) # hs) m =
     add_headers E hs (m([f] \<mapsto> VDir, [f, ''header.json''] \<mapsto> VFile (to_json E h)))"

definition lock_tree :: "'z jext_scheme \<Rightarrow> bytes \<Rightarrow> (string \<times> store_header) list \<Rightarrow> tree" where
  "lock_tree E json headers = add_headers E headers [[] \<mapsto> VDir, [''plan.json''] \<mapsto> VFile json]"

definition header_folders :: "(string \<times> store_header) list \<Rightarrow> bool" where
  "header_folders hs \<longleftrightarrow> (\<forall>(f, h) \<in> set hs. f \<in> {''header'', ''old-header''})"

lemma lock_tree_root [simp]: "lock_tree E json hs [] = Some VDir"
proof -
  have "add_headers E hs m [] = m []" for m by (induction hs arbitrary: m) auto
  then show ?thesis by (simp add: lock_tree_def)
qed

lemma staged_valid:
  assumes "hex_laws E"
  shows "\<not> invalid_component (staged_name E b)"
  unfolding staged_name_def STAGING_PREFIX_def
  using hex_lawsD [OF assms] by (intro valid_prefixed) (auto simp: invalid_component_def lower_hex_list_all list_all_iff)

lemma staged_new:
  "hex_laws E \<Longrightarrow> rp_new (STAGING_PREFIX @ x_hex_encode E b) = Inr (rp_of [staged_name E b])"
  using rp_new_of [of "[staged_name E b]"] staged_valid [of E b] by (simp add: staged_name_def)

lemma staged_not_lock [simp]: "staged_name E b \<noteq> ''.rewrite''" "''.rewrite'' \<noteq> staged_name E b"
  by (simp_all add: staged_name_def STAGING_PREFIX_def)

section \<open>Writing in a private folder\<close>

lemma safe_mk_private:
  assumes D: "owns S I D" and p: "comps p = D @ [f]" and v: "I v" "tree_at v D m"
    and m: "m [] = Some VDir" "\<And>b. m [f] \<noteq> Some (VFile b)"
    and above: "\<And>u q. I u \<Longrightarrow> is_under q D \<Longrightarrow> q \<noteq> D \<Longrightarrow> u q = Some VDir"
    and ok: "\<And>u. I u \<Longrightarrow> tree_at u D (m([f] \<mapsto> VDir)) \<Longrightarrow> safe S I (k (Inr ())) Q u"
    and err: "\<And>e u. st_faulty S \<Longrightarrow> I u \<Longrightarrow> safe S I (k (Inl e)) Q u"
  shows "safe S I (CreateDirAll p k) Q v"
proof (rule safe_create_dir_all [where J = "\<lambda>u. I u \<and> (tree_at u D m \<or> tree_at u D (m([f] \<mapsto> VDir)))"])
  let ?J = "\<lambda>u. I u \<and> (tree_at u D m \<or> tree_at u D (m([f] \<mapsto> VDir)))"
  show "stable S ?J"
    unfolding stable_def using ownsD(2,3) [OF D] stableD [OF ownsD(1) [OF D]] by blast
  have dir: "u q = Some VDir" if "?J u" "is_under q D" for u q
    using that above [of u q] m(1) by (cases "q = D") (auto simp: tree_at_def dest: spec [of _ "[]"])
  have at: "u (D @ [f]) = m [f] \<or> u (D @ [f]) = Some VDir" if "?J u" for u
    using that by (auto simp: tree_at_def)
  show "?J (mk_dirs q u)" if u: "?J u" and q: "is_under q (comps p)" for u q
  proof (cases "is_under q D")
    case True
    have "mk_dirs q u = u"
    proof (rule ext)
      fix x
      show "mk_dirs q u x = u x"
        using dir [OF u] under_trans [OF _ True, of x] by (auto simp: mk_dirs_def)
    qed
    then show ?thesis using u by simp
  next
    case False
    then have q: "q = D @ [f]" using q p by (simp add: under_snoc)
    have same: "mk_dirs q u x = u x" if "x \<noteq> q" for x
      using dir [OF u, of x] that q by (auto simp: mk_dirs_def under_snoc)
    have "I (mk_dirs q u)"
      by (rule ownsD(4) [OF D]) (use u q same in \<open>auto simp: under_iff\<close>)
    moreover have "tree_at (mk_dirs q u) D (m([f] \<mapsto> VDir))"
      unfolding tree_at_def
    proof (intro allI)
      fix s
      show "mk_dirs q u (D @ s) = (m([f] \<mapsto> VDir)) s"
      proof (cases "s = [f]")
        case True
        have "u q \<noteq> None \<Longrightarrow> u q = Some VDir"
          using at [OF u] m(2) q by (metis not_None_eq vnode.exhaust)
        then show ?thesis using True q by (auto simp: mk_dirs_def)
      next
        case False
        then show ?thesis using same [of "D @ s"] u q by (auto simp: tree_at_def)
      qed
    qed
    ultimately show ?thesis by blast
  qed
  show "safe S I (k (Inr ())) Q u" if "?J u" "u (comps p) = Some VDir" for u
  proof (rule ok)
    show "tree_at u D (m([f] \<mapsto> VDir))" using that p by (auto simp: tree_at_def)
  qed (use that in simp)
  show "safe S I (k (Inl e)) Q u"
    if "?J u" "st_faulty S \<or> (\<exists>q b. is_under q (comps p) \<and> u q = Some (VFile b))" for e u
  proof (rule err)
    have "u q \<noteq> Some (VFile b)" if "is_under q (comps p)" for q b
      using that dir [OF \<open>?J u\<close>, of q] at [OF \<open>?J u\<close>] m(2) p by (auto simp: under_snoc)
    then show "st_faulty S" using that by blast
  qed (use that in simp)
qed (use v in auto)

lemma write_header_safe:
  assumes D: "owns S I D" and val: "valid_comps (D @ [f])" and v: "I v" "tree_at v D m"
    and m: "m [] = Some VDir" "\<And>b. m [f] \<noteq> Some (VFile b)" "m [f, ''header.json''] \<noteq> Some VDir"
    and above: "\<And>u q. I u \<Longrightarrow> is_under q D \<Longrightarrow> q \<noteq> D \<Longrightarrow> u q = Some VDir"
  shows "safe S I (write_header_in E (rp_of (D @ [f])) h)
    (copied S I D False (\<lambda>_ m'. m' = m([f] \<mapsto> VDir, [f, ''header.json''] \<mapsto> VFile (to_json E h)))) v"
  unfolding write_header_in_def prog_simps
proof (rule safe_mk_private [where f = f and m = m and D = D])
  show "owns S I D" "I v" "tree_at v D m" "m [] = Some VDir" "m [f] \<noteq> Some (VFile b)" for b
    using D v m by simp_all
  show "u q = Some VDir" if "I u" "is_under q D" "q \<noteq> D" for u q
    using above that by blast
  have p: "comps (rp_of (D @ [f])) = D @ [f]" "comps (rp_of (D @ [f, ''header.json''])) = D @ [f, ''header.json'']"
    using val by (simp_all add: comps_rp_of valid_comps_def)
  then show "comps (rp_of (D @ [f])) = D @ [f]" by simp
  fix u assume u: "I u" "tree_at u D (m([f] \<mapsto> VDir))"
  have j: "rp_join (rp_of (D @ [f])) HEADER_FILE = Inr (rp_of (D @ [f, ''header.json'']))"
    using join_is [OF val valid_const(8)] by (simp add: HEADER_FILE_def)
  show "safe S I (try_res SeFs (Inr ()) (\<lambda>_. try_res SeFs (rp_join (rp_of (D @ [f])) HEADER_FILE)
      (\<lambda>path. try_as SeFs (write_file path (to_json E h)) (\<lambda>_. Done (Inr ())))))
    (copied S I D False (\<lambda>_ m'. m' = m([f] \<mapsto> VDir, [f, ''header.json''] \<mapsto> VFile (to_json E h)))) u"
    unfolding try_res_simps j
    by (rule safe_then_try [OF write_file_at [OF D p(2) _ u] ownsD(1) [OF D]])
      (use m in \<open>auto simp: copied_def intro: safe_copied_Inl [OF D] safe_copied_Inr [OF D]\<close>)
next
  fix e :: fs_error and u assume "st_faulty S" "I u"
  then show "safe S I (try_res SeFs (Inl e) (\<lambda>_. try_res SeFs (rp_join (rp_of (D @ [f])) HEADER_FILE)
      (\<lambda>path. try_as SeFs (write_file path (to_json E h)) (\<lambda>_. Done (Inr ())))))
    (copied S I D False (\<lambda>_ m'. m' = m([f] \<mapsto> VDir, [f, ''header.json''] \<mapsto> VFile (to_json E h)))) u"
    by (auto intro: safe_copied_Inl [OF D])
qed

lemma write_headers_safe:
  assumes D: "owns S I D" and val: "valid_comps D" and v: "I v" "tree_at v D m"
    and m: "m [] = Some VDir" and fs: "header_folders hs"
    and free: "\<And>f b. f \<in> {''header'', ''old-header''} \<Longrightarrow> m [f] \<noteq> Some (VFile b) \<and> m [f, ''header.json''] \<noteq> Some VDir"
    and above: "\<And>u q. I u \<Longrightarrow> is_under q D \<Longrightarrow> q \<noteq> D \<Longrightarrow> u q = Some VDir"
  shows "safe S I (write_headers E (rp_of D) hs) (copied S I D False (\<lambda>_ m'. m' = add_headers E hs m)) v"
  using v m fs free
proof (induction hs arbitrary: v m)
  case Nil
  then show ?case by (auto intro: safe_copied_Inr [OF D])
next
  case (Cons fh hs)
  obtain f h where fh: "fh = (f, h)" by (cases fh)
  have f: "f \<in> {''header'', ''old-header''}" "header_folders hs" using Cons.prems(4) fh by (auto simp: header_folders_def)
  have ok: "\<not> invalid_component f" using f by auto
  have vf: "valid_comps (D @ [f])" using val ok by (simp add: valid_comps_def)
  let ?m = "m([f] \<mapsto> VDir, [f, ''header.json''] \<mapsto> VFile (to_json E h))"
  show ?case
    unfolding fh write_headers.simps join_is [OF val ok] try_res_simps
  proof (rule safe_then_try [OF write_header_safe [OF D vf Cons.prems(1,2,3)] ownsD(1) [OF D]])
    show "m [f] \<noteq> Some (VFile b)" "m [f, ''header.json''] \<noteq> Some VDir" for b using Cons.prems(5) [OF f(1)] by auto
    show "u q = Some VDir" if "I u" "is_under q D" "q \<noteq> D" for u q using above that by blast
    fix x u assume "copied S I D False (\<lambda>_ m'. m' = ?m) (Inr x) u"
    then have u: "I u" "tree_at u D ?m" by (auto simp: copied_def)
    show "safe S I (write_headers E (rp_of D) hs) (copied S I D False (\<lambda>_ m'. m' = add_headers E ((f, h) # hs) m)) u"
      unfolding add_headers.simps
      by (rule Cons.IH [OF u]) (use Cons.prems f in auto)
  next
    fix e u assume "copied S I D False (\<lambda>_ m'. m' = ?m) (Inl e) u"
    then show "safe S I (Done (Inl e)) (copied S I D False (\<lambda>_ m'. m' = add_headers E ((f, h) # hs) m)) u"
      by (intro safe_copied_Inl [OF D]) (auto simp: copied_def)
  qed
qed

section \<open>Taking it\<close>

text \<open>
  A client that stages under names of its own, and an invariant that says nothing of these. \<open>mine\<close> is
  what the client is left with once it has the lock.
\<close>

definition locker ::
  "'z jext_scheme \<Rightarrow> setting \<Rightarrow> tree \<Rightarrow> (fsview \<Rightarrow> bool) \<Rightarrow> (fsview \<Rightarrow> bool) \<Rightarrow> bool" where
  "locker E S t I mine \<longleftrightarrow>
     stable S I \<and> stable S mine
     \<and> (\<forall>u. I u \<longrightarrow> u [] = Some VDir) \<and> (\<forall>u. mine u \<longrightarrow> I u)
     \<and> (\<forall>b. st_bytes S b \<longrightarrow>
          (\<forall>u u' s. st_others S u u' \<longrightarrow> u' (staged_name E b # s) = u (staged_name E b # s))
        \<and> (\<forall>u u'. I u \<longrightarrow> (\<forall>q. \<not> is_under [staged_name E b] q \<longrightarrow> u' q = u q) \<longrightarrow> I u')
        \<and> (\<forall>u. I u \<longrightarrow> u [''.rewrite''] = None \<longrightarrow> sub u [staged_name E b] = t \<longrightarrow>
             mine (move_tree [staged_name E b] [''.rewrite''] u)))"

definition unused_names :: "'z jext_scheme \<Rightarrow> setting \<Rightarrow> fsview \<Rightarrow> bool" where
  "unused_names E S v \<longleftrightarrow> (\<forall>b s. st_bytes S b \<longrightarrow> v (staged_name E b # s) = None)"

definition locked_by :: "setting \<Rightarrow> fsview \<Rightarrow> (fsview \<Rightarrow> bool) \<Rightarrow> store_error + unit \<Rightarrow> fsview \<Rightarrow> bool" where
  "locked_by S v mine r u \<longleftrightarrow>
     (case r of
        Inr _ \<Rightarrow> mine u
      | Inl e \<Rightarrow> st_faulty S \<or> e = SeEncryption (EnRewriting None) \<and> (quiet S \<longrightarrow> v [''.rewrite''] \<noteq> None))"

text \<open>In the client's private folder, while the lock was free when it started.\<close>

lemma publish_staged_safe:
  assumes L: "locker E S (lock_tree E json hs) I mine" and hex: "hex_laws E" and b: "st_bytes S b"
    and fs: "header_folders hs" and v: "I v" "tree_at v [staged_name E b] [[] \<mapsto> VDir]"
    and free: "quiet S \<Longrightarrow> v [''.rewrite''] = None"
  shows "safe S I (publish_staged E json hs (rp_of [staged_name E b]) (rp_of [''.rewrite'']))
    (\<lambda>r u. I u \<and> (case r of Inr _ \<Rightarrow> mine u | Inl e \<Rightarrow> st_faulty S \<or> e = SeEncryption (EnRewriting None) \<and> \<not> quiet S)) v"
proof -
  let ?D = "[staged_name E b]"
  let ?I = "\<lambda>u. I u \<and> (quiet S \<longrightarrow> u [''.rewrite''] = None)"
  let ?Q = "\<lambda>r u. I u \<and> (case r of Inr _ \<Rightarrow> mine u | Inl e \<Rightarrow> st_faulty S \<or> e = SeEncryption (EnRewriting None) \<and> \<not> quiet S)"
  have st: "stable S I" "stable S mine" using L by (simp_all add: locker_def)
  have own: "owns S ?I ?D"
    unfolding owns_def
  proof (intro conjI allI impI)
    show "stable S ?I" using st(1) by (auto simp: stable_def quiet_def)
    show "u' (?D @ s) = u (?D @ s)" if "st_others S u u'" for u u' s
      using L b that unfolding locker_def by simp
    show "I u'" if "?I u" "\<forall>q. \<not> is_under ?D q \<longrightarrow> u' q = u q" for u u'
      using L b that unfolding locker_def by blast
    show "u' [''.rewrite''] = None" if "?I u" "\<forall>q. \<not> is_under ?D q \<longrightarrow> u' q = u q" "quiet S" for u u'
      using that by (simp add: is_under_def)
  qed
  have above: "u q = Some VDir" if "?I u" "is_under q ?D" "q \<noteq> ?D" for u q
  proof -
    have "q = []" using that(2,3) under_snoc [of q "[]" "staged_name E b"] by auto
    then show ?thesis using that(1) L by (auto simp: locker_def)
  qed
  have val: "valid_comps ?D" using staged_valid [OF hex, of b] by (simp add: valid_comps_def)
  have pp: "comps (rp_of ?D) = ?D" "comps (rp_of (?D @ [''plan.json''])) = ?D @ [''plan.json'']"
    using val by (simp_all add: comps_rp_of valid_comps_def)
  have fail: "safe S I (Done (Inl e)) ?Q u" if "I u" "st_faulty S \<or> e = SeEncryption (EnRewriting None) \<and> \<not> quiet S" for e u
    by (rule safe_done [OF st(1)]) (use that in auto)
  have rename: "safe S I (Rename (rp_of ?D) (rp_of [''.rewrite'']) (\<lambda>r. Done (case r of
          Inr _ \<Rightarrow> Inr ()
        | Inl (FsAlreadyExists _) \<Rightarrow> Inl (SeEncryption (EnRewriting None))
        | Inl e \<Rightarrow> Inl (SeFs e)))) ?Q u"
    if u: "?I u" "tree_at u ?D (lock_tree E json hs)" for u
  proof (rule safe_call(5) [where J = "\<lambda>w. ?I w \<and> tree_at w ?D (lock_tree E json hs)"])
    show "stable S (\<lambda>w. ?I w \<and> tree_at w ?D (lock_tree E json hs))" by (rule owns_stable [OF own])
    fix w r u' assume w: "?I w \<and> tree_at w ?D (lock_tree E json hs)"
      and r: "rename_spec (st_faulty S) (comps (rp_of ?D)) (comps (rp_of [''.rewrite''])) w r u'"
    have root: "w [] = Some VDir" using w L by (auto simp: locker_def)
    have here: "w ?D = Some VDir"
      using w lock_tree_root [of E json hs] by (auto simp: tree_at_def dest: spec [of _ "[]"])
    have won: "mine (move_tree ?D [''.rewrite''] w)" if "w [''.rewrite''] = None"
      using L b w that unfolding locker_def tree_at_sub by blast
    have gI: "mine x \<Longrightarrow> I x" for x using L by (simp add: locker_def)
    have can: "can_rename w ?D [''.rewrite''] \<longleftrightarrow> w [''.rewrite''] = None"
      using root here by (auto simp: can_rename_def is_under_def)
    show "safe S I (Done (case r of
          Inr _ \<Rightarrow> Inr ()
        | Inl (FsAlreadyExists _) \<Rightarrow> Inl (SeEncryption (EnRewriting None))
        | Inl e \<Rightarrow> Inl (SeFs e))) ?Q u'"
    proof (cases r)
      case (Inr x)
      then have u': "mine u'" using r won can by (simp add: rename_spec_def pp)
      show ?thesis using Inr by (auto intro!: safe_done [OF st(2)] u' gI)
    next
      case (Inl e)
      then have "I u'" using r w won can gI by (auto simp: rename_spec_def pp)
      moreover have "st_faulty S \<or> (\<exists>p. e = FsAlreadyExists p) \<and> \<not> quiet S"
        using r Inl can w by (auto simp: rename_spec_def pp)
      ultimately show ?thesis using Inl by (auto intro!: fail split: fs_error.splits)
    qed
  qed (use u in auto)
  show ?thesis
    unfolding publish_staged_def PLAN_FILE_def join_is [OF val valid_change(4)] try_res_simps
  proof (rule safe_then_try [OF safe_inv [OF write_file_at [OF own pp(2) _ _ v(2)]] st(1)])
    fix x u assume "copied S ?I ?D (([[] \<mapsto> VDir] :: tree) (butlast [''plan.json'']) \<noteq> Some VDir
        \<or> ([[] \<mapsto> VDir] :: tree) [''plan.json''] = Some VDir) (\<lambda>_ m'. m' = [[] \<mapsto> VDir, [''plan.json''] \<mapsto> VFile json]) (Inr x) u"
    then have u: "?I u" "tree_at u ?D [[] \<mapsto> VDir, [''plan.json''] \<mapsto> VFile json]" by (auto simp: copied_def)
    show "safe S I (tryP (write_headers E (rp_of ?D) hs) (\<lambda>_.
        Rename (rp_of ?D) (rp_of [''.rewrite'']) (\<lambda>r. Done (case r of
          Inr _ \<Rightarrow> Inr ()
        | Inl (FsAlreadyExists _) \<Rightarrow> Inl (SeEncryption (EnRewriting None))
        | Inl e \<Rightarrow> Inl (SeFs e))))) ?Q u"
    proof (rule safe_then_try [OF safe_inv [OF write_headers_safe [OF own val u _ fs]] st(1)])
      show "w q = Some VDir" if "?I w" "is_under q ?D" "q \<noteq> ?D" for w q using above that by blast
      fix y w assume "copied S ?I ?D False (\<lambda>_ m'. m' = add_headers E hs [[] \<mapsto> VDir, [''plan.json''] \<mapsto> VFile json]) (Inr y) w"
      then show "safe S I (Rename (rp_of ?D) (rp_of [''.rewrite'']) (\<lambda>r. Done (case r of
          Inr _ \<Rightarrow> Inr ()
        | Inl (FsAlreadyExists _) \<Rightarrow> Inl (SeEncryption (EnRewriting None))
        | Inl e \<Rightarrow> Inl (SeFs e)))) ?Q w"
        by (intro rename) (auto simp: copied_def lock_tree_def)
    qed (auto simp: copied_def intro: fail)
  qed (use v free in \<open>auto simp: copied_def intro: fail\<close>)
qed

lemma publish_safe:
  assumes L: "locker E S (lock_tree E json hs) I mine" and hex: "hex_laws E" and fs: "header_folders hs"
    and v: "I v" "unused_names E S v"
  shows "safe S I (publish E json hs) (\<lambda>r u. I u \<and> locked_by S v mine r u) v"
proof -
  let ?J = "\<lambda>u. I u \<and> unused_names E S u \<and> (quiet S \<longrightarrow> u = v)"
  let ?Q = "\<lambda>r u. I u \<and> locked_by S v mine r u"
  have st: "stable S I" "stable S mine" using L by (simp_all add: locker_def)
  have J: "stable S ?J"
    unfolding stable_def
  proof (intro conjI allI impI)
    fix u u' assume o: "st_others S u u'" and u: "?J u"
    show "I u'" using stableD [OF st(1) o] u by blast
    show "unused_names E S u'" using L o u unfolding locker_def unused_names_def by fastforce
    show "u' = v" if "quiet S" using o u that by (simp add: quiet_def)
  qed (use stable_refl [OF st(1)] in blast)
  have fail: "safe S I (Done (Inl e)) ?Q u"
    if "I u" "st_faulty S \<or> e = SeEncryption (EnRewriting None) \<and> (quiet S \<longrightarrow> v [''.rewrite''] \<noteq> None)" for e u
    by (rule safe_done [OF st(1)]) (use that in \<open>auto simp: locked_by_def\<close>)
  have clean: "safe S I (RemoveDirAll (rp_of [staged_name E b]) (\<lambda>_. Done (Inl e))) ?Q u"
    if b: "st_bytes S b" and u: "I u" "st_faulty S \<or> e = SeEncryption (EnRewriting None) \<and> \<not> quiet S" for b e u
  proof (rule safe_remove_dir_all [where J = I])
    have c: "comps (rp_of [staged_name E b]) = [staged_name E b]"
      using staged_valid [OF hex, of b] by (simp add: comps_rp_of valid_comps_def)
    then show "comps (rp_of [staged_name E b]) \<noteq> []" by simp
    show "I w'" if "I w" "\<forall>q. w' q = w q \<or> (is_under (comps (rp_of [staged_name E b])) q \<and> w' q = None)" for w w'
      using L b that unfolding locker_def c by metis
    show "safe S I (Done (Inl e)) ?Q w" if "I w" for w by (rule fail) (use that u in auto)
  qed (use st u in simp_all)
  have stage: "safe S I (CreateDir (rp_of [staged_name E b]) (\<lambda>r. try_res SeFs r (\<lambda>_.
      bind (publish_staged E json hs (rp_of [staged_name E b]) (rp_of [''.rewrite''])) (\<lambda>published.
      case published of
        Inl e \<Rightarrow> RemoveDirAll (rp_of [staged_name E b]) (\<lambda>_. Done (Inl e))
      | Inr _ \<Rightarrow> Done (Inr ()))))) ?Q u"
    (is "safe S I (CreateDir ?p (\<lambda>r. try_res SeFs r (\<lambda>_. ?rest))) ?Q u")
    if b: "st_bytes S b" and u: "?J u" "quiet S \<Longrightarrow> v [''.rewrite''] = None" for b u
  proof (rule safe_call_create_dir [OF J _ u(1)])
    let ?D = "[staged_name E b]"
    fix w r u' assume w: "?J w" and r: "create_dir_spec (st_faulty S) (comps ?p) w r u'"
    have c: "comps ?p = ?D" using staged_valid [OF hex, of b] by (simp add: comps_rp_of valid_comps_def)
    have none: "w (staged_name E b # s) = None" for s using w b by (auto simp: unused_names_def)
    have root: "w [] = Some VDir" using w L by (auto simp: locker_def)
    have out: "I (w(?D \<mapsto> VDir))"
    proof -
      have "\<forall>q. \<not> is_under ?D q \<longrightarrow> (w(?D \<mapsto> VDir)) q = w q" by auto
      then show ?thesis using L b w unfolding locker_def by blast
    qed
    show "safe S I (try_res SeFs r (\<lambda>_. ?rest)) ?Q u'"
    proof (cases r)
      case (Inl e)
      then have "I u'" "st_faulty S" using r w out none [of "[]"] root by (auto simp: create_dir_spec_def c)
      then show ?thesis using Inl by (auto intro: fail)
    next
      case (Inr x)
      then have u': "u' = w(?D \<mapsto> VDir)" using r by (simp add: create_dir_spec_def c Let_def)
      have "tree_at u' ?D [[] \<mapsto> VDir]" using u' none by (auto simp: tree_at_def)
      moreover have "quiet S \<Longrightarrow> u' [''.rewrite''] = None" using u' u(2) w by auto
      ultimately have s: "safe S I (publish_staged E json hs ?p (rp_of [''.rewrite'']))
          (\<lambda>r u. I u \<and> (case r of Inr _ \<Rightarrow> mine u | Inl e \<Rightarrow> st_faulty S \<or> e = SeEncryption (EnRewriting None) \<and> \<not> quiet S)) u'"
        using publish_staged_safe [OF L hex b fs] out u' by simp
      have "safe S I ?rest ?Q u'"
      proof (rule safe_then [OF s st(1)])
        fix a u'' assume a: "I u'' \<and> (case a of Inr _ \<Rightarrow> mine u'' | Inl e \<Rightarrow> st_faulty S \<or> e = SeEncryption (EnRewriting None) \<and> \<not> quiet S)"
        show "safe S I (case a of Inl e \<Rightarrow> RemoveDirAll ?p (\<lambda>_. Done (Inl e)) | Inr _ \<Rightarrow> Done (Inr ())) ?Q u''"
        proof (cases a)
          case (Inl e)
          then show ?thesis using a clean [OF b, of u'' e] by simp
        next
          case (Inr y)
          then have "mine u''" using a by simp
          moreover have "mine x \<Longrightarrow> I x" for x using L by (simp add: locker_def)
          ultimately show ?thesis using Inr by (auto simp: locked_by_def intro!: safe_done [OF st(2)])
        qed
      qed
      then show ?thesis using Inr by simp
    qed
  qed auto
  show ?thesis
    unfolding publish_def REWRITE_DIR_def new_is try_res_simps
  proof (rule safe_try_stat [OF J], goal_cases)
    case (3 m u)
    then have "quiet S \<Longrightarrow> v [''.rewrite''] \<noteq> None" by auto
    then show ?case using 3 by (auto intro: fail)
  next
    case (4 u)
    then have none: "quiet S \<Longrightarrow> v [''.rewrite''] = None" by auto
    show ?case
      unfolding random_bytes_def staged_new [OF hex] try_res_simps prog_simps simp_thms if_False
    proof (rule safe_random, goal_cases)
      case (2 b)
      then show ?case using stage [of b u] 4(1) none by (simp add: prog_simps)
    qed (use 4 in \<open>auto intro: fail\<close>)
  qed (use v in \<open>auto intro: fail\<close>)
qed

section \<open>Releasing it\<close>

text \<open>Releasing removes the lock and staged journals, perhaps in part, and nothing else.\<close>

definition lock_path :: "string list \<Rightarrow> bool" where
  "lock_path q \<longleftrightarrow> q \<noteq> [] \<and> starts_with (hd q) ''.rewrite''"

definition less_locked :: "fsview \<Rightarrow> fsview \<Rightarrow> bool" where
  "less_locked v u \<longleftrightarrow> (\<forall>q. u q = v q \<or> (lock_path q \<and> u q = None))"

definition loses_locks :: "(fsview \<Rightarrow> bool) \<Rightarrow> bool" where
  "loses_locks I \<longleftrightarrow> (\<forall>u u'. I u \<longrightarrow> less_locked u u' \<longrightarrow> I u')"

definition neat :: "fsview \<Rightarrow> bool" where
  "neat v \<longleftrightarrow> (\<forall>n. v [n] \<noteq> None \<longrightarrow> \<not> invalid_component n)"

lemma less_locked_refl [simp]: "less_locked v v"
  by (simp add: less_locked_def)

lemma less_locked_trans: "less_locked v u \<Longrightarrow> less_locked u w \<Longrightarrow> less_locked v w"
  unfolding less_locked_def by metis

lemma less_locked_cut:
  assumes "starts_with n ''.rewrite''"
  shows "\<forall>q. w q = u q \<or> (is_under [n] q \<and> w q = None) \<Longrightarrow> less_locked u w" "less_locked u (cut_tree [n] u)"
proof -
  have "is_under [n] q \<Longrightarrow> lock_path q" for q
    using assms by (cases q) (auto simp: is_under_def lock_path_def)
  then show "\<forall>q. w q = u q \<or> (is_under [n] q \<and> w q = None) \<Longrightarrow> less_locked u w" "less_locked u (cut_tree [n] u)"
    by (auto simp: less_locked_def cut_tree_def)
qed

lemma staged_is_lock: "starts_with n STAGING_PREFIX \<Longrightarrow> starts_with n ''.rewrite''"
proof -
  assume "starts_with n STAGING_PREFIX"
  then obtain r where "n = STAGING_PREFIX @ r" unfolding starts_with_def by (metis append_take_drop_id)
  then show ?thesis by (simp add: starts_with_def STAGING_PREFIX_def)
qed

lemma sweep_entries_safe:
  assumes I: "loses_locks I"
    and es: "\<And>e. e \<in> set es \<Longrightarrow> \<not> invalid_component (de_name e) \<and> (is_staged e \<longrightarrow> (\<forall>b. u [de_name e] \<noteq> Some (VFile b)))"
    and u: "I u"
  shows "safe (alone F) I (sweep_entries es)
    (\<lambda>r w. I w \<and> less_locked u w \<and> (case r of Inr _ \<Rightarrow> True | Inl _ \<Rightarrow> F)) u"
  using es u
proof (induction es arbitrary: u)
  case Nil
  then show ?case by (auto intro!: alone_done)
next
  case (Cons e es)
  show ?case
  proof (cases "is_staged e")
    case False
    then show ?thesis using Cons by simp
  next
    case True
    let ?n = "de_name e"
    have ok: "\<not> invalid_component ?n" and nf: "\<forall>b. u [?n] \<noteq> Some (VFile b)" using Cons.prems(1) True by auto
    have new: "rp_new ?n = Inr (rp_of [?n])" "comps (rp_of [?n]) = [?n]"
      using rp_new_of [of "[?n]"] ok by (simp_all add: comps_rp_of valid_comps_def)
    have l: "starts_with ?n ''.rewrite''" using True staged_is_lock by (simp add: is_staged_def)
    have rest: "safe (alone F) I (sweep_entries es)
        (\<lambda>r w. I w \<and> less_locked u w \<and> (case r of Inr _ \<Rightarrow> True | Inl _ \<Rightarrow> F)) w" if w: "less_locked u w" for w
    proof (rule safe_post [OF Cons.IH])
      show "I w" using I Cons.prems(2) w by (auto simp: loses_locks_def)
      show "\<not> invalid_component (de_name e') \<and> (is_staged e' \<longrightarrow> (\<forall>b. w [de_name e'] \<noteq> Some (VFile b)))"
        if "e' \<in> set es" for e'
        using Cons.prems(1) [of e'] that w unfolding less_locked_def by (metis list.set_intros(2) option.distinct(1))
    qed (use less_locked_trans [OF w] in auto)
    have stop: "safe (alone F') I (Done (Inl x))
        (\<lambda>r w. I w \<and> less_locked u w \<and> (case r of Inr _ \<Rightarrow> True | Inl _ \<Rightarrow> F)) w" if "less_locked u w" "F" for x w F'
      by (rule alone_done) (use I Cons.prems(2) that in \<open>auto simp: loses_locks_def\<close>)
    show ?thesis
      using True nf less_locked_cut [OF l] Cons.prems(2)
      by (auto simp: new prog_simps intro!: alone_remove rest stop)
  qed
qed

lemma release_lock_safe:
  assumes I: "loses_locks I" "I v" and v: "v [] = Some VDir" "neat v" "\<forall>b. v [''.rewrite''] \<noteq> Some (VFile b)"
  shows "safe (alone F) I release_lock
    (\<lambda>r u. I u \<and> less_locked v u \<and> (case r of Inr _ \<Rightarrow> sub u [''.rewrite''] = nothing | Inl _ \<Rightarrow> F)) v"
    (is "safe _ _ _ ?Q _")
proof -
  have w: "I w" "w [''.rewrite''] \<noteq> Some (VFile b)" if "less_locked v w" for w b
    using I that v(3) by (auto simp: loses_locks_def less_locked_def dest: spec [of _ "[''.rewrite'']"])
  have l: "starts_with ''.rewrite'' ''.rewrite''" by (simp add: starts_with_def)
  have stop: "safe (alone F') I (Done (Inl x)) ?Q w" if "less_locked v w" "F" for x w F'
    by (rule alone_done) (use w that in auto)
  have last: "safe (alone F) I (RemoveDirAll (rp_of [''.rewrite'']) (\<lambda>r. try_res SeFs r (\<lambda>_. Done (Inr ())))) ?Q w"
    if o: "less_locked v w" for w
    using w [OF o] less_locked_cut [OF l] less_locked_trans [OF o]
    by (auto simp: w intro!: alone_remove alone_done)
  have sweep: "safe (alone F) I sweep_staged
      (\<lambda>r w. I w \<and> less_locked v w \<and> (case r of Inr _ \<Rightarrow> True | Inl _ \<Rightarrow> F)) v"
    unfolding sweep_staged_def prog_simps
  proof (rule alone_read_dir)
    show "I v" by (rule I(2))
    fix es assume es: "entries_of v (comps rp_root) es"
    have e: "v [de_name e] \<noteq> None" "de_is_dir e \<longrightarrow> v [de_name e] = Some VDir" if "e \<in> set es" for e
      using es that unfolding entries_of_def comps_root by auto
    show "safe (alone F) I (try_res SeFs (Inr es) sweep_entries)
      (\<lambda>r w. I w \<and> less_locked v w \<and> (case r of Inr _ \<Rightarrow> True | Inl _ \<Rightarrow> F)) v"
      unfolding try_res_simps
      by (rule sweep_entries_safe [OF I(1)]) (use e v(2) I(2) in \<open>auto simp: neat_def is_staged_def\<close>)
  next
    fix e assume "F \<or> v (comps rp_root) \<noteq> Some VDir"
    then show "safe (alone F) I (try_res SeFs (Inl e) sweep_entries)
      (\<lambda>r w. I w \<and> less_locked v w \<and> (case r of Inr _ \<Rightarrow> True | Inl _ \<Rightarrow> F)) v"
      using v(1) I(2) by (auto simp: comps_root intro!: alone_done)
  qed
  show ?thesis
    unfolding release_lock_def REWRITE_DIR_def new_is try_res_simps prog_simps
    by (rule safe_then_try [OF sweep, where J = I]) (auto intro: last stop)
qed

section \<open>Properties\<close>

text \<open>
  Other clients may take the lock, change it and release it; they keep it whole, leave this client's
  staging folders alone and its lock once it has it.
\<close>

definition whole_lock :: "(tree \<Rightarrow> bool) \<Rightarrow> fsview \<Rightarrow> bool" where
  "whole_lock entire u \<longleftrightarrow> u [''.rewrite''] = None \<or> entire (sub u [''.rewrite''])"

definition rivals :: "'z jext_scheme \<Rightarrow> setting \<Rightarrow> (tree \<Rightarrow> bool) \<Rightarrow> tree \<Rightarrow> bool" where
  "rivals E S entire t \<longleftrightarrow>
     (\<forall>u. st_others S u u)
     \<and> (\<forall>u u'. st_others S u u' \<longrightarrow>
          u' [] = u [] \<and> (whole_lock entire u \<longrightarrow> whole_lock entire u')
          \<and> (sub u [''.rewrite''] = t \<longrightarrow> sub u' [''.rewrite''] = t)
          \<and> (\<forall>b s. st_bytes S b \<longrightarrow> u' (staged_name E b # s) = u (staged_name E b # s)))"

lemma rivalsD:
  assumes "rivals E S entire t" "st_others S u u'"
  shows "u' [] = u []" "whole_lock entire u \<Longrightarrow> whole_lock entire u'"
    "sub u [''.rewrite''] = t \<Longrightarrow> sub u' [''.rewrite''] = t"
    "st_bytes S b \<Longrightarrow> u' (staged_name E b # s) = u (staged_name E b # s)"
  using assms unfolding rivals_def by blast+

lemma rivals_locker:
  assumes R: "rivals E S entire t" and t: "entire t" and hex: "hex_laws E"
  shows "locker E S t (\<lambda>u. u [] = Some VDir \<and> whole_lock entire u)
    (\<lambda>u. u [] = Some VDir \<and> whole_lock entire u \<and> sub u [''.rewrite''] = t)"
  unfolding locker_def
proof (intro conjI allI impI)
  let ?I = "\<lambda>u. u [] = Some VDir \<and> whole_lock entire u"
  have refl: "st_others S u u" for u using R by (simp add: rivals_def)
  have I: "?I u'" if "st_others S u u'" "?I u" for u u'
    using rivalsD(1,2) [OF R that(1)] that(2) by simp
  then show "stable S ?I" using refl unfolding stable_def by blast
  show "stable S (\<lambda>u. u [] = Some VDir \<and> whole_lock entire u \<and> sub u [''.rewrite''] = t)"
    unfolding stable_def using refl I rivalsD(3) [OF R] by blast
  fix b assume b: "st_bytes S b"
  show "u' (staged_name E b # s) = u (staged_name E b # s)" if "st_others S u u'" for u u' s
    using rivalsD(4) [OF R that b] .
  show "u' [] = Some VDir" "whole_lock entire u'"
    if "?I u" "\<forall>q. \<not> is_under [staged_name E b] q \<longrightarrow> u' q = u q" for u u'
  proof -
    have "u' q = u q" if "q = [] \<or> hd q = ''.rewrite''" for q
      using \<open>\<forall>q. _ q\<close> that by (cases q) (auto simp: is_under_def)
    then have "u' [] = u []" "u' [''.rewrite''] = u [''.rewrite'']" "sub u' [''.rewrite''] = sub u [''.rewrite'']"
      by (auto simp: sub_def)
    then show "u' [] = Some VDir" "whole_lock entire u'" using that by (simp_all add: whole_lock_def)
  qed
  fix u assume u: "?I u" "u [''.rewrite''] = None" "sub u [staged_name E b] = t"
  show "sub (move_tree [staged_name E b] [''.rewrite''] u) [''.rewrite''] = t" using u by simp
  then show "whole_lock entire (move_tree [staged_name E b] [''.rewrite''] u)" using t by (simp add: whole_lock_def)
  show "move_tree [staged_name E b] [''.rewrite''] u [] = Some VDir" using u by (simp add: move_at is_under_def)
qed auto

text \<open>C20: Of several clients that change a store's encryption one at a time gets the lock, and the lock
  never appears in part. Whatever fails and whatever rival clients do that respect the lock, at every
  moment of \<open>publish\<close> the lock is absent or whole; when it succeeds the lock is exactly this client's
  journal and headers; and without faults it fails only by finding the store locked, and not at all
  on a store that is free and undisturbed.\<close>

theorem lock_taken_whole:
  assumes "hex_laws E" "header_folders headers" "rivals E S entire (lock_tree E json headers)"
    and "entire (lock_tree E json headers)" "v [] = Some VDir" "whole_lock entire v" "unused_names E S v"
  shows "safe S (whole_lock entire) (publish E json headers)
    (\<lambda>r u. case r of
       Inr _ \<Rightarrow> sub u [''.rewrite''] = lock_tree E json headers
     | Inl e \<Rightarrow> st_faulty S \<or> e = SeEncryption (EnRewriting None) \<and> (quiet S \<longrightarrow> v [''.rewrite''] \<noteq> None)) v"
  by (rule safe_post [OF safe_inv [OF publish_safe [OF rivals_locker [OF assms(3,4,1)] assms(1,2)]]])
    (use assms(5-7) in \<open>auto simp: locked_by_def split: sum.splits\<close>)

text \<open>A rival that takes the lock for itself as soon as it is free, at the worst moment.\<close>

definition racing :: "tree \<Rightarrow> setting" where
  "racing t = \<lparr>st_faulty = True,
     st_others = (\<lambda>u u'. u' = u \<or> u [''.rewrite''] = None \<and> sub u' [''.rewrite''] = t
       \<and> (\<forall>q. \<not> is_under [''.rewrite''] q \<longrightarrow> u' q = u q)),
     st_tokens = (\<lambda>_. True), st_clock = (\<lambda>_. True), st_bytes = (\<lambda>_. True)\<rparr>"

lemma racing_rivals:
  assumes "entire t'" "t [] \<noteq> None"
  shows "rivals E (racing t') entire t"
  unfolding rivals_def racing_def setting.select_convs
proof (intro conjI allI impI)
  fix u u' :: fsview and b s
  assume o: "u' = u \<or> u [''.rewrite''] = None \<and> sub u' [''.rewrite''] = t'
    \<and> (\<forall>q. \<not> is_under [''.rewrite''] q \<longrightarrow> u' q = u q)"
  then show "u' [] = u []" "u' (staged_name E b # s) = u (staged_name E b # s)" by (auto simp: is_under_def)
  show "whole_lock entire u'" if "whole_lock entire u" using o that assms(1) by (auto simp: whole_lock_def)
  show "sub u' [''.rewrite''] = t" if "sub u [''.rewrite''] = t"
    using o that assms(2) sub_here(1) [of u "[''.rewrite'']"] by auto
qed simp

theorem lock_taken_whole_witness:
  "let mine = lock_tree sample_jext [1] [(''header'', sample_header)]; theirs = lock_tree sample_jext [2] [] in
   safe (racing theirs) (whole_lock (\<lambda>t. t \<in> {mine, theirs})) (publish sample_jext [1] [(''header'', sample_header)])
    (\<lambda>r u. case r of
       Inr _ \<Rightarrow> sub u [''.rewrite''] = mine
     | Inl e \<Rightarrow> st_faulty (racing theirs)
         \<or> e = SeEncryption (EnRewriting None) \<and> (quiet (racing theirs) \<longrightarrow> [[] \<mapsto> VDir] [''.rewrite''] \<noteq> None))
    [[] \<mapsto> VDir]"
  unfolding Let_def
  by (rule lock_taken_whole)
    (simp_all add: sample_jext_laws racing_rivals header_folders_def whole_lock_def unused_names_def)

end
