(* ===== verification/Store_Layout.thy ===== *)
theory Store_Layout
  imports Journal Sub_Prog Store_Trait Watching
begin

text \<open>
  Telling a store's layout apart and opening it: \<open>classify\<close>, \<open>inspect\<close> and the leftovers of
  \<^verbatim>\<open>passalong-core/src/encryption/admin.rs\<close>, and \<^verbatim>\<open>encryption/open.rs\<close>. A part of an encrypted
  layout without the rest is never taken for a plaintext store, and a device with a key never opens
  a store as plaintext.
\<close>

section \<open>The layout of a store's root\<close>

datatype store_state =
    Plain nat
  | Encrypted key_id nat
  | Rewriting "string option"
  | Broken

datatype layout =
    LyRewriting "string option"
  | LyEncrypted store_header
  | LyBroken
  | LyPlain

definition rewrite_started :: "'z jext_scheme \<Rightarrow> string option prog" where
  "rewrite_started E =
     (case and_then (rp_new REWRITE_DIR) (\<lambda>p. rp_join p ''plan.json'') of
        Inl _ \<Rightarrow> Done None
      | Inr path \<Rightarrow>
          OpenRead path (\<lambda>r.
            Done (case r of
                    Inl _ \<Rightarrow> None
                  | Inr reader \<Rightarrow>
                      (case rd_take_to_end (64 * 1024) reader of
                         Inl _ \<Rightarrow> None
                       | Inr b \<Rightarrow> x_started_of_json E b))))"

definition is_folder :: "metadata option \<Rightarrow> bool" where
  "is_folder found = (case found of Some m \<Rightarrow> md_is_dir m | None \<Rightarrow> False)"

definition is_plain_file :: "metadata option \<Rightarrow> bool" where
  "is_plain_file found = (case found of Some m \<Rightarrow> \<not> md_is_dir m | None \<Rightarrow> False)"

definition classify :: "'z jext_scheme \<Rightarrow> (store_error + layout) prog" where
  "classify E =
     try_res SeFs (rp_new REWRITE_DIR) (\<lambda>rewrite.
     try_as SeFs (Stat rewrite Done) (\<lambda>found.
     if found \<noteq> None then bind (rewrite_started E) (\<lambda>started. Done (Inr (LyRewriting started))) else
     try_res SeFs (rp_new STOP_FILE) (\<lambda>items_path.
     try_as SeFs (Stat items_path Done) (\<lambda>items.
     try_res SeFs encryption_dir (\<lambda>dir.
     try_as SeFs (Stat dir Done) (\<lambda>encryption.
     if encryption \<noteq> None
     then tryP (read_header E) (\<lambda>header.
            Done (Inr (case header of
                         Some h \<Rightarrow> if \<not> is_folder items then LyEncrypted h else LyBroken
                       | None \<Rightarrow> LyBroken)))
     else Done (Inr (if is_plain_file items then LyBroken else LyPlain))))))))"

text \<open>The store of the items a fresh start kept, over a \<open>SubFs\<close> at \<^verbatim>\<open>plain/\<close>.\<close>

definition in_plain :: "(store_error + 'a) prog \<Rightarrow> (store_error + 'a) prog" where
  "in_plain m = try_res SeFs (rp_new PLAIN_DIR) (\<lambda>plain. sub_prog plain m)"

definition inspect :: "'z jext_scheme \<Rightarrow> (store_error + store_state) prog" where
  "inspect E =
     tryP (classify E) (\<lambda>l.
     case l of
       LyRewriting started \<Rightarrow> Done (Inr (Rewriting started))
     | LyEncrypted h \<Rightarrow>
         tryP (in_plain (list_ids E store_new)) (\<lambda>ids.
         Done (Inr (Encrypted (header_key_id h) (length ids))))
     | LyBroken \<Rightarrow> Done (Inr Broken)
     | LyPlain \<Rightarrow> tryP (list_ids E store_new) (\<lambda>ids. Done (Inr (Plain (length ids)))))"

definition refuse :: "store_state \<Rightarrow> store_error" where
  "refuse s =
     SeEncryption (case s of
         Plain _ \<Rightarrow> EnNotEncrypted
       | Encrypted _ _ \<Rightarrow> EnAlreadyEncrypted
       | Rewriting started \<Rightarrow> EnRewriting started
       | Broken \<Rightarrow> EnHeaderMissing)"

section \<open>Leftovers\<close>

definition decimal_str :: "nat \<Rightarrow> string" where
  "decimal_str n = map char_of (decimal n)"

record leftovers =
  lo_plaintext_staging :: nat
  lo_staged_journals :: nat

definition leftovers_empty :: "leftovers \<Rightarrow> bool" where
  "leftovers_empty l \<longleftrightarrow> lo_plaintext_staging l = 0 \<and> lo_staged_journals l = 0"

definition leftovers_plaintext :: "nat \<Rightarrow> leftovers" where
  "leftovers_plaintext n = \<lparr>lo_plaintext_staging = n, lo_staged_journals = 0\<rparr>"

definition leftovers_display :: "leftovers \<Rightarrow> string" where
  "leftovers_display l =
     (let staging = lo_plaintext_staging l; journals = lo_staged_journals l;
          parts = (if 0 < staging
                   then [decimal_str staging @ '' unencrypted ''
                         @ (if staging = 1 then ''leftover'' else ''leftovers'') @ '' of cut-short uploads'']
                   else [])
                @ (if 0 < journals
                   then [decimal_str journals @ '' unused '' @ (if journals = 1 then ''journal'' else ''journals'')]
                   else []) in
      if parts = [] then ''no leftovers'' else join_with '', '' parts)"

definition count_leftovers :: "(store_error + leftovers) prog" where
  "count_leftovers =
     try_res SeFs (rp_new TMP_DIR) (\<lambda>tmp.
     ReadDir tmp (\<lambda>r.
       try_res SeFs (case r of
                       Inr es \<Rightarrow> Inr (length es)
                     | Inl (FsNotFound _) \<Rightarrow> Inr 0
                     | Inl e \<Rightarrow> Inl e) (\<lambda>staging.
       tryP count_staged (\<lambda>journals.
       Done (Inr \<lparr>lo_plaintext_staging = staging, lo_staged_journals = journals\<rparr>)))))"

definition find_leftovers :: "'z jext_scheme \<Rightarrow> (store_error + leftovers) prog" where
  "find_leftovers E =
     tryP (inspect E) (\<lambda>s.
     case s of Encrypted _ _ \<Rightarrow> count_leftovers | _ \<Rightarrow> Done (Inl (refuse s)))"

definition remove_leftovers :: "'z jext_scheme \<Rightarrow> (store_error + leftovers) prog" where
  "remove_leftovers E =
     tryP (find_leftovers E) (\<lambda>found.
     try_res SeFs (rp_new TMP_DIR) (\<lambda>tmp.
     try_as SeFs (RemoveDirAll tmp Done) (\<lambda>_.
     tryP sweep_staged (\<lambda>_. Done (Inr found)))))"

definition remove_plain_if_empty :: "'z jext_scheme \<Rightarrow> (store_error + bool) prog" where
  "remove_plain_if_empty E =
     try_res SeFs (rp_new PLAIN_DIR) (\<lambda>plain.
     try_as SeFs (Stat plain Done) (\<lambda>found.
     if found = None then Done (Inr False) else
     tryP (in_plain (list_ids E store_new)) (\<lambda>ids.
     if ids \<noteq> [] then Done (Inr False) else
     try_as SeFs (RemoveDirAll plain Done) (\<lambda>_. Done (Inr True)))))"

section \<open>Opening a store\<close>

datatype claim =
    ClPlain
  | ClEncrypted key_id
  | ClRewriting "string option"
  | ClBroken

definition opening_store :: "'z cext_scheme \<Rightarrow> claim \<Rightarrow> data_key option \<Rightarrow> store_error + sealer option" where
  "opening_store E c key =
     (case c of
        ClRewriting started \<Rightarrow> Inl (SeEncryption (EnRewriting started))
      | ClBroken \<Rightarrow> Inl (SeEncryption EnHeaderMissing)
      | ClPlain \<Rightarrow> if key \<noteq> None then Inl (SeEncryption EnKeyWithoutEncryption) else Inr None
      | ClEncrypted kid \<Rightarrow>
          (case key of
             None \<Rightarrow> Inl (SeEncryption EnNoKey)
           | Some k \<Rightarrow>
               if dk_key_id E k \<noteq> kid
               then Inl (SeEncryption (EnKeyMismatch (key_id_short E (dk_key_id E k)) (key_id_short E kid)))
               else Inr (Some (sealer_new E k))))"

definition claim_of :: "layout \<Rightarrow> claim" where
  "claim_of l =
     (case l of
        LyRewriting started \<Rightarrow> ClRewriting started
      | LyBroken \<Rightarrow> ClBroken
      | LyPlain \<Rightarrow> ClPlain
      | LyEncrypted h \<Rightarrow> ClEncrypted (header_key_id h))"

definition open_with_key :: "'z jext_scheme \<Rightarrow> data_key option \<Rightarrow> (store_error + fs_store) prog" where
  "open_with_key E key =
     tryP (classify E) (\<lambda>l.
     try_res id (opening_store E (claim_of l) key) (\<lambda>sealer.
     Done (Inr (case sealer of
                  None \<Rightarrow> plain_guarded store_new
                | Some s \<Rightarrow> guarded (store_sealed s)))))"

end
