(* ===== verification/Header_Change.thy ===== *)
theory Header_Change
  imports Store_Layout
begin

text \<open>
  Changes of the store header, \<^verbatim>\<open>passalong-core/src/encryption/header_change.rs\<close>, and the operations
  of \<^verbatim>\<open>encryption/admin.rs\<close> that start them: setting up encryption, a fresh start, joining and new
  words; with \<open>fold\<close> of \<^verbatim>\<open>rewrite.rs\<close>, which they share.
\<close>

section \<open>Making way for the stop file\<close>

text \<open>The entries of \<open>from\<close> move below \<open>to\<close>, one by one; one that is there already is dropped.\<close>

fun move_entries :: "remote_path \<Rightarrow> remote_path \<Rightarrow> dir_entry list \<Rightarrow> (store_error + unit) prog" where
  "move_entries from_dir to_dir [] = Done (Inr ())"
| "move_entries from_dir to_dir (e # es) =
     try_res SeFs (rp_join from_dir (de_name e)) (\<lambda>source.
     try_res SeFs (rp_join to_dir (de_name e)) (\<lambda>target.
     Rename source target (\<lambda>r.
       case r of
         Inr _ \<Rightarrow> move_entries from_dir to_dir es
       | Inl (FsAlreadyExists _) \<Rightarrow>
           try_as SeFs (RemoveDirAll source Done) (\<lambda>_. move_entries from_dir to_dir es)
       | Inl e \<Rightarrow> Done (Inl (SeFs e)))))"

definition move_all :: "remote_path \<Rightarrow> remote_path \<Rightarrow> (store_error + unit) prog" where
  "move_all from_dir to_dir =
     try_as SeFs (ReadDir from_dir Done) (\<lambda>es.
     tryP (move_entries from_dir to_dir es) (\<lambda>_.
     try_as SeFs (RemoveDirAll from_dir Done) (\<lambda>_. Done (Inr ()))))"

definition fold_dir :: "remote_path \<Rightarrow> remote_path \<Rightarrow> (store_error + unit) prog" where
  "fold_dir from_dir to_dir =
     try_as SeFs (Stat to_dir Done) (\<lambda>found.
     if found = None
     then
       (let go = try_as SeFs (Rename from_dir to_dir Done) (\<lambda>_. Done (Inr ())) in
        case parent to_dir of
          Some p \<Rightarrow> try_as SeFs (CreateDirAll p Done) (\<lambda>_. go)
        | None \<Rightarrow> go)
     else move_all from_dir to_dir)"

definition move_items_to_plain :: "(store_error + unit) prog" where
  "move_items_to_plain =
     try_res SeFs (rp_new STOP_FILE) (\<lambda>items.
     try_as SeFs (Stat items Done) (\<lambda>found.
     if \<not> is_folder found then Done (Inr ()) else
     try_res SeFs (rp_new PLAIN_DIR) (\<lambda>plain.
     try_res SeFs (rp_join plain STOP_FILE) (\<lambda>target.
     try_as SeFs (CreateDirAll plain Done) (\<lambda>_.
     try_as SeFs (Stat target Done) (\<lambda>there.
     if there = None then try_as SeFs (Rename items target Done) (\<lambda>_. Done (Inr ()))
     else move_all items target))))))"

definition clear_items :: "(store_error + unit) prog" where
  "clear_items =
     try_res SeFs (rp_new STOP_FILE) (\<lambda>items.
     try_as SeFs (Stat items Done) (\<lambda>found.
     if \<not> is_folder found then Done (Inr ()) else
     try_as SeFs (ReadDir items Done) (\<lambda>es.
     if es = [] then try_as SeFs (RemoveDirAll items Done) (\<lambda>_. Done (Inr ()))
     else move_items_to_plain)))"

definition stop_old_clients :: "(store_error + unit) prog" where
  "stop_old_clients =
     tryP clear_items (\<lambda>_.
     bind write_stop_file (\<lambda>written.
     let drop_staging =
           try_res SeFs (rp_new TMP_DIR) (\<lambda>tmp. try_as SeFs (RemoveDirAll tmp Done) (\<lambda>_. Done (Inr ()))) in
     case written of
       Inr _ \<Rightarrow> drop_staging
     | Inl (SeEncryption (EnLayout _)) \<Rightarrow>
         tryP clear_items (\<lambda>_. tryP write_stop_file (\<lambda>_. drop_staging))
     | Inl e \<Rightarrow> Done (Inl e)))"

definition remove_plain_shell :: "(store_error + unit) prog" where
  "remove_plain_shell =
     try_res SeFs (rp_new PLAIN_DIR) (\<lambda>plain.
     try_as SeFs (Stat plain Done) (\<lambda>found.
     if found = None then Done (Inr ()) else
     try_as SeFs (ReadDir plain Done) (\<lambda>es.
     if es \<noteq> [] then Done (Inr ())
     else try_as SeFs (RemoveDirAll plain Done) (\<lambda>_. Done (Inr ())))))"

definition restore_items :: "(store_error + unit) prog" where
  "restore_items =
     try_res SeFs (rp_new STOP_FILE) (\<lambda>items.
     try_as SeFs (Stat items Done) (\<lambda>found.
     tryP (if is_plain_file found then try_as SeFs (RemoveFile items Done) (\<lambda>_. Done (Inr ())) else Done (Inr ()))
       (\<lambda>_.
     try_res SeFs (rp_new PLAIN_DIR) (\<lambda>plain.
     try_res SeFs (rp_join plain STOP_FILE) (\<lambda>kept.
     try_as SeFs (Stat kept Done) (\<lambda>there.
     tryP (if there \<noteq> None then fold_dir kept items else Done (Inr ())) (\<lambda>_.
     remove_plain_shell)))))))"

section \<open>The change\<close>

definition install :: "(store_error + unit) prog" where
  "install =
     try_res SeFs (under_rewrite NEW_HEADER) (\<lambda>pending.
     try_as SeFs (Stat pending Done) (\<lambda>waiting.
     if waiting = None then Done (Inr ()) else
     try_res SeFs encryption_dir (\<lambda>current.
     try_as SeFs (Stat current Done) (\<lambda>found.
     tryP (if found \<noteq> None
           then try_res SeFs (under_rewrite PREVIOUS) (\<lambda>previous.
                try_as SeFs (Stat previous Done) (\<lambda>replaced.
                if replaced \<noteq> None
                then Done (Inl (SeEncryption (EnLayout ''the lock holds a replaced header, yet another header is in place; nothing was changed'')))
                else try_as SeFs (Rename current previous Done) (\<lambda>_. Done (Inr ()))))
           else Done (Inr ())) (\<lambda>_.
     try_as SeFs (Rename pending current Done) (\<lambda>_. Done (Inr ())))))))"

definition complete :: "header_change_kind \<Rightarrow> (store_error + unit) prog" where
  "complete kind =
     tryP (if kind \<noteq> NewWords then stop_old_clients else Done (Inr ())) (\<lambda>_.
     tryP install (\<lambda>_. release_lock))"

definition run_change ::
  "'z jext_scheme \<Rightarrow> header_change_kind \<Rightarrow> store_header \<Rightarrow> store_header option \<Rightarrow> (store_error + unit) prog" where
  "run_change E kind header old =
     Now (\<lambda>now.
     let journal = \<lparr>hc_kind = kind, hc_started_at = x_rfc3339 E now,
                    hc_key = key_id_display E (header_key_id header)\<rparr>;
         staged = (NEW_HEADER, header) # (case old of Some h \<Rightarrow> [(OLD_HEADER, h)] | None \<Rightarrow> []) in
     tryP (publish E (x_change_to_json E journal) staged) (\<lambda>_. complete kind))"

definition finish_change ::
  "'z jext_scheme \<Rightarrow> header_change \<Rightarrow> words \<Rightarrow> (store_error + data_key) prog" where
  "finish_change E change ws =
     try_res SeFs (under_rewrite NEW_HEADER) (\<lambda>pending.
     tryP (read_header_in E pending) (\<lambda>saved.
     tryP (case saved of
             Some h \<Rightarrow> Done (Inr h)
           | None \<Rightarrow>
               tryP (read_header E) (\<lambda>current.
               Done (ok_or current (SeEncryption EnHeaderMissing)))) (\<lambda>header.
     if key_id_display E (header_key_id header) \<noteq> hc_key change
     then Done (Inl (SeEncryption (EnLayout ''the header in place is not the one this change saved; undo it instead'')))
     else
       try_res crypto_err (unwrap E (wrapped header) ws) (\<lambda>key.
       tryP (complete (hc_kind change)) (\<lambda>_. Done (Inr key))))))"

definition revert :: "header_change \<Rightarrow> (store_error + unit) prog" where
  "revert change =
     try_res SeFs encryption_dir (\<lambda>current.
     try_res SeFs (under_rewrite NEW_HEADER) (\<lambda>pending.
     try_res SeFs (under_rewrite PREVIOUS) (\<lambda>previous.
     tryP (try_as SeFs (Stat pending Done) (\<lambda>p.
           if p \<noteq> None then Done (Inr ()) else
           try_as SeFs (Stat current Done) (\<lambda>c.
           if c = None then Done (Inr ())
           else try_as SeFs (Rename current pending Done) (\<lambda>_. Done (Inr ()))))) (\<lambda>_.
     tryP (try_as SeFs (Stat current Done) (\<lambda>c.
           if c \<noteq> None then Done (Inr ()) else
           try_as SeFs (Stat previous Done) (\<lambda>p.
           if p = None then Done (Inr ())
           else try_as SeFs (Rename previous current Done) (\<lambda>_. Done (Inr ()))))) (\<lambda>_.
     tryP (case hc_kind change of
             NewWords \<Rightarrow>
               try_as SeFs (Stat current Done) (\<lambda>c.
               if c \<noteq> None then Done (Inr ())
               else try_res SeFs (under_rewrite OLD_HEADER) (\<lambda>old.
                    try_as SeFs (Rename old current Done) (\<lambda>_. Done (Inr ()))))
           | _ \<Rightarrow> restore_items) (\<lambda>_.
     release_lock))))))"

section \<open>Operations of a device\<close>

definition new_key :: "'z jext_scheme \<Rightarrow> words \<Rightarrow> kdf_params \<Rightarrow> (store_error + data_key \<times> store_header) prog" where
  "new_key E ws kdf =
     try_as crypto_err dk_generate (\<lambda>key.
     try_as crypto_err (wrap E key ws kdf) (\<lambda>w. Done (Inr (key, StoreHeader w))))"

definition set_up :: "'z jext_scheme \<Rightarrow> words \<Rightarrow> kdf_params \<Rightarrow> (store_error + data_key) prog" where
  "set_up E ws kdf =
     tryP (inspect E) (\<lambda>s.
     case s of
       Plain n \<Rightarrow>
         if n \<noteq> 0
         then Done (Inl (SeEncryption (EnLayout (''the store holds '' @ decimal_str n 
           @ '' items; encrypt it with a fresh start or by migrating''))))
         else
           try_res SeFs (rp_new STOP_FILE) (\<lambda>items.
           try_as SeFs (Stat items Done) (\<lambda>found.
           tryP (if is_folder found
                 then try_as SeFs (ReadDir items Done) (\<lambda>es.
                      if es \<noteq> []
                      then Done (Inl (SeEncryption (EnLayout (''`'' @ STOP_FILE @ ''` holds files that are not items; move them away first''))))
                      else Done (Inr ()))
                 else Done (Inr ())) (\<lambda>_.
           tryP (new_key E ws kdf) (\<lambda>(key, header).
           tryP (run_change E SetUp header None) (\<lambda>_. Done (Inr key))))))
     | other \<Rightarrow> Done (Inl (refuse other)))"

definition fresh_start :: "'z jext_scheme \<Rightarrow> words \<Rightarrow> kdf_params \<Rightarrow> (store_error + data_key) prog" where
  "fresh_start E ws kdf =
     tryP (inspect E) (\<lambda>s.
     case s of
       Plain _ \<Rightarrow>
         tryP (new_key E ws kdf) (\<lambda>(key, header).
         tryP (run_change E FreshStart header None) (\<lambda>_. Done (Inr key)))
     | other \<Rightarrow> Done (Inl (refuse other)))"

definition join :: "'z jext_scheme \<Rightarrow> words \<Rightarrow> (store_error + data_key) prog" where
  "join E ws =
     tryP (inspect E) (\<lambda>s.
     case s of
       Encrypted _ _ \<Rightarrow>
         tryP (read_header E) (\<lambda>header.
         try_res id (ok_or header (SeEncryption EnHeaderMissing)) (\<lambda>h.
         try_res crypto_err (unwrap E (wrapped h) ws) (\<lambda>key. Done (Inr key))))
     | other \<Rightarrow> Done (Inl (refuse other)))"

definition change_words ::
  "'z jext_scheme \<Rightarrow> words \<Rightarrow> words \<Rightarrow> kdf_params \<Rightarrow> (store_error + key_id) prog" where
  "change_words E current new kdf =
     tryP (join E current) (\<lambda>key.
     tryP (read_header E) (\<lambda>header.
     try_res id (ok_or header (SeEncryption EnHeaderMissing)) (\<lambda>old.
     try_as crypto_err (wrap E key new kdf) (\<lambda>w.
     tryP (run_change E NewWords (StoreHeader w) (Some old)) (\<lambda>_. Done (Inr (dk_key_id E key)))))))"

section \<open>Repairing a broken store\<close>

definition PROBE_ITEMS :: nat where "PROBE_ITEMS = 8"

fun opens_any :: "'z jext_scheme \<Rightarrow> fs_store \<Rightarrow> item_id list \<Rightarrow> (store_error + bool) prog" where
  "opens_any E st [] = Done (Inr False)"
| "opens_any E st (i # is) =
     bind (get_meta E st i) (\<lambda>r.
       case r of Inr _ \<Rightarrow> Done (Inr True) | Inl _ \<Rightarrow> opens_any E st is)"

definition opens_items :: "'z jext_scheme \<Rightarrow> data_key \<Rightarrow> (store_error + bool) prog" where
  "opens_items E key =
     (let st = store_sealed (sealer_new E key) in
      tryP (list_ids E st) (\<lambda>ids.
      if ids = [] then Done (Inr True) else opens_any E st (take PROBE_ITEMS ids)))"

definition is_saved_header :: "dir_entry \<Rightarrow> bool" where
  "is_saved_header e \<longleftrightarrow>
     de_is_dir e \<and> (starts_with (de_name e) ''header-'' \<or> starts_with (de_name e) ''old-header-'')"

fun try_saved ::
  "'z jext_scheme \<Rightarrow> words \<Rightarrow> remote_path \<Rightarrow> dir_entry list \<Rightarrow> (store_error + data_key) prog" where
  "try_saved E ws tmp [] =
     Done (Inl (SeEncryption (EnLayout ''no header saved in the store opens with these words and the store's items; nothing was changed'')))"
| "try_saved E ws tmp (e # es) =
     try_res SeFs (rp_join tmp (de_name e)) (\<lambda>dir.
     bind (read_header_in E dir) (\<lambda>r.
     case r of
       Inr (Some header) \<Rightarrow>
         (case unwrap E (wrapped header) ws of
            Inl _ \<Rightarrow> try_saved E ws tmp es
          | Inr key \<Rightarrow>
              tryP (opens_items E key) (\<lambda>opens.
              if \<not> opens then try_saved E ws tmp es else
              try_res SeFs encryption_dir (\<lambda>current.
              try_as SeFs (Stat current Done) (\<lambda>found.
              tryP (if found \<noteq> None
                    then try_as crypto_err (random_bytes 8) (\<lambda>token.
                         try_res SeFs (rp_join tmp (''broken-header-'' @ x_hex_encode E token)) (\<lambda>aside.
                         try_as SeFs (Rename current aside Done) (\<lambda>_. Done (Inr ()))))
                    else Done (Inr ())) (\<lambda>_.
              try_as SeFs (Rename dir current Done) (\<lambda>_. Done (Inr key)))))))
     | _ \<Rightarrow> try_saved E ws tmp es))"

definition restore_header :: "'z jext_scheme \<Rightarrow> words \<Rightarrow> (store_error + data_key) prog" where
  "restore_header E ws =
     tryP (inspect E) (\<lambda>s.
     case s of
       Broken \<Rightarrow>
         tryP (read_header E) (\<lambda>found.
         case found of
           Some header \<Rightarrow>
             try_res crypto_err (unwrap E (wrapped header) ws) (\<lambda>key.
             tryP stop_old_clients (\<lambda>_. Done (Inr key)))
         | None \<Rightarrow>
             try_res SeFs (rp_new ENC_SEALED_TMP_DIR) (\<lambda>tmp.
             ReadDir tmp (\<lambda>r.
               try_res SeFs (case r of
                               Inr es \<Rightarrow> Inr es
                             | Inl (FsNotFound _) \<Rightarrow> Inr []
                             | Inl e \<Rightarrow> Inl e) (\<lambda>es.
               try_saved E ws tmp (filter is_saved_header es)))))
     | other \<Rightarrow> Done (Inl (refuse other)))"

end
