(* ===== verification/Change_Laws.thy ===== *)
theory Change_Laws
  imports Journal_Laws Header_Change
begin

text \<open>
  What a change of the store header guarantees, whatever fails on the way. Three folders matter: the
  header in use, the header replaced and the header waiting, the last two inside the lock.
  Installing moves through three states, each of which has every header whole; from each of them the
  change can be completed and undone.
\<close>

section \<open>The three folders\<close>

abbreviation "cur \<equiv> [''encryption'']"
abbreviation "prv \<equiv> [''.rewrite'', ''previous'']"
abbreviation "pnd \<equiv> [''.rewrite'', ''header'']"

text \<open>Nothing outside the header and the lock differs, and the folders hold these trees.\<close>

definition frame :: "fsview \<Rightarrow> fsview \<Rightarrow> bool" where
  "frame v u \<longleftrightarrow> (\<forall>q. \<not> is_under [''encryption''] q \<longrightarrow> \<not> is_under [''.rewrite''] q \<longrightarrow> u q = v q)"

definition holds :: "fsview \<Rightarrow> tree \<Rightarrow> tree \<Rightarrow> tree \<Rightarrow> fsview \<Rightarrow> bool" where
  "holds v a b c u \<longleftrightarrow>
     frame v u \<and> u [''.rewrite''] = Some VDir \<and> sub u cur = a \<and> sub u prv = b \<and> sub u pnd = c"

definition swapping :: "fsview \<Rightarrow> tree \<Rightarrow> tree \<Rightarrow> fsview \<Rightarrow> bool" where
  "swapping v old new u \<longleftrightarrow>
     holds v old nothing new u \<or> holds v nothing old new u \<or> holds v new old nothing u"

lemma holdsD:
  assumes "holds v a b c u"
  shows "u cur = a []" "u prv = b []" "u pnd = c []" "u [''.rewrite''] = Some VDir" "u [] = v []"
proof -
  show "u [''.rewrite''] = Some VDir" using assms by (simp add: holds_def)
  show "u [] = v []" using assms by (simp add: holds_def frame_def is_under_def)
  show "u cur = a []" "u prv = b []" "u pnd = c []"
    using assms sub_here(1) [of u cur] sub_here(1) [of u prv] sub_here(1) [of u pnd]
    by (simp_all add: holds_def)
qed

lemma frame_move:
  assumes "frame v u" "is_under cur p \<or> is_under [''.rewrite''] p" "is_under cur q \<or> is_under [''.rewrite''] q"
  shows "frame v (move_tree p q u)"
proof -
  have out: "\<not> is_under p x" "\<not> is_under q x" if "\<not> is_under cur x" "\<not> is_under [''.rewrite''] x" for x
    using assms(2,3) that under_trans by blast+
  show ?thesis using assms(1) out by (simp add: frame_def move_at)
qed

lemma holds_move:
  assumes "holds v a b c u"
  shows "holds v nothing a c (move_tree cur prv u)" "holds v c b nothing (move_tree pnd cur u)"
    and "holds v nothing b a (move_tree cur pnd u)" "holds v b nothing c (move_tree prv cur u)"
  using assms frame_move [of v u]
  by (simp_all add: holds_def move_at is_under_def)

section \<open>Installing the new header\<close>

text \<open>Every state on the way is allowed, and only faults stop it.\<close>

definition installed :: "bool \<Rightarrow> fsview \<Rightarrow> tree \<Rightarrow> tree \<Rightarrow> store_error + unit \<Rightarrow> fsview \<Rightarrow> bool" where
  "installed F v old new r u \<longleftrightarrow>
     swapping v old new u \<and> (case r of Inr _ \<Rightarrow> holds v new old nothing u | Inl _ \<Rightarrow> F)"

lemma safe_installed:
  "swapping v old new u \<Longrightarrow> (case r of Inr _ \<Rightarrow> holds v new old nothing u | Inl _ \<Rightarrow> F) \<Longrightarrow>
   safe (alone F) (swapping v old new) (Done r) (installed F v old new) u"
  by (rule safe_done [where J = "\<lambda>w. w = u"]) (simp_all add: installed_def)

definition swappable :: "fsview \<Rightarrow> tree \<Rightarrow> tree \<Rightarrow> bool" where
  "swappable v old new \<longleftrightarrow> v [] = Some VDir \<and> new [] \<noteq> None \<and> (old = nothing \<or> old [] \<noteq> None)"

lemma install_safe:
  assumes ok: "swappable v old new" and s: "swapping v old new u"
  shows "safe (alone F) (swapping v old new) install (installed F v old new) u"
proof -
  note program = install_def change_names change_paths new_is try_res_simps prog_simps
  have stop: "safe (alone F') (swapping v old new) (Done (Inl e)) (installed G v old new) w"
    if "swapping v old new w" G for e :: store_error and w F' G
    by (rule alone_done) (use that in \<open>simp_all add: installed_def\<close>)
  have end_: "safe (alone F) (swapping v old new) (Done (Inr ())) (installed F v old new) w"
    if "holds v new old nothing w" for w
    by (rule safe_installed) (use that in \<open>simp_all add: swapping_def\<close>)
  consider "holds v old nothing new u" "old [] \<noteq> None" | "holds v nothing old new u" | "holds v new old nothing u"
    using s ok by (auto simp: swapping_def swappable_def)
  then show ?thesis
  proof cases
    case 1
    have m: "holds v nothing old new (move_tree cur prv u)" by (rule holds_move(1) [OF 1(1)])
    have m': "holds v new old nothing (move_tree pnd cur (move_tree cur prv u))" by (rule holds_move(2) [OF m])
    have sw: "swapping v old new (move_tree cur prv u)" "swapping v old new (move_tree pnd cur (move_tree cur prv u))"
      using m m' by (simp_all add: swapping_def)
    note facts = holdsD [OF 1(1)] holdsD [OF m] holdsD [OF m'] ok [unfolded swappable_def] 1(2) s sw end_ [OF
      m'] stop [OF s] stop [OF sw(1)] stop [OF sw(2)]
    show ?thesis
      unfolding program
      by ((rule alone_there; simp add: prog_simps facts), (rule alone_there; simp add: prog_simps facts),
        (rule alone_absent; simp add: prog_simps facts), (rule alone_move; simp add: prog_simps facts),
        (rule alone_move; simp add: prog_simps facts))
  next
    case 2
    have m: "holds v new old nothing (move_tree pnd cur u)" by (rule holds_move(2) [OF 2])
    have sw: "swapping v old new (move_tree pnd cur u)" using m by (simp add: swapping_def)
    note facts = holdsD [OF 2] holdsD [OF m] ok [unfolded swappable_def] s sw end_ [OF m] stop [OF s] stop [OF sw]
    show ?thesis
      unfolding program
      by ((rule alone_there; simp add: prog_simps facts), (rule alone_absent; simp add: prog_simps facts),
        (rule alone_move; simp add: prog_simps facts))
  next
    case 3
    note facts = holdsD [OF 3] s end_ [OF 3] stop [OF s]
    show ?thesis
      unfolding program
      by ((rule alone_absent; simp add: prog_simps facts))
  qed
qed

section \<open>The lock released\<close>

text \<open>One header is in use, and nothing but locks differs otherwise.\<close>

definition settled :: "fsview \<Rightarrow> tree \<Rightarrow> fsview \<Rightarrow> bool" where
  "settled v t u \<longleftrightarrow>
     sub u cur = t \<and> (\<forall>q. \<not> is_under cur q \<longrightarrow> \<not> lock_path q \<longrightarrow> u q = v q)"

lemma lock_path_simps [simp]:
  "lock_path [] = False" "lock_path (''.rewrite'' # q)" "\<not> lock_path (''encryption'' # q)"
  by (simp_all add: lock_path_def starts_with_def)

lemma settled_loses: "loses_locks (settled v t)"
  unfolding loses_locks_def
proof (intro allI impI)
  fix u u' assume u: "settled v t u" and l: "less_locked u u'"
  then have "u' q = u q" if "\<not> lock_path q" for q using that unfolding less_locked_def by blast
  then show "settled v t u'" using u by (simp add: settled_def sub_def)
qed

lemma lock_under: "is_under [''.rewrite''] q \<Longrightarrow> lock_path q"
  by (cases q) (auto simp: is_under_def)

lemma holds_settled: "holds v a b c u \<Longrightarrow> settled v a u"
  unfolding settled_def holds_def frame_def using lock_under by blast

lemma holds_neat:
  assumes "holds v a b c u" "neat v"
  shows "neat u"
  unfolding neat_def
proof (intro allI impI)
  fix n assume n: "u [n] \<noteq> None"
  show "\<not> invalid_component n"
  proof (cases "n = ''encryption'' \<or> n = ''.rewrite''")
    case False
    then have "u [n] = v [n]" using assms(1) by (simp add: holds_def frame_def is_under_def)
    then show ?thesis using n assms(2) by (simp add: neat_def)
  qed auto
qed

definition let_go :: "bool \<Rightarrow> fsview \<Rightarrow> tree \<Rightarrow> store_error + unit \<Rightarrow> fsview \<Rightarrow> bool" where
  "let_go F v t r u \<longleftrightarrow> settled v t u \<and> (case r of Inr _ \<Rightarrow> sub u [''.rewrite''] = nothing | Inl _ \<Rightarrow> F)"

lemma release_settled:
  assumes h: "holds v t b c u" and v: "neat v" "v [] = Some VDir"
  shows "safe (alone F) (settled v t) release_lock (let_go F v t) u"
proof (rule safe_post [OF release_lock_safe [OF settled_loses]])
  show "settled v t u" by (rule holds_settled [OF h])
  show "u [] = Some VDir" "\<forall>b. u [''.rewrite''] \<noteq> Some (VFile b)" using holdsD [OF h] v by auto
  show "neat u" by (rule holds_neat [OF h v(1)])
qed (auto simp: let_go_def)

text \<open>A header is always there: in use, or beside the new one in the lock.\<close>

definition one_header :: "fsview \<Rightarrow> tree \<Rightarrow> tree \<Rightarrow> fsview \<Rightarrow> bool" where
  "one_header v old new u \<longleftrightarrow>
     settled v old u \<or> settled v new u \<or> settled v nothing u \<and> sub u prv = old \<and> sub u pnd = new"

lemma swapping_one_header: "swapping v old new u \<Longrightarrow> one_header v old new u"
  unfolding swapping_def one_header_def
proof (elim disjE)
  assume "holds v nothing old new u"
  then show "settled v old u \<or> settled v new u \<or> settled v nothing u \<and> sub u prv = old \<and> sub u pnd = new"
    using holds_settled [of v nothing old new u] by (simp add: holds_def)
qed (simp_all add: holds_settled)

lemma complete_words_safe:
  assumes ok: "swappable v old new" and s: "swapping v old new u" and v: "neat v"
  shows "safe (alone F) (one_header v old new) (complete NewWords)
    (\<lambda>r w. one_header v old new w \<and> (case r of Inr _ \<Rightarrow> settled v new w \<and> sub w [''.rewrite''] = nothing | Inl _ \<Rightarrow> F)) u"
  unfolding complete_def
proof (simp add: prog_simps, rule safe_then_try [OF safe_inv [OF install_safe [OF ok s]], where J = "\<lambda>_. True"])
  fix x w assume "installed F v old new (Inr x) w"
  then have "holds v new old nothing w" by (simp add: installed_def)
  then have "safe (alone F) (settled v new) release_lock (let_go F v new) w"
    using release_settled ok v by (simp add: swappable_def)
  then show "safe (alone F) (one_header v old new) release_lock
      (\<lambda>r w. one_header v old new w \<and> (case r of Inr _ \<Rightarrow> settled v new w \<and> sub w [''.rewrite''] = nothing | Inl _ \<Rightarrow> F)) w"
    by (rule safe_post [OF safe_inv]) (auto simp: one_header_def let_go_def split: sum.splits)
next
  fix e w assume "installed F v old new (Inl e) w"
  then show "safe (alone F) (one_header v old new) (Done (Inl e))
      (\<lambda>r w. one_header v old new w \<and> (case r of Inr _ \<Rightarrow> settled v new w \<and> sub w [''.rewrite''] = nothing | Inl _ \<Rightarrow> F)) w"
    by (intro alone_done) (auto simp: installed_def swapping_one_header)
qed (auto simp: swapping_one_header)

section \<open>Undoing a change of words\<close>

lemma revert_words_safe:
  assumes ok: "swappable v old new" "old [] \<noteq> None" and s: "swapping v old new u" and v: "neat v"
    and c: "hc_kind change = NewWords"
  shows "safe (alone F) (one_header v old new) (revert change)
    (\<lambda>r w. one_header v old new w \<and> (case r of Inr _ \<Rightarrow> settled v old w \<and> sub w [''.rewrite''] = nothing | Inl _ \<Rightarrow> F)) u"
    (is "safe _ ?I _ ?Q _")
proof -
  have stop: "safe (alone F') ?I (Done (Inl e)) (\<lambda>r w. one_header v old new w \<and> (case r of Inr _ \<Rightarrow> settled v old w \<and> sub w [''.rewrite''] = nothing | Inl _ \<Rightarrow> G)) w"
    if "swapping v old new w" G for e w F' G
    by (rule alone_done) (use that in \<open>auto simp: swapping_one_header\<close>)
  have end_: "safe (alone F) ?I release_lock ?Q w" if "holds v old nothing new w" for w
    by (rule safe_post [OF safe_inv [OF release_settled [OF that v]]])
      (use ok in \<open>auto simp: swappable_def one_header_def let_go_def split: sum.splits\<close>)
  have one: "?I w" if "swapping v old new w" for w using that by (rule swapping_one_header)
  note program = revert_def change_names change_paths new_is try_res_simps prog_simps c header_change_kind.simps
  consider "holds v old nothing new u" | "holds v nothing old new u" | "holds v new old nothing u"
    using s by (auto simp: swapping_def)
  then show ?thesis
  proof cases
    case 1
    note facts = holdsD [OF 1] ok [unfolded swappable_def] end_ [OF 1] stop [OF s] one [OF s]
    show ?thesis
      unfolding program
      by ((rule alone_there; simp add: prog_simps facts), (rule alone_there; simp add: prog_simps facts),
        (rule alone_there; simp add: prog_simps facts))
  next
    case 2
    have m: "holds v old nothing new (move_tree prv cur u)" by (rule holds_move(4) [OF 2])
    have sw: "swapping v old new (move_tree prv cur u)" using m by (simp add: swapping_def)
    note facts = holdsD [OF 2] holdsD [OF m] ok [unfolded swappable_def] end_ [OF m] stop [OF s] stop [OF sw]
      one [OF s] one [OF sw]
    show ?thesis
      unfolding program
      by ((rule alone_there; simp add: prog_simps facts), (rule alone_absent; simp add: prog_simps facts),
        (rule alone_there; simp add: prog_simps facts), (rule alone_move; simp add: prog_simps facts),
        (rule alone_there; simp add: prog_simps facts))
  next
    case 3
    have m: "holds v nothing old new (move_tree cur pnd u)" by (rule holds_move(3) [OF 3])
    have m': "holds v old nothing new (move_tree prv cur (move_tree cur pnd u))" by (rule holds_move(4) [OF m])
    have sw: "swapping v old new (move_tree cur pnd u)" "swapping v old new (move_tree prv cur (move_tree cur pnd u))"
      using m m' by (simp_all add: swapping_def)
    note facts = holdsD [OF 3] holdsD [OF m] holdsD [OF m'] ok [unfolded swappable_def] end_ [OF m'] stop [OF
      s] stop [OF sw(1)] stop [OF sw(2)] one [OF s] one [OF sw(1)] one [OF sw(2)]
    show ?thesis
      unfolding program
      by ((rule alone_absent; simp add: prog_simps facts), (rule alone_there; simp add: prog_simps facts),
        (rule alone_move; simp add: prog_simps facts), (rule alone_absent; simp add: prog_simps facts),
        (rule alone_there; simp add: prog_simps facts), (rule alone_move; simp add: prog_simps facts),
        (rule alone_there; simp add: prog_simps facts))
  qed
qed

section \<open>A whole change of words\<close>

text \<open>What a header written by \<open>publish\<close> or \<open>create_header\<close> looks like.\<close>

definition header_tree :: "'z jext_scheme \<Rightarrow> store_header \<Rightarrow> tree" where
  "header_tree E h = [[] \<mapsto> VDir, [''header.json''] \<mapsto> VFile (to_json E h)]"

lemma lock_tree_folders:
  assumes "sub u [''.rewrite''] = lock_tree E json [(''header'', h), (''old-header'', k)]"
  shows "u [''.rewrite''] = Some VDir" "sub u pnd = header_tree E h" "sub u prv = nothing"
proof -
  have at: "u (''.rewrite'' # s) = lock_tree E json [(''header'', h), (''old-header'', k)] s" for s
    using fun_cong [OF assms, of s] by (simp add: sub_def)
  show "u [''.rewrite''] = Some VDir" using at [of "[]"] by simp
  show "sub u pnd = header_tree E h" "sub u prv = nothing"
    by (auto simp: fun_eq_iff sub_def at lock_tree_def header_tree_def)
qed

definition unlocked_same :: "fsview \<Rightarrow> fsview \<Rightarrow> bool" where
  "unlocked_same v u \<longleftrightarrow> u [] = Some VDir \<and> neat u \<and> (\<forall>q. \<not> lock_path q \<longrightarrow> u q = v q)"

lemma alone_locker:
  assumes hex: "hex_laws E"
  shows "locker E (alone F) t (unlocked_same v) (\<lambda>u. unlocked_same v u \<and> sub u [''.rewrite''] = t)"
  unfolding locker_def
proof (intro conjI allI impI)
  fix b :: bytes
  have l: "is_under [staged_name E b] q \<Longrightarrow> lock_path q" for q
    by (cases q) (auto simp: is_under_def lock_path_def starts_with_def staged_name_def STAGING_PREFIX_def)
  show "unlocked_same v u'" if u: "unlocked_same v u" and o: "\<forall>q. \<not> is_under [staged_name E b] q \<longrightarrow> u' q = u q" for u u'
    unfolding unlocked_same_def neat_def
  proof (intro conjI allI impI)
    show "u' [] = Some VDir" using u o by (simp add: unlocked_same_def is_under_def)
    show "u' q = v q" if "\<not> lock_path q" for q using u o l that unfolding unlocked_same_def by metis
    show "\<not> invalid_component n" if "u' [n] \<noteq> None" for n
      using that u o staged_valid [OF hex, of b]
      by (cases "n = staged_name E b") (auto simp: unlocked_same_def neat_def is_under_def)
  qed
  fix u assume u: "unlocked_same v u" "sub u [staged_name E b] = t"
  then show "sub (move_tree [staged_name E b] [''.rewrite''] u) [''.rewrite''] = t" by simp
  show "unlocked_same v (move_tree [staged_name E b] [''.rewrite''] u)"
    unfolding unlocked_same_def neat_def
  proof (intro conjI allI impI)
    show "move_tree [staged_name E b] [''.rewrite''] u [] = Some VDir"
      using u by (simp add: unlocked_same_def move_at is_under_def)
    show "move_tree [staged_name E b] [''.rewrite''] u q = v q" if "\<not> lock_path q" for q
      using u that l [of q] lock_under [of q] move_at [of "[staged_name E b]" q "[''.rewrite'']" u]
      by (auto simp: unlocked_same_def)
    show "\<not> invalid_component n" if "move_tree [staged_name E b] [''.rewrite''] u [n] \<noteq> None" for n
      using that u(1) by (auto simp: unlocked_same_def neat_def move_tree_def is_under_def split: if_splits)
  qed
qed (simp_all add: unlocked_same_def)

lemma run_words_safe:
  assumes hex: "hex_laws E" and v: "v [] = Some VDir" "neat v" "unused_names E (alone F) v" "v cur \<noteq> None"
  shows "safe (alone F) (one_header v (sub v cur) (header_tree E h)) (run_change E NewWords h (Some k))
    (\<lambda>r u. one_header v (sub v cur) (header_tree E h) u
       \<and> (case r of
            Inr _ \<Rightarrow> settled v (header_tree E h) u \<and> sub u [''.rewrite''] = nothing
          | Inl e \<Rightarrow> F \<or> e = SeEncryption (EnRewriting None) \<and> v [''.rewrite''] \<noteq> None)) v"
    (is "safe _ ?I _ ?Q _")
proof -
  let ?same = "unlocked_same v"
  have old: "settled v (sub v cur) u" if "?same u" for u
    using that by (auto simp: unlocked_same_def settled_def sub_def fun_eq_iff)
  have I: "?same u \<Longrightarrow> ?I u" for u using old by (simp add: one_header_def)
  have go: "safe (alone F) ?I (complete NewWords) ?Q u"
    if u: "?same u" "sub u [''.rewrite''] = lock_tree E json [(''header'', h), (''old-header'', k)]" for u json
  proof -
    note t = lock_tree_folders [OF u(2)]
    have same: "sub u cur = sub v cur" using u(1) by (auto simp: unlocked_same_def sub_def fun_eq_iff)
    have eq: "settled u x w = settled v x w" for x w
      using u(1) by (auto simp: unlocked_same_def settled_def)
    have "neat u" using u(1) by (simp add: unlocked_same_def)
    moreover have "swapping u (sub v cur) (header_tree E h) u"
      using t same by (simp add: swapping_def holds_def frame_def)
    moreover have "swappable u (sub v cur) (header_tree E h)"
      using u(1) v(4) by (simp add: swappable_def header_tree_def sub_def unlocked_same_def)
    ultimately have "safe (alone F) (one_header u (sub v cur) (header_tree E h)) (complete NewWords)
      (\<lambda>r w. one_header u (sub v cur) (header_tree E h) w \<and> (case r of
          Inr _ \<Rightarrow> settled u (header_tree E h) w \<and> sub w [''.rewrite''] = nothing | Inl _ \<Rightarrow> F)) u"
      by (intro complete_words_safe)
    then show ?thesis
      unfolding one_header_def eq by (rule safe_post) (auto split: sum.splits)
  qed
  show ?thesis
    unfolding run_change_def Let_def change_names option.case
  proof (rule safe_call(10) [where J = "\<lambda>u. u = v"])
    fix now :: datetime
    show "safe (alone F) ?I (tryP (publish E (x_change_to_json E \<lparr>hc_kind = NewWords, hc_started_at = x_rfc3339 E now,
        hc_key = key_id_display E (header_key_id h)\<rparr>) ((''header'', h) # [(''old-header'', k)]))
      (\<lambda>_. complete NewWords)) ?Q v"
      by (rule safe_then_try [OF safe_inv [OF publish_safe [OF alone_locker [OF hex] hex _ _ v(3)]], where J = "\<lambda>_. True"])
        (use v in \<open>auto simp: header_folders_def locked_by_def unlocked_same_def quiet_def intro: go I intro!: alone_done\<close>)
  qed (use old [of v] v in \<open>simp_all add: one_header_def unlocked_same_def\<close>)
qed

section \<open>Properties\<close>

text \<open>C19: Changing a store's words never leaves it without its header. Whatever fails on the way, at
  every moment the header folder is the whole old one or the whole new one, or is absent while the
  lock holds both whole; nothing but the header and locks changes. Success means the new header is in
  use and the lock is gone; without faults the only failure is finding the store locked already.\<close>

theorem words_change_keeps_header:
  assumes "hex_laws E" "v [] = Some VDir" "neat v" "unused_names E (alone F) v" "v [''encryption''] \<noteq> None"
  shows "safe (alone F) (one_header v (sub v [''encryption'']) (header_tree E new))
    (run_change E NewWords new (Some old))
    (\<lambda>r u. case r of
       Inr _ \<Rightarrow> settled v (header_tree E new) u \<and> sub u [''.rewrite''] = nothing
     | Inl e \<Rightarrow> F \<or> e = SeEncryption (EnRewriting None) \<and> v [''.rewrite''] \<noteq> None) v"
  by (rule safe_post [OF run_words_safe [OF assms]]) (auto split: sum.splits)


text \<open>It can as well be completed from each of these states: the new header comes into use and the
  lock is released.\<close>

theorem words_change_finished:
  assumes "swappable v old new" "swapping v old new u" "neat v"
  shows "safe (alone F) (one_header v old new) (complete NewWords)
    (\<lambda>r w. one_header v old new w \<and>
       (case r of Inr _ \<Rightarrow> settled v new w \<and> sub w [''.rewrite''] = nothing | Inl _ \<Rightarrow> F)) u"
  by (rule complete_words_safe [OF assms])

definition sample_encrypted :: fsview where
  "sample_encrypted =
     [[] \<mapsto> VDir, [''encryption''] \<mapsto> VDir, [''encryption'', ''header.json''] \<mapsto> VFile (to_json sample_jext sample_header)]"

theorem words_change_keeps_header_witness:
  "safe (alone True) (one_header sample_encrypted (sub sample_encrypted [''encryption'']) (header_tree sample_jext sample_header))
    (run_change sample_jext NewWords sample_header (Some sample_header))
    (\<lambda>r u. case r of
       Inr _ \<Rightarrow> settled sample_encrypted (header_tree sample_jext sample_header) u \<and> sub u [''.rewrite''] = nothing
     | Inl e \<Rightarrow> True \<or> e = SeEncryption (EnRewriting None) \<and> sample_encrypted [''.rewrite''] \<noteq> None) sample_encrypted"
  by (rule words_change_keeps_header)
    (auto simp: sample_jext_laws sample_encrypted_def neat_def unused_names_def staged_name_def STAGING_PREFIX_def
      split: if_splits)

text \<open>Stopped after the old header moved away, before the new one came: no header in use.\<close>

definition sample_swapping :: fsview where
  "sample_swapping =
     [[] \<mapsto> VDir, [''.rewrite''] \<mapsto> VDir, [''.rewrite'', ''previous''] \<mapsto> VDir, [''.rewrite'', ''header''] \<mapsto> VDir]"

definition sample_change :: header_change where
  "sample_change = \<lparr>hc_kind = NewWords, hc_started_at = [], hc_key = []\<rparr>"

lemma sample_swap:
  "swappable sample_swapping [[] \<mapsto> VDir] [[] \<mapsto> VDir]"
  "swapping sample_swapping [[] \<mapsto> VDir] [[] \<mapsto> VDir] sample_swapping"
  "neat sample_swapping"
proof -
  have "sub sample_swapping cur = nothing" "sub sample_swapping prv = [[] \<mapsto> VDir]" "sub sample_swapping pnd = [[] \<mapsto> VDir]"
    by (auto simp: sub_def sample_swapping_def fun_eq_iff)
  then show "swapping sample_swapping [[] \<mapsto> VDir] [[] \<mapsto> VDir] sample_swapping"
    by (simp add: swapping_def holds_def frame_def sample_swapping_def)
qed (auto simp: swappable_def neat_def sample_swapping_def split: if_splits)


theorem words_change_finished_witness:
  "safe (alone False) (one_header sample_swapping [[] \<mapsto> VDir] [[] \<mapsto> VDir]) (complete NewWords)
    (\<lambda>r w. one_header sample_swapping [[] \<mapsto> VDir] [[] \<mapsto> VDir] w \<and>
       (case r of Inr _ \<Rightarrow> settled sample_swapping [[] \<mapsto> VDir] w \<and> sub w [''.rewrite''] = nothing | Inl _ \<Rightarrow> False))
    sample_swapping"
  by (rule words_change_finished [OF sample_swap])

end
