(* ===== verification/Rewrite.thy ===== *)
theory Rewrite
  imports Header_Change
begin

text \<open>
  Re-encrypting every item: \<^verbatim>\<open>passalong-core/src/encryption/rewrite.rs\<close> and the driver of
  \<^verbatim>\<open>encryption/admin_trait.rs\<close>. The timer of the heartbeats is left to the \<open>rw_tick\<close> of the trait
  record.
\<close>

section \<open>The driver\<close>

text \<open>The trait \<open>Rewrite\<close>: what \<open>run_rewrite\<close> needs of a store. \<open>rw_due\<close> says whether a heartbeat is
  due after the given number of items.\<close>

record rewrite_ops =
  rw_source :: dyn_store
  rw_target_id :: "item_meta \<Rightarrow> store_error + item_id"
  rw_staged :: "item_id \<Rightarrow> (store_error + bool) prog"
  rw_import :: "item_meta \<Rightarrow> box_read \<Rightarrow> (store_error + item_meta) prog"
  rw_read_back :: "item_id \<Rightarrow> (store_error + item_meta \<times> box_read) prog"
  rw_heartbeat :: "(store_error + unit) prog"
  rw_due :: "nat \<Rightarrow> bool"
  rw_commit :: "(store_error + unit) prog"

definition tick :: "rewrite_ops \<Rightarrow> nat \<Rightarrow> (store_error + unit) prog" where
  "tick R n = (if rw_due R n then rw_heartbeat R else Done (Inr ()))"

text \<open>The reading loop of \<open>verify\<close>, with buffers of 64 KiB.\<close>

function hash_all :: "box_read \<Rightarrow> content_hasher \<Rightarrow> io_error + content_hasher" where
  "hash_all content h =
     (case rd_read (64 * 1024) content of
        (Inl e, _) \<Rightarrow> Inl e
      | (Inr b, rest) \<Rightarrow> if b = [] then Inr h else hash_all rest (hasher_update b h))"
  by pat_completeness auto
termination
  by (relation "measure (\<lambda>(content, h). length (br_bytes content))") (auto dest: rd_read_shrinks [OF sym])

declare hash_all.simps [simp del]

definition verify :: "'z jext_scheme \<Rightarrow> rewrite_ops \<Rightarrow> item_meta \<Rightarrow> (store_error + unit) prog" where
  "verify E R m =
     try_res id (rw_target_id R m) (\<lambda>i.
     tryP (rw_read_back R i) (\<lambda>(_, content).
     try_res (\<lambda>e. SeContent (io_message e)) (hash_all content hasher_new) (\<lambda>h.
     let digest = hasher_finalize E h in
     if sha256_hex E digest \<noteq> meta_sha256 m \<or> cd_size digest \<noteq> meta_size m
     then Done (Inl (SeCorrupt (id_repr i) (''its re-encrypted copy does not match '' @ id_repr (meta_id m))))
     else Done (Inr ()))))"

text \<open>\<open>n\<close> counts the items so far; the metadata is collected in order.\<close>

fun import_all ::
  "rewrite_ops \<Rightarrow> item_id list \<Rightarrow> nat \<Rightarrow> item_meta list \<Rightarrow> (store_error + item_meta list) prog" where
  "import_all R [] n metas = Done (Inr metas)"
| "import_all R (i # is) n metas =
     tryP (ds_get_meta (rw_source R) i) (\<lambda>m.
     try_res id (rw_target_id R m) (\<lambda>t.
     tryP (rw_staged R t) (\<lambda>there.
     tryP (if there then Done (Inr ())
           else tryP (ds_get (rw_source R) i) (\<lambda>(m, content).
                tryP (rw_import R m content) (\<lambda>_. Done (Inr ())))) (\<lambda>_.
     tryP (tick R n) (\<lambda>_.
     import_all R is (n + 1) (metas @ [m]))))))"

fun verify_all :: "'z jext_scheme \<Rightarrow> rewrite_ops \<Rightarrow> item_meta list \<Rightarrow> nat \<Rightarrow> (store_error + unit) prog" where
  "verify_all E R [] n = Done (Inr ())"
| "verify_all E R (m # ms) n =
     tryP (verify E R m) (\<lambda>_.
     tryP (tick R n) (\<lambda>_. verify_all E R ms (n + 1)))"

definition run_rewrite :: "'z jext_scheme \<Rightarrow> rewrite_ops \<Rightarrow> (store_error + nat) prog" where
  "run_rewrite E R =
     tryP (ds_list_ids (rw_source R)) (\<lambda>ids.
     tryP (import_all R (rev ids) 0 []) (\<lambda>metas.
     tryP (verify_all E R metas (length metas)) (\<lambda>_.
     tryP (rw_commit R) (\<lambda>_. Done (Inr (length metas))))))"

section \<open>On a file system\<close>

definition SOURCE :: string where "SOURCE = ''source''"

definition source_items :: "rewrite_kind \<Rightarrow> string" where
  "source_items k = (case k of Migrate \<Rightarrow> STOP_FILE | Rotate \<Rightarrow> ''v2/items'')"

definition read_plan :: "'z jext_scheme \<Rightarrow> (store_error + rewrite_plan option) prog" where
  "read_plan E =
     tryP (read_journal E) (\<lambda>j.
     Done (case j of
             None \<Rightarrow> Inr None
           | Some (JRewrite plan) \<Rightarrow> Inr (Some plan)
           | Some (JUnreadable reason) \<Rightarrow> Inl (SeEncryption (EnLayout (PLAN_FILE @ '': '' @ reason)))
           | Some other \<Rightarrow> Inl (unsupported other)))"

definition plan_of :: "journal option \<Rightarrow> store_error + rewrite_plan" where
  "plan_of j =
     (let none = Inl (SeEncryption (EnLayout ''the re-encryption stopped before its plan was saved; undo it instead'')) in
      case j of
        Some (JRewrite plan) \<Rightarrow> Inr plan
      | None \<Rightarrow> none
      | Some (JUnreadable _) \<Rightarrow> none
      | Some other \<Rightarrow> Inl (unsupported other))"

definition cleanup :: "(store_error + unit) prog" where
  "cleanup =
     try_res SeFs (under_rewrite SOURCE) (\<lambda>source.
     try_as SeFs (RemoveDirAll source Done) (\<lambda>_. release_lock))"

text \<open>\<open>FsRewrite\<close>: the source below \<^verbatim>\<open>.rewrite/source\<close>, the target in \<^verbatim>\<open>v2/items\<close>.\<close>

definition fs_rewrite :: "'z jext_scheme \<Rightarrow> remote_path \<Rightarrow> fs_store \<Rightarrow> fs_store \<Rightarrow> (nat \<Rightarrow> bool) \<Rightarrow> rewrite_ops" where
  "fs_rewrite E source_root source target due =
     \<lparr>rw_source = (fs_dyn E source)\<lparr>ds_list_ids := sub_prog source_root (list_ids E source),
                    ds_get := (\<lambda>i. sub_prog source_root (get_item E source i)),
                    ds_get_meta := (\<lambda>i. sub_prog source_root (get_meta E source i))\<rparr>,
      rw_target_id = id_for E target, rw_staged = exists_item target,
      rw_import = import_item E target, rw_read_back = get_item E target,
      rw_heartbeat = Done (Inr ()), rw_due = due,
      rw_commit = tryP install (\<lambda>_. cleanup)\<rparr>"

definition move_source :: "remote_path \<Rightarrow> remote_path \<Rightarrow> (store_error + unit) prog" where
  "move_source original moved =
     try_as SeFs (Stat moved Done) (\<lambda>there.
     if there \<noteq> None then Done (Inr ()) else
     try_as SeFs (case parent moved of Some p \<Rightarrow> CreateDirAll p Done | None \<Rightarrow> Done (Inr ())) (\<lambda>_.
     try_as SeFs (Stat original Done) (\<lambda>found.
     if is_folder found then try_as SeFs (Rename original moved Done) (\<lambda>_. Done (Inr ()))
     else try_as SeFs (CreateDirAll moved Done) (\<lambda>_. Done (Inr ())))))"

definition stop_migrated :: "remote_path \<Rightarrow> remote_path \<Rightarrow> (store_error + unit) prog" where
  "stop_migrated original moved =
     bind write_stop_file (\<lambda>written.
     let drop_staging =
           try_res SeFs (rp_new TMP_DIR) (\<lambda>tmp. try_as SeFs (RemoveDirAll tmp Done) (\<lambda>_. Done (Inr ()))) in
     case written of
       Inr _ \<Rightarrow> drop_staging
     | Inl (SeEncryption (EnLayout _)) \<Rightarrow>
         tryP (fold_dir original moved) (\<lambda>_. tryP write_stop_file (\<lambda>_. drop_staging))
     | Inl e \<Rightarrow> Done (Inl e))"

definition run_from_source ::
  "'z jext_scheme \<Rightarrow> (nat \<Rightarrow> bool) \<Rightarrow> rewrite_kind \<Rightarrow> data_key \<Rightarrow> data_key option \<Rightarrow> (store_error + unit) prog" where
  "run_from_source E due kind key old =
     try_res SeFs (under_rewrite (SOURCE @ ''/'' @ source_items kind)) (\<lambda>moved.
     try_res SeFs (rp_new (source_items kind)) (\<lambda>original.
     tryP (move_source original moved) (\<lambda>_.
     tryP (if kind = Migrate then stop_migrated original moved else Done (Inr ())) (\<lambda>_.
     try_res SeFs (under_rewrite SOURCE) (\<lambda>source_root.
     let source = (case old of Some k \<Rightarrow> store_sealed (sealer_new E k) | None \<Rightarrow> store_new);
         target = store_sealed (sealer_new E key) in
     tryP (run_rewrite E (fs_rewrite E source_root source target due)) (\<lambda>_. Done (Inr ())))))))"

definition migrate ::
  "'z jext_scheme \<Rightarrow> (nat \<Rightarrow> bool) \<Rightarrow> words \<Rightarrow> kdf_params \<Rightarrow> (store_error + data_key) prog" where
  "migrate E due ws kdf =
     tryP (inspect E) (\<lambda>s.
     case s of
       Plain n \<Rightarrow>
         tryP (new_key E ws kdf) (\<lambda>(key, header).
         Now (\<lambda>now.
         let plan = \<lparr>pl_kind = Migrate, pl_started_at = x_rfc3339 E now, pl_from_key = None,
                     pl_to_key = key_id_display E (dk_key_id E key), pl_items = n\<rparr> in
         tryP (publish E (x_plan_to_json E plan) [(NEW_HEADER, header)]) (\<lambda>_.
         tryP (run_from_source E due Migrate key None) (\<lambda>_. Done (Inr key)))))
     | other \<Rightarrow> Done (Inl (refuse other)))"

definition rotate ::
  "'z jext_scheme \<Rightarrow> (nat \<Rightarrow> bool) \<Rightarrow> data_key \<Rightarrow> words \<Rightarrow> kdf_params \<Rightarrow> (store_error + data_key) prog" where
  "rotate E due old ws kdf =
     tryP (inspect E) (\<lambda>s.
     case s of
       Encrypted kid _ \<Rightarrow>
         if kid \<noteq> dk_key_id E old
         then Done (Inl (SeEncryption (EnKeyMismatch (key_id_short E (dk_key_id E old)) (key_id_short E kid))))
         else
           tryP (read_header E) (\<lambda>found.
           try_res id (ok_or found (SeEncryption EnHeaderMissing)) (\<lambda>current.
           tryP (list_ids E (store_sealed (sealer_new E old))) (\<lambda>ids.
           tryP (new_key E ws kdf) (\<lambda>(key, header).
           Now (\<lambda>now.
           let plan = \<lparr>pl_kind = Rotate, pl_started_at = x_rfc3339 E now,
                       pl_from_key = Some (key_id_display E (dk_key_id E old)),
                       pl_to_key = key_id_display E (dk_key_id E key), pl_items = length ids\<rparr> in
           tryP (publish E (x_plan_to_json E plan) [(NEW_HEADER, header), (OLD_HEADER, current)]) (\<lambda>_.
           tryP (run_from_source E due Rotate key (Some old)) (\<lambda>_. Done (Inr key))))))))
     | other \<Rightarrow> Done (Inl (refuse other)))"

section \<open>Finishing and undoing\<close>

definition old_key_for ::
  "'z jext_scheme \<Rightarrow> data_key option \<Rightarrow> words option \<Rightarrow> (store_error + data_key) prog" where
  "old_key_for E old_key old_words =
     try_res SeFs (under_rewrite OLD_HEADER) (\<lambda>dir.
     tryP (read_header_in E dir) (\<lambda>found.
     try_res id (ok_or found (SeEncryption EnHeaderMissing)) (\<lambda>h.
     case (case old_key of Some k \<Rightarrow> if dk_key_id E k = header_key_id h then Some k else None | None \<Rightarrow> None) of
       Some k \<Rightarrow> Done (Inr k)
     | None \<Rightarrow>
         (case old_words of
            Some ws \<Rightarrow> Done (map_err crypto_err (unwrap E (wrapped h) ws))
          | None \<Rightarrow> Done (Inl (SeEncryption (EnKeyMismatch
              (case old_key of Some k \<Rightarrow> key_id_short E (dk_key_id E k) | None \<Rightarrow> [])
              (key_id_short E (header_key_id h)))))))))"

definition finish_claimed ::
  "'z jext_scheme \<Rightarrow> (nat \<Rightarrow> bool) \<Rightarrow> words \<Rightarrow> data_key option \<Rightarrow> words option \<Rightarrow> (store_error + data_key) prog" where
  "finish_claimed E due new_words old_key old_words =
     tryP (read_journal E) (\<lambda>j.
     case j of
       Some (JHeaderChange change) \<Rightarrow> finish_change E change new_words
     | _ \<Rightarrow>
         try_res id (plan_of j) (\<lambda>plan.
         try_res SeFs (under_rewrite NEW_HEADER) (\<lambda>dir.
         tryP (read_header_in E dir) (\<lambda>pending.
         tryP (read_header E) (\<lambda>current.
         let lost = SeEncryption (EnLayout ''the re-encryption stopped before its new key was saved; undo it instead'') in
         try_res id (case pending of
                       Some h \<Rightarrow> Inr (h, False)
                     | None \<Rightarrow>
                         (case current of
                            Some h \<Rightarrow> if key_id_display E (header_key_id h) = pl_to_key plan
                                      then Inr (h, True) else Inl lost
                          | None \<Rightarrow> Inl lost)) (\<lambda>(header, swapped).
         try_res crypto_err (unwrap E (wrapped header) new_words) (\<lambda>key.
         if swapped then tryP cleanup (\<lambda>_. Done (Inr key))
         else
           tryP (case pl_kind plan of
                   Migrate \<Rightarrow> Done (Inr None)
                 | Rotate \<Rightarrow> tryP (old_key_for E old_key old_words) (\<lambda>k. Done (Inr (Some k)))) (\<lambda>old.
           tryP (run_from_source E due (pl_kind plan) key old) (\<lambda>_. Done (Inr key))))))))))"

definition finish ::
  "'z jext_scheme \<Rightarrow> (nat \<Rightarrow> bool) \<Rightarrow> words \<Rightarrow> data_key option \<Rightarrow> words option \<Rightarrow> (store_error + data_key) prog" where
  "finish E due new_words old_key old_words =
     tryP (claim_recovery E) (\<lambda>_.
     bind (finish_claimed E due new_words old_key old_words) unclaim)"

definition undo_source :: "'z jext_scheme \<Rightarrow> rewrite_kind \<Rightarrow> remote_path \<Rightarrow> (store_error + unit) prog" where
  "undo_source E kind moved =
     (case kind of
        Migrate \<Rightarrow>
          try_res SeFs (rp_new ''v2'') (\<lambda>v2.
          try_as SeFs (RemoveDirAll v2 Done) (\<lambda>_.
          try_res SeFs (rp_new STOP_FILE) (\<lambda>items.
          try_as SeFs (Stat items Done) (\<lambda>found.
          tryP (if is_plain_file found then try_as SeFs (RemoveFile items Done) (\<lambda>_. Done (Inr ()))
                else Done (Inr ())) (\<lambda>_.
          try_as SeFs (Stat moved Done) (\<lambda>there.
          if there \<noteq> None then fold_dir moved items else Done (Inr ())))))))
      | Rotate \<Rightarrow>
          try_res SeFs (rp_new ''v2/items'') (\<lambda>items.
          try_as SeFs (Stat moved Done) (\<lambda>there.
          tryP (if there \<noteq> None
                then try_as SeFs (RemoveDirAll items Done) (\<lambda>_.
                     try_as SeFs (Rename moved items Done) (\<lambda>_. Done (Inr ())))
                else Done (Inr ())) (\<lambda>_.
          try_res SeFs encryption_dir (\<lambda>current.
          try_as SeFs (Stat current Done) (\<lambda>found.
          if found \<noteq> None then Done (Inr ()) else
          try_res SeFs (under_rewrite PREVIOUS) (\<lambda>previous.
          try_as SeFs (Stat previous Done) (\<lambda>replaced.
          if replaced \<noteq> None
          then try_as SeFs (Rename previous current Done) (\<lambda>_. Done (Inr ()))
          else
            try_res SeFs (under_rewrite OLD_HEADER) (\<lambda>dir.
            tryP (read_header_in E dir) (\<lambda>saved.
            try_res id (ok_or saved (SeEncryption EnHeaderMissing)) (\<lambda>old.
            write_header_in E current old)))))))))))"

definition undo_claimed :: "'z jext_scheme \<Rightarrow> (store_error + unit) prog" where
  "undo_claimed E =
     tryP (read_journal E) (\<lambda>j.
     case j of
       None \<Rightarrow> release_unstarted
     | Some (JUnreadable _) \<Rightarrow> release_unstarted
     | Some (JHeaderChange change) \<Rightarrow> revert change
     | Some (JNewer kind) \<Rightarrow> Done (Inl (unsupported (JNewer kind)))
     | Some (JRewrite plan) \<Rightarrow>
         try_res SeFs (under_rewrite (NEW_HEADER @ ''/'' @ HEADER_FILE)) (\<lambda>pending.
         try_as SeFs (Stat pending Done) (\<lambda>waiting.
         tryP (if waiting \<noteq> None then Done (Inr False)
               else tryP (read_header E) (\<lambda>current.
                    Done (Inr (case current of
                                 Some h \<Rightarrow> key_id_display E (header_key_id h) = pl_to_key plan
                               | None \<Rightarrow> False)))) (\<lambda>swapped.
         if swapped then Done (Inl (SeEncryption (EnLayout ''the new key is already in place; finish the re-encryption instead'')))
         else
           try_res SeFs (under_rewrite (SOURCE @ ''/'' @ source_items (pl_kind plan))) (\<lambda>moved.
           tryP (undo_source E (pl_kind plan) moved) (\<lambda>_. release_lock))))))"

definition undo :: "'z jext_scheme \<Rightarrow> (store_error + unit) prog" where
  "undo E =
     tryP (claim_recovery E) (\<lambda>_.
     bind (undo_claimed E) unclaim)"

end
