(* ===== verification/Rewrite_Laws.thy ===== *)
theory Rewrite_Laws
  imports Confined Change_Laws Rewrite Download
begin

text \<open>
  What a re-encryption guarantees: the items it starts from stay untouched until the header of the
  new key is in use, and that happens only once every item has a copy that was read back and has the
  content the item had.
\<close>

section \<open>Where importing an item writes\<close>

abbreviation "in_v2 \<equiv> is_under [''v2'']"

lemma changes_write_file [changes_simps]: "A (comps p) \<Longrightarrow> changes A (write_file p b)"
  unfolding write_file_def by (intro changes_simps) auto

lemma changes_copy_plain [changes_simps]: "A (comps p) \<Longrightarrow> changes A (copy_plain rd p kept)"
proof (induction rd p kept rule: copy_plain.induct)
  case (1 rd p kept)
  then show ?case
    by (subst copy_plain.simps) (auto simp: write_all_def split: prod.splits sum.splits intro!: changes_simps)
qed

lemma changes_copy_sealed [changes_simps]: "A (comps p) \<Longrightarrow> changes A (copy_sealed E b rd p s kept)"
proof (induction E b rd p s kept rule: copy_sealed.induct)
  case (1 E b rd p s kept)
  then show ?case
    by (subst copy_sealed.simps) (auto simp: write_all_def split: prod.splits sum.splits intro!: changes_simps)
qed

lemma changes_copy_content [changes_simps]: "A (comps p) \<Longrightarrow> changes A (copy_content E rd p s)"
  unfolding copy_content_def
  by (auto simp: write_all_def shutdown_def split: option.splits prod.splits sum.splits intro!: changes_simps)

lemma changes_random [changes_simps]: "changes A (random_bytes n)"
  by (simp add: random_bytes_def)

lemma changes_store_content [changes_simps]: "A (comps p) \<Longrightarrow> changes A (store_content E st rd p)"
  by (auto simp: store_content_def write_content_def sealer_content_sealer_def
      split: option.splits intro!: changes_simps)

lemma changes_write_meta [changes_simps]: "A (comps p) \<Longrightarrow> changes A (write_meta E st p m salt)"
  unfolding write_meta_def encode_meta_def Let_def
  by (auto simp: seal_meta_def split: option.splits intro!: changes_simps)

lemma id_for_wf:
  assumes "fext_laws E" "id_for E st m = Inr i" "st_sealer st \<noteq> None"
  shows "id_wf i"
proof -
  from assms obtain t d where "item_id_new t (keyed E st d) = Inr i" unfolding id_for_def and_then_eq_Inr by auto
  moreover have "key_wf (keyed E st d)"
    using assms(1,3) keyed_content_key_wf fext_lawsD [of E] by (auto simp: keyed_def)
  ultimately show ?thesis using item_id_new_wf by blast
qed

lemma sealed_paths:
  assumes "st_sealer st \<noteq> None"
  shows "in_v2 (items_path st)" "in_v2 (tmp_path st)" "in_v2 (items_path st @ q)" "in_v2 (tmp_path st @ q)"
    "in_v2 (item_path st i @ q)" "in_v2 (item_path st i)"
  using assms by (simp_all add: items_path_def tmp_path_def item_path_def is_under_def)

lemma changes_import_item [changes_simps]:
  assumes "fext_laws E" "st_sealer st \<noteq> None"
  shows "changes in_v2 (import_item E st m rd)"
proof -
  have valid: "valid_comps (tmp_path st @ [token_name t])" for t by simp
  have staged: "changes in_v2 (import_staged E st m i rd (rp_of (tmp_path st @ [token_name t])) (rp_of (item_path st i)))"
    if "id_wf i" for i t
    unfolding import_staged_def CONTENT_FILE_def META_FILE_def join_is [OF valid valid_const(4)]
      join_is [OF valid valid_const(5)] try_res_simps
    using that sealed_paths [OF assms(2)]
    by (auto intro!: changes_simps simp: Let_def split: sum.splits fs_error.splits)
  show ?thesis
    unfolding import_item_def
    using id_for_wf [OF assms(1) _ assms(2)] sealed_paths [OF assms(2)]
    by (auto intro!: changes_simps staged changes_reads [OF reads_only_ops(3)] simp: path_simps)
qed

section \<open>Reading a copy back\<close>

lemma reads_content:
  assumes "aead_laws E" "reads F rd (VFile c)"
    and "case (st_sealer st, salt) of
        (Some s, Some x) \<Rightarrow> length x = 32 \<and> rd' = open_item_content E s rd x
      | _ \<Rightarrow> rd' = rd"
    and "br_end rd' = None"
  shows "content_of E st salt c = Some (br_bytes rd')"
proof (cases "\<exists>s x. st_sealer st = Some s \<and> salt = Some x")
  case True
  then obtain s x where s: "st_sealer st = Some s" "salt = Some x" by blast
  then have x: "length x = 32" "rd' = open_item_content E s rd x" using assms(3) by auto
  from open_item_content_opened [OF assms(1) _ x(1), of s rd] assms(4) x(2)
  have o: "br_end rd = None" "valid_chunks (br_pieces rd')" "br_bytes rd = sealing_of E (sl_key s) x (br_pieces rd')"
    by auto
  then have "br_bytes (reader_of c) = sealing_of E (sl_key s) x (br_pieces rd')"
    using assms(2) by (simp add: reads_def reader_of_def br_bytes_def)
  from open_item_content_sealing(1) [OF assms(1) o(2) x(1) this]
  have "open_item_content E s (reader_of c) x = \<lparr>br_pieces = br_pieces rd', br_end = None\<rparr>"
    by (simp add: reader_of_def)
  then show ?thesis using s by (simp add: content_of_def br_bytes_def)
next
  case False
  then have "rd' = rd" using assms(3) by (auto split: option.splits)
  moreover have "br_bytes rd = c" using assms(2,4) \<open>rd' = rd\<close> by (simp add: reads_def)
  ultimately show ?thesis using False by (auto simp: content_of_def split: option.splits)
qed

lemma decode_meta_salt: "decode_meta E i b s = Inr (m, Some x) \<Longrightarrow> length x = CONTENT_SALT_LEN"
  unfolding decode_meta_def
  by (auto simp: and_then_eq_Inr decode_array_def split: if_splits option.splits sum.splits)

definition read_back :: "'z hext_scheme \<Rightarrow> fs_store \<Rightarrow> fsview \<Rightarrow> item_id \<Rightarrow> store_error + item_meta \<times> box_read \<Rightarrow> bool" where
  "read_back E st v i r \<longleftrightarrow>
     (\<forall>m rd. r = Inr (m, rd) \<longrightarrow> br_end rd = None \<longrightarrow> contents E st v i = Some (m, br_bytes rd))"

lemma get_item_reads:
  assumes E: "fext_laws E" and i: "id_wf i" and wf: "fs_wf v"
  shows "answers F v (get_item E st i) (read_back E st v i)"
  unfolding get_item_def
proof (rule answers_try [OF read_item_answer [OF i]])
  fix x assume x: "read_answer F E st v i (Inr x)"
  obtain m salt where ms: "x = (m, salt)" by (cases x)
  have r: "readable E st v i = Some (m, salt)" using x ms by (simp add: read_answer_def)
  have salt: "length y = 32" if "salt = Some y" for y
    using r that decode_meta_salt [of E i _ "st_sealer st" m y]
    by (auto simp: readable_def CONTENT_SALT_LEN_def split: option.splits vnode.splits sum.splits)
  have p: "comps (rp_of (item_path st i @ [''content''])) = item_path st i @ [''content'']" using i by simp
  have opened: "read_back E st v i (Inr (m, rd'))"
    if o: "open_read_spec F (item_path st i @ [''content'']) v (Inr rd)"
      and s: "case (st_sealer st, salt) of (Some s, Some x) \<Rightarrow> rd' = open_item_content E s rd x | _ \<Rightarrow> rd' = rd" for rd rd'
    unfolding read_back_def
  proof (intro allI impI)
    fix m2 rd2 assume "(Inr (m, rd') :: store_error + item_meta \<times> box_read) = Inr (m2, rd2)" and e: "br_end rd2 = None"
    then have eq: "m2 = m" "rd2 = rd'" by auto
    obtain n where n: "v (item_path st i @ [''content'']) = Some n" "reads F rd n"
      using o by (auto simp: open_read_spec_def)
    have "br_end rd = None"
      using e eq s open_item_content_opened [OF fext_lawsD(4) [OF E]] salt
      by (auto split: option.splits)
    then obtain c where c: "n = VFile c" using n(2) by (cases n) (auto simp: reads_def)
    have "content_of E st salt c = Some (br_bytes rd')"
      using n(2) c s salt e eq by (intro reads_content [OF fext_lawsD(4) [OF E], of F rd]) (auto split: option.splits)
    moreover have "v (item_path st i) = Some VDir"
      using wf_under_dir [OF wf, of "item_path st i" "[''content'']"] n(1) by simp
    ultimately show "contents E st v i = Some (m2, br_bytes rd2)"
      using i r n(1) c eq by (simp add: contents_def)
  qed
  have fail: "read_back E st v i (Inl e)" for e by (simp add: read_back_def)
  show "answers F v (case x of (m, salt) \<Rightarrow> try_res id (item_file st i CONTENT_FILE) (\<lambda>path.
     case (st_sealer st, salt) of
       (Some s, Some x) \<Rightarrow>
         (let expected = sealed_len (meta_size m) in
          try_as SeFs (Stat path Done) (\<lambda>found.
          case found of
            None \<Rightarrow> bind (unreadable i ''content is missing'') (\<lambda>e. Done (Inl e))
          | Some md \<Rightarrow>
              if md_size md < expected
              then bind (unreadable i ''content is too short'') (\<lambda>e. Done (Inl e))
              else try_as SeFs (OpenRead path Done)
                     (\<lambda>content. Done (Inr (m, open_item_content E s content x)))))
     | _ \<Rightarrow>
         OpenRead path (\<lambda>r.
           case r of
             Inr content \<Rightarrow> Done (Inr (m, content))
           | Inl (FsNotFound _) \<Rightarrow> Done (Inl (corrupt i ''content is missing''))
           | Inl e \<Rightarrow> Done (Inl (SeFs e))))) (read_back E st v i)"
  proof (cases "\<exists>s x. st_sealer st = Some s \<and> salt = Some x")
    case True
    then show ?thesis
      unfolding ms prod.case item_file_is [OF i] try_res_simps Let_def
      using opened fail
      by (auto simp: p prog_simps answers_try_res unreadable_def split: sum.splits option.splits)
  next
    case False
    then have "(case (st_sealer st, salt) of (Some s, Some x) \<Rightarrow> f s x | _ \<Rightarrow> g) = g" for f and g :: "(store_error + item_meta \<times> box_read) prog"
      by (auto split: option.splits)
    moreover have "read_back E st v i (Inr (m, rd))"
      if "open_read_spec F (item_path st i @ [''content'']) v (Inr rd)" for rd
      using opened [OF that, of rd] False by (auto split: option.splits)
    ultimately show ?thesis
      unfolding ms prod.case item_file_is [OF i] try_res_simps
      using fail by (auto simp: p split: sum.splits fs_error.splits)
  qed
qed (simp add: read_back_def)

lemma hash_all_hashed: "hash_all rd (hashed b) = Inr h \<Longrightarrow> br_end rd = None \<and> h = hashed (b @ br_bytes rd)"
proof (induction rd "hashed b" arbitrary: b rule: hash_all.induct)
  case (1 rd)
  obtain r rest where rest: "rd_read (64 * 1024) rd = (r, rest)" by fastforce
  note res = rd_read_result [OF rest]
  have eq: "hash_all rd (hashed b) =
      (case r of Inl e \<Rightarrow> Inl e | Inr p \<Rightarrow> if p = [] then Inr (hashed b) else hash_all rest (hashed (b @ p)))"
    unfolding hash_all.simps [of rd] rest by (simp split: sum.split)
  from 1(2) obtain p where p: "r = Inr p" unfolding eq by (cases r) auto
  show ?case
  proof (cases "p = []")
    case True
    then show ?thesis using 1(2) res unfolding eq p by auto
  next
    case False
    have "hash_all rest (hashed (b @ p)) = Inr h" using 1(2) False unfolding eq p by simp
    with 1(1) [OF rest [unfolded p, symmetric] refl False, of "b @ p"]
    have "br_end rest = None" "h = hashed ((b @ p) @ br_bytes rest)" by simp_all
    then show ?thesis using res unfolding p by simp
  qed
qed

text \<open>The copy of an item is there, and has the content the item's metadata tells of.\<close>

definition copied :: "'z hext_scheme \<Rightarrow> fs_store \<Rightarrow> fsview \<Rightarrow> item_meta \<Rightarrow> bool" where
  "copied E st v m \<longleftrightarrow>
     (\<exists>i m' b. id_for E st m = Inr i \<and> contents E st v i = Some (m', b)
        \<and> meta_sha256 m = sha256_hex E (digest_of E b) \<and> meta_size m = cd_size (digest_of E b))"

definition onto :: "'z jext_scheme \<Rightarrow> fs_store \<Rightarrow> rewrite_ops \<Rightarrow> bool" where
  "onto E st R \<longleftrightarrow>
     rw_target_id R = id_for E st \<and> rw_staged R = exists_item st \<and> rw_import R = import_item E st
     \<and> rw_read_back R = get_item E st \<and> rw_heartbeat R = Done (Inr ())"

lemma tick_simp [simp]: "onto E st R \<Longrightarrow> tick R n = Done (Inr ())"
  by (simp add: tick_def onto_def)

lemma verify_answer:
  assumes E: "fext_laws E" and st: "st_sealer st \<noteq> None" and R: "onto E st R" and wf: "fs_wf v"
  shows "answers F v (verify E R m) (\<lambda>r. r = Inr () \<longrightarrow> copied E st v m)"
proof (cases "id_for E st m")
  case (Inl e)
  then show ?thesis using R by (simp add: verify_def onto_def)
next
  case (Inr i)
  have get: "answers F v (get_item E st i) (read_back E st v i)"
    by (rule get_item_reads [OF E id_for_wf [OF E Inr st] wf])
  have ops: "rw_read_back R = get_item E st" "rw_target_id R = id_for E st" using R by (simp_all add: onto_def)
  show ?thesis
    unfolding verify_def ops Inr try_res_simps
  proof (rule answers_try [OF get])
    fix x assume x: "read_back E st v i (Inr x)"
    obtain m' rd where rd: "x = (m', rd)" by (cases x)
    show "answers F v (case x of (_, content) \<Rightarrow>
        try_res (\<lambda>e. SeContent (io_message e)) (hash_all content hasher_new) (\<lambda>h.
        let digest = hasher_finalize E h in
        if sha256_hex E digest \<noteq> meta_sha256 m \<or> cd_size digest \<noteq> meta_size m
        then Done (Inl (SeCorrupt (id_repr i) (''its re-encrypted copy does not match '' @ id_repr (meta_id m))))
        else Done (Inr ()))) (\<lambda>r. r = Inr () \<longrightarrow> copied E st v m)"
    proof (cases "hash_all rd hasher_new")
      case (Inl e)
      then show ?thesis by (simp add: rd)
    next
      case h: (Inr h)
      have "br_end rd = None" "h = hashed (br_bytes rd)"
        using hash_all_hashed [of rd "[]" h] h by simp_all
      then have "contents E st v i = Some (m', br_bytes rd)" "hasher_finalize E h = digest_of E (br_bytes rd)"
        using x by (simp_all add: read_back_def rd hashed_digest)
      then show ?thesis
        unfolding rd prod.case h try_res_simps Let_def using Inr by (auto simp: copied_def)
    qed
  qed simp
qed

lemma verify_all_answer:
  assumes E: "fext_laws E" and st: "st_sealer st \<noteq> None" and R: "onto E st R" and wf: "fs_wf v"
  shows "answers F v (verify_all E R ms n) (\<lambda>r. r = Inr () \<longrightarrow> (\<forall>m \<in> set ms. copied E st v m))"
proof (induction ms arbitrary: n)
  case (Cons m ms)
  have "answers F v (verify_all E R ms (n + 1)) (\<lambda>r. r = Inr () \<longrightarrow> (\<forall>x \<in> set (m # ms). copied E st v x))"
    if "copied E st v m"
    by (rule answers_mono [OF Cons.IH]) (use that in simp)
  then show ?case
    using R by (auto intro!: answers_try [OF verify_answer [OF assms]] simp: prog_simps)
qed simp

lemma reads_get_item: "reads_only (get_item E st i)"
proof -
  have u: "reads_only (unreadable i r)" for r by (simp add: unreadable_def)
  show ?thesis
    unfolding get_item_def Let_def
    by (auto intro!: reads_simps u split: option.splits prod.splits sum.splits fs_error.splits)
qed

lemma reads_verify_all: "onto E st R \<Longrightarrow> reads_only (verify_all E R ms n)"
proof (induction ms arbitrary: n)
  case (Cons m ms)
  have "rw_read_back R = get_item E st" using Cons.prems by (simp add: onto_def)
  then have "reads_only (verify E R m)"
    unfolding verify_def Let_def
    by (auto intro!: reads_simps reads_get_item split: prod.splits)
  then show ?case using Cons by (auto intro!: reads_simps)
qed simp

section \<open>Reading the source\<close>

lemma source_specs:
  "read_dir_spec F (pre @ p) v r \<Longrightarrow> read_dir_spec True p (sub v pre) r"
  "open_read_spec F (pre @ p) v r2 \<Longrightarrow> open_read_spec True p (sub v pre) r2"
  "stat_spec F (pre @ p) v r3 \<Longrightarrow> stat_spec True p (sub v pre) r3"
  "read_dir_spec True p u (Inl (FsInvalidPath c))" "open_read_spec True p u (Inl (FsInvalidPath c))"
  "stat_spec True p u (Inl (FsInvalidPath c))"
proof -
  show "read_dir_spec F (pre @ p) v r \<Longrightarrow> read_dir_spec True p (sub v pre) r"
    by (cases r) (auto simp: read_dir_spec_def entries_of_def sub_def split: fs_error.splits)
  have "reads F rd n \<Longrightarrow> reads True rd n" for rd n
    by (auto simp: reads_def split: vnode.splits option.splits)
  then show "open_read_spec F (pre @ p) v r2 \<Longrightarrow> open_read_spec True p (sub v pre) r2"
    by (cases r2) (auto simp: open_read_spec_def sub_def split: fs_error.splits)
  show "stat_spec F (pre @ p) v r3 \<Longrightarrow> stat_spec True p (sub v pre) r3"
    by (cases r3) (auto simp: stat_spec_def sub_def split: option.splits)
qed (simp_all add: read_dir_spec_def open_read_spec_def stat_spec_def)

lemma answers_sub:
  assumes pre: "rp_wf pre" and "reads_only m" "answers True (sub v (comps pre)) m P"
  shows "answers F v (sub_prog pre m) P"
proof -
  have under: "answers F v (under_or pre p bad good) P"
    if "\<And>c. answers F v (bad (FsInvalidPath c)) P" "\<And>q. comps q = comps pre @ comps p \<Longrightarrow> answers F v (good q) P"
    for p bad and good :: "remote_path \<Rightarrow> 'a prog"
    using that sub_under_Inr [OF pre, of p] sub_under_Inl [OF pre, of p]
    by (cases "sub_under pre p") (auto simp: under_or_def)
  show ?thesis
    using assms(2,3)
  proof (induction m)
    case (ReadDir p k)
    then show ?case using source_specs(1,4) by (auto intro!: under)
  next
    case (OpenRead p k)
    then show ?case using source_specs(2,5) by (auto intro!: under)
  next
    case (Stat p k)
    then show ?case using source_specs(3,6) by (auto intro!: under)
  next
    case (RandomBytes n k)
    have "answers True (sub v (comps pre)) (k r) P" if "random_spec F n r" for r
      using RandomBytes.prems(2) that by (cases r) (simp_all add: answers_def safe.simps random_spec_def)
    then show ?case using RandomBytes.IH RandomBytes.prems(1) by (simp add: answers_def safe.simps)
  qed (auto simp: answers_def safe.simps)
qed

section \<open>Copying every item\<close>

text \<open>The source is the items of an unguarded store below \<open>root\<close>.\<close>

definition from_source :: "'z jext_scheme \<Rightarrow> remote_path \<Rightarrow> fs_store \<Rightarrow> rewrite_ops \<Rightarrow> bool" where
  "from_source E root st0 R \<longleftrightarrow>
     ds_list_ids (rw_source R) = sub_prog root (list_ids E st0)
     \<and> ds_get (rw_source R) = (\<lambda>i. sub_prog root (get_item E st0 i))
     \<and> ds_get_meta (rw_source R) = (\<lambda>i. sub_prog root (get_meta E st0 i))
     \<and> rp_wf root \<and> comps root \<noteq> [] \<and> hd (comps root) \<noteq> ''v2'' \<and> \<not> st_guard st0 \<and> \<not> st_plain_guard st0"

definition meta_of :: "'z jext_scheme \<Rightarrow> fs_store \<Rightarrow> tree \<Rightarrow> item_id \<Rightarrow> item_meta \<Rightarrow> bool" where
  "meta_of E st0 t i m \<longleftrightarrow> (\<exists>salt. readable E st0 t i = Some (m, salt))"

definition all_copied :: "'z jext_scheme \<Rightarrow> fs_store \<Rightarrow> fs_store \<Rightarrow> tree \<Rightarrow> fsview \<Rightarrow> bool" where
  "all_copied E st0 st t u \<longleftrightarrow> (\<forall>i \<in> fs_ids st0 t. \<exists>m. meta_of E st0 t i m \<and> copied E st u m)"

lemma reads_source: "reads_only (list_ids E st)" "reads_only (get_meta E st i)" "reads_only (exists_item st i)"
  by (auto simp: list_ids_def get_meta_def exists_item_def intro!: reads_simps)

lemma get_meta_reads:
  assumes "id_wf i"
  shows "answers F v (get_meta E st i) (\<lambda>r. \<forall>m. r = Inr m \<longrightarrow> meta_of E st v i m)"
  unfolding get_meta_def
proof (rule answers_try [OF read_meta_answer [OF assms]])
  fix x assume "\<exists>y. read_answer F E st v i y \<and> Inr x = map_sum id fst y"
  then obtain y where y: "read_answer F E st v i y" "Inr x = map_sum id fst y" by blast
  then obtain salt where "y = Inr (x, salt)" by (cases y) auto
  then show "answers F v (Done (Inr x)) (\<lambda>r. \<forall>m. r = Inr m \<longrightarrow> meta_of E st v i m)"
    using y(1) by (auto simp: read_answer_def meta_of_def)
qed simp

text \<open>While items are imported, only \<^verbatim>\<open>v2/\<close> differs from the files \<open>v\<close> at the start.\<close>

definition copying :: "fsview \<Rightarrow> fsview \<Rightarrow> bool" where
  "copying v u \<longleftrightarrow> kept_but ''v2'' v u \<and> fs_wf u"

lemma copying_reads:
  assumes "reads_only m" "copying v u" "answers F u m P"
  shows "safe (alone F) (copying v) m (\<lambda>r w. w = u \<and> P r) u"
  using answers_safe [of "alone F" u m P "copying v"] assms by simp

lemma copying_imports:
  assumes "fext_laws E" "st_sealer st \<noteq> None" "v [] = Some VDir" "copying v u"
  shows "safe (alone F) (copying v) (import_item E st m rd) (\<lambda>_. copying v) u"
  unfolding copying_def
  by (rule safe_both [OF changes_safe changes_wf])
    (use assms changes_import_item [OF assms(1,2)] in \<open>auto simp: copying_def is_under_def intro: spared_kept\<close>)

lemma answers_True: "answers F v m (\<lambda>_. True)" if "reads_only m"
  using that by (induction m) (auto simp: answers_def safe.simps)

lemma import_all_safe:
  assumes E: "fext_laws E" and st: "st_sealer st \<noteq> None" and R: "onto E st R" "from_source E root st0 R"
    and v: "v [] = Some VDir" and ids: "\<forall>i \<in> set ids. id_wf i" and u: "copying v u"
  shows "safe (alone F) (copying v) (import_all R ids n ms)
    (\<lambda>r w. copying v w \<and> (\<forall>ms'. r = Inr ms' \<longrightarrow>
       (\<exists>ns. ms' = ms @ ns \<and> list_all2 (meta_of E st0 (sub v (comps root))) ids ns))) u"
  using ids u
proof (induction ids arbitrary: n ms u)
  case Nil
  then show ?case by (auto intro!: alone_done)
next
  case (Cons i ids)
  let ?t = "sub v (comps root)"
  let ?Q = "\<lambda>r w. copying v w \<and> (\<forall>ms'. r = Inr ms' \<longrightarrow> (\<exists>ns. ms' = ms @ ns \<and> list_all2 (meta_of E st0 ?t) (i # ids) ns))"
  note pre = R(2) [unfolded from_source_def]
  have stop: "safe (alone F') (copying v) (Done (Inl e)) ?Q w" if "copying v w" for e :: store_error and w F'
    by (rule alone_done) (use that in simp_all)
  have same: "sub w (comps root) = ?t" if "copying v w" for w
    using kept_sub [of "''v2''" v w "comps root"] that pre by (simp add: copying_def)
  have meta: "answers F u (ds_get_meta (rw_source R) i) (\<lambda>r. \<forall>m. r = Inr m \<longrightarrow> meta_of E st0 ?t i m)"
    using pre same [OF Cons.prems(2)] Cons.prems(1)
    by (auto intro!: answers_sub reads_source get_meta_reads simp: same [OF Cons.prems(2), symmetric] simp del: same)
  have reads: "reads_only (ds_get_meta (rw_source R) i)" "reads_only (ds_get (rw_source R) i)"
    "reads_only (rw_staged R t)" for t
    using pre R(1) by (auto simp: onto_def intro!: reads_only_sub reads_source reads_get_item)
  have rest: "safe (alone F) (copying v) (import_all R ids (n + 1) (ms @ [m])) ?Q w"
    if "meta_of E st0 ?t i m" "copying v w" for m w
    by (rule safe_post [OF Cons.IH]) (use that Cons.prems in auto)
  have import_step: "safe (alone F) (copying v) (import_item E st m rd) (\<lambda>_. copying v) w" if "copying v w" for m rd w
    by (rule copying_imports [where v = v]) (use E st v that in simp_all)
  have import: "safe (alone F) (copying v)
      (if there then Done (Inr ())
       else tryP (ds_get (rw_source R) i) (\<lambda>(m, content). tryP (rw_import R m content) (\<lambda>_. Done (Inr ()))))
      (\<lambda>_. copying v) w" if w: "copying v w" for there w
  proof (cases there)
    case True
    then show ?thesis using w by (auto intro!: alone_done)
  next
    case False
    have imp: "rw_import R = import_item E st" using R(1) by (simp add: onto_def)
    show ?thesis
      unfolding if_not_P [OF False] imp
      by (rule safe_then_try [OF copying_reads [OF reads(2) w answers_True [OF reads(2)]], where J = "\<lambda>_. True"])
        (use w in \<open>auto intro!: alone_done safe_then_try [OF import_step, where J = "\<lambda>_. True"]\<close>)
  qed
  show ?case
    unfolding import_all.simps tick_simp [OF R(1)]
  proof (rule safe_then_try [OF copying_reads [OF reads(1) Cons.prems(2) meta], where J = "\<lambda>_. True"], goal_cases)
    case (3 m w)
    then have m: "meta_of E st0 ?t i m" "copying v w" using Cons.prems(2) by simp_all
    show ?case
    proof (cases "rw_target_id R m")
      case (Inl e)
      then show ?thesis using stop [OF m(2)] by simp
    next
      case (Inr t)
      show ?thesis
        unfolding Inr try_res_simps
      proof (rule safe_then_try [OF copying_reads [OF reads(3) m(2) answers_True [OF reads(3)]], where J = "\<lambda>_. True"], goal_cases)
        case (3 there w')
        then have w': "copying v w'" using m(2) by simp
        show ?case
        proof (rule safe_then_try [OF import [OF w'], where J = "\<lambda>_. True"], goal_cases)
          case (3 x w2)
          then show ?case using rest [OF m(1)] by (simp add: prog_simps)
        qed (use stop in simp_all)
      qed (use stop m(2) in simp_all)
    qed
  qed (use stop Cons.prems(2) in simp_all)
qed

definition copy_all :: "'z jext_scheme \<Rightarrow> rewrite_ops \<Rightarrow> (store_error + item_meta list) prog" where
  "copy_all E R =
     tryP (ds_list_ids (rw_source R)) (\<lambda>ids.
     tryP (import_all R (rev ids) 0 []) (\<lambda>metas.
     tryP (verify_all E R metas (length metas)) (\<lambda>_. Done (Inr metas))))"

lemma tryP_tryP: "tryP (tryP m g) h = tryP m (\<lambda>x. tryP (g x) h)"
  unfolding try_as_def bind_assoc by (rule arg_cong [where f = "bind m"]) (auto split: sum.splits)

lemma run_rewrite_eq:
  "run_rewrite E R = tryP (copy_all E R) (\<lambda>metas. tryP (rw_commit R) (\<lambda>_. Done (Inr (length metas))))"
  by (simp add: run_rewrite_def copy_all_def tryP_tryP prog_simps)

lemma list_ids_reads:
  assumes "items_in_dir st v" "\<not> st_guard st" "\<not> st_plain_guard st"
  shows "answers F v (list_ids E st) (\<lambda>r. \<forall>ids. r = Inr ids \<longrightarrow> listed st v ids)"
proof -
  have "check_key E st = Done (Inr ())" using assms by (simp add: check_key_def split: option.splits)
  then have "list_ids E st = item_ids st" by (simp add: list_ids_def prog_simps)
  then show ?thesis
    by (simp only:) (rule answers_mono [OF item_ids_answer [OF assms(1)]], auto simp: ids_answer_def)
qed

lemma copy_all_safe:
  assumes E: "fext_laws E" and st: "st_sealer st \<noteq> None" and R: "onto E st R" "from_source E root st0 R"
    and wf: "fs_wf v"
  shows "safe (alone F) (copying v) (copy_all E R)
    (\<lambda>r w. copying v w \<and> (\<forall>ms. r = Inr ms \<longrightarrow> all_copied E st0 st (sub v (comps root)) w)) v"
    (is "safe _ _ _ ?Q _")
proof -
  let ?t = "sub v (comps root)"
  note pre = R(2) [unfolded from_source_def]
  have v: "copying v v" "v [] = Some VDir" using wf by (simp_all add: copying_def kept_but_def fs_wf_def)
  have stop: "safe (alone F') (copying v) (Done (Inl e)) ?Q w" if "copying v w" for e :: store_error and w F'
    by (rule alone_done) (use that in simp_all)
  have dir: "items_in_dir st0 ?t"
    using wf_items_in_dir [OF wf] wf by (auto simp: items_in_dir_def sub_def fs_wf_def simp flip: append_assoc)
  have list: "answers F v (ds_list_ids (rw_source R)) (\<lambda>r. \<forall>ids. r = Inr ids \<longrightarrow> listed st0 ?t ids)"
    using pre dir by (auto intro!: answers_sub reads_source list_ids_reads)
  have reads: "reads_only (ds_list_ids (rw_source R))"
    using pre by (simp add: reads_only_sub reads_source)
  show ?thesis
    unfolding copy_all_def
  proof (rule safe_then_try [OF copying_reads [OF reads v(1) list], where J = "\<lambda>_. True"], goal_cases)
    case (3 ids w)
    then have ids: "listed st0 ?t ids" "w = v" by simp_all
    have wfs: "\<forall>i \<in> set (rev ids). id_wf i" using ids(1) by (auto simp: listed_def)
    show ?case
      unfolding ids(2)
    proof (rule safe_then_try [OF import_all_safe [OF E st R v(2) wfs v(1)], where J = "\<lambda>_. True"], goal_cases)
      case (3 ms w)
      then have w: "copying v w" and ms: "list_all2 (meta_of E st0 ?t) (rev ids) ms" by auto
      have wf': "fs_wf w" using w by (simp add: copying_def)
      have all: "all_copied E st0 st ?t w" if "\<forall>m \<in> set ms. copied E st w m"
        unfolding all_copied_def
      proof
        fix i assume "i \<in> fs_ids st0 ?t"
        then have "i \<in> set (rev ids)" using ids(1) by (simp add: listed_ids)
        then obtain k where k: "k < length (rev ids)" "rev ids ! k = i" by (metis in_set_conv_nth)
        then have "meta_of E st0 ?t i (ms ! k)" "ms ! k \<in> set ms"
          using list_all2_nthD [OF ms k(1)] list_all2_lengthD [OF ms] by simp_all
        then show "\<exists>m. meta_of E st0 ?t i m \<and> copied E st w m" using that by blast
      qed
      show ?case
        by (rule safe_then_try [OF copying_reads [OF reads_verify_all [OF R(1)] w verify_all_answer [OF E st R(1) wf']],
              where J = "\<lambda>_. True"])
          (use w all stop in \<open>auto intro!: alone_done\<close>)
    qed (use stop in simp_all)
  qed (use stop v(1) in simp_all)
qed

section \<open>The commit\<close>

abbreviation "src \<equiv> [''.rewrite'', ''source'']"

definition whole_headers :: "tree \<Rightarrow> tree \<Rightarrow> fsview \<Rightarrow> bool" where
  "whole_headers old new u \<longleftrightarrow>
     (sub u cur, sub u prv, sub u pnd) \<in> {(old, nothing, new), (nothing, old, new), (new, old, nothing)}"

lemma source_path: "under_rewrite SOURCE = Inr (rp_of src)" "comps (rp_of src) = src" "rp_wf (rp_of src)"
  using rp_new_of [of src]
  by (simp_all add: under_rewrite_def REWRITE_DIR_def SOURCE_def slash_def comps_rp_of)

lemma changes_install: "changes (\<lambda>p. p \<in> {cur, prv, pnd}) install"
  unfolding install_def change_names change_paths new_is try_res_simps
  by (auto simp: change_paths [unfolded change_names] intro!: changes_simps)

lemma cleanup_safe:
  assumes I: "loses_locks I" "I w" and w: "w [] = Some VDir" "neat w" "w [''.rewrite''] = Some VDir"
  shows "safe (alone F) I cleanup (\<lambda>r u. I u \<and> (\<forall>x. r = Inr x \<longrightarrow> sub u [''.rewrite''] = nothing)) w"
    (is "safe _ _ _ ?Q _")
proof -
  have lock: "lock_path q" if "is_under src q" for q using that by (auto simp: under_iff lock_path_def starts_with_def)
  have cut: "less_locked w (cut_tree src w)" using lock by (simp add: less_locked_def cut_tree_def)
  have I': "I u" if "less_locked w u" for u using I that by (auto simp: loses_locks_def)
  have rest: "safe (alone F) I release_lock ?Q (cut_tree src w)"
  proof (rule safe_post [OF release_lock_safe [OF I(1) I' [OF cut]]])
    show "cut_tree src w [] = Some VDir" "\<forall>b. cut_tree src w [''.rewrite''] \<noteq> Some (VFile b)"
      using w by (simp_all add: cut_tree_def is_under_def)
    show "neat (cut_tree src w)" using w(2) by (simp add: neat_def cut_tree_def is_under_def)
  qed auto
  show ?thesis
    unfolding cleanup_def source_path(1) try_res_simps prog_simps
  proof (rule alone_remove)
    fix e u' assume "\<forall>q. u' q = w q \<or> (is_under (comps (rp_of src)) q \<and> u' q = None)"
    then have "less_locked w u'" using lock by (auto simp: less_locked_def source_path(2))
    then show "safe (alone F) I (try_res SeFs (Inl e) (\<lambda>_. release_lock)) ?Q u'"
      by (auto intro!: alone_done I')
  qed (use I(2) rest in \<open>simp_all add: source_path(2)\<close>)
qed

text \<open>
  What holds at every moment of a re-encryption that starts on the files \<open>v\<close>, whose lock has the
  header \<open>new\<close> waiting: outside \<^verbatim>\<open>v2/\<close>, the header and locks nothing changes; the headers change only
  once every item has its verified copy, and the source is whole until the new header is in use.
\<close>

definition never_lost ::
  "'z jext_scheme \<Rightarrow> fs_store \<Rightarrow> fs_store \<Rightarrow> tree \<Rightarrow> tree \<Rightarrow> fsview \<Rightarrow> fsview \<Rightarrow> bool" where
  "never_lost E st0 st old new v u \<longleftrightarrow>
     (\<forall>q. \<not> is_under [''v2''] q \<longrightarrow> \<not> is_under cur q \<longrightarrow> \<not> lock_path q \<longrightarrow> u q = v q)
     \<and> ((sub u cur = sub v cur \<and> sub u [''.rewrite''] = sub v [''.rewrite''])
        \<or> all_copied E st0 st (sub v src) u
          \<and> (sub u cur = new \<or> sub u src = sub v src \<and> whole_headers old new u))"

lemma all_copied_cong:
  assumes "st_sealer st \<noteq> None" "sub u [''v2''] = sub u' [''v2'']" "all_copied E st0 st t u"
  shows "all_copied E st0 st t u'"
proof -
  have same: "u' (''v2'' # q) = u (''v2'' # q)" for q
    using fun_cong [OF assms(2), of q] by (simp add: sub_def)
  then have "contents E st u' i = contents E st u i" for i
    using assms(1) by (simp add: contents_def readable_def meta_file_def item_path_def items_path_def)
  then show ?thesis using assms(3) by (simp add: all_copied_def copied_def)
qed

lemma commit_safe:
  assumes st: "st_sealer st \<noteq> None" and u: "copying v u" and all: "all_copied E st0 st (sub v src) u"
    and ok: "swappable v old new" "swapping v old new v" "neat v" and wf: "fs_wf v"
  shows "safe (alone F) (never_lost E st0 st old new v) (tryP install (\<lambda>_. cleanup))
    (\<lambda>r w. r = Inr () \<longrightarrow> all_copied E st0 st (sub v src) w \<and> sub w cur = new \<and> sub w [''.rewrite''] = nothing) u"
    (is "safe _ ?I _ ?Q _")
proof -
  have kept: "kept_but ''v2'' v u" using u by (simp add: copying_def)
  have subs: "sub u cur = sub v cur" "sub u prv = sub v prv" "sub u pnd = sub v pnd" "sub u src = sub v src"
    "u [''.rewrite''] = v [''.rewrite'']" "u [] = v []"
    using kept_sub [OF kept] kept by (simp_all add: kept_but_def is_under_def)
  then have "holds v a b c v \<Longrightarrow> holds u a b c u" for a b c by (simp add: holds_def frame_def)
  then have sw: "swapping u old new u" using ok(2) by (auto simp: swapping_def)
  have ok': "swappable u old new" using ok(1) subs by (simp add: swappable_def)
  let ?A = "\<lambda>p. p \<in> {cur, prv, pnd}"
  have still: "safe (alone F) (\<lambda>w. sub w c = t) install (\<lambda>_ w. sub w c = t) u"
    if "sub u c = t" "apart cur c" "apart prv c" "apart pnd c" for c t
    by (rule changes_safe [OF changes_install spared_sub]) (use that in auto)
  let ?J = "\<lambda>w. swapping u old new w \<and> sub w src = sub v src \<and> sub w [''v2''] = sub u [''v2'']"
  have inst: "safe (alone F) ?J install
      (\<lambda>r w. installed F u old new r w \<and> sub w src = sub v src \<and> sub w [''v2''] = sub u [''v2'']) u"
    by (rule safe_both [OF install_safe [OF ok' sw] safe_both [OF still still]]) (use subs in auto)
  have elsewhere: "w q = v q" if "frame u w" "\<not> is_under [''v2''] q" "\<not> is_under cur q" "\<not> is_under [''.rewrite''] q" for w q
    using that kept by (simp add: frame_def kept_but_def)
  have frame: "frame u w" if "swapping u old new w" for w using that by (auto simp: swapping_def holds_def)
  have copied': "all_copied E st0 st (sub v src) w" if "sub w [''v2''] = sub u [''v2'']" for w
    by (rule all_copied_cong [OF st that [symmetric] all])
  have headers: "whole_headers old new w" if "swapping u old new w" for w
    using that by (auto simp: swapping_def holds_def whole_headers_def)
  have J: "?I w" if J: "?J w" for w
    unfolding never_lost_def
  proof (intro conjI allI impI disjI2)
    fix q assume "\<not> is_under [''v2''] q" "\<not> is_under cur q" "\<not> lock_path q"
    then show "w q = v q" using elsewhere [OF frame] J lock_under by blast
  next
    show "all_copied E st0 st (sub v src) w" using J copied' by blast
    show "sub w src = sub v src" "whole_headers old new w" using J headers by simp_all
  qed
  let ?K = "\<lambda>w. (\<forall>q. \<not> is_under [''v2''] q \<longrightarrow> \<not> is_under cur q \<longrightarrow> \<not> lock_path q \<longrightarrow> w q = v q)
      \<and> all_copied E st0 st (sub v src) w \<and> sub w cur = new"
  have loses: "loses_locks ?K"
    unfolding loses_locks_def
  proof (intro allI impI)
    fix w w' assume w: "?K w" and l: "less_locked w w'"
    have same: "w' q = w q" if "\<not> lock_path q" for q using l that by (auto simp: less_locked_def)
    have "sub w [''v2''] = sub w' [''v2'']" "sub w' cur = sub w cur"
      using same by (simp_all add: sub_def lock_path_def starts_with_def)
    then show "?K w'" using w same all_copied_cong [OF st] by metis
  qed
  show ?thesis
  proof (rule safe_then_try [OF safe_inv [OF inst J], where J = "\<lambda>_. True"], goal_cases)
    case (3 e w)
    then show ?case by (intro alone_done) (auto intro: J simp: installed_def)
  next
    case (4 x w)
    then have h: "holds u new old nothing w" "?J w" by (auto simp: installed_def)
    have el: "w q = v q" if "\<not> is_under [''v2''] q" "\<not> is_under cur q" "\<not> is_under [''.rewrite''] q" for q
      using elsewhere [OF frame that] h(2) by simp
    have K: "?K w"
    proof (intro conjI allI impI)
      fix q assume "\<not> is_under [''v2''] q" "\<not> is_under cur q" "\<not> lock_path q"
      then show "w q = v q" using el lock_under by blast
    qed (use h copied' in \<open>simp_all add: holds_def\<close>)
    have root: "w [] = Some VDir" using el [of "[]"] wf by (simp add: is_under_def fs_wf_def)
    have "neat w"
      unfolding neat_def
    proof (intro allI impI)
      fix n assume n: "w [n] \<noteq> None"
      show "\<not> invalid_component n"
        using n el [of "[n]"] ok(3) by (cases "n \<in> {''v2'', ''encryption'', ''.rewrite''}") (auto simp: neat_def is_under_def)
    qed
    then show ?case
      by (intro safe_post [OF safe_inv [OF cleanup_safe [OF loses K root]]])
        (use h(1) in \<open>auto simp: holds_def never_lost_def\<close>)
  qed simp_all
qed

section \<open>Property\<close>

text \<open>C3: A re-encryption never loses an item. From whatever state of its header swap it starts, whatever
  fails and wherever it stops: outside \<^verbatim>\<open>v2/\<close>, the header and locks nothing changes; as long as one item
  has no verified copy, the header in use and the lock with the source are as they were; then the
  headers stay whole, and the source stays until the new header is in use. When it succeeds, every item
  of the source has a copy under the new key with the content its metadata tells of, the new header is
  in use and the lock is gone.\<close>

theorem rewrite_never_loses:
  assumes "fext_laws E" "fs_wf v" "neat v" "swappable v old new" "swapping v old new v"
    and "\<not> st_guard st0" "\<not> st_plain_guard st0"
  shows "safe (alone F) (never_lost E st0 (store_sealed s) old new v)
    (run_rewrite E (fs_rewrite E (rp_of src) st0 (store_sealed s) due))
    (\<lambda>r w. case r of
       Inr _ \<Rightarrow> all_copied E st0 (store_sealed s) (sub v src) w \<and> sub w cur = new \<and> sub w [''.rewrite''] = nothing
     | Inl _ \<Rightarrow> True) v"
    (is "safe _ ?I _ ?Q _")
proof -
  let ?R = "fs_rewrite E (rp_of src) st0 (store_sealed s) due"
  have st: "st_sealer (store_sealed s) \<noteq> None" by (simp add: store_sealed_def)
  have R: "onto E (store_sealed s) ?R" "from_source E (rp_of src) st0 ?R"
    using assms(6,7) source_path by (auto simp: onto_def from_source_def fs_rewrite_def)
  have commit: "rw_commit ?R = tryP install (\<lambda>_. cleanup)" by (simp add: fs_rewrite_def)
  have early: "?I u" if "copying v u" for u
  proof -
    have k: "kept_but ''v2'' v u" using that by (simp add: copying_def)
    then show ?thesis using kept_sub [OF k] by (simp add: never_lost_def kept_but_def)
  qed
  show ?thesis
    unfolding run_rewrite_eq commit
  proof (rule safe_then_try [OF safe_inv [OF copy_all_safe [OF assms(1) st R assms(2)] early], where J = "\<lambda>_. True"], goal_cases)
    case (3 e u)
    then show ?case by (intro alone_done) (auto intro: early)
  next
    case (4 ms u)
    then have u: "copying v u" "all_copied E st0 (store_sealed s) (sub v src) u" by (simp_all add: source_path(2))
    note c = commit_safe [OF st u(1) u(2) assms(4,5,3,2), of F]
    show ?case
    proof (rule safe_try [OF c], goal_cases)
      case (1 e w)
      then show ?case by (intro alone_done) simp_all
    next
      case (2 x w)
      then show ?case by (intro alone_done) simp_all
    qed simp
  qed simp_all
qed

lemma sample_jext_fext: "fext_laws sample_jext"
  using sample_ext_laws(1) sample_jext_laws(1-4)
  by (simp add: sample_jext_def hext.extend_def jext.fields_def fext_laws_def json_laws_def)

theorem rewrite_never_loses_witness:
  "safe (alone True)
    (never_lost sample_jext store_new (store_sealed (sealer_new sample_jext (DataKey (replicate 32 0))))
      [[] \<mapsto> VDir] [[] \<mapsto> VDir] sample_swapping)
    (run_rewrite sample_jext (fs_rewrite sample_jext (rp_of src) store_new
      (store_sealed (sealer_new sample_jext (DataKey (replicate 32 0)))) (\<lambda>n. n mod 2 = 0)))
    (\<lambda>r w. case r of
       Inr _ \<Rightarrow> all_copied sample_jext store_new (store_sealed (sealer_new sample_jext (DataKey (replicate 32 0))))
           (sub sample_swapping src) w \<and> sub w cur = [[] \<mapsto> VDir] \<and> sub w [''.rewrite''] = nothing
     | Inl _ \<Rightarrow> True) sample_swapping"
  by (rule rewrite_never_loses [OF _ _ sample_swap(3,1,2)])
    (auto simp: sample_jext_fext store_new_def sample_swapping_def fs_wf_def split: if_splits)

end
