(* ===== verification/Opening_Laws.thy ===== *)
theory Opening_Laws
  imports Store_Layout Slots Sample_Journal
begin

text \<open>
  How a device opens a store: the table of \<^verbatim>\<open>encryption/open.rs\<close>, over the files, and that the guard
  of a store just opened lets it pass.
\<close>

definition started_of :: "'z jext_scheme \<Rightarrow> fsview \<Rightarrow> string option" where
  "started_of E v =
     (case v [''.rewrite'', ''plan.json''] of
        Some (VFile b) \<Rightarrow> x_started_of_json E (take (64 * 1024) b)
      | _ \<Rightarrow> None)"

definition opened :: "'z jext_scheme \<Rightarrow> fsview \<Rightarrow> data_key option \<Rightarrow> store_error + fs_store" where
  "opened E v key =
     (if v [''.rewrite''] \<noteq> None then Inl (SeEncryption (EnRewriting (started_of E v)))
      else if v [''encryption''] \<noteq> None
      then (case v [''encryption'', ''header.json''] of
              Some (VFile b) \<Rightarrow>
                (case header_parse E (take MAX_HEADER_BYTES b) of
                   Inl e \<Rightarrow> Inl (SeEncryption e)
                 | Inr h \<Rightarrow>
                     if v [''items''] = Some VDir then Inl (SeEncryption EnHeaderMissing)
                     else (case key of
                             None \<Rightarrow> Inl (SeEncryption EnNoKey)
                           | Some k \<Rightarrow>
                               if dk_key_id E k = header_key_id h
                               then Inr (guarded (store_sealed (sealer_new E k)))
                               else Inl (SeEncryption (EnKeyMismatch (key_id_short E (dk_key_id E k))
                                      (key_id_short E (header_key_id h))))))
            | _ \<Rightarrow> Inl (SeEncryption EnHeaderMissing))
      else if v [''items''] \<noteq> None \<and> v [''items''] \<noteq> Some VDir then Inl (SeEncryption EnHeaderMissing)
      else (case key of
              None \<Rightarrow> Inr (plain_guarded store_new)
            | Some _ \<Rightarrow> Inl (SeEncryption EnKeyWithoutEncryption)))"

text \<open>The two files that are read are not folders.\<close>

definition files_are_files :: "fsview \<Rightarrow> bool" where
  "files_are_files v \<longleftrightarrow>
     v [''.rewrite'', ''plan.json''] \<noteq> Some VDir \<and> v [''encryption'', ''header.json''] \<noteq> Some VDir"

section \<open>Reading small files\<close>

lemma answers_stat:
  assumes "\<And>m. v (comps p) \<noteq> None \<Longrightarrow> md_is_dir m = (v (comps p) = Some VDir) \<Longrightarrow> answers F v (k (Inr (Some m))) P"
    and "v (comps p) = None \<Longrightarrow> answers F v (k (Inr None)) P" "\<And>e. F \<Longrightarrow> answers F v (k (Inl e)) P"
  shows "answers F v (Stat p k) P"
  using assms unfolding answers_def by (intro alone_stat) auto

lemma started_answer:
  assumes "files_are_files v"
  shows "answers F v (rewrite_started E) (\<lambda>s. \<not> F \<longrightarrow> s = started_of E v)"
proof -
  have p: "and_then (rp_new REWRITE_DIR) (\<lambda>p. rp_join p ''plan.json'') = Inr (rp_of [''.rewrite'', ''plan.json''])"
    using join_is [of "[''.rewrite'']" "''plan.json''"] by (simp add: REWRITE_DIR_def new_is)
  show ?thesis
    unfolding rewrite_started_def p
    using assms take_to_end_file(2)
    by (cases F) (auto simp: open_read_spec_def started_of_def files_are_files_def
        split: sum.splits fs_error.splits option.splits vnode.splits)
qed

lemma read_header_exact:
  assumes "files_are_files v"
  shows "answers F v (read_header E)
    (\<lambda>r. r = (case v [''encryption'', ''header.json''] of
               Some (VFile b) \<Rightarrow> map_sum SeEncryption Some (header_parse E (take MAX_HEADER_BYTES b))
             | _ \<Rightarrow> Inr None)
       \<or> F \<and> (\<exists>e. r = Inl e))"
proof -
  have j: "rp_join (rp_of [''encryption'']) ''header.json'' = Inr (rp_of [''encryption'', ''header.json''])"
    using join_is [of "[''encryption'']" "''header.json''"] by simp
  show ?thesis
    unfolding read_header_def read_header_in_def encryption_dir_def ENCRYPTION_DIR_def HEADER_FILE_def new_is try_res_simps j
  proof (simp only: answers_simps, intro allI impI, goal_cases)
    case (1 r)
    then have r: "open_read_spec F [''encryption'', ''header.json''] v r" by simp
    show ?case
    proof (cases r)
      case (Inl e)
      then show ?thesis using r assms
        by (cases e) (auto simp: open_read_spec_def files_are_files_def split: option.splits vnode.splits)
    next
      case (Inr rd)
      then obtain b where b: "v [''encryption'', ''header.json''] = Some (VFile b)" "reads F rd (VFile b)"
        using r assms by (auto simp: open_read_spec_def files_are_files_def) (metis vnode.exhaust)
      show ?thesis
      proof (cases "rd_take_to_end MAX_HEADER_BYTES rd")
        case (Inl e)
        then have F using take_to_end_file(2) [OF b(2)] by fastforce
        then show ?thesis using Inl \<open>r = Inr rd\<close> by simp
      next
        case x: (Inr x)
        then have "x = take MAX_HEADER_BYTES b" by (rule take_to_end_file(1) [OF b(2)])
        then show ?thesis using x b(1) Inr
          by (cases "header_parse E (take MAX_HEADER_BYTES b)") simp_all
      qed
    qed
  qed
qed

section \<open>The layout and the table\<close>

definition found_layout :: "'z jext_scheme \<Rightarrow> fsview \<Rightarrow> store_error + layout" where
  "found_layout E v =
     (if v [''.rewrite''] \<noteq> None then Inr (LyRewriting (started_of E v))
      else if v [''encryption''] \<noteq> None
      then (case v [''encryption'', ''header.json''] of
              Some (VFile b) \<Rightarrow>
                (case header_parse E (take MAX_HEADER_BYTES b) of
                   Inl e \<Rightarrow> Inl (SeEncryption e)
                 | Inr h \<Rightarrow> Inr (if v [''items''] = Some VDir then LyBroken else LyEncrypted h))
            | _ \<Rightarrow> Inr LyBroken)
      else Inr (if v [''items''] \<noteq> None \<and> v [''items''] \<noteq> Some VDir then LyBroken else LyPlain))"

text \<open>Faults may hide when a change started or make reading fail; they change nothing else.\<close>

definition nearly :: "bool \<Rightarrow> store_error + layout \<Rightarrow> store_error + layout \<Rightarrow> bool" where
  "nearly F l r \<longleftrightarrow> r = l \<or> F \<and> ((\<exists>e. r = Inl e) \<or> (\<exists>s t. l = Inr (LyRewriting s) \<and> r = Inr (LyRewriting t)))"

lemma classify_answer:
  assumes "files_are_files v"
  shows "answers F v (classify E) (nearly F (found_layout E v))"
proof -
  have rewriting: "answers F v (bind (rewrite_started E) (\<lambda>started. Done (Inr (LyRewriting started)))) (nearly F (found_layout E v))"
    if "v [''.rewrite''] \<noteq> None"
    by (rule answers_bind [OF started_answer [OF assms]]) (use that in \<open>auto simp: nearly_def found_layout_def\<close>)
  have header: "answers F v (tryP (read_header E) (\<lambda>header. Done (Inr (case header of
      Some h \<Rightarrow> if \<not> is_folder items then LyEncrypted h else LyBroken | None \<Rightarrow> LyBroken)))) (nearly F (found_layout E v))"
    if "v [''.rewrite''] = None" "v [''encryption''] \<noteq> None" "is_folder items = (v [''items''] = Some VDir)" for items
    by (rule answers_try [OF read_header_exact [OF assms]])
      (use that in \<open>auto simp: nearly_def found_layout_def split: option.splits vnode.splits sum.splits\<close>)
  have failed: "answers F v (Done (Inl e)) (nearly F (found_layout E v))" if F for e
    using that by (auto simp: nearly_def)
  show ?thesis
    unfolding classify_def REWRITE_DIR_def STOP_FILE_def encryption_dir_def ENCRYPTION_DIR_def new_is try_res_simps prog_simps
  proof (rule answers_stat, goal_cases)
    case (1 m)
    then show ?case using rewriting by simp
  next
    case none: 2
    have inner: "answers F v (Stat (rp_of [''encryption'']) (\<lambda>r. try_res SeFs r (\<lambda>encryption.
        if encryption \<noteq> None
        then tryP (read_header E) (\<lambda>header. Done (Inr (case header of
               Some h \<Rightarrow> if \<not> is_folder items then LyEncrypted h else LyBroken | None \<Rightarrow> LyBroken)))
        else Done (Inr (if is_plain_file items then LyBroken else LyPlain))))) (nearly F (found_layout E v))"
      if i: "is_folder items = (v [''items''] = Some VDir)" "items = None \<longleftrightarrow> v [''items''] = None" for items
    proof (rule answers_stat, goal_cases)
      case (1 m)
      then show ?case using header [OF _ _ i(1)] none by (simp add: try_res_simps)
    next
      case 2
      have "is_plain_file items \<longleftrightarrow> v [''items''] \<noteq> None \<and> v [''items''] \<noteq> Some VDir"
        using i by (auto simp: is_plain_file_def is_folder_def split: option.splits)
      then show ?case using none 2 by (simp add: try_res_simps nearly_def found_layout_def)
    qed (use failed in \<open>simp add: try_res_simps\<close>)
    show ?case
      unfolding try_res_simps if_False simp_thms
    proof (rule answers_stat, goal_cases)
      case (1 m)
      then show ?case using inner [of "Some m"] by (simp add: try_res_simps is_folder_def del: answers_simps)
    next
      case 2
      then show ?case using inner [of None] by (simp add: try_res_simps is_folder_def del: answers_simps)
    qed (use failed in \<open>simp add: try_res_simps\<close>)
  qed (use failed in \<open>simp add: try_res_simps\<close>)
qed

definition made :: "sealer option \<Rightarrow> fs_store" where
  "made s = (case s of None \<Rightarrow> plain_guarded store_new | Some x \<Rightarrow> guarded (store_sealed x))"

lemma opened_layout:
  "opened E v key =
     (case found_layout E v of Inl e \<Rightarrow> Inl e | Inr l \<Rightarrow> map_sum id made (opening_store E (claim_of l) key))"
proof (cases "v [''.rewrite''] = None \<and> v [''encryption''] \<noteq> None")
  case True
  then show ?thesis
  proof (cases "v [''encryption'', ''header.json'']")
    case (Some n)
    then show ?thesis using True
      by (cases n; cases key; cases "header_parse E (take MAX_HEADER_BYTES (case n of VFile b \<Rightarrow> b))")
        (simp_all add: opened_def found_layout_def opening_store_def claim_of_def made_def)
  qed (simp add: opened_def found_layout_def opening_store_def claim_of_def)
next
  case False
  then show ?thesis
    by (cases "v [''.rewrite''] = None"; cases key)
      (simp_all add: opened_def found_layout_def opening_store_def claim_of_def made_def)
qed

lemma open_answer:
  assumes "files_are_files v"
  shows "answers F v (open_with_key E key) (\<lambda>r. r = opened E v key \<or> F \<and> (\<exists>e. r = Inl e))"
  unfolding open_with_key_def
proof (rule answers_try [OF classify_answer [OF assms]], goal_cases)
  case (1 e)
  then show ?case by (auto simp: nearly_def opened_layout split: sum.splits)
next
  case (2 l)
  then consider "found_layout E v = Inr l" | s where F "l = LyRewriting s" by (auto simp: nearly_def)
  then show ?case
  proof cases
    case 1
    then show ?thesis
      by (cases "opening_store E (claim_of l) key") (simp_all add: opened_layout made_def [symmetric])
  qed (simp add: opening_store_def claim_of_def)
qed

text \<open>C17: A store is opened by the table of \<^verbatim>\<open>open.rs\<close>, row by row: refused while its encryption is
  being changed; sealed with the device's key exactly when the header names that key and \<open>items\<close> is no
  folder, and refused otherwise when there is a header; refused when only a part of an encrypted layout
  is there; plaintext only when nothing of it is there and the device has no key. Faults can make
  opening fail but never open a store in another way than the table says.\<close>

theorem opened_by_the_table:
  assumes "files_are_files v"
  shows "answers F v (open_with_key E key) (\<lambda>r. r = opened E v key \<or> F \<and> (\<exists>e. r = Inl e))"
  by (rule open_answer [OF assms])

theorem opened_by_the_table_witness:
  "answers True [[] \<mapsto> VDir, [''encryption''] \<mapsto> VDir] (open_with_key sample_jext None)
    (\<lambda>r. r = opened sample_jext [[] \<mapsto> VDir, [''encryption''] \<mapsto> VDir] None \<or> True \<and> (\<exists>e. r = Inl e))
   \<and> opened sample_jext [[] \<mapsto> VDir, [''encryption''] \<mapsto> VDir] None = Inl (SeEncryption EnHeaderMissing)"
proof
  show "answers True [[] \<mapsto> VDir, [''encryption''] \<mapsto> VDir] (open_with_key sample_jext None)
    (\<lambda>r. r = opened sample_jext [[] \<mapsto> VDir, [''encryption''] \<mapsto> VDir] None \<or> True \<and> (\<exists>e. r = Inl e))"
    by (rule opened_by_the_table) (simp add: files_are_files_def)
qed (simp add: opened_def)

text \<open>C18: What \<open>open_with_key\<close> opens is a store whose guard holds on the files it was opened on, whose
  sealer is the one of the device's key, and that seals exactly when the device has a key: a device
  with a key never opens a store as plaintext.\<close>

theorem opened_store_guarded:
  assumes "files_are_files v"
  shows "answers F v (open_with_key E key)
    (\<lambda>r. case r of
       Inr st \<Rightarrow> guard_ok E st v \<and> st_sealer st = map_option (sealer_new E) key
         \<and> (if st_sealer st = None then st_plain_guard st else st_guard st)
     | Inl _ \<Rightarrow> True)"
proof (rule answers_mono [OF open_answer [OF assms]])
  show "case r of
       Inr st \<Rightarrow> guard_ok E st v \<and> st_sealer st = map_option (sealer_new E) key
         \<and> (if st_sealer st = None then st_plain_guard st else st_guard st)
     | Inl _ \<Rightarrow> True" if "r = opened E v key \<or> F \<and> (\<exists>e. r = Inl e)" for r
    using that
    by (auto simp: opened_def guard_ok_def guarded_def plain_guarded_def store_sealed_def store_new_def sealer_new_def
        split: if_splits option.splits vnode.splits sum.splits)
qed

definition sample_locked :: fsview where
  "sample_locked = [[] \<mapsto> VDir, [''encryption''] \<mapsto> VDir,
     [''encryption'', ''header.json''] \<mapsto> VFile (to_json sample_jext sample_header), [''items''] \<mapsto> VFile STOP_TEXT]"

theorem opened_store_guarded_witness:
  "answers False sample_locked (open_with_key sample_jext (Some (DataKey (replicate 32 0))))
    (\<lambda>r. case r of
       Inr st \<Rightarrow> guard_ok sample_jext st sample_locked
         \<and> st_sealer st = map_option (sealer_new sample_jext) (Some (DataKey (replicate 32 0)))
         \<and> (if st_sealer st = None then st_plain_guard st else st_guard st)
     | Inl _ \<Rightarrow> True)"
  by (rule opened_store_guarded) (simp add: files_are_files_def sample_locked_def)

end
