(* ===== verification/Clipboard_Read.thy ===== *)
theory Clipboard_Read
  imports Watching Fs_Store
begin

text \<open>
  Reading the clipboard: \<^verbatim>\<open>passalong-core/src/clipboard/mod.rs\<close> (what is sent of text and image) and
  \<^verbatim>\<open>clipboard/image.rs\<close> (images as pixels and as PNG). The PNG codec is a parameter. Clipboards are
  the record \<open>clipboard\<close> of the trait's operations on a state \<open>'c\<close> of their own.
\<close>

section \<open>Images\<close>

definition MAX_IMAGE_PIXELS :: u64 where "MAX_IMAGE_PIXELS = 64000000"

datatype image_error = ImInvalid string | ImTooLarge u32 u32

definition pixels :: "u32 \<Rightarrow> u32 \<Rightarrow> u64" where
  "pixels w h = ucast w * ucast h"

definition check_size :: "u32 \<Rightarrow> u32 \<Rightarrow> image_error + unit" where
  "check_size w h =
     (if w = 0 \<or> h = 0 then Inl (ImInvalid ''the image has no pixels'')
      else if MAX_IMAGE_PIXELS < pixels w h then Inl (ImTooLarge w h)
      else Inr ())"

definition u64_str :: "u64 \<Rightarrow> string" where
  "u64_str n = map char_of (decimal (unat n))"

definition rgba_new :: "u32 \<Rightarrow> u32 \<Rightarrow> bytes \<Rightarrow> image_error + rgba_image" where
  "rgba_new w h rgba =
     and_then (check_size w h) (\<lambda>_.
     let expected = pixels w h * 4 in
     if of_nat (length rgba) \<noteq> expected
     then Inl (ImInvalid (u64_str (ucast w) @ '' x '' @ u64_str (ucast h) @ '' pixels need '' @ u64_str expected
            @ '' bytes, got '' @ u64_str (of_nat (length rgba))))
     else Inr \<lparr>im_width = w, im_height = h, im_rgba = rgba\<rparr>)"

text \<open>What the codec makes of a PNG: its size, and its pixels once normalised to 8 bits.\<close>

datatype color_type = Rgba | Rgb | Grayscale | GrayscaleAlpha | Indexed

record png =
  png_encode :: "u32 \<Rightarrow> u32 \<Rightarrow> bytes \<Rightarrow> string + bytes"
  png_info :: "bytes \<Rightarrow> string + u32 \<times> u32"
  png_buffer_size :: "bytes \<Rightarrow> nat option"
  png_frame :: "bytes \<Rightarrow> string + color_type \<times> bytes"

definition encode_png :: "png \<Rightarrow> rgba_image \<Rightarrow> image_error + bytes" where
  "encode_png P im = map_err ImInvalid (png_encode P (im_width im) (im_height im) (im_rgba im))"

fun from_rgb :: "bytes \<Rightarrow> bytes" where
  "from_rgb (r # g # b # rest) = r # g # b # 255 # from_rgb rest"
| "from_rgb _ = []"

definition from_gray :: "bytes \<Rightarrow> bytes" where
  "from_gray buf = concat (map (\<lambda>g. [g, g, g, 255]) buf)"

fun from_gray_alpha :: "bytes \<Rightarrow> bytes" where
  "from_gray_alpha (g # a # rest) = g # g # g # a # from_gray_alpha rest"
| "from_gray_alpha _ = []"

definition decode_png :: "png \<Rightarrow> bytes \<Rightarrow> image_error + rgba_image" where
  "decode_png P b =
     and_then (map_err ImInvalid (png_info P b)) (\<lambda>(w, h).
     and_then (check_size w h) (\<lambda>_.
     and_then (ok_or (png_buffer_size P b) (ImInvalid ''the image is too large for this machine'')) (\<lambda>_.
     and_then (map_err ImInvalid (png_frame P b)) (\<lambda>(color, buf).
     and_then (case color of
         Rgba \<Rightarrow> Inr buf
       | Rgb \<Rightarrow> Inr (from_rgb buf)
       | Grayscale \<Rightarrow> Inr (from_gray buf)
       | GrayscaleAlpha \<Rightarrow> Inr (from_gray_alpha buf)
       | Indexed \<Rightarrow> Inl (ImInvalid ''unexpanded palette image'')) (\<lambda>rgba.
     rgba_new w h rgba)))))"

section \<open>Text that only refers to an image\<close>

definition strip_cr :: "ustring \<Rightarrow> ustring" where
  "strip_cr l = (if l \<noteq> [] \<and> last l = 13 then butlast l else l)"

definition str_lines :: "ustring \<Rightarrow> ustring list" where
  "str_lines t =
     (let ps = split_by (\<lambda>c. c = 10) t in
      map strip_cr (butlast ps) @ (if last ps = [] then [] else [last ps]))"

definition is_link :: "ustring \<Rightarrow> bool" where
  "is_link line \<longleftrightarrow>
     (\<exists>scheme \<in> set [''http://'', ''https://'', ''file://'']. starts_with (ascii_lowercase line) (ustr scheme))
     \<and> \<not> (\<exists>c \<in> set line. is_whitespace c)"

text \<open>What follows the first \<open>>\<close>.\<close>

definition after_tag :: "ustring \<Rightarrow> ustring option" where
  "after_tag t = (if 62 \<in> set t then Some (drop 1 (dropWhile (\<lambda>c. c \<noteq> 62) t)) else None)"

text \<open>The loop over leading \<open><meta\<close> tags; \<open>None\<close> when one is not closed.\<close>

function skip_meta :: "ustring \<Rightarrow> ustring option" where
  "skip_meta html =
     (case strip_prefix (ustr ''<meta'') (trim_start is_whitespace html) of
        None \<Rightarrow> Some html
      | Some rest \<Rightarrow> (case after_tag rest of None \<Rightarrow> None | Some t \<Rightarrow> skip_meta t))"
  by pat_completeness auto

definition refers_to_image :: "ustring \<Rightarrow> bool" where
  "refers_to_image t =
     (let text = trim_both is_whitespace t;
          ls = filter (\<lambda>l. l \<noteq> []) (map (trim_both is_whitespace) (str_lines text)) in
      if length ls \<le> 2 \<and> (case ls of l # _ \<Rightarrow> is_link l | [] \<Rightarrow> False) then True
      else (case skip_meta (ascii_lowercase text) of
              None \<Rightarrow> False
            | Some html \<Rightarrow>
                (let html = trim_both is_whitespace html in
                 starts_with html (ustr ''<img'')
                 \<and> (case after_tag html of None \<Rightarrow> False | Some rest \<Rightarrow> trim_both is_whitespace rest = []))))"

section \<open>What is sent\<close>

datatype clipboard_error = CbUnavailable string | CbOther string

record 'c clipboard =
  cb_read_text :: "'c \<Rightarrow> (clipboard_error + ustring option) \<times> 'c"
  cb_write_text :: "ustring \<Rightarrow> 'c \<Rightarrow> (clipboard_error + unit) \<times> 'c"
  cb_read_image :: "'c \<Rightarrow> (clipboard_error + rgba_image option) \<times> 'c"
  cb_write_image :: "rgba_image \<Rightarrow> 'c \<Rightarrow> (clipboard_error + unit) \<times> 'c"

text \<open>The methods of a clipboard without images.\<close>

definition no_read_image :: "'c \<Rightarrow> (clipboard_error + rgba_image option) \<times> 'c" where
  "no_read_image c = (Inr None, c)"

definition no_write_image :: "rgba_image \<Rightarrow> 'c \<Rightarrow> (clipboard_error + unit) \<times> 'c" where
  "no_write_image im c = (Inl (CbUnavailable ''this clipboard does not support images''), c)"

definition read_payload ::
  "'c clipboard \<Rightarrow> bool \<Rightarrow> 'c \<Rightarrow> (clipboard_error + ustring option \<times> rgba_image option) \<times> 'c" where
  "read_payload B images c =
     (case cb_read_text B c of
        (Inl e, c) \<Rightarrow> (Inl e, c)
      | (Inr found, c) \<Rightarrow>
          (let text = (case found of Some t \<Rightarrow> if 0 \<in> set t then None else Some t | None \<Rightarrow> None);
               is_content = (case text of Some t \<Rightarrow> trim_both is_whitespace t \<noteq> [] \<and> \<not> refers_to_image t | None \<Rightarrow> False) in
           if is_content \<or> \<not> images then (Inr (text, None), c)
           else (case cb_read_image B c of
                   (Inl e, c) \<Rightarrow> (Inl e, c)
                 | (Inr (Some im), c) \<Rightarrow> (Inr (None, Some im), c)
                 | (Inr None, c) \<Rightarrow> (Inr (text, None), c))))"

section \<open>Lemmas\<close>

lemma skip_meta_shorter:
  "strip_prefix (ustr ''<meta'') (trim_start is_whitespace html) = Some rest \<Longrightarrow> after_tag rest = Some t \<Longrightarrow>
   length t < length html"
proof -
  assume p: "strip_prefix (ustr ''<meta'') (trim_start is_whitespace html) = Some rest" and t: "after_tag rest = Some t"
  have "trim_start is_whitespace html = ustr ''<meta'' @ rest" using p by (simp add: strip_prefix_Some)
  moreover have "length (trim_start is_whitespace html) \<le> length html" by (simp add: trim_start_def length_dropWhile_le)
  moreover have "length t \<le> length rest"
    using t length_dropWhile_le [of "\<lambda>c. c \<noteq> 62" rest] by (auto simp: after_tag_def split: if_splits)
  ultimately show "length t < length html" by (simp add: ustr_def)
qed

termination skip_meta
  by (relation "measure length") (auto dest: skip_meta_shorter)

declare skip_meta.simps [simp del]

text \<open>An image that was made has all its pixels.\<close>

definition image_ok :: "rgba_image \<Rightarrow> bool" where
  "image_ok im \<longleftrightarrow>
     im_width im \<noteq> 0 \<and> im_height im \<noteq> 0 \<and> unat (im_width im) * unat (im_height im) \<le> 64000000
     \<and> length (im_rgba im) = 4 * (unat (im_width im) * unat (im_height im))"

lemma unat_u64: "unat (ucast (w :: u32) :: u64) = unat w"
proof -
  have "unat w < 2 ^ 64" using unsigned_less [of w, where ?'a = nat] by (rule order_less_trans) simp
  then show ?thesis by (simp add: unsigned_ucast_eq take_bit_nat_eq_self)
qed

lemma pixels_value: "unat (pixels w h) = unat w * unat h"
proof -
  have "unat w < 2 ^ 32" "unat h < 2 ^ 32" using unsigned_less [of w] unsigned_less [of h] by simp_all
  then have "unat w * unat h < 2 ^ 32 * 2 ^ 32" by (intro mult_strict_mono) auto
  then have "unat (ucast w :: u64) * unat (ucast h :: u64) < 2 ^ LENGTH(64)" by (simp add: unat_u64)
  then show ?thesis
    unfolding pixels_def by (subst unat_mult_lem [THEN iffD1]) (simp_all add: unat_u64)
qed

lemma check_size_iff:
  "check_size w h = Inr () \<longleftrightarrow> w \<noteq> 0 \<and> h \<noteq> 0 \<and> unat w * unat h \<le> 64000000"
  by (simp add: check_size_def word_less_nat_alt pixels_value MAX_IMAGE_PIXELS_def not_less)

lemma rgba_new_iff:
  assumes "length b < 2 ^ 64"
  shows "rgba_new w h b = Inr im \<longleftrightarrow> im = \<lparr>im_width = w, im_height = h, im_rgba = b\<rparr> \<and> image_ok im"
proof (cases "check_size w h = Inr ()")
  case True
  then have s: "w \<noteq> 0" "h \<noteq> 0" "unat w * unat h \<le> 64000000" by (auto simp: check_size_iff)
  then have lt: "unat w * unat h < 4611686018427387904" by linarith
  then have "unat (pixels w h) * unat (4 :: u64) < 2 ^ LENGTH(64)" by (simp add: pixels_value mult.commute)
  then have "unat (pixels w h * 4) = 4 * (unat w * unat h)"
    by (subst unat_mult_lem [THEN iffD1]) (simp_all add: pixels_value)
  moreover have "unat (of_nat (length b) :: u64) = length b"
    using assms by (simp add: unsigned_of_nat take_bit_nat_eq_self)
  ultimately have "of_nat (length b) = pixels w h * 4 \<longleftrightarrow> length b = 4 * (unat w * unat h)"
    by (metis word_unat_eq_iff)
  then show ?thesis using True s by (auto simp: rgba_new_def Let_def image_ok_def)
next
  case False
  then have "\<not> image_ok \<lparr>im_width = w, im_height = h, im_rgba = b\<rparr>" by (auto simp: check_size_iff image_ok_def)
  moreover obtain e where "check_size w h = Inl e" using False by (cases "check_size w h") auto
  ultimately show ?thesis by (auto simp: rgba_new_def)
qed

lemma length_expanded: "length (from_rgb b) \<le> 4 * length b" "length (from_gray b) = 4 * length b"
    "length (from_gray_alpha b) \<le> 4 * length b"
proof -
  show "length (from_rgb b) \<le> 4 * length b" by (induction b rule: from_rgb.induct) simp_all
  show "length (from_gray_alpha b) \<le> 4 * length b" by (induction b rule: from_gray_alpha.induct) simp_all
  show "length (from_gray b) = 4 * length b" by (induction b) (simp_all add: from_gray_def)
qed

text \<open>Whatever a PNG holds, what comes out of it is an image with all its pixels, not too large.\<close>

lemma decode_png_ok:
  assumes "\<And>c buf. png_frame P b = Inr (c, buf) \<Longrightarrow> length buf < 2 ^ 62" "decode_png P b = Inr im"
  shows "image_ok im"
proof -
  obtain w h c buf where f: "png_frame P b = Inr (c, buf)"
    and r: "and_then (case c of Rgba \<Rightarrow> Inr buf | Rgb \<Rightarrow> Inr (from_rgb buf) | Grayscale \<Rightarrow> Inr (from_gray buf)
       | GrayscaleAlpha \<Rightarrow> Inr (from_gray_alpha buf)
       | Indexed \<Rightarrow> Inl (ImInvalid ''unexpanded palette image'')) (rgba_new w h) = Inr im"
    using assms(2) by (auto simp: decode_png_def and_then_eq_Inr map_err_eq_Inr)
  then obtain rgba where d: "png_frame P b = Inr (c, buf)" "rgba_new w h rgba = Inr im"
    "rgba \<in> {buf, from_rgb buf, from_gray buf, from_gray_alpha buf}"
    by (cases c) auto
  have "length rgba < 2 ^ 64" using assms(1) [OF d(1)] d(3) length_expanded [of buf] by auto
  then show ?thesis using d(2) rgba_new_iff by blast
qed

text \<open>A codec that reads back what it wrote: images survive.\<close>

definition png_laws :: "png \<Rightarrow> bool" where
  "png_laws P \<longleftrightarrow>
     (\<forall>im b. image_ok im \<longrightarrow> png_encode P (im_width im) (im_height im) (im_rgba im) = Inr b \<longrightarrow>
        png_info P b = Inr (im_width im, im_height im) \<and> png_buffer_size P b \<noteq> None
        \<and> png_frame P b = Inr (Rgba, im_rgba im))"

lemma decode_encode_png:
  assumes "png_laws P" "image_ok im" "encode_png P im = Inr b"
  shows "decode_png P b = Inr im"
proof -
  have e: "png_encode P (im_width im) (im_height im) (im_rgba im) = Inr b"
    using assms(3) by (simp add: encode_png_def map_err_eq_Inr)
  then have p: "png_info P b = Inr (im_width im, im_height im)" "png_buffer_size P b \<noteq> None"
      "png_frame P b = Inr (Rgba, im_rgba im)"
    using assms(1,2) unfolding png_laws_def by blast+
  have "unat (im_width im) * unat (im_height im) < 4611686018427387904"
    using assms(2) unfolding image_ok_def by linarith
  then have "length (im_rgba im) < 2 ^ 64" using assms(2) by (simp add: image_ok_def mult.commute)
  then have "rgba_new (im_width im) (im_height im) (im_rgba im) = Inr im"
    using rgba_new_iff assms(2) by simp
  moreover have "check_size (im_width im) (im_height im) = Inr ()"
    using assms(2) by (simp add: check_size_iff image_ok_def)
  ultimately show ?thesis using p by (auto simp: decode_png_def ok_or_eq_Inr and_then_eq_Inr)
qed

text \<open>Text and image are never sent together, and an image only when images are.\<close>

lemma read_payload_one:
  "read_payload B images c = (Inr (text, im), c') \<Longrightarrow>
   (text = None \<or> im = None) \<and> (im \<noteq> None \<longrightarrow> images) \<and> (\<forall>t. text = Some t \<longrightarrow> 0 \<notin> set t)"
  by (auto simp: read_payload_def Let_def split: prod.splits sum.splits option.splits if_splits)

text \<open>A codec for the witnesses, which handles nothing.\<close>

definition sample_png :: png where
  "sample_png =
     \<lparr>png_encode = (\<lambda>_ _ _. Inl ''not supported''), png_info = (\<lambda>_. Inl ''not a PNG''),
      png_buffer_size = (\<lambda>_. None), png_frame = (\<lambda>_. Inl ''not a PNG'')\<rparr>"

end
