(* ===== verification/Pulling.thy ===== *)
theory Pulling
  imports Download Store_Trait Clipboard_Read
begin

text \<open>
  Pull mode, \<^verbatim>\<open>passalong-core/src/serve/pull.rs\<close>: applying the items other devices send. A poll is a
  program over the store that also works on this device: it saves files with \<open>Download\<close> and sends
  what goes to the clipboard to the clipboard task. \<open>here\<close> is that part of the world: the local files,
  whether the download folder is there, the random numbers for part names, and the writes sent.
\<close>

datatype clipboard_write = CwText ustring | CwImage rgba_image

record here =
  he_os :: os_run
  he_folder :: bool
  he_rand :: "nat \<Rightarrow> nat \<Rightarrow> u64"
  he_downloads :: nat
  he_writes :: "clipboard_write list"
  he_handled :: "item_id list"

text \<open>\<open>he_downloads\<close> counts the downloads, each of which draws from its own random source;
  \<open>he_handled\<close> lists the items applied, which the code logs.\<close>

record puller =
  pu_device :: ustring
  pu_download_dir :: path
  pu_seen :: "item_id set"
  pu_key_id :: "key_id option"
  pu_clipboard :: bool
  pu_warned_no_dir :: bool
  pu_warned_no_clipboard :: bool

datatype handled = HDone | HLater

datatype fetched = FBytes bytes | FNot handled

type_synonym pulling = "puller \<times> here"

definition puller_start ::
  "dyn_store \<Rightarrow> ustring \<Rightarrow> path \<Rightarrow> bool \<Rightarrow> (store_error + puller) prog" where
  "puller_start D device dir clipboard =
     tryP (ds_list_ids D) (\<lambda>ids.
     Done (Inr \<lparr>pu_device = device, pu_download_dir = dir, pu_seen = set ids, pu_key_id = ds_key_id D,
                pu_clipboard = clipboard, pu_warned_no_dir = False, pu_warned_no_clipboard = False\<rparr>))"

definition is_foreign :: "puller \<Rightarrow> item_meta \<Rightarrow> bool" where
  "is_foreign p m \<longleftrightarrow> meta_device m \<noteq> pu_device p"

definition for_clipboard :: "item_meta \<Rightarrow> bool" where
  "for_clipboard m \<longleftrightarrow> meta_kind m = KText \<or> is_clipboard_image m"

definition unopened :: "store_error \<Rightarrow> store_error + handled" where
  "unopened e =
     (case e of
        SeEncryption (EnIncomplete _) \<Rightarrow> Inr HLater
      | SeNotFound _ \<Rightarrow> Inr HDone
      | SeCorrupt _ _ \<Rightarrow> Inr HDone
      | _ \<Rightarrow> Inl e)"

text \<open>The errors of the sealed stream, which the code tells from others by their type.\<close>

definition is_crypto :: "io_error \<Rightarrow> bool" where
  "is_crypto e \<longleftrightarrow>
     e \<in> {invalid (CFormat ''this is not sealed content''), invalid CAuthentication, invalid CTruncated,
           invalid (CFormat ''too many records'')}"

definition read_failed :: "item_meta \<Rightarrow> io_error \<Rightarrow> datetime \<Rightarrow> store_error + handled" where
  "read_failed m e now =
     (if \<not> is_crypto e then Inl (SeBackend (''reading item '' @ id_repr (meta_id m) @ '': '' @ io_message e))
      else if now - INCOMPLETE_GRACE_SECS * 1000000000 < id_timestamp (meta_id m) then Inr HLater
      else Inr HDone)"

definition fetch :: "'z ext_scheme \<Rightarrow> dyn_store \<Rightarrow> item_meta \<Rightarrow> (store_error + fetched) prog" where
  "fetch E D m =
     bind (ds_get D (meta_id m)) (\<lambda>r.
     case r of
       Inl e \<Rightarrow> Done (map_sum id FNot (unopened e))
     | Inr (_, content) \<Rightarrow>
         (case read_verified E content m of
            Inr b \<Rightarrow> Done (Inr (FBytes b))
          | Inl (DlRead e) \<Rightarrow> Now (\<lambda>now. Done (map_sum id FNot (read_failed m e now)))
          | Inl _ \<Rightarrow> Done (Inr (FNot HDone))))"

text \<open>Both appliers answer what became of the item, and the state after.\<close>

definition apply_item ::
  "'z ext_scheme \<Rightarrow> png \<Rightarrow> dyn_store \<Rightarrow> item_meta \<Rightarrow> pulling \<Rightarrow> ((store_error + handled) \<times> pulling) prog" where
  "apply_item E P D m w =
     (let (p, h) = w in
      if \<not> pu_clipboard p then Done (Inr HDone, (p\<lparr>pu_warned_no_clipboard := True\<rparr>, h))
      else
        bind (fetch E D m) (\<lambda>r.
        case r of
          Inl e \<Rightarrow> Done (Inl e, w)
        | Inr (FNot handled) \<Rightarrow> Done (Inr handled, w)
        | Inr (FBytes b) \<Rightarrow>
            (let send = (\<lambda>x. Done (Inr HDone,
                   (p, h\<lparr>he_writes := he_writes h @ [x], he_handled := he_handled h @ [meta_id m]\<rparr>))) in
             if meta_kind m = KText
             then (case from_utf8 b of Some t \<Rightarrow> send (CwText t) | None \<Rightarrow> Done (Inr HDone, w))
             else (case decode_png P b of Inr im \<Rightarrow> send (CwImage im) | Inl _ \<Rightarrow> Done (Inr HDone, w)))))"

definition download_item ::
  "'z ext_scheme \<Rightarrow> dyn_store \<Rightarrow> item_meta \<Rightarrow> pulling \<Rightarrow> ((store_error + handled) \<times> pulling) prog" where
  "download_item E D m w =
     (let (p, h) = w in
      if \<not> he_folder h then Done (Inr HDone, (p\<lparr>pu_warned_no_dir := True\<rparr>, h))
      else
        (let p = p\<lparr>pu_warned_no_dir := False\<rparr> in
         case sanitise_file_name (case meta_name m of Some n \<Rightarrow> n | None \<Rightarrow> []) of
           Inl _ \<Rightarrow> Done (Inr HDone, (p, h))
         | Inr name \<Rightarrow>
             bind (ds_get D (meta_id m)) (\<lambda>r.
             case r of
               Inl e \<Rightarrow> Done (unopened e, (p, h))
             | Inr (_, content) \<Rightarrow>
                 (let (r, os) = download_into E (he_rand h (he_downloads h)) content m (pu_download_dir p) name (he_os h);
                      h = h\<lparr>he_os := os, he_downloads := he_downloads h + 1\<rparr> in
                  case r of
                    Inr _ \<Rightarrow> Done (Inr HDone, (p, h\<lparr>he_handled := he_handled h @ [meta_id m]\<rparr>))
                  | Inl (DlRead e) \<Rightarrow> Now (\<lambda>now. Done (read_failed m e now, (p, h)))
                  | Inl _ \<Rightarrow> Done (Inr HDone, (p, h))))))"

text \<open>The metadata of the unseen ids that can be read; ids deleted or damaged since are seen now.\<close>

fun read_unseen ::
  "dyn_store \<Rightarrow> item_id list \<Rightarrow> item_meta list \<Rightarrow> puller \<Rightarrow> ((store_error + item_meta list) \<times> puller) prog" where
  "read_unseen D [] ms p = Done (Inr ms, p)"
| "read_unseen D (i # is) ms p =
     bind (ds_get_meta D i) (\<lambda>r.
     case r of
       Inr m \<Rightarrow> read_unseen D is (ms @ [m]) p
     | Inl (SeNotFound _) \<Rightarrow> read_unseen D is ms (p\<lparr>pu_seen := insert i (pu_seen p)\<rparr>)
     | Inl (SeCorrupt _ _) \<Rightarrow> read_unseen D is ms (p\<lparr>pu_seen := insert i (pu_seen p)\<rparr>)
     | Inl (SeEncryption (EnIncomplete _)) \<Rightarrow> read_unseen D is ms p
     | Inl e \<Rightarrow> Done (Inl e, p))"

fun apply_all ::
  "'z ext_scheme \<Rightarrow> png \<Rightarrow> dyn_store \<Rightarrow> item_id option \<Rightarrow> item_meta list \<Rightarrow> pulling
   \<Rightarrow> ((store_error + unit) \<times> pulling) prog" where
  "apply_all E P D newest [] w = Done (Inr (), w)"
| "apply_all E P D newest (m # ms) w =
     bind (if \<not> is_foreign (fst w) m then Done (Inr HDone, w)
           else if \<not> for_clipboard m then download_item E D m w
           else if newest = Some (meta_id m) then apply_item E P D m w
           else Done (Inr HDone, w)) (\<lambda>(r, w).
     case r of
       Inl e \<Rightarrow> Done (Inl e, w)
     | Inr handled \<Rightarrow>
         apply_all E P D newest ms
           (if handled = HDone then ((fst w)\<lparr>pu_seen := insert (meta_id m) (pu_seen (fst w))\<rparr>, snd w) else w))"

definition poll ::
  "'z ext_scheme \<Rightarrow> png \<Rightarrow> dyn_store \<Rightarrow> pulling \<Rightarrow> ((store_error + unit) \<times> pulling) prog" where
  "poll E P D w =
     (let (p, h) = w in
      bind (ds_list_ids D) (\<lambda>r.
      case r of
        Inl e \<Rightarrow> Done (Inl e, w)
      | Inr ids \<Rightarrow>
          if ds_key_id D \<noteq> pu_key_id p
          then Done (Inr (), (p\<lparr>pu_key_id := ds_key_id D, pu_seen := set ids\<rparr>, h))
          else
            (let p = p\<lparr>pu_seen := pu_seen p \<inter> set ids\<rparr>;
                 unseen = filter (\<lambda>i. i \<notin> pu_seen p) ids in
             bind (read_unseen D unseen [] p) (\<lambda>(r, p).
             case r of
               Inl e \<Rightarrow> Done (Inl e, (p, h))
             | Inr new \<Rightarrow>
                 (let newest = map_option meta_id (find (\<lambda>m. is_foreign p m \<and> for_clipboard m) new) in
                  apply_all E P D newest (rev new) (p, h))))))"

end
