(* ===== verification/Pull_Laws.thy ===== *)
theory Pull_Laws
  imports Pulling Rewrite_Laws
begin

text \<open>
  What pull mode guarantees: an item is applied at most once as long as it stays in the store, and a
  poll puts at most one thing on the clipboard. The locale \<open>pull_source\<close> is what a poll relies on; an
  \<open>FsStore\<close> provides it.
\<close>

locale pull_source =
  fixes D :: dyn_store
    and good :: "fsview \<Rightarrow> bool"
    and ids :: "fsview \<Rightarrow> item_id set"
  assumes lists: "good v \<Longrightarrow> answers F v (ds_list_ids D) (\<lambda>r. \<forall>l. r = Inr l \<longrightarrow> distinct l \<and> set l = ids v)"
  and meta_of_id: "good v \<Longrightarrow> i \<in> ids v \<Longrightarrow> answers F v (ds_get_meta D i) (\<lambda>r. \<forall>m. r = Inr m \<longrightarrow> meta_id m = i)"
  and opens: "good v \<Longrightarrow> i \<in> ids v \<Longrightarrow> answers F v (ds_get D i) (\<lambda>_. True)"

text \<open>What applying one item may do: the item counts as handled only when it is done with.\<close>

definition one_applied :: "item_id \<Rightarrow> bool \<Rightarrow> pulling \<Rightarrow> (store_error + handled) \<times> pulling \<Rightarrow> bool" where
  "one_applied i clip w a \<longleftrightarrow>
     (case (w, a) of ((p, h), (r, (p', h'))) \<Rightarrow>
        pu_seen p' = pu_seen p \<and> pu_device p' = pu_device p \<and> pu_key_id p' = pu_key_id p
        \<and> (he_handled h' = he_handled h \<or> he_handled h' = he_handled h @ [i] \<and> r = Inr HDone)
        \<and> (he_writes h' = he_writes h \<or> clip \<and> (\<exists>x. he_writes h' = he_writes h @ [x])))"

text \<open>And applying several: \<open>clip\<close> says whether the clipboard may be written.\<close>

definition all_applied :: "item_id list \<Rightarrow> bool \<Rightarrow> pulling \<Rightarrow> (store_error + unit) \<times> pulling \<Rightarrow> bool" where
  "all_applied is clip w a \<longleftrightarrow>
     (case (w, a) of ((p, h), (r, (p', h'))) \<Rightarrow>
        \<exists>new ws. he_handled h' = he_handled h @ new \<and> distinct new \<and> set new \<subseteq> set is \<and> set new \<subseteq> pu_seen p'
          \<and> pu_seen p \<subseteq> pu_seen p' \<and> pu_seen p' \<subseteq> pu_seen p \<union> set is \<and> pu_key_id p' = pu_key_id p
          \<and> he_writes h' = he_writes h @ ws \<and> length ws \<le> (if clip then 1 else 0))"

lemma all_appliedD:
  assumes "all_applied is c (p, h) (r, (p', h'))"
  shows "\<exists>new ws. he_handled h' = he_handled h @ new \<and> distinct new \<and> set new \<subseteq> set is \<and> set new \<subseteq> pu_seen p'
          \<and> pu_seen p \<subseteq> pu_seen p' \<and> pu_seen p' \<subseteq> pu_seen p \<union> set is \<and> pu_key_id p' = pu_key_id p
          \<and> he_writes h' = he_writes h @ ws \<and> length ws \<le> (if c then 1 else 0)"
  using assms by (simp add: all_applied_def)

text \<open>What a poll of a store with key \<open>K\<close> and the items \<open>I\<close> may do.\<close>

definition polled :: "key_id option \<Rightarrow> item_id set \<Rightarrow> pulling \<Rightarrow> (store_error + unit) \<times> pulling \<Rightarrow> bool" where
  "polled K I w a \<longleftrightarrow>
     (case (w, a) of ((p, h), (r, (p', h'))) \<Rightarrow>
        \<exists>new ws. he_handled h' = he_handled h @ new \<and> distinct new \<and> set new \<subseteq> I - pu_seen p
          \<and> he_writes h' = he_writes h @ ws \<and> length ws \<le> 1
          \<and> (if K = pu_key_id p then set new \<union> pu_seen p \<inter> I \<subseteq> pu_seen p'
             else new = [] \<and> ws = [])
          \<and> (r = Inr () \<longrightarrow> pu_seen p' \<subseteq> I \<and> pu_key_id p' = K))"

definition unseen_read :: "item_id list \<Rightarrow> item_meta list \<Rightarrow> puller \<Rightarrow> (store_error + item_meta list) \<times> puller \<Rightarrow> bool" where
  "unseen_read is ms p a \<longleftrightarrow>
     (case a of (r, p') \<Rightarrow>
        (\<exists>s. p' = p\<lparr>pu_seen := pu_seen p \<union> s\<rparr> \<and> s \<subseteq> set is)
        \<and> (\<forall>ms'. r = Inr ms' \<longrightarrow>
             (\<exists>ns. ms' = ms @ ns \<and> distinct (map meta_id ns) \<and> set (map meta_id ns) \<subseteq> set is)))"

lemma unseen_read_stop: "unseen_read is ms p (Inl e, p)"
  by (auto simp: unseen_read_def intro!: exI [of _ "{}"])

lemma unseen_readI:
  assumes "p' = p\<lparr>pu_seen := pu_seen p \<union> s\<rparr>" "s \<subseteq> set is"
    and "\<And>ms'. r = Inr ms' \<Longrightarrow> \<exists>ns. ms' = ms @ ns \<and> distinct (map meta_id ns) \<and> set (map meta_id ns) \<subseteq> set is"
  shows "unseen_read is ms p (r, p')"
  unfolding unseen_read_def prod.case using assms by blast

lemma unseen_readD:
  assumes "unseen_read is ms p (r, p')"
  shows "\<exists>s. p' = p\<lparr>pu_seen := pu_seen p \<union> s\<rparr> \<and> s \<subseteq> set is"
    and "r = Inr ms' \<Longrightarrow> \<exists>ns. ms' = ms @ ns \<and> distinct (map meta_id ns) \<and> set (map meta_id ns) \<subseteq> set is"
  using assms unfolding unseen_read_def prod.case by blast+

lemma unseen_read_skip: "unseen_read is ms p a \<Longrightarrow> unseen_read (i # is) ms p a"
proof (cases a)
  fix r p' assume u: "unseen_read is ms p a" and a: "a = (r, p')"
  note u = unseen_readD [OF u [unfolded a]]
  obtain s where s: "p' = p\<lparr>pu_seen := pu_seen p \<union> s\<rparr>" "s \<subseteq> set is" using u(1) by blast
  show ?thesis
    unfolding a
    by (rule unseen_readI [OF s(1)]) (use s(2) u(2) in \<open>fastforce\<close>)+
qed

lemma unseen_read_seen: "unseen_read is ms (p\<lparr>pu_seen := insert i (pu_seen p)\<rparr>) a \<Longrightarrow> unseen_read (i # is) ms p a"
proof (cases a)
  fix r p' assume u: "unseen_read is ms (p\<lparr>pu_seen := insert i (pu_seen p)\<rparr>) a" and a: "a = (r, p')"
  note u = unseen_readD [OF u [unfolded a]]
  obtain s where s: "p' = p\<lparr>pu_seen := insert i (pu_seen p) \<union> s\<rparr>" "s \<subseteq> set is" using u(1) by auto
  have e: "p' = p\<lparr>pu_seen := pu_seen p \<union> insert i s\<rparr>" using s(1) by simp
  show ?thesis
    unfolding a
    by (rule unseen_readI [OF e]) (use s(2) u(2) in \<open>fastforce\<close>)+
qed

lemma unseen_read_new: "unseen_read is (ms @ [m]) p a \<Longrightarrow> meta_id m = i \<Longrightarrow> i \<notin> set is \<Longrightarrow> unseen_read (i # is) ms p a"
proof -
  assume u: "unseen_read is (ms @ [m]) p a" and m: "meta_id m = i" "i \<notin> set is"
  obtain r p' where a: "a = (r, p')" by (cases a)
  have "\<exists>ns. ms' = ms @ ns \<and> distinct (map meta_id ns) \<and> set (map meta_id ns) \<subseteq> set (i # is)" if r: "r = Inr ms'" for ms'
  proof -
    from u r obtain ns where "ms' = (ms @ [m]) @ ns" "distinct (map meta_id ns)" "set (map meta_id ns) \<subseteq> set is"
      by (auto simp: unseen_read_def a)
    then show ?thesis using m by (intro exI [of _ "m # ns"]) auto
  qed
  moreover have "\<exists>s. p' = p\<lparr>pu_seen := pu_seen p \<union> s\<rparr> \<and> s \<subseteq> set (i # is)"
    using u by (auto simp: unseen_read_def a)
  ultimately show ?thesis by (simp add: unseen_read_def a)
qed

context pull_source
begin

lemma fetch_answers: "good v \<Longrightarrow> meta_id m \<in> ids v \<Longrightarrow> answers F v (fetch E D m) (\<lambda>_. True)"
  unfolding fetch_def
  by (rule answers_bind [OF opens])
    (auto split: sum.splits download_error.splits prod.splits)

lemma apply_item_one:
  assumes "good v" "meta_id m \<in> ids v"
  shows "answers F v (apply_item E P D m w) (one_applied (meta_id m) True w)"
proof (cases w)
  case (Pair p h)
  show ?thesis
  proof (cases "pu_clipboard p")
    case True
    have a: "answers F v (fetch E D m) (\<lambda>_. True)" by (rule fetch_answers [OF assms])
    show ?thesis
      unfolding apply_item_def Pair Let_def prod.case
      using True
      by (auto intro!: answers_bind [OF a] simp: one_applied_def
          split: sum.splits fetched.splits option.splits)
  qed (simp add: apply_item_def Pair one_applied_def)
qed

lemma download_item_one:
  assumes "good v" "meta_id m \<in> ids v"
  shows "answers F v (download_item E D m w) (one_applied (meta_id m) clip w)"
proof (cases w)
  case (Pair p h)
  show ?thesis
    unfolding download_item_def Pair Let_def prod.case
    by (auto intro!: answers_bind [OF opens [OF assms]] simp: one_applied_def
        split: sum.splits option.splits prod.splits download_error.splits)
qed

lemma apply_all_applied:
  assumes v: "good v" "\<And>m. m \<in> set ms \<Longrightarrow> meta_id m \<in> ids v" "distinct (map meta_id ms)"
  shows "answers F v (apply_all E P D newest ms w)
    (all_applied (map meta_id ms) (\<exists>i \<in> set (map meta_id ms). newest = Some i) w)"
  using v(2,3)
proof (induction ms arbitrary: w)
  case Nil
  then show ?case by (cases w) (simp add: all_applied_def)
next
  case (Cons m ms)
  obtain p h where w: "w = (p, h)" by (cases w)
  let ?c = "newest = Some (meta_id m)"
  have i: "meta_id m \<in> ids v" using Cons.prems by simp
  have first: "answers F v (if \<not> is_foreign (fst w) m then Done (Inr HDone, w)
           else if \<not> for_clipboard m then download_item E D m w
           else if ?c then apply_item E P D m w
           else Done (Inr HDone, w)) (one_applied (meta_id m) ?c w)"
    using apply_item_one [OF v(1) i] download_item_one [OF v(1) i] by (auto simp: one_applied_def w)
  show ?case
    unfolding apply_all.simps
  proof (rule answers_bind [OF first])
    fix a assume a: "one_applied (meta_id m) ?c w a"
    obtain r p1 h1 where a': "a = (r, (p1, h1))" by (metis surj_pair)
    show "answers F v (case a of (r, w) \<Rightarrow> case r of Inl e \<Rightarrow> Done (Inl e, w)
        | Inr handled \<Rightarrow> apply_all E P D newest ms
           (if handled = HDone then ((fst w)\<lparr>pu_seen := insert (meta_id m) (pu_seen (fst w))\<rparr>, snd w) else w))
      (all_applied (map meta_id (m # ms)) (\<exists>i \<in> set (map meta_id (m # ms)). newest = Some i) w)"
    proof (cases r)
      case (Inl e)
      then show ?thesis using a by (auto simp: a' w one_applied_def all_applied_def)
    next
      case (Inr handled)
      let ?w1 = "if handled = HDone then (p1\<lparr>pu_seen := insert (meta_id m) (pu_seen p1)\<rparr>, h1) else (p1, h1)"
      have "answers F v (apply_all E P D newest ms ?w1)
          (all_applied (map meta_id ms) (\<exists>i \<in> set (map meta_id ms). newest = Some i) ?w1)"
        by (rule Cons.IH) (use Cons.prems in auto)
      then have "answers F v (apply_all E P D newest ms ?w1)
          (all_applied (map meta_id (m # ms)) (\<exists>i \<in> set (map meta_id (m # ms)). newest = Some i) w)"
      proof (rule answers_mono)
        fix z assume z: "all_applied (map meta_id ms) (\<exists>i \<in> set (map meta_id ms). newest = Some i) ?w1 z"
        obtain r2 p2 h2 where z': "z = (r2, (p2, h2))" by (metis surj_pair)
        obtain new ws where n: "he_handled h2 = he_handled h1 @ new" "distinct new" "set new \<subseteq> set (map meta_id ms)"
          "set new \<subseteq> pu_seen p2" "pu_seen (fst ?w1) \<subseteq> pu_seen p2" "pu_seen p2 \<subseteq> pu_seen (fst ?w1) \<union> set (map meta_id ms)"
          "he_writes h2 = he_writes h1 @ ws" "length ws \<le> (if \<exists>i \<in> set (map meta_id ms). newest = Some i then 1 else 0)"
          "pu_key_id p2 = pu_key_id (fst ?w1)"
          using z unfolding all_applied_def z' by (auto split: if_splits)
        obtain new1 where h1: "he_handled h1 = he_handled h @ new1" "new1 = [] \<or> new1 = [meta_id m] \<and> handled = HDone"
          using a Inr by (auto simp: one_applied_def w a')
        obtain ws1 where w1: "he_writes h1 = he_writes h @ ws1" "ws1 = [] \<or> ?c \<and> length ws1 = 1"
          using a by (auto simp: one_applied_def w a')
        have only: "\<not> (\<exists>i \<in> set (map meta_id ms). newest = Some i)" if ?c
          using that Cons.prems(2) by auto
        have seen: "pu_seen p1 = pu_seen p" "pu_key_id p1 = pu_key_id p" using a by (simp_all add: one_applied_def w a')
        show "all_applied (map meta_id (m # ms)) (\<exists>i \<in> set (map meta_id (m # ms)). newest = Some i) w z"
          unfolding all_applied_def z' w prod.case
        proof (intro exI conjI)
          show "he_handled h2 = he_handled h @ (new1 @ new)" "he_writes h2 = he_writes h @ (ws1 @ ws)"
            using n h1 w1 by simp_all
          show "distinct (new1 @ new)" using n(2,3) h1(2) Cons.prems(2) by auto
          show "set (new1 @ new) \<subseteq> set (map meta_id (m # ms))" using n(3) h1(2) by auto
          show "set (new1 @ new) \<subseteq> pu_seen p2" using n(4,5) h1(2) by auto
          show "pu_seen p \<subseteq> pu_seen p2" using n(5) seen by (auto split: if_splits)
          show "pu_seen p2 \<subseteq> pu_seen p \<union> set (map meta_id (m # ms))" using n(6) seen by (auto split: if_splits)
          show "pu_key_id p2 = pu_key_id p" using n(9) seen by (auto split: if_splits)
          show "length (ws1 @ ws) \<le> (if \<exists>i \<in> set (map meta_id (m # ms)). newest = Some i then 1 else 0)"
            using n(8) w1(2) only by (cases "?c") (auto split: if_splits)
        qed
      qed
      then show ?thesis by (cases "handled = HDone") (simp_all add: a' Inr)
    qed
  qed
qed

lemma read_unseen_answers:
  assumes "good v" "set is \<subseteq> ids v" "distinct is"
  shows "answers F v (read_unseen D is ms p) (unseen_read is ms p)"
  using assms(2,3)
proof (induction "is" arbitrary: ms p)
  case Nil
  then show ?case by (auto simp: unseen_read_def intro!: exI [of _ "{}"])
next
  case (Cons i "is")
  have IH: "answers F v (read_unseen D is ms' p') (unseen_read is ms' p')" for ms' p'
    by (rule Cons.IH) (use Cons.prems in auto)
  have i: "i \<in> ids v" "i \<notin> set is" using Cons.prems by auto
  show ?case
    unfolding read_unseen.simps
  proof (rule answers_bind [OF meta_of_id [OF assms(1) i(1)]])
    fix r :: "store_error + item_meta" assume r: "\<forall>m. r = Inr m \<longrightarrow> meta_id m = i"
    have new: "answers F v (read_unseen D is (ms @ [m]) p) (unseen_read (i # is) ms p)" if "r = Inr m" for m
      by (rule answers_mono [OF IH unseen_read_new]) (use r that i(2) in auto)
    have seen: "answers F v (read_unseen D is ms (p\<lparr>pu_seen := insert i (pu_seen p)\<rparr>)) (unseen_read (i # is) ms p)"
      by (rule answers_mono [OF IH unseen_read_seen])
    have skip: "answers F v (read_unseen D is ms p) (unseen_read (i # is) ms p)"
      by (rule answers_mono [OF IH unseen_read_skip])
    show "answers F v (case r of
         Inr m \<Rightarrow> read_unseen D is (ms @ [m]) p
       | Inl (SeNotFound _) \<Rightarrow> read_unseen D is ms (p\<lparr>pu_seen := insert i (pu_seen p)\<rparr>)
       | Inl (SeCorrupt _ _) \<Rightarrow> read_unseen D is ms (p\<lparr>pu_seen := insert i (pu_seen p)\<rparr>)
       | Inl (SeEncryption (EnIncomplete _)) \<Rightarrow> read_unseen D is ms p
       | Inl e \<Rightarrow> Done (Inl e, p)) (unseen_read (i # is) ms p)"
      using new seen skip unseen_read_stop by (simp split: sum.split store_error.split encryption_error.split)
  qed
qed

lemma poll_answers:
  assumes "good v"
  shows "answers F v (poll E P D w) (polled (ds_key_id D) (ids v) w)"
proof -
  obtain p h where w: "w = (p, h)" by (cases w)
  have stay: "polled (ds_key_id D) (ids v) w (Inl e, (p\<lparr>pu_seen := s\<rparr>, h))" if "pu_seen p \<inter> ids v \<subseteq> s" for e s
    using that by (auto simp: polled_def w intro!: exI [of _ "[]"])
  show ?thesis
    unfolding poll_def w Let_def prod.case
  proof (rule answers_bind [OF lists [OF assms]], goal_cases)
    case (1 r)
    show ?case
    proof (cases r)
      case (Inl e)
      then show ?thesis using stay [of "pu_seen p" e] by (simp add: w)
    next
      case r: (Inr l)
      then have l: "distinct l" "set l = ids v" using 1 by auto
      show ?thesis
      proof (cases "ds_key_id D = pu_key_id p")
        case False
        then show ?thesis using l by (auto simp: r polled_def w)
      next
        case True
        let ?p = "p\<lparr>pu_seen := pu_seen p \<inter> set l\<rparr>"
        let ?u = "filter (\<lambda>i. i \<notin> pu_seen ?p) l"
        have u: "set ?u \<subseteq> ids v" "distinct ?u" using l by auto
        have "answers F v (bind (read_unseen D ?u [] ?p) (\<lambda>(r, p'). case r of
             Inl e \<Rightarrow> Done (Inl e, (p', h))
           | Inr new \<Rightarrow> apply_all E P D (map_option meta_id (find (\<lambda>m. is_foreign p' m \<and> for_clipboard m) new)) (rev new) (p', h)))
          (polled (ds_key_id D) (ids v) w)"
        proof (rule answers_bind [OF read_unseen_answers [OF assms u]], goal_cases)
          case (1 a)
          obtain r2 p2 where a: "a = (r2, p2)" by (cases a)
          obtain s where s: "p2 = p\<lparr>pu_seen := pu_seen p \<inter> set l \<union> s\<rparr>" "s \<subseteq> set ?u"
            using 1 by (auto simp: unseen_read_def a)
          show ?case
          proof (cases r2)
            case (Inl e)
            have "pu_seen p \<inter> ids v \<subseteq> pu_seen p \<inter> set l \<union> s" using l by blast
            then show ?thesis using stay [of "pu_seen p \<inter> set l \<union> s" e] s(1) by (simp add: a Inl)
          next
            case (Inr ms)
            then have ms: "distinct (map meta_id ms)" "set (map meta_id ms) \<subseteq> set ?u"
              using 1 by (auto simp: unseen_read_def a)
            have d: "distinct (map meta_id (rev ms))" "meta_id m \<in> ids v" if "m \<in> set (rev ms)" for m
              using ms l(2) that by (auto simp: rev_map [symmetric])
            let ?n = "map_option meta_id (find (\<lambda>m. is_foreign p2 m \<and> for_clipboard m) ms)"
            have "answers F v (apply_all E P D ?n (rev ms) (p2, h))
               (all_applied (map meta_id (rev ms)) (\<exists>i \<in> set (map meta_id (rev ms)). ?n = Some i) (p2, h))"
              by (rule apply_all_applied [OF assms]) (use ms l(2) in \<open>auto simp: rev_map [symmetric]\<close>)
            then have "answers F v (apply_all E P D ?n (rev ms) (p2, h)) (polled (ds_key_id D) (ids v) w)"
            proof (rule answers_mono)
              fix z assume z: "all_applied (map meta_id (rev ms)) (\<exists>i \<in> set (map meta_id (rev ms)). ?n = Some i) (p2, h) z"
              obtain r3 p3 h3 where z': "z = (r3, (p3, h3))" by (metis surj_pair)
              show "polled (ds_key_id D) (ids v) w z"
              proof -
                obtain new ws where n: "he_handled h3 = he_handled h @ new" "distinct new" "set new \<subseteq> set ?u"
                  "set new \<subseteq> pu_seen p3" "pu_seen p2 \<subseteq> pu_seen p3" "pu_seen p3 \<subseteq> pu_seen p2 \<union> set ?u"
                  "he_writes h3 = he_writes h @ ws" "length ws \<le> (if \<exists>i \<in> set (map meta_id (rev ms)). ?n = Some i then 1 else 0)"
                  "pu_key_id p3 = pu_key_id p2"
                  using all_appliedD [OF z [unfolded z']] ms(2) by (metis (no_types, lifting) rev_map set_rev subset_trans sup.mono order_refl)
                have "length ws \<le> 1" using n(8) by (auto split: if_splits)
                then show ?thesis
                  unfolding polled_def z' w prod.case
                  by (intro exI [of _ new] exI [of _ ws] conjI) (use n s True l in auto)
              qed
            qed
            then show ?thesis by (simp add: a Inr)
          qed
        qed
        then show ?thesis using True by (simp add: r w)
      qed
    qed
  qed
qed

end

section \<open>An FsStore provides it\<close>

lemma strict_sorted_distinct: "sorted_wrt (>) (l :: item_id list) \<Longrightarrow> distinct l"
  by (induction l) auto

lemma fs_metas:
  assumes "id_wf i"
  shows "answers F v (get_meta E st i) (\<lambda>r. \<forall>m. r = Inr m \<longrightarrow> meta_id m = i)"
  unfolding get_meta_def
proof (rule answers_try [OF read_meta_answer [OF assms]])
  fix x assume "\<exists>y. read_answer F E st v i y \<and> Inr x = map_sum id fst y"
  then obtain y where y: "read_answer F E st v i y" "Inr x = map_sum id fst y" by blast
  then obtain salt where "y = Inr (x, salt)" by (cases y) auto
  then show "answers F v (Done (Inr x)) (\<lambda>r. \<forall>m. r = Inr m \<longrightarrow> meta_id m = i)"
    using y(1) by (auto simp: read_answer_def dest: readable_id)
qed simp

lemma fs_lists:
  assumes "items_in_dir st v"
  shows "answers F v (ds_list_ids (fs_dyn E st)) (\<lambda>r. \<forall>l. r = Inr l \<longrightarrow> distinct l \<and> set l = fs_ids st v)"
  unfolding fs_dyn_def list_ids_def dyn_store.simps
proof (rule answers_try [OF answers_True])
  show "reads_only (check_key E st)" by (auto intro: reads_simps)
  show "answers F v (item_ids st) (\<lambda>r. \<forall>l. r = Inr l \<longrightarrow> distinct l \<and> set l = fs_ids st v)"
    by (rule answers_mono [OF item_ids_answer [OF assms]])
      (auto simp: ids_answer_def listed_ids dest: strict_sorted_distinct)
qed simp

interpretation fs_pull: pull_source "fs_dyn E st" "items_in_dir st" "fs_ids st"
proof unfold_locales
  show "items_in_dir st v \<Longrightarrow> answers F v (ds_list_ids (fs_dyn E st)) (\<lambda>r. \<forall>l. r = Inr l \<longrightarrow> distinct l \<and> set l = fs_ids st v)"
    for F v by (rule fs_lists)
  show "answers F v (ds_get_meta (fs_dyn E st) i) (\<lambda>r. \<forall>m. r = Inr m \<longrightarrow> meta_id m = i)" if "i \<in> fs_ids st v" for F v i
    using fs_metas [of i F v E st] that by (simp add: fs_ids_def fs_dyn_def)
  show "answers F v (ds_get (fs_dyn E st) i) (\<lambda>_. True)" for F v i
    by (simp add: fs_dyn_def answers_True [OF reads_get_item])
qed


definition sample_puller :: puller where
  "sample_puller =
     \<lparr>pu_device = ustr ''laptop'', pu_download_dir = [], pu_seen = {sample_id}, pu_key_id = None,
      pu_clipboard = True, pu_warned_no_dir = False, pu_warned_no_clipboard = False\<rparr>"

definition sample_here :: here where
  "sample_here =
     \<lparr>he_os = sample_run, he_folder = False, he_rand = (\<lambda>_ _. 0), he_downloads = 0, he_writes = [], he_handled = []\<rparr>"


end
