(* ===== verification/Uploading.thy ===== *)
theory Uploading
  imports Download Store_Trait Clipboard_Read
begin

text \<open>
  Sending queued jobs: \<^verbatim>\<open>passalong-core/src/serve/upload.rs\<close>. An attempt is a program over the
  store; it also reads the file to send and moves or deletes it afterwards, which are calls of
  \<open>Os_Files\<close> on this device. Each attempt comes with what the stop signal does meanwhile, so a list of
  those is a run of the retry loop.
\<close>

section \<open>Local files\<close>

text \<open>
  \<open>File::open\<close>: the reader yields the file as it is then, or fails part-way when the call after
  the opening does.
\<close>

definition fs_open :: "path \<Rightarrow> os_run \<Rightarrow> (io_error + box_read) \<times> os_run" where
  "fs_open p w =
     (case os_call (\<lambda>fs. case fs p of None \<Rightarrow> (Inl no_such_file, fs) | Some b \<Rightarrow> (Inr b, fs)) (\<lambda>_ fs. fs) w of
        (Inl e, w) \<Rightarrow> (Inl e, w)
      | (Inr b, w) \<Rightarrow>
          (case or_plan w of
             [] \<Rightarrow> (Inr (reader_of b), w)
           | ev # plan \<Rightarrow>
               (Inr (case ev_fault ev of
                       None \<Rightarrow> reader_of b
                     | Some e \<Rightarrow> \<lparr>br_pieces = [take (ev_written ev) b], br_end = Some e\<rparr>),
                w\<lparr>or_plan := plan\<rparr>)))"

text \<open>\<open>Path::file_name\<close> on a Unix system: the last component, unless it is \<open>..\<close>.\<close>

definition os_file_name :: "path \<Rightarrow> ustring option" where
  "os_file_name p =
     (case rev (filter (\<lambda>c. c \<noteq> [] \<and> c \<noteq> [46]) (split_by (\<lambda>c. c = 47) p)) of
        [] \<Rightarrow> None
      | c # _ \<Rightarrow> if c = [46, 46] then None else Some c)"

section \<open>Jobs\<close>

datatype job = JobText ustring | JobFile path | JobImage rgba_image

datatype job_outcome = JSent item_id | JAlreadyPresent | JSkipped | JAbandoned | JDenied string

datatype failure = FaLocal ustring | FaStore store_error

datatype after_send = AsMove | AsDelete

record uploader =
  up_store :: dyn_store
  up_device :: ustring
  up_after_send :: after_send
  up_sent_dir :: path

definition outcome_of :: "put_outcome \<Rightarrow> job_outcome" where
  "outcome_of out = (if po_created out then JSent (meta_id (po_meta out)) else JAlreadyPresent)"

text \<open>Text and images are looked up before they are sent.\<close>

definition send_new ::
  "'z ext_scheme \<Rightarrow> uploader \<Rightarrow> bytes \<Rightarrow> new_item prog \<Rightarrow> (failure + job_outcome) prog" where
  "send_new E u content item =
     (let key = ds_content_key (up_store u) (hasher_finalize E (hasher_update content hasher_new)) in
      try_as FaStore (ds_find (up_store u) key) (\<lambda>existing.
      case existing of
        Some _ \<Rightarrow> Done (Inr JAlreadyPresent)
      | None \<Rightarrow>
          bind item (\<lambda>item.
          try_as FaStore (ds_put (up_store u) item (reader_of content)) (\<lambda>out.
          Done (Inr (outcome_of out))))))"

definition send_text :: "'z ext_scheme \<Rightarrow> uploader \<Rightarrow> ustring \<Rightarrow> (failure + job_outcome) prog" where
  "send_text E u t = send_new E u (utf8_encode t) (Done (new_text (up_device u)))"

definition image_message :: "image_error \<Rightarrow> string" where
  "image_message e =
     (case e of
        ImInvalid s \<Rightarrow> ''invalid image: '' @ s
      | ImTooLarge w h \<Rightarrow>
          ''the image is '' @ u64_str (ucast w) @ '' x '' @ u64_str (ucast h)
            @ '' pixels, larger than the 64 megapixels passalong handles'')"

definition send_image :: "'z ext_scheme \<Rightarrow> png \<Rightarrow> uploader \<Rightarrow> rgba_image \<Rightarrow> (failure + job_outcome) prog" where
  "send_image E P u im =
     (case encode_png P im of
        Inl e \<Rightarrow> Done (Inl (FaLocal (ustr (''clipboard image: '' @ image_message e))))
      | Inr b \<Rightarrow> send_new E u b (Now (\<lambda>now. Done (new_clipboard_image E (up_device u) now))))"

definition finish_file :: "uploader \<Rightarrow> path \<Rightarrow> os_run \<Rightarrow> os_run" where
  "finish_file u path w =
     (case up_after_send u of
        AsMove \<Rightarrow>
          (let name = (case os_file_name path of Some n \<Rightarrow> n | None \<Rightarrow> []);
               target = path_join (up_sent_dir u)
                 (unique_target (\<lambda>n. or_files w (path_join (up_sent_dir u) n) \<noteq> None) name) in
           snd (fs_rename path target w))
      | AsDelete \<Rightarrow> snd (fs_remove_file path w))"

definition local_failure :: "path \<Rightarrow> ustring \<Rightarrow> failure" where
  "local_failure path message = FaLocal (path @ ustr '': '' @ message)"

definition send_file ::
  "'z ext_scheme \<Rightarrow> uploader \<Rightarrow> path \<Rightarrow> os_run \<Rightarrow> ((failure + job_outcome) \<times> os_run) prog" where
  "send_file E u path w =
     (case os_file_name path of
        None \<Rightarrow> Done (Inl (local_failure path (ustr ''no file name'')), w)
      | Some name \<Rightarrow>
          (case fs_open path w of
             (Inl e, w) \<Rightarrow> Done (Inl (local_failure path (ustr (io_message e))), w)
           | (Inr file, w) \<Rightarrow>
               bind (ds_put (up_store u) (new_file E name (up_device u)) file) (\<lambda>r.
               case r of
                 Inr out \<Rightarrow> Done (Inr (outcome_of out), finish_file u path w)
               | Inl (SeContent message) \<Rightarrow> Done (Inl (local_failure path (ustr message)), w)
               | Inl e \<Rightarrow> Done (Inl (FaStore e), w))))"

definition attempt ::
  "'z ext_scheme \<Rightarrow> png \<Rightarrow> uploader \<Rightarrow> job \<Rightarrow> os_run \<Rightarrow> ((failure + job_outcome) \<times> os_run) prog" where
  "attempt E P u j w =
     (case j of
        JobText t \<Rightarrow> bind (send_text E u t) (\<lambda>r. Done (r, w))
      | JobFile path \<Rightarrow> send_file E u path w
      | JobImage im \<Rightarrow> bind (send_image E P u im) (\<lambda>r. Done (r, w)))"

section \<open>Retrying\<close>

text \<open>A program dropped before its call number \<open>n\<close>: what \<open>select!\<close> does to it when a stop comes first.\<close>

primrec cut :: "'a prog \<Rightarrow> nat \<Rightarrow> 'a option prog" where
  "cut (Done a) = (\<lambda>n. Done (Some a))"
| "cut (CreateDirAll p k) = (\<lambda>n. case n of 0 \<Rightarrow> Done None | Suc n \<Rightarrow> CreateDirAll p (\<lambda>r. cut (k r) n))"
| "cut (ReadDir p k) = (\<lambda>n. case n of 0 \<Rightarrow> Done None | Suc n \<Rightarrow> ReadDir p (\<lambda>r. cut (k r) n))"
| "cut (OpenRead p k) = (\<lambda>n. case n of 0 \<Rightarrow> Done None | Suc n \<Rightarrow> OpenRead p (\<lambda>r. cut (k r) n))"
| "cut (OpenWrite p k) = (\<lambda>n. case n of 0 \<Rightarrow> Done None | Suc n \<Rightarrow> OpenWrite p (\<lambda>r. cut (k r) n))"
| "cut (WriteAll p b k) = (\<lambda>n. case n of 0 \<Rightarrow> Done None | Suc n \<Rightarrow> WriteAll p b (\<lambda>r. cut (k r) n))"
| "cut (Shutdown p k) = (\<lambda>n. case n of 0 \<Rightarrow> Done None | Suc n \<Rightarrow> Shutdown p (\<lambda>r. cut (k r) n))"
| "cut (Rename p q k) = (\<lambda>n. case n of 0 \<Rightarrow> Done None | Suc n \<Rightarrow> Rename p q (\<lambda>r. cut (k r) n))"
| "cut (RemoveDirAll p k) = (\<lambda>n. case n of 0 \<Rightarrow> Done None | Suc n \<Rightarrow> RemoveDirAll p (\<lambda>r. cut (k r) n))"
| "cut (Stat p k) = (\<lambda>n. case n of 0 \<Rightarrow> Done None | Suc n \<Rightarrow> Stat p (\<lambda>r. cut (k r) n))"
| "cut (CreateDir p k) = (\<lambda>n. case n of 0 \<Rightarrow> Done None | Suc n \<Rightarrow> CreateDir p (\<lambda>r. cut (k r) n))"
| "cut (RemoveFile p k) = (\<lambda>n. case n of 0 \<Rightarrow> Done None | Suc n \<Rightarrow> RemoveFile p (\<lambda>r. cut (k r) n))"
| "cut (Now k) = (\<lambda>n. case n of 0 \<Rightarrow> Done None | Suc n \<Rightarrow> Now (\<lambda>r. cut (k r) n))"
| "cut (NextU64 k) = (\<lambda>n. case n of 0 \<Rightarrow> Done None | Suc n \<Rightarrow> NextU64 (\<lambda>r. cut (k r) n))"
| "cut (RandomBytes b k) = (\<lambda>n. case n of 0 \<Rightarrow> Done None | Suc n \<Rightarrow> RandomBytes b (\<lambda>r. cut (k r) n))"

text \<open>
  What the stop signal does during one attempt and the wait after it: nothing, ends the attempt
  before its call \<open>n\<close>, ends it while the file is moved or deleted (which the operating system
  completes), or ends the wait.
\<close>

datatype stop_signal = NoStop | StopsDuring nat | StopsFinishing | StopsWaiting

definition attempt_until ::
  "'z ext_scheme \<Rightarrow> png \<Rightarrow> uploader \<Rightarrow> job \<Rightarrow> os_run \<Rightarrow> stop_signal \<Rightarrow> ((failure + job_outcome) option \<times> os_run) prog" where
  "attempt_until E P u j w s =
     (case s of
        StopsDuring n \<Rightarrow> bind (cut (attempt E P u j w) n)
          (\<lambda>a. Done (case a of None \<Rightarrow> (None, w) | Some (r, w) \<Rightarrow> (Some r, w)))
      | StopsFinishing \<Rightarrow> bind (attempt E P u j w) (\<lambda>(r, w). Done (None, w))
      | _ \<Rightarrow> bind (attempt E P u j w) (\<lambda>(r, w). Done (Some r, w)))"

text \<open>
  The retry loop, over the signals of its attempts: \<open>None\<close> when the loop is still at it after those.
  The second component is the uploader, whose store changes, and the delays waited so far.
\<close>

fun handle_with_retries ::
  "'z ext_scheme \<Rightarrow> png \<Rightarrow> (store_error + dyn_store) prog \<Rightarrow> job \<Rightarrow> stop_signal list \<Rightarrow> backoff \<Rightarrow> nat list
   \<Rightarrow> uploader \<Rightarrow> os_run \<Rightarrow> (job_outcome option \<times> nat list \<times> uploader \<times> os_run) prog" where
  "handle_with_retries E P open_store j [] b waits u w = Done (None, waits, u, w)"
| "handle_with_retries E P open_store j (s # ss) b waits u w =
     bind (attempt_until E P u j w s) (\<lambda>(result, w).
     case result of
       None \<Rightarrow> Done (Some JAbandoned, waits, u, w)
     | Some (Inr out) \<Rightarrow> Done (Some out, waits, u, w)
     | Some (Inl (FaLocal message)) \<Rightarrow> Done (Some JSkipped, waits, u, w)
     | Some (Inl (FaStore (SeDenied message))) \<Rightarrow> Done (Some (JDenied message), waits, u, w)
     | Some (Inl (FaStore e)) \<Rightarrow>
         (let (delay, b) = next_delay b; waits = waits @ [delay] in
          if s = StopsWaiting then Done (Some JAbandoned, waits, u, w)
          else
            bind open_store (\<lambda>r.
            case r of
              Inr store \<Rightarrow> handle_with_retries E P open_store j ss b waits (u\<lparr>up_store := store\<rparr>) w
            | Inl (SeDenied message) \<Rightarrow> Done (Some (JDenied message), waits, u, w)
            | Inl e \<Rightarrow> handle_with_retries E P open_store j ss b waits u w)))"

definition handle_job ::
  "'z ext_scheme \<Rightarrow> png \<Rightarrow> (store_error + dyn_store) prog \<Rightarrow> job \<Rightarrow> stop_signal list
   \<Rightarrow> uploader \<Rightarrow> os_run \<Rightarrow> (job_outcome option \<times> nat list \<times> uploader \<times> os_run) prog" where
  "handle_job E P open_store j ss u w = handle_with_retries E P open_store j ss backoff_default [] u w"

end
