(* ===== verification/Serving.thy ===== *)
theory Serving
  imports Uploading Pulling Sample_Store
begin

text \<open>
  The tasks of \<open>serve\<close>: \<^verbatim>\<open>passalong-core/src/serve/mod.rs\<close> and the loop of
  \<^verbatim>\<open>serve/pull.rs\<close>. Each task is a step function on its own state, driven by what its
  \<open>select!\<close> takes next; channels are lists of what was sent. Timers, logging and the memory of the
  last error, which only keeps a message from being logged twice, are left out.
\<close>

section \<open>Options and errors\<close>

definition SENT_DIR :: path where "SENT_DIR = ustr ''sent''"
definition DEFAULT_RESCAN_INTERVAL :: nat where "DEFAULT_RESCAN_INTERVAL = secs 5"
definition QUEUE_DEPTH :: nat where "QUEUE_DEPTH = 64"

record serve_options =
  so_drop_folder :: path
  so_clipboard_poll_interval :: nat
  so_file_stable_wait :: nat
  so_rescan_interval :: nat
  so_after_send :: after_send
  so_device :: ustring
  so_clipboard_images :: bool
  so_pull :: bool
  so_pull_interval :: nat
  so_download_dir :: path

datatype serve_error =
    SvStore store_error
  | SvDropFolder path string
  | SvDenied string
  | SvWatch path string

section \<open>The clipboard task\<close>

text \<open>What the task takes next; a blocking call may also panic, which ends the task.\<close>

datatype clip_event = ClStop | ClWrite clipboard_write | ClWritePanics clipboard_write | ClTick | ClTickPanics

record 'c clip_task =
  ct_clipboard :: 'c
  ct_watcher :: clipboard_watcher
  ct_jobs :: "job list"
  ct_running :: bool

definition clip_start :: "'c \<Rightarrow> 'c clip_task" where
  "clip_start c = \<lparr>ct_clipboard = c, ct_watcher = watcher_new, ct_jobs = [], ct_running = True\<rparr>"

definition write_clipboard :: "'c clipboard \<Rightarrow> clipboard_write \<Rightarrow> 'c \<Rightarrow> (clipboard_error + unit) \<times> 'c" where
  "write_clipboard B write c =
     (case write of
        CwText t \<Rightarrow> cb_write_text B t c
      | CwImage im \<Rightarrow> cb_write_image B im c)"

text \<open>\<open>jobs.send\<close> fails when the receiver is gone, which ends the task.\<close>

definition queue_job :: "bool \<Rightarrow> job \<Rightarrow> 'c clip_task \<Rightarrow> 'c clip_task" where
  "queue_job hears j t = (if hears then t\<lparr>ct_jobs := ct_jobs t @ [j]\<rparr> else t\<lparr>ct_running := False\<rparr>)"

definition clip_written :: "'z ext_scheme \<Rightarrow> 'c clipboard \<Rightarrow> clipboard_write \<Rightarrow> 'c clip_task \<Rightarrow> 'c clip_task" where
  "clip_written E B write t =
     (let (result, c) = write_clipboard B write (ct_clipboard t); t = t\<lparr>ct_clipboard := c\<rparr> in
      case (result, write) of
        (Inr _, CwText text) \<Rightarrow> t\<lparr>ct_watcher := mark_text E text (ct_watcher t)\<rparr>
      | (Inr _, CwImage im) \<Rightarrow> t\<lparr>ct_watcher := mark_image E im (ct_watcher t)\<rparr>
      | (Inl _, _) \<Rightarrow> t)"

definition clip_read :: "'z ext_scheme \<Rightarrow> 'c clipboard \<Rightarrow> bool \<Rightarrow> bool \<Rightarrow> 'c clip_task \<Rightarrow> 'c clip_task" where
  "clip_read E B images hears t =
     (let (result, c) = read_payload B images (ct_clipboard t); t = t\<lparr>ct_clipboard := c\<rparr> in
      case result of
        Inl _ \<Rightarrow> t
      | Inr (text, im) \<Rightarrow>
          (case observe_text E text (ct_watcher t) of
             (Some text, cw) \<Rightarrow> queue_job hears (JobText text) (t\<lparr>ct_watcher := cw\<rparr>)
           | (None, cw) \<Rightarrow>
               (case observe_image E im cw of
                  (Some im, cw) \<Rightarrow> queue_job hears (JobImage im) (t\<lparr>ct_watcher := cw\<rparr>)
                | (None, cw) \<Rightarrow> t\<lparr>ct_watcher := cw\<rparr>)))"

definition clip_step ::
  "'z ext_scheme \<Rightarrow> 'c clipboard \<Rightarrow> bool \<Rightarrow> bool \<Rightarrow> clip_event \<Rightarrow> 'c clip_task \<Rightarrow> 'c clip_task" where
  "clip_step E B images hears ev t =
     (if \<not> ct_running t then t
      else
        case ev of
          ClStop \<Rightarrow> t\<lparr>ct_running := False\<rparr>
        | ClWrite write \<Rightarrow> clip_written E B write t
        | ClWritePanics _ \<Rightarrow> t\<lparr>ct_running := False\<rparr>
        | ClTick \<Rightarrow> clip_read E B images hears t
        | ClTickPanics \<Rightarrow> t\<lparr>ct_running := False\<rparr>)"

section \<open>The drop folder task\<close>

text \<open>What ends the wait after a scan: \<open>DeChanged ended\<close> is the watcher's message, or its end.\<close>

datatype drop_event = DeStop | DeChanged bool | DeSkipped path | DeTimeout

record drop_task =
  dt_tracker :: drop_tracker
  dt_jobs :: "job list"
  dt_watching :: bool
  dt_running :: bool

definition drop_start :: "nat \<Rightarrow> drop_task" where
  "drop_start stable_wait =
     \<lparr>dt_tracker = tracker_new stable_wait, dt_jobs = [], dt_watching = True, dt_running = True\<rparr>"

definition settle_tick :: "nat \<Rightarrow> nat" where
  "settle_tick stable_wait = max 50000000 (min (stable_wait div 2) (secs 1))"

definition drop_wait :: "nat \<Rightarrow> nat \<Rightarrow> drop_task \<Rightarrow> nat" where
  "drop_wait stable_wait rescan t = (if has_pending (dt_tracker t) then settle_tick stable_wait else rescan)"

text \<open>\<open>room\<close> is how many jobs are still taken before the receiver is gone.\<close>

definition drop_scanned :: "nat option \<Rightarrow> io_error + file_state list \<Rightarrow> nat \<Rightarrow> drop_task \<Rightarrow> drop_task" where
  "drop_scanned room scanned now t =
     (case scanned of
        Inl _ \<Rightarrow> t
      | Inr files \<Rightarrow>
          (let (ready, tr) = observe files now (dt_tracker t); jobs = map JobFile ready in
           case room of
             Some n \<Rightarrow>
               if n < length jobs
               then t\<lparr>dt_tracker := tr, dt_jobs := dt_jobs t @ take n jobs, dt_running := False\<rparr>
               else t\<lparr>dt_tracker := tr, dt_jobs := dt_jobs t @ jobs\<rparr>
           | None \<Rightarrow> t\<lparr>dt_tracker := tr, dt_jobs := dt_jobs t @ jobs\<rparr>))"

definition drop_woken :: "drop_event \<Rightarrow> drop_task \<Rightarrow> drop_task" where
  "drop_woken ev t =
     (case ev of
        DeStop \<Rightarrow> t\<lparr>dt_running := False\<rparr>
      | DeChanged ended \<Rightarrow> if dt_watching t \<and> ended then t\<lparr>dt_watching := False\<rparr> else t
      | DeSkipped path \<Rightarrow> t\<lparr>dt_tracker := mark_skipped path (dt_tracker t)\<rparr>
      | DeTimeout \<Rightarrow> t)"

text \<open>One turn of the loop.\<close>

definition drop_turn ::
  "nat option \<Rightarrow> io_error + file_state list \<Rightarrow> nat \<Rightarrow> drop_event \<Rightarrow> drop_task \<Rightarrow> drop_task" where
  "drop_turn room scanned now ev t =
     (if \<not> dt_running t then t
      else (let t = drop_scanned room scanned now t in if dt_running t then drop_woken ev t else t))"

section \<open>The pull task\<close>

text \<open>The ticks of the loop up to a stop: \<open>None\<close> while it runs, else what it reports as denied.\<close>

fun pull_loop ::
  "'z ext_scheme \<Rightarrow> png \<Rightarrow> (store_error + dyn_store) prog \<Rightarrow> nat \<Rightarrow> bool \<Rightarrow> dyn_store \<Rightarrow> pulling
   \<Rightarrow> (string option option \<times> pulling) prog" where
  "pull_loop E P open_store 0 stop D w = Done (if stop then Some None else None, w)"
| "pull_loop E P open_store (Suc ticks) stop D w =
     bind (poll E P D w) (\<lambda>(r, w).
     case r of
       Inr _ \<Rightarrow> pull_loop E P open_store ticks stop D w
     | Inl (SeDenied message) \<Rightarrow> Done (Some (Some message), w)
     | Inl _ \<Rightarrow>
         bind open_store (\<lambda>r.
         case r of
           Inr fresh \<Rightarrow> pull_loop E P open_store ticks stop fresh w
         | Inl (SeDenied message) \<Rightarrow> Done (Some (Some message), w)
         | Inl _ \<Rightarrow> pull_loop E P open_store ticks stop D w))"

section \<open>Serving\<close>

text \<open>
  Start-up: the store is opened, the drop folder made (\<open>made\<close>) and watched (\<open>watched\<close>), and with
  pull mode on a second store opened for the puller. The answer is what the loop below starts with.
\<close>

definition serve_start ::
  "serve_options \<Rightarrow> (store_error + dyn_store) prog \<Rightarrow> io_error + unit \<Rightarrow> string + unit \<Rightarrow> bool
   \<Rightarrow> (serve_error + uploader \<times> (puller \<times> dyn_store) option) prog" where
  "serve_start opts open_store made watched has_clipboard =
     (let folder = so_drop_folder opts; sent_dir = path_join folder SENT_DIR in
      try_as SvStore open_store (\<lambda>store.
      try_res (\<lambda>e. SvDropFolder folder (io_message e)) made (\<lambda>_.
      try_res (SvWatch folder) watched (\<lambda>_.
      let u = \<lparr>up_store = store, up_device = so_device opts, up_after_send = so_after_send opts,
               up_sent_dir = sent_dir\<rparr> in
      if so_pull opts
      then try_as SvStore open_store (\<lambda>pull_store.
           try_as SvStore (puller_start pull_store (so_device opts) (so_download_dir opts) has_clipboard) (\<lambda>p.
           Done (Inr (u, Some (p, pull_store)))))
      else Done (Inr (u, None))))))"

text \<open>
  What the main loop takes next: a stop, a denial from the pull task, a job with what the stop signal
  does while it is handled, or the end of the queue.
\<close>

datatype serve_event = SeStop | SePullDenied string | SeJob job "stop_signal list" | SeQueueEnds

record serve_state =
  ss_uploader :: uploader
  ss_os :: os_run
  ss_skipped :: "path list"
  ss_outcomes :: "(job \<times> job_outcome) list"

fun serve_loop ::
  "'z ext_scheme \<Rightarrow> png \<Rightarrow> (store_error + dyn_store) prog \<Rightarrow> serve_event list \<Rightarrow> serve_state
   \<Rightarrow> ((serve_error + unit) option \<times> serve_state) prog" where
  "serve_loop E P open_store [] s = Done (None, s)"
| "serve_loop E P open_store (ev # evs) s =
     (case ev of
        SeStop \<Rightarrow> Done (Some (Inr ()), s)
      | SePullDenied message \<Rightarrow> Done (Some (Inl (SvDenied message)), s)
      | SeQueueEnds \<Rightarrow> Done (Some (Inr ()), s)
      | SeJob j signals \<Rightarrow>
          bind (handle_job E P open_store j signals (ss_uploader s) (ss_os s)) (\<lambda>(out, waits, u, w).
          let s = s\<lparr>ss_uploader := u, ss_os := w\<rparr> in
          case out of
            None \<Rightarrow> Done (None, s)
          | Some out \<Rightarrow>
              (let s = s\<lparr>ss_outcomes := ss_outcomes s @ [(j, out)]\<rparr> in
               case out of
                 JSkipped \<Rightarrow>
                   serve_loop E P open_store evs
                     (case j of JobFile path \<Rightarrow> s\<lparr>ss_skipped := ss_skipped s @ [path]\<rparr> | _ \<Rightarrow> s)
               | JDenied message \<Rightarrow> Done (Some (Inl (SvDenied message)), s)
               | _ \<Rightarrow> serve_loop E P open_store evs s)))"

section \<open>What is pulled is not sent back\<close>

text \<open>The clipboard, as it is now, gives back what was put on it whenever it is read.\<close>

definition gives_back :: "'c clipboard \<Rightarrow> bool \<Rightarrow> clipboard_write \<Rightarrow> 'c \<Rightarrow> bool" where
  "gives_back B images write c \<longleftrightarrow>
     (case write of
        CwText t \<Rightarrow> read_payload B images c = (Inr (Some t, None), c)
      | CwImage im \<Rightarrow>
          read_payload B images c = (Inr (None, if images then Some im else None), c))"

definition marked :: "'z ext_scheme \<Rightarrow> clipboard_write \<Rightarrow> clipboard_watcher \<Rightarrow> bool" where
  "marked E write cw \<longleftrightarrow>
     (case write of
        CwText t \<Rightarrow> cw_last cw = Some (text_digest E t)
      | CwImage im \<Rightarrow> cw_last_image cw = Some (image_digest E im))"

lemma clip_read_marked:
  assumes "gives_back B images write (ct_clipboard t)" "marked E write (ct_watcher t)"
  shows "clip_read E B images hears t = t"
  using assms
  by (cases "write") (auto simp: clip_read_def gives_back_def marked_def Let_def observe_text_def observe_image_def)

lemma ticks_marked:
  assumes "gives_back B images write (ct_clipboard t)" "marked E write (ct_watcher t)"
  shows "(clip_step E B images hears ClTick ^^ n) t = t"
  by (induction n) (simp_all add: clip_step_def clip_read_marked [OF assms])

text \<open>C26: What pull mode puts on the clipboard is not sent back: however often the clipboard is read while it
  holds what was put there, no job is queued.
\<close>

theorem pulled_not_sent_back:
  assumes "write_clipboard B write (ct_clipboard t) = (Inr (), c)" "gives_back B images write c"
  shows "ct_jobs ((clip_step E B images hears ClTick ^^ n) (clip_step E B images hears (ClWrite write) t)) = ct_jobs t"
proof (cases "ct_running t")
  case True
  let ?t = "clip_step E B images hears (ClWrite write) t"
  have t: "ct_clipboard ?t = c" "marked E write (ct_watcher ?t)" "ct_jobs ?t = ct_jobs t"
    using True assms(1)
    by (cases "write"; simp add: clip_step_def clip_written_def marked_def mark_text_def mark_image_def)+
  have "gives_back B images write (ct_clipboard ?t)" using assms(2) t(1) by simp
  from ticks_marked [OF this t(2)] t(3) show ?thesis by metis
next
  case False
  then have "(clip_step E B images hears ClTick ^^ n) t = t" by (induction n) (simp_all add: clip_step_def)
  with False show ?thesis by (simp add: clip_step_def)
qed

text \<open>A clipboard that holds one text, and no images.\<close>

definition sample_clipboard :: "ustring option clipboard" where
  "sample_clipboard =
     \<lparr>cb_read_text = (\<lambda>c. (Inr c, c)), cb_write_text = (\<lambda>t c. (Inr (), Some t)),
      cb_read_image = no_read_image, cb_write_image = no_write_image\<rparr>"

theorem pulled_not_sent_back_witness:
  "ct_jobs ((clip_step sample_ext sample_clipboard False True ClTick ^^ 3)
     (clip_step sample_ext sample_clipboard False True (ClWrite (CwText (ustr ''hi''))) (clip_start None))) = []"
  using pulled_not_sent_back [of sample_clipboard "CwText (ustr ''hi'')" "clip_start None" "Some (ustr ''hi'')" False,
      where E = sample_ext and hears = True and n = 3]
  by (simp add: write_clipboard_def sample_clipboard_def gives_back_def read_payload_def clip_start_def ustr_def)

section \<open>The drop folder task hands out settled files\<close>

text \<open>The tracker of the task is always one that scans made.\<close>

lemma drop_turn_tracked:
  assumes "tracked wait h (dt_tracker t)" "\<forall>files. scanned = Inr files \<longrightarrow> distinct (map fi_path files)"
  shows "\<exists>h'. tracked wait h' (dt_tracker (drop_turn room scanned now ev t))
    \<and> (h' = h \<or> (\<exists>files. scanned = Inr files \<and> h' = (now, files) # h))"
proof (cases "dt_running t")
  case True
  let ?s = "drop_scanned room scanned now t"
  have s: "\<exists>h'. tracked wait h' (dt_tracker ?s) \<and> (h' = h \<or> (\<exists>files. scanned = Inr files \<and> h' = (now, files) # h))"
  proof (cases scanned)
    case (Inl e)
    then show ?thesis using assms(1) by (auto simp: drop_scanned_def)
  next
    case (Inr files)
    then have "dt_tracker ?s = snd (observe files now (dt_tracker t))"
      by (auto simp: drop_scanned_def Let_def split: prod.splits option.splits)
    moreover have "tracked wait ((now, files) # h) (snd (observe files now (dt_tracker t)))"
      by (rule tracked.scan [OF assms(1)]) (use assms(2) Inr in simp)
    ultimately show ?thesis using Inr by auto
  qed
  have "dt_tracker (drop_woken ev ?s) = dt_tracker ?s
      \<or> (\<exists>p. dt_tracker (drop_woken ev ?s) = mark_skipped p (dt_tracker ?s))"
    by (auto simp: drop_woken_def split: drop_event.splits)
  then have "dt_tracker (drop_turn room scanned now ev t) = dt_tracker ?s
      \<or> (\<exists>p. dt_tracker (drop_turn room scanned now ev t) = mark_skipped p (dt_tracker ?s))"
    using True by (auto simp: drop_turn_def Let_def)
  with s show ?thesis by (metis tracked.skip)
qed (use assms(1) in \<open>auto simp: drop_turn_def\<close>)

end
