(* ===== verification/Picking.thy ===== *)
theory Picking
  imports Store_Trait Watching
begin

text \<open>
  The full-screen list of \<open>passalong choose\<close>: \<^verbatim>\<open>passalong-cli/src/commands/choose/state.rs\<close>
  (what each key does), \<^verbatim>\<open>choose/mod.rs\<close> (the loop around it) and the labels of
  \<^verbatim>\<open>output.rs\<close>. \<open>str::to_lowercase\<close> is an argument \<open>lower\<close>, since it rests on the tables of Unicode;
  so is the text of an error, \<open>show\<close>.
\<close>

section \<open>Labels\<close>

definition NAME_WIDTH :: nat where "NAME_WIDTH = 40"

definition kind_name :: "item_kind \<Rightarrow> ustring" where
  "kind_name k = (case k of KText \<Rightarrow> ustr ''text'' | KFile \<Rightarrow> ustr ''file'')"

definition kind_label :: "item_meta \<Rightarrow> ustring" where
  "kind_label m = (if is_clipboard_image m then ustr ''image'' else kind_name (meta_kind m))"

definition truncate_to :: "ustring \<Rightarrow> nat \<Rightarrow> ustring" where
  "truncate_to t width = (if length t \<le> width then t else take (width - 1) t @ [0x2026])"

definition display_name :: "item_meta \<Rightarrow> ustring" where
  "display_name m =
     (case (meta_name m, meta_preview m) of
        (Some t, _) \<Rightarrow> truncate_to t NAME_WIDTH
      | (None, Some t) \<Rightarrow> truncate_to t NAME_WIDTH
      | (None, None) \<Rightarrow> ustr ''-'')"

section \<open>The state\<close>

definition PAGE :: nat where "PAGE = 10"

datatype action = ActLoad | ActCat

datatype pick_outcome =
    PoContinue
  | PoQuit
  | PoAct action item_id
  | PoDelete item_id
  | PoDetails item_id
  | PoReload
  | PoReloadServer

datatype mode =
    MoBrowse
  | MoFilter
  | MoConfirmDelete item_id
  | MoHelp
  | MoDetails ustring "ustring list" nat

record picker =
  pk_items :: "item_meta list"
  pk_filter :: ustring
  pk_mode :: mode
  pk_selected :: nat
  pk_status :: "ustring option"

datatype key_code =
    KcChar nat
  | KcUp
  | KcDown
  | KcPageUp
  | KcPageDown
  | KcHome
  | KcEnd
  | KcEnter
  | KcEsc
  | KcBackspace
  | KcOther

record key_event =
  ke_code :: key_code
  ke_press :: bool
  ke_control :: bool

definition key_char :: "char \<Rightarrow> key_code" where
  "key_char c = KcChar (of_char c)"

definition picker_new :: "item_meta list \<Rightarrow> picker" where
  "picker_new items =
     \<lparr>pk_items = items, pk_filter = [], pk_mode = MoBrowse, pk_selected = 0, pk_status = None\<rparr>"

definition has_part :: "ustring \<Rightarrow> ustring \<Rightarrow> bool" where
  "has_part t needle \<longleftrightarrow> list_ex (\<lambda>n. starts_with (drop n t) needle) [0 ..< Suc (length t)]"

definition meta_matches :: "(ustring \<Rightarrow> ustring) \<Rightarrow> item_meta \<Rightarrow> ustring \<Rightarrow> bool" where
  "meta_matches lower m needle \<longleftrightarrow>
     (let name = (case meta_name m of Some n \<Rightarrow> n | None \<Rightarrow> (case meta_preview m of Some t \<Rightarrow> t | None \<Rightarrow> [])) in
      list_ex (\<lambda>field. has_part (lower field) needle)
        [ustr (id_repr (meta_id m)), name, meta_device m, kind_label m])"

definition visible :: "(ustring \<Rightarrow> ustring) \<Rightarrow> picker \<Rightarrow> item_meta list" where
  "visible lower p =
     (let needle = lower (pk_filter p) in filter (\<lambda>m. needle = [] \<or> meta_matches lower m needle) (pk_items p))"

definition selected_item :: "(ustring \<Rightarrow> ustring) \<Rightarrow> picker \<Rightarrow> item_meta option" where
  "selected_item lower p =
     (if pk_selected p < length (visible lower p) then Some (visible lower p ! pk_selected p) else None)"

definition set_status :: "ustring \<Rightarrow> picker \<Rightarrow> picker" where
  "set_status t p = p\<lparr>pk_status := Some t\<rparr>"

definition clear_status :: "picker \<Rightarrow> picker" where
  "clear_status p = p\<lparr>pk_status := None\<rparr>"

definition show_details :: "ustring \<Rightarrow> ustring list \<Rightarrow> picker \<Rightarrow> picker" where
  "show_details title lines p = p\<lparr>pk_mode := MoDetails title lines 0\<rparr>"

definition clamp :: "(ustring \<Rightarrow> ustring) \<Rightarrow> picker \<Rightarrow> picker" where
  "clamp lower p = p\<lparr>pk_selected := min (pk_selected p) (length (visible lower p) - 1)\<rparr>"

definition replace_items :: "(ustring \<Rightarrow> ustring) \<Rightarrow> item_meta list \<Rightarrow> picker \<Rightarrow> picker" where
  "replace_items lower items p = clamp lower (p\<lparr>pk_items := items\<rparr>)"

section \<open>Keys\<close>

definition filter_key :: "key_code \<Rightarrow> picker \<Rightarrow> picker" where
  "filter_key code p =
     (case code of
        KcChar c \<Rightarrow> p\<lparr>pk_filter := pk_filter p @ [c], pk_selected := 0\<rparr>
      | KcBackspace \<Rightarrow> p\<lparr>pk_filter := butlast (pk_filter p), pk_selected := 0\<rparr>
      | KcEnter \<Rightarrow> p\<lparr>pk_mode := MoBrowse\<rparr>
      | KcEsc \<Rightarrow> p\<lparr>pk_filter := [], pk_selected := 0, pk_mode := MoBrowse\<rparr>
      | _ \<Rightarrow> p)"

definition no_item :: "picker \<Rightarrow> pick_outcome \<times> picker" where
  "no_item p = (PoContinue, set_status (ustr ''no item selected'') p)"

definition act :: "(ustring \<Rightarrow> ustring) \<Rightarrow> action \<Rightarrow> picker \<Rightarrow> pick_outcome \<times> picker" where
  "act lower a p =
     (case selected_item lower p of Some m \<Rightarrow> (PoAct a (meta_id m), p) | None \<Rightarrow> no_item p)"

definition is_key :: "key_code \<Rightarrow> string \<Rightarrow> bool" where
  "is_key code cs \<longleftrightarrow> (\<exists>c \<in> set cs. code = key_char c)"

definition browse_key :: "(ustring \<Rightarrow> ustring) \<Rightarrow> key_code \<Rightarrow> picker \<Rightarrow> pick_outcome \<times> picker" where
  "browse_key lower code p =
     (let last = length (visible lower p) - 1;
          go = (\<lambda>n. (PoContinue, p\<lparr>pk_selected := n\<rparr>)) in
      if code = KcUp \<or> is_key code ''k'' then go (pk_selected p - 1)
      else if code = KcDown \<or> is_key code ''j'' then go (min (pk_selected p + 1) last)
      else if code = KcPageUp then go (pk_selected p - PAGE)
      else if code = KcPageDown then go (min (pk_selected p + PAGE) last)
      else if code = KcHome then go 0
      else if code = KcEnd then go last
      else if is_key code ''/'' then (PoContinue, p\<lparr>pk_mode := MoFilter, pk_status := None\<rparr>)
      else if is_key code ''?'' then (PoContinue, p\<lparr>pk_mode := MoHelp\<rparr>)
      else if is_key code ''r'' then (PoReload, p)
      else if is_key code ''R'' then (PoReloadServer, p)
      else if is_key code ''q'' \<or> code = KcEsc then (PoQuit, p)
      else if code = KcEnter then act lower ActLoad p
      else if is_key code ''c'' then act lower ActCat p
      else if is_key code ''g'' then
        (case selected_item lower p of Some m \<Rightarrow> (PoDetails (meta_id m), p) | None \<Rightarrow> no_item p)
      else if is_key code ''d'' then
        (case selected_item lower p of
           Some m \<Rightarrow> (PoContinue, p\<lparr>pk_mode := MoConfirmDelete (meta_id m)\<rparr>)
         | None \<Rightarrow> no_item p)
      else (PoContinue, p))"

definition details_key :: "key_code \<Rightarrow> picker \<Rightarrow> picker" where
  "details_key code p =
     (if code = KcEsc \<or> code = KcEnter \<or> is_key code ''qg'' then p\<lparr>pk_mode := MoBrowse\<rparr>
      else
        case pk_mode p of
          MoDetails title lines scroll \<Rightarrow>
            (let last = length lines - 1; go = (\<lambda>n. p\<lparr>pk_mode := MoDetails title lines n\<rparr>) in
             if code = KcUp \<or> is_key code ''k'' then go (scroll - 1)
             else if code = KcDown \<or> is_key code ''j'' then go (min (scroll + 1) last)
             else if code = KcPageUp then go (scroll - PAGE)
             else if code = KcPageDown then go (min (scroll + PAGE) last)
             else if code = KcHome then go 0
             else if code = KcEnd then go last
             else p)
        | _ \<Rightarrow> p)"

definition handle_key :: "(ustring \<Rightarrow> ustring) \<Rightarrow> key_event \<Rightarrow> picker \<Rightarrow> pick_outcome \<times> picker" where
  "handle_key lower key p =
     (if \<not> ke_press key then (PoContinue, p)
      else if ke_control key \<and> is_key (ke_code key) ''c'' then (PoQuit, p)
      else
        case pk_mode p of
          MoFilter \<Rightarrow> (PoContinue, filter_key (ke_code key) p)
        | MoConfirmDelete i \<Rightarrow>
            (let p = p\<lparr>pk_mode := MoBrowse\<rparr> in
             if is_key (ke_code key) ''yY'' then (PoDelete i, p)
             else (PoContinue, set_status (ustr ''not deleted'') p))
        | MoHelp \<Rightarrow> (PoContinue, p\<lparr>pk_mode := MoBrowse\<rparr>)
        | MoDetails _ _ _ \<Rightarrow> (PoContinue, details_key (ke_code key) p)
        | MoBrowse \<Rightarrow> browse_key lower (ke_code key) p)"

section \<open>The loop\<close>

text \<open>
  What the list reads: the items of a cache that may be used, with its age, and the store itself,
  keeping what is cached or not. Without a cache it is the store's list.
\<close>

record lister =
  ls_store :: dyn_store
  ls_cached :: "(item_meta list \<times> int) option prog"
  ls_read :: "bool \<Rightarrow> (store_error + item_meta list) prog"

definition plain_lister :: "dyn_store \<Rightarrow> lister" where
  "plain_lister D = \<lparr>ls_store = D, ls_cached = Done None, ls_read = (\<lambda>reuse. ds_list D)\<rparr>"

text \<open>The screen: what its drawings and its keys answer.\<close>

record screen =
  sc_draws :: "nat \<Rightarrow> io_error option"
  sc_drawn :: nat
  sc_keys :: "(io_error + key_event) list"

record chosen =
  ch_action :: action
  ch_id :: item_id

datatype picker_error = PeStore store_error | PeScreen io_error

definition draw :: "screen \<Rightarrow> (io_error + unit) \<times> screen" where
  "draw s =
     (case sc_draws s (sc_drawn s) of Some e \<Rightarrow> Inl e | None \<Rightarrow> Inr (), s\<lparr>sc_drawn := sc_drawn s + 1\<rparr>)"

definition reload ::
  "(store_error \<Rightarrow> ustring) \<Rightarrow> (ustring \<Rightarrow> ustring) \<Rightarrow> lister \<Rightarrow> bool \<Rightarrow> screen \<Rightarrow> picker
   \<Rightarrow> ((io_error + nat option) \<times> screen \<times> picker) prog" where
  "reload show lower L reuse s p =
     (let p = set_status (ustr ''Reloading...'') p in
      case draw s of
        (Inl e, s) \<Rightarrow> Done (Inl e, s, p)
      | (Inr _, s) \<Rightarrow>
          bind (ls_read L reuse) (\<lambda>r. Done
            (case r of
               Inr items \<Rightarrow> (Inr (Some (length items)), s, replace_items lower items p)
             | Inl e \<Rightarrow> (Inr None, s, set_status (ustr ''cannot reload: '' @ show e) p))))"

definition after_reload ::
  "(nat \<Rightarrow> ustring) \<Rightarrow> (io_error + nat option) \<times> screen \<times> picker \<Rightarrow> (io_error + unit) \<times> screen \<times> picker" where
  "after_reload message = (\<lambda>(r, s, p).
     case r of
       Inl e \<Rightarrow> (Inl e, s, p)
     | Inr (Some n) \<Rightarrow> (Inr (), s, set_status (message n) p)
     | Inr None \<Rightarrow> (Inr (), s, p))"

definition dec_int :: "int \<Rightarrow> ustring" where
  "dec_int n = (if n < 0 then ustr ''-'' @ decimal (nat (- n)) else decimal (nat n))"

text \<open>What one outcome other than quitting and acting does.\<close>

definition carry_out ::
  "(store_error \<Rightarrow> ustring) \<Rightarrow> (ustring \<Rightarrow> ustring) \<Rightarrow> (item_meta \<Rightarrow> ustring list) \<Rightarrow> lister \<Rightarrow> pick_outcome
   \<Rightarrow> screen \<Rightarrow> picker \<Rightarrow> ((io_error + unit) \<times> screen \<times> picker) prog" where
  "carry_out show lower render L out s p =
     (let reloaded = (\<lambda>n. ustr ''reloaded: '' @ decimal n @ ustr '' items'') in
      case out of
        PoDetails i \<Rightarrow>
          bind (ds_get_meta (ls_store L) i) (\<lambda>r. Done (Inr (), s,
            (case r of
               Inr m \<Rightarrow> show_details (ustr (id_repr (meta_id m))) (render m) p
             | Inl e \<Rightarrow> set_status (ustr (''cannot read '' @ id_repr i @ '': '') @ show e) p)))
      | PoDelete i \<Rightarrow>
          (let p = set_status (ustr (''Deleting '' @ id_repr i @ ''...'')) p in
           case draw s of
             (Inl e, s) \<Rightarrow> Done (Inl e, s, p)
           | (Inr _, s) \<Rightarrow>
               bind (ds_delete (ls_store L) i) (\<lambda>r.
               case r of
                 Inr _ \<Rightarrow>
                   bind (reload show lower L True s p) (\<lambda>a.
                   Done (after_reload (\<lambda>_. ustr (''deleted '' @ id_repr i)) a))
               | Inl e \<Rightarrow>
                   Done (Inr (), s, set_status (ustr (''cannot delete '' @ id_repr i @ '': '') @ show e) p)))
      | PoReload \<Rightarrow>
          bind (ls_cached L) (\<lambda>c.
          case c of
            Some (items, age) \<Rightarrow>
              Done (Inr (), s, set_status (reloaded (length items) @ ustr '', cached '' @ dec_int age @ ustr '' s ago'')
                (replace_items lower items p))
          | None \<Rightarrow> bind (reload show lower L True s p) (\<lambda>a. Done (after_reload reloaded a)))
      | PoReloadServer \<Rightarrow> bind (reload show lower L False s p) (\<lambda>a. Done (after_reload reloaded a))
      | _ \<Rightarrow> Done (Inr (), s, p))"

text \<open>The keys of the screen drive the loop: the answer is \<open>None\<close> when it waits for more of them.\<close>

fun pick_loop ::
  "(store_error \<Rightarrow> ustring) \<Rightarrow> (ustring \<Rightarrow> ustring) \<Rightarrow> (item_meta \<Rightarrow> ustring list) \<Rightarrow> lister \<Rightarrow> nat
   \<Rightarrow> screen \<Rightarrow> picker \<Rightarrow> ((picker_error + chosen option) option \<times> screen \<times> picker) prog" where
  "pick_loop show lower render L 0 s p = Done (None, s, p)"
| "pick_loop show lower render L (Suc n) s p =
     (case draw s of
        (Inl e, s) \<Rightarrow> Done (Some (Inl (PeScreen e)), s, p)
      | (Inr _, s) \<Rightarrow>
          (case sc_keys s of
             [] \<Rightarrow> Done (None, s, p)
           | Inl e # keys \<Rightarrow> Done (Some (Inl (PeScreen e)), s\<lparr>sc_keys := keys\<rparr>, p)
           | Inr key # keys \<Rightarrow>
               (let s = s\<lparr>sc_keys := keys\<rparr>; (out, p) = handle_key lower key p in
                case out of
                  PoQuit \<Rightarrow> Done (Some (Inr None), s, p)
                | PoAct a i \<Rightarrow> Done (Some (Inr (Some \<lparr>ch_action = a, ch_id = i\<rparr>)), s, p)
                | _ \<Rightarrow>
                    bind (carry_out show lower render L out s p) (\<lambda>(r, s, p).
                    case r of
                      Inl e \<Rightarrow> Done (Some (Inl (PeScreen e)), s, p)
                    | Inr _ \<Rightarrow> pick_loop show lower render L n s p))))"

definition run_picker ::
  "(store_error \<Rightarrow> ustring) \<Rightarrow> (ustring \<Rightarrow> ustring) \<Rightarrow> (item_meta \<Rightarrow> ustring list) \<Rightarrow> lister
   \<Rightarrow> screen \<Rightarrow> ((picker_error + chosen option) option \<times> screen \<times> picker) prog" where
  "run_picker show lower render L s =
     (let p = picker_new []; rounds = length (sc_keys s) + 1 in
      bind (ls_cached L) (\<lambda>c.
      case c of
        Some (items, age) \<Rightarrow>
          pick_loop show lower render L rounds s
            (set_status (ustr ''cached '' @ dec_int age @ ustr '' s ago'') (replace_items lower items p))
      | None \<Rightarrow>
          (let p = set_status (ustr ''Loading...'') p in
           case draw s of
             (Inl e, s) \<Rightarrow> Done (Some (Inl (PeScreen e)), s, p)
           | (Inr _, s) \<Rightarrow>
               bind (ls_read L True) (\<lambda>r.
               case r of
                 Inl e \<Rightarrow> Done (Some (Inl (PeStore e)), s, p)
               | Inr items \<Rightarrow>
                   pick_loop show lower render L rounds s (clear_status (replace_items lower items p))))))"

section \<open>What is deleted\<close>

text \<open>
  The states a picker gets into, with what happened to it, the latest first. The list is closed when
  a key quits it.
\<close>

datatype pick_event =
    EvKey key_event
  | EvReplace "item_meta list"
  | EvStatus ustring
  | EvClear
  | EvDetails ustring "ustring list"

definition pick_step :: "(ustring \<Rightarrow> ustring) \<Rightarrow> pick_event \<Rightarrow> picker \<Rightarrow> picker" where
  "pick_step lower ev p =
     (case ev of
        EvKey key \<Rightarrow> snd (handle_key lower key p)
      | EvReplace items \<Rightarrow> replace_items lower items p
      | EvStatus t \<Rightarrow> set_status t p
      | EvClear \<Rightarrow> clear_status p
      | EvDetails title lines \<Rightarrow> show_details title lines p)"

definition goes_on :: "(ustring \<Rightarrow> ustring) \<Rightarrow> pick_event \<Rightarrow> picker \<Rightarrow> bool" where
  "goes_on lower ev p \<longleftrightarrow> (case ev of EvKey key \<Rightarrow> fst (handle_key lower key p) \<noteq> PoQuit | _ \<Rightarrow> True)"

inductive picked :: "(ustring \<Rightarrow> ustring) \<Rightarrow> pick_event list \<Rightarrow> picker \<Rightarrow> bool" for lower where
  fresh: "picked lower [] (picker_new items)"
| next_: "picked lower evs p \<Longrightarrow> goes_on lower ev p \<Longrightarrow> picked lower (ev # evs) (pick_step lower ev p)"

inductive_cases picked_ConsE: "picked lower (ev # evs) p"

text \<open>Events that are no press of a key.\<close>

definition no_press :: "pick_event \<Rightarrow> bool" where
  "no_press ev \<longleftrightarrow> (case ev of EvKey key \<Rightarrow> \<not> ke_press key | EvDetails _ _ \<Rightarrow> False | _ \<Rightarrow> True)"

text \<open>\<open>d\<close> was pressed on the item \<open>i\<close>, and no key since.\<close>

definition asked :: "(ustring \<Rightarrow> ustring) \<Rightarrow> pick_event list \<Rightarrow> item_id \<Rightarrow> bool" where
  "asked lower evs i \<longleftrightarrow>
     (\<exists>recent key earlier q m. evs = recent @ EvKey key # earlier \<and> (\<forall>ev \<in> set recent. no_press ev)
        \<and> ke_press key \<and> ke_code key = key_char CHR ''d'' \<and> picked lower earlier q \<and> pk_mode q = MoBrowse
        \<and> selected_item lower q = Some m \<and> meta_id m = i)"

lemma asked_later: "asked lower evs i \<Longrightarrow> no_press ev \<Longrightarrow> asked lower (ev # evs) i"
  unfolding asked_def by (metis append_Cons set_ConsD)

lemma asked_now:
  assumes "picked lower evs q" "ke_press key" "ke_code key = key_char CHR ''d''" "pk_mode q = MoBrowse"
    "selected_item lower q = Some m"
  shows "asked lower (EvKey key # evs) (meta_id m)"
  unfolding asked_def
  by (intro exI [of _ "[]"] exI [of _ key] exI [of _ evs] exI [of _ q] exI [of _ m]) (use assms in simp)

lemma key_char_eq [simp]: "key_char c = key_char d \<longleftrightarrow> c = d"
  by (simp add: key_char_def)

lemma browse_mode:
  "pk_mode (snd (browse_key lower code p)) = MoConfirmDelete i \<Longrightarrow>
     pk_mode p = MoConfirmDelete i \<or> code = key_char CHR ''d'' \<and> (\<exists>m. selected_item lower p = Some m \<and> meta_id m = i)"
  by (auto simp: browse_key_def Let_def no_item_def set_status_def act_def is_key_def
      split: if_splits option.splits)

lemma details_mode: "pk_mode (details_key code p) = MoConfirmDelete i \<Longrightarrow> pk_mode p = MoConfirmDelete i"
  by (auto simp: details_key_def Let_def split: if_splits mode.splits)

lemma handle_mode:
  "pk_mode (snd (handle_key lower key p)) = MoConfirmDelete i \<Longrightarrow>
     pk_mode p = MoConfirmDelete i \<and> \<not> ke_press key
     \<or> pk_mode p = MoConfirmDelete i \<and> ke_control key \<and> ke_code key = key_char CHR ''c''
     \<or> pk_mode p = MoBrowse \<and> ke_press key \<and> ke_code key = key_char CHR ''d''
        \<and> (\<exists>m. selected_item lower p = Some m \<and> meta_id m = i)"
  using browse_mode [of lower "ke_code key" p i] details_mode [of "ke_code key" p i]
  by (auto simp: handle_key_def filter_key_def set_status_def Let_def is_key_def
      split: if_splits mode.splits key_code.splits)

lemma browse_no_delete: "fst (browse_key lower code p) \<noteq> PoDelete i"
  by (auto simp: browse_key_def Let_def no_item_def act_def split: option.splits)

lemma confirm_asked:
  "picked lower evs p \<Longrightarrow> pk_mode p = MoConfirmDelete i \<Longrightarrow> asked lower evs i"
proof (induction arbitrary: i rule: picked.induct)
  case (fresh items)
  then show ?case by (simp add: picker_new_def)
next
  case (next_ evs p ev)
  have kept: "asked lower (ev # evs) i" if "pk_mode p = MoConfirmDelete i" "no_press ev"
    by (rule asked_later [OF next_.IH [OF that(1)] that(2)])
  show ?case
  proof (cases ev)
    case (EvKey key)
    from handle_mode [of lower key p i] next_.prems
    have "pk_mode p = MoConfirmDelete i \<and> \<not> ke_press key
     \<or> pk_mode p = MoConfirmDelete i \<and> ke_control key \<and> ke_code key = key_char CHR ''c''
     \<or> pk_mode p = MoBrowse \<and> ke_press key \<and> ke_code key = key_char CHR ''d''
        \<and> (\<exists>m. selected_item lower p = Some m \<and> meta_id m = i)"
      by (auto simp: pick_step_def EvKey)
    then consider (same) "pk_mode p = MoConfirmDelete i" "\<not> ke_press key"
      | (quit) "ke_control key" "ke_code key = key_char CHR ''c''" "ke_press key"
      | (d) m where "pk_mode p = MoBrowse" "ke_press key" "ke_code key = key_char CHR ''d''"
          "selected_item lower p = Some m" "meta_id m = i"
      by blast
    then show ?thesis
    proof cases
      case same
      then show ?thesis using kept by (simp add: EvKey no_press_def)
    next
      case quit
      then show ?thesis using next_.hyps(2) by (simp add: goes_on_def EvKey handle_key_def is_key_def)
    next
      case d
      then show ?thesis using asked_now [OF next_.hyps(1) d(2,3,1,4)] by (simp add: EvKey)
    qed
  qed (use next_.prems kept in \<open>auto simp: pick_step_def replace_items_def clamp_def set_status_def clear_status_def
      show_details_def no_press_def\<close>)
qed

text \<open>C29: An item is deleted only when \<open>y\<close> is pressed right after \<open>d\<close> was pressed on it: no other key is
  pressed in between, and the item is the one that was selected then, also when the items were read
  again since and another one has moved to its row.\<close>

theorem deletes_what_was_asked:
  assumes "picked lower evs p" "handle_key lower key p = (PoDelete i, p')"
  shows "ke_press key \<and> is_key (ke_code key) ''yY'' \<and> pk_mode p' = MoBrowse
    \<and> (\<exists>recent dkey earlier q m. evs = recent @ EvKey dkey # earlier \<and> (\<forall>ev \<in> set recent. no_press ev)
        \<and> ke_press dkey \<and> ke_code dkey = key_char CHR ''d'' \<and> picked lower earlier q \<and> pk_mode q = MoBrowse
        \<and> selected_item lower q = Some m \<and> meta_id m = i)"
proof -
  have k: "ke_press key" "is_key (ke_code key) ''yY''" "pk_mode p' = MoBrowse" "pk_mode p = MoConfirmDelete i"
    using assms(2) browse_no_delete [of lower "ke_code key" p i]
    by (auto simp: handle_key_def Let_def split: if_splits mode.splits)
  from confirm_asked [OF assms(1) k(4)] k(1-3) show ?thesis by (simp add: asked_def)
qed

definition sample_press :: "char \<Rightarrow> key_event" where
  "sample_press c = \<lparr>ke_code = key_char c, ke_press = True, ke_control = False\<rparr>"

definition sample_listed :: item_meta where
  "sample_listed =
     \<lparr>meta_schema = 1, meta_id = ItemId ''00000000-2cf24dba5fb0'' 0 (ContentKey ''2cf24dba5fb0''), meta_kind = KText,
      meta_name = None, meta_mime = ustr ''text/plain'', meta_size = 2, meta_sha256 = [], meta_created_at = 0,
      meta_device = ustr ''laptop'', meta_preview = Some (ustr ''hi''), meta_origin = None\<rparr>"

theorem deletes_what_was_asked_witness:
  "ke_press (sample_press CHR ''y'') \<and> is_key (ke_code (sample_press CHR ''y'')) ''yY'' \<and> pk_mode (picker_new [sample_listed]) = MoBrowse
    \<and> (\<exists>recent dkey earlier q m. [EvKey (sample_press CHR ''d'')] = recent @ EvKey dkey # earlier
        \<and> (\<forall>ev \<in> set recent. no_press ev)
        \<and> ke_press dkey \<and> ke_code dkey = key_char CHR ''d'' \<and> picked (\<lambda>t. t) earlier q \<and> pk_mode q = MoBrowse
        \<and> selected_item (\<lambda>t. t) q = Some m \<and> meta_id m = meta_id sample_listed)"
proof (rule deletes_what_was_asked)
  let ?p = "picker_new [sample_listed]"
  have d: "handle_key (\<lambda>t. t) (sample_press CHR ''d'') ?p = (PoContinue, ?p\<lparr>pk_mode := MoConfirmDelete (meta_id sample_listed)\<rparr>)"
    by (simp add: handle_key_def sample_press_def is_key_def key_char_def picker_new_def browse_key_def Let_def
        selected_item_def visible_def)
  show "picked (\<lambda>t. t) [EvKey (sample_press CHR ''d'')] (?p\<lparr>pk_mode := MoConfirmDelete (meta_id sample_listed)\<rparr>)"
    using picked.next_ [OF picked.fresh, of "\<lambda>t. t" "EvKey (sample_press CHR ''d'')" "[sample_listed]"] d
    by (simp add: goes_on_def pick_step_def)
  show "handle_key (\<lambda>t. t) (sample_press CHR ''y'') (?p\<lparr>pk_mode := MoConfirmDelete (meta_id sample_listed)\<rparr>)
      = (PoDelete (meta_id sample_listed), ?p)"
    by (simp add: handle_key_def sample_press_def is_key_def key_char_def picker_new_def Let_def)
qed

text \<open>The selection stays among what is shown.\<close>

definition selection_ok :: "(ustring \<Rightarrow> ustring) \<Rightarrow> picker \<Rightarrow> pick_outcome \<times> picker \<Rightarrow> bool" where
  "selection_ok lower p a \<longleftrightarrow>
     visible lower (snd a) = visible lower p \<and> (pk_selected (snd a) = 0 \<or> pk_selected (snd a) < length (visible lower p))"

lemma visible_other:
  "visible lower (p\<lparr>pk_mode := mo\<rparr>) = visible lower p" "visible lower (p\<lparr>pk_status := st\<rparr>) = visible lower p"
  "visible lower (p\<lparr>pk_selected := n\<rparr>) = visible lower p"
  by (simp_all add: visible_def)

lemma browse_in_range:
  assumes "pk_selected p = 0 \<or> pk_selected p < length (visible lower p)"
  shows "selection_ok lower p (browse_key lower code p)"
proof -
  have either: "selection_ok lower p a \<Longrightarrow> selection_ok lower p b \<Longrightarrow> selection_ok lower p (if c then a else b)" for a b c
    by simp
  have go: "selection_ok lower p (x, p\<lparr>pk_selected := n\<rparr>)" if "n = 0 \<or> n \<le> pk_selected p \<or> n \<le> length (visible lower p) - 1" for x n
    using that assms by (cases "visible lower p") (auto simp: selection_ok_def visible_other)
  have same: "selection_ok lower p (x, p)" "selection_ok lower p (x, p\<lparr>pk_mode := mo\<rparr>)" "selection_ok lower p (x, p\<lparr>pk_status := st\<rparr>)"
    "selection_ok lower p (x, p\<lparr>pk_mode := mo, pk_status := st\<rparr>)" for x mo st
    using assms by (simp_all add: selection_ok_def visible_other)
  show ?thesis
    unfolding browse_key_def Let_def
    by (intro either) (auto intro: go same simp: no_item_def set_status_def act_def split: option.split)
qed

lemma selection_in_range:
  "picked lower evs p \<Longrightarrow> pk_selected p = 0 \<or> pk_selected p < length (visible lower p)"
proof (induction rule: picked.induct)
  case (fresh items)
  then show ?case by (simp add: picker_new_def)
next
  case (next_ evs p ev)
  note v = visible_other and b = browse_in_range [OF next_.IH, unfolded selection_ok_def]
  have f: "pk_selected (filter_key code p) = 0
      \<or> pk_selected (filter_key code p) = pk_selected p \<and> visible lower (filter_key code p) = visible lower p" for code
    by (simp add: filter_key_def v split: key_code.split)
  have d: "pk_selected (details_key code p) = pk_selected p \<and> visible lower (details_key code p) = visible lower p" for code
    by (simp add: details_key_def Let_def v split: mode.split)
  show ?case
  proof (cases ev)
    case (EvKey key)
    show ?thesis
      using next_.IH b [of "ke_code key"] f [of "ke_code key"] d [of "ke_code key"]
      by (simp add: pick_step_def EvKey handle_key_def Let_def set_status_def v split: mode.split) metis
  qed (use next_.IH in \<open>auto simp: pick_step_def replace_items_def clamp_def set_status_def clear_status_def
      show_details_def v\<close>)
qed

end
