(* ===== verification/Commands.thy ===== *)
theory Commands
  imports Picking Uploading Retention
begin

text \<open>
  The commands that use a store: \<^verbatim>\<open>passalong-cli/src/resolve.rs\<close>, the answers of
  \<^verbatim>\<open>prompt.rs\<close>, and \<^verbatim>\<open>commands/\<close> \<open>delete\<close>, \<open>prune\<close>, \<open>cat\<close>, \<open>get\<close>, \<open>file\<close>, \<open>clipboard\<close> and
  \<open>list\<close>. A command is a program over the store; what it asks and prints is a state \<open>tty\<close>. Listings
  are printed by \<open>render\<close> arguments, since they rest on the formatting of floating-point sizes and local times.
\<close>

section \<open>The terminal\<close>

text \<open>Questions with the answers they will get, and what was printed: results, and what goes to
  standard error. \<open>tt_fault n\<close> is the failure of the printing \<open>n\<close>, \<open>tt_err_fault n\<close> of what goes to standard error.\<close>

record tty =
  tt_interactive :: bool
  tt_answers :: "(io_error + ustring) list"
  tt_asked :: "ustring list"
  tt_out :: "ustring list"
  tt_err :: "ustring list"
  tt_fault :: "nat \<Rightarrow> io_error option"
  tt_err_fault :: "nat \<Rightarrow> io_error option"

datatype cli_error =
    CeStore store_error
  | CeDeleting item_id store_error
  | CeIo io_error
  | CeImage image_error
  | CeClipboard clipboard_error
  | CeIntegrity string string u64 string u64
  | CeDownload download_error
  | CeModel string model_error
  | CeMessage ustring

definition no_answer :: io_error where
  "no_answer = IoError IoOther ''no answer: input ended''"

definition trim_ws :: "ustring \<Rightarrow> ustring" where
  "trim_ws t = trim_both is_whitespace t"

definition is_yes :: "ustring \<Rightarrow> bool" where
  "is_yes answer \<longleftrightarrow> ascii_lowercase (trim_ws answer) \<in> {ustr ''y'', ustr ''yes''}"

definition with_default :: "ustring \<Rightarrow> ustring option \<Rightarrow> ustring" where
  "with_default answer d =
     (let answer = trim_ws answer in
      if answer = [] then (case d of Some t \<Rightarrow> t | None \<Rightarrow> []) else answer)"

definition tt_read :: "ustring \<Rightarrow> tty \<Rightarrow> (io_error + ustring) \<times> tty" where
  "tt_read question t =
     (let t = t\<lparr>tt_asked := tt_asked t @ [question]\<rparr> in
      case tt_answers t of
        [] \<Rightarrow> (Inr [], t)
      | a # as \<Rightarrow> (a, t\<lparr>tt_answers := as\<rparr>))"

text \<open>The end of the input is an empty line, which \<open>ask\<close> refuses and \<open>confirm\<close> takes as no.\<close>

definition tt_confirm :: "ustring \<Rightarrow> tty \<Rightarrow> (io_error + bool) \<times> tty" where
  "tt_confirm question t =
     (case tt_read (question @ ustr '' [y/N] '') t of
        (Inl e, t) \<Rightarrow> (Inl e, t)
      | (Inr answer, t) \<Rightarrow> (Inr (is_yes answer), t))"

definition tt_ask :: "ustring \<Rightarrow> ustring option \<Rightarrow> tty \<Rightarrow> (io_error + ustring) \<times> tty" where
  "tt_ask question d t =
     (case tt_read (question @ (case d of Some v \<Rightarrow> ustr '' ['' @ v @ ustr '']: '' | None \<Rightarrow> ustr '': '')) t of
        (Inl e, t) \<Rightarrow> (Inl e, t)
      | (Inr answer, t) \<Rightarrow> if answer = [] then (Inl no_answer, t) else (Inr (with_default answer d), t))"

definition tt_print :: "ustring \<Rightarrow> tty \<Rightarrow> (io_error + unit) \<times> tty" where
  "tt_print text t =
     (case tt_fault t (length (tt_out t)) of
        Some e \<Rightarrow> (Inl e, t)
      | None \<Rightarrow> (Inr (), t\<lparr>tt_out := tt_out t @ [text]\<rparr>))"

definition tt_show :: "ustring \<Rightarrow> tty \<Rightarrow> (io_error + unit) \<times> tty" where
  "tt_show text t =
     (case tt_err_fault t (length (tt_err t)) of
        Some e \<Rightarrow> (Inl e, t)
      | None \<Rightarrow> (Inr (), t\<lparr>tt_err := tt_err t @ [text]\<rparr>))"

fun tt_show_all :: "ustring list \<Rightarrow> tty \<Rightarrow> (io_error + unit) \<times> tty" where
  "tt_show_all [] t = (Inr (), t)"
| "tt_show_all (l # ls) t =
     (case tt_show l t of
        (Inl e, t) \<Rightarrow> (Inl e, t)
      | (Inr _, t) \<Rightarrow> tt_show_all ls t)"

type_synonym 'a command = "((cli_error + 'a) \<times> tty) prog"

text \<open>A step of the terminal, and one of the store, inside a command; an error ends it.\<close>

definition on_tty :: "(io_error + 'a) \<times> tty \<Rightarrow> ('a \<Rightarrow> tty \<Rightarrow> 'b command) \<Rightarrow> 'b command" where
  "on_tty rt k = (case rt of (Inl e, t) \<Rightarrow> Done (Inl (CeIo e), t) | (Inr x, t) \<Rightarrow> k x t)"

definition on_store :: "(store_error \<Rightarrow> cli_error) \<Rightarrow> (store_error + 'a) prog \<Rightarrow> tty \<Rightarrow> ('a \<Rightarrow> 'b command) \<Rightarrow> 'b command" where
  "on_store c m t k = bind m (\<lambda>r. case r of Inl e \<Rightarrow> Done (Inl (c e), t) | Inr x \<Rightarrow> k x)"

definition fails_with :: "string \<Rightarrow> tty \<Rightarrow> 'a command" where
  "fails_with message t = Done (Inl (CeMessage (ustr message)), t)"

section \<open>Finding the item that is meant\<close>

definition MAX_CHOICES :: nat where "MAX_CHOICES = 9"
definition MAX_ATTEMPTS :: nat where "MAX_ATTEMPTS = 3"

definition age :: "datetime \<Rightarrow> datetime \<Rightarrow> string" where
  "age created now =
     (let secs = (now - created) div 1000000000 in
      if secs < 60 then ''just now''
      else if secs < 3600 then map char_of (decimal (nat (secs div 60))) @ '' min ago''
      else if secs < 86400 then map char_of (decimal (nat (secs div 3600))) @ '' h ago''
      else map char_of (decimal (nat (secs div 86400))) @ '' d ago'')"

text \<open>The metadata of the choices, \<open>None\<close> for what was deleted or damaged since.\<close>

fun shown_metas :: "dyn_store \<Rightarrow> item_id list \<Rightarrow> item_meta option list \<Rightarrow> (store_error + item_meta option list) prog" where
  "shown_metas D [] ms = Done (Inr ms)"
| "shown_metas D (i # is) ms =
     bind (ds_get_meta D i) (\<lambda>r.
     case r of
       Inr m \<Rightarrow> shown_metas D is (ms @ [Some m])
     | Inl (SeNotFound _) \<Rightarrow> shown_metas D is (ms @ [None])
     | Inl (SeCorrupt _ _) \<Rightarrow> shown_metas D is (ms @ [None])
     | Inl e \<Rightarrow> Done (Inl e))"

definition choice_row :: "datetime \<Rightarrow> item_id \<Rightarrow> item_meta option \<Rightarrow> ustring list" where
  "choice_row now i m =
     (case m of
        Some m \<Rightarrow> [ustr (id_repr i), kind_label m, display_name m, meta_device m, ustr (age (meta_created_at m) now)]
      | None \<Rightarrow> [ustr (id_repr i), ustr ''?'', ustr ''-'', ustr ''-'', ustr ''-''])"

definition pad_to :: "nat \<Rightarrow> ustring \<Rightarrow> ustring" where
  "pad_to width cell = cell @ replicate (width - length cell) 32"

definition trim_end_ws :: "ustring \<Rightarrow> ustring" where
  "trim_end_ws t = rev (dropWhile is_whitespace (rev t))"

definition column_width :: "ustring list list \<Rightarrow> nat \<Rightarrow> nat" where
  "column_width rows c = foldr max (map (\<lambda>row. length (row ! c)) rows) 0"

fun join_cells :: "ustring list \<Rightarrow> ustring" where
  "join_cells [] = []"
| "join_cells [c] = c"
| "join_cells (c # cs) = c @ ustr ''  '' @ join_cells cs"

definition choice_lines :: "ustring list list \<Rightarrow> ustring list" where
  "choice_lines rows =
     map (\<lambda>(n, row).
       ustr ''  '' @ decimal (n + 1) @ ustr ''  ''
         @ trim_end_ws (join_cells (map (\<lambda>c. pad_to (column_width rows c) (row ! c)) [0 ..< length row])))
       (enumerate 0 rows)"

text \<open>\<open>str::parse::<usize>\<close>: digits, perhaps after a plus, below \<open>2 ^ 64\<close>.\<close>

definition parse_usize :: "ustring \<Rightarrow> nat option" where
  "parse_usize t =
     (let ds = (case t of c # cs \<Rightarrow> if c = 43 then cs else t | [] \<Rightarrow> t) in
      if ds = [] \<or> \<not> list_all (\<lambda>c. 48 \<le> c \<and> c \<le> 57) ds then None
      else (let n = foldl (\<lambda>a c. a * 10 + (c - 48)) 0 ds in if n < 2 ^ 64 then Some n else None))"

fun choose_among :: "item_id list \<Rightarrow> nat \<Rightarrow> tty \<Rightarrow> (cli_error + item_id) \<times> tty" where
  "choose_among offered 0 t = (Inl (CeMessage (ustr ''cancelled: no valid choice'')), t)"
| "choose_among offered (Suc attempts) t =
     (case tt_ask (ustr ''Choose 1-'' @ decimal (length offered) @ ustr '', or press Enter to cancel'') None t of
        (Inl e, t) \<Rightarrow> (Inl (CeIo e), t)
      | (Inr answer, t) \<Rightarrow>
          if answer = [] then (Inl (CeMessage (ustr ''cancelled'')), t)
          else
            (let again = (\<lambda>t.
                case tt_show (ustr ''please answer with a number from 1 to '' @ decimal (length offered)) t of
                  (Inl e, t) \<Rightarrow> (Inl (CeIo e), t)
                | (Inr _, t) \<Rightarrow> choose_among offered attempts t) in
             case parse_usize answer of
               Some n \<Rightarrow> if 1 \<le> n \<and> n \<le> length offered then (Inr (offered ! (n - 1)), t) else again t
             | None \<Rightarrow> again t))"

text \<open>\<open>can_ask\<close> is whether the command has a chooser, \<open>now\<close> the time it shows ages by.\<close>

definition resolve_item :: "dyn_store \<Rightarrow> datetime \<Rightarrow> bool \<Rightarrow> ustring \<Rightarrow> tty \<Rightarrow> item_id command" where
  "resolve_item D now can_ask input t =
     bind (ds_resolve D input) (\<lambda>r.
     case r of
       Inl (SeAmbiguous input candidates) \<Rightarrow>
         if \<not> (can_ask \<and> tt_interactive t) then Done (Inl (CeStore (SeAmbiguous input candidates)), t)
         else
           (let offered = take MAX_CHOICES candidates in
            on_store CeStore (shown_metas D offered []) t (\<lambda>metas.
            let lines = (ustr ''`'' @ input @ ustr ''` matches '' @ decimal (length candidates) @ ustr '' items:'')
                    # choice_lines (map2 (choice_row now) offered metas)
                    @ (if length offered < length candidates
                       then [ustr ''  and '' @ decimal (length candidates - length offered)
                               @ ustr '' more; type more characters of the id'']
                       else []) in
            on_tty (tt_show_all lines t) (\<lambda>_ t. Done (choose_among offered MAX_ATTEMPTS t))))
     | Inl e \<Rightarrow> Done (Inl (CeStore e), t)
     | Inr i \<Rightarrow> Done (Inr i, t))"

section \<open>Delete\<close>

fun resolve_all :: "dyn_store \<Rightarrow> datetime \<Rightarrow> bool \<Rightarrow> ustring list \<Rightarrow> item_id list \<Rightarrow> tty \<Rightarrow> item_id list command" where
  "resolve_all D now can_ask [] ids t = Done (Inr ids, t)"
| "resolve_all D now can_ask (input # inputs) ids t =
     bind (resolve_item D now can_ask input t) (\<lambda>(r, t).
     case r of
       Inl e \<Rightarrow> Done (Inl e, t)
     | Inr i \<Rightarrow> resolve_all D now can_ask inputs (if i \<in> set ids then ids else ids @ [i]) t)"

fun delete_ids :: "dyn_store \<Rightarrow> (item_id \<Rightarrow> ustring option) \<Rightarrow> item_id list \<Rightarrow> tty \<Rightarrow> unit command" where
  "delete_ids D line [] t = Done (Inr (), t)"
| "delete_ids D line (i # is) t =
     on_store (CeDeleting i) (ds_delete D i) t (\<lambda>_.
     case line i of
       Some l \<Rightarrow> on_tty (tt_print l t) (\<lambda>_ t. delete_ids D line is t)
     | None \<Rightarrow> delete_ids D line is t)"

definition run_delete :: "dyn_store \<Rightarrow> datetime \<Rightarrow> bool \<Rightarrow> ustring list \<Rightarrow> tty \<Rightarrow> unit command" where
  "run_delete D now can_ask inputs t =
     bind (resolve_all D now can_ask inputs [] t) (\<lambda>(r, t).
     case r of
       Inl e \<Rightarrow> Done (Inl e, t)
     | Inr ids \<Rightarrow> delete_ids D (\<lambda>i. Some (ustr (id_repr i))) ids t)"

section \<open>Prune\<close>

definition STALE_STAGING :: nat where "STALE_STAGING = secs 3600"

record prune_options =
  pr_older_than :: "nat option"
  pr_keep :: "nat option"
  pr_dry_run :: bool
  pr_yes :: bool
  pr_quiet :: bool

definition items_word :: "nat \<Rightarrow> ustring" where
  "items_word n = (if n = 1 then ustr ''item'' else ustr ''items'')"

definition prune_staging :: "dyn_store \<Rightarrow> (nat \<Rightarrow> (store_error + nat) prog) \<Rightarrow> bool \<Rightarrow> tty \<Rightarrow> unit command" where
  "prune_staging D clean dry t =
     (if dry then Done (Inr (), t)
      else
        on_store CeStore (clean STALE_STAGING) t (\<lambda>removed.
        if 0 < removed
        then on_tty (tt_print (ustr ''removed '' @ decimal removed @ ustr '' stale staging ''
                       @ (if removed = 1 then ustr ''directory'' else ustr ''directories'')) t)
               (\<lambda>_ t. Done (Inr (), t))
        else Done (Inr (), t)))"

text \<open>The parts of \<open>run\<close>: deleting what was selected, and asking about it first.\<close>

definition prune_selected ::
  "dyn_store \<Rightarrow> (nat \<Rightarrow> (store_error + nat) prog) \<Rightarrow> prune_options \<Rightarrow> item_meta list \<Rightarrow> tty \<Rightarrow> unit command" where
  "prune_selected D clean opts selected t =
     bind (delete_ids D (\<lambda>_. None) (map meta_id selected) t) (\<lambda>(r, t).
     case r of
       Inl e \<Rightarrow> Done (Inl e, t)
     | Inr _ \<Rightarrow>
         on_tty (tt_print (ustr ''deleted '' @ decimal (length selected) @ ustr '' '' @ items_word (length selected)) t)
           (\<lambda>_ t. prune_staging D clean (pr_dry_run opts) t))"

definition prune_asking ::
  "dyn_store \<Rightarrow> (nat \<Rightarrow> (store_error + nat) prog) \<Rightarrow> prune_options \<Rightarrow> ustring \<Rightarrow> item_meta list \<Rightarrow> tty \<Rightarrow> unit command" where
  "prune_asking D clean opts shown_list selected t =
     (let n = length selected in
      if pr_dry_run opts
      then on_tty (tt_print (ustr ''dry run: nothing deleted'') t) (\<lambda>_ t. Done (Inr (), t))
      else if pr_yes opts then prune_selected D clean opts selected t
      else if \<not> tt_interactive t
      then Done (Inl (CeMessage (ustr ''refusing to delete '' @ decimal n @ ustr '' '' @ items_word n
             @ ustr '' without --yes when not running in a terminal'')), t)
      else
        on_tty (if pr_quiet opts then tt_show shown_list t else (Inr (), t)) (\<lambda>_ t.
        on_tty (tt_confirm (ustr ''Delete '' @ decimal n @ ustr '' '' @ items_word n @ ustr ''?'') t) (\<lambda>yes t.
        if \<not> yes then on_tty (tt_print (ustr ''nothing deleted'') t) (\<lambda>_ t. Done (Inr (), t))
        else prune_selected D clean opts selected t)))"

definition run_prune ::
  "datetime \<Rightarrow> dyn_store \<Rightarrow> (nat \<Rightarrow> (store_error + nat) prog) \<Rightarrow> (item_meta list \<Rightarrow> ustring) \<Rightarrow> prune_options
   \<Rightarrow> datetime \<Rightarrow> tty \<Rightarrow> unit command" where
  "run_prune min_utc D clean render opts now t =
     (if pr_older_than opts = None \<and> pr_keep opts = None
      then fails_with ''prune needs --older-than <AGE>, --keep <N>, or both'' t
      else
        on_store CeStore (ds_list D) t (\<lambda>items.
        let ids = select min_utc items now (pr_older_than opts) (pr_keep opts);
            selected = filter (\<lambda>m. meta_id m \<in> set ids) items; n = length selected;
            shown_list = decimal n @ ustr '' '' @ items_word n @ ustr '' to delete:'' @ [10] @ render selected in
        if selected = []
        then on_tty (tt_print (ustr ''nothing to prune'') t) (\<lambda>_ t. prune_staging D clean (pr_dry_run opts) t)
        else on_tty (tt_print shown_list t) (\<lambda>_ t. prune_asking D clean opts shown_list selected t)))"

section \<open>Cat\<close>

definition is_text :: "item_meta \<Rightarrow> bool" where
  "is_text m \<longleftrightarrow> meta_kind m = KText \<or> starts_with (meta_mime m) (ustr ''text/'')"

text \<open>
  The content is written chunk by chunk to standard output: \<open>sink n\<close> is what writing the chunk \<open>n\<close>
  answers, \<open>None\<close> for success and \<open>Some None\<close> when the reader went away. The second component is what
  was written.
\<close>

datatype cat_end = CatDone content_hasher | CatClosed | CatReading io_error | CatWriting io_error

function cat_from ::
  "(nat \<Rightarrow> io_error option option) \<Rightarrow> nat \<Rightarrow> box_read \<Rightarrow> content_hasher \<Rightarrow> bytes \<Rightarrow> cat_end \<times> bytes" where
  "cat_from sink n content h written =
     (case rd_read CHUNK_SIZE content of
        (Inl e, _) \<Rightarrow> (CatReading e, written)
      | (Inr b, rest) \<Rightarrow>
          if b = [] then (CatDone h, written)
          else
            case sink n of
              None \<Rightarrow> cat_from sink (n + 1) rest (hasher_update b h) (written @ b)
            | Some None \<Rightarrow> (CatClosed, written)
            | Some (Some e) \<Rightarrow> (CatWriting e, written))"
  by pat_completeness auto
termination
  by (relation "measure (\<lambda>(sink, n, content, h, written). length (br_bytes content))") (auto dest: rd_read_shrinks [OF sym])

declare cat_from.simps [simp del]

definition cat_failed :: "'z ext_scheme \<Rightarrow> item_meta \<Rightarrow> content_hasher \<Rightarrow> cli_error + unit" where
  "cat_failed E m h =
     (let digest = hasher_finalize E h; actual = sha256_hex E digest in
      if actual \<noteq> meta_sha256 m \<or> cd_size digest \<noteq> meta_size m
      then Inl (CeIntegrity (id_repr (meta_id m)) (meta_sha256 m) (meta_size m) actual (cd_size digest))
      else Inr ())"

definition run_cat ::
  "'z ext_scheme \<Rightarrow> dyn_store \<Rightarrow> datetime \<Rightarrow> bool \<Rightarrow> bool \<Rightarrow> bool \<Rightarrow> (nat \<Rightarrow> io_error option option) \<Rightarrow> ustring
   \<Rightarrow> tty \<Rightarrow> ((cli_error + unit) \<times> bytes \<times> tty) prog" where
  "run_cat E D now can_ask force to_terminal sink input t =
     bind (resolve_item D now can_ask input t) (\<lambda>(r, t).
     case r of
       Inl e \<Rightarrow> Done (Inl e, [], t)
     | Inr i \<Rightarrow>
         bind (ds_get D i) (\<lambda>r.
         case r of
           Inl e \<Rightarrow> Done (Inl (CeStore e), [], t)
         | Inr (m, content) \<Rightarrow>
             if to_terminal \<and> \<not> force \<and> \<not> is_text m
             then Done (Inl (CeMessage (ustr (''item '' @ id_repr i @ '' is binary ('') @ meta_mime m
                    @ ustr ''); redirect the output or use --force'')), [], t)
             else
               (case cat_from sink 0 content hasher_new [] of
                  (CatDone h, written) \<Rightarrow> Done (cat_failed E m h, written, t)
                | (CatClosed, written) \<Rightarrow> Done (Inr (), written, t)
                | (CatReading e, written) \<Rightarrow> Done (Inl (CeIo e), written, t)
                | (CatWriting e, written) \<Rightarrow> Done (Inl (CeIo e), written, t))))"

section \<open>Get, file, clipboard and list\<close>

definition run_get ::
  "dyn_store \<Rightarrow> (item_meta \<Rightarrow> cli_error + ustring) \<Rightarrow> datetime \<Rightarrow> bool \<Rightarrow> ustring \<Rightarrow> tty \<Rightarrow> unit command" where
  "run_get D render now can_ask input t =
     bind (resolve_item D now can_ask input t) (\<lambda>(r, t).
     case r of
       Inl e \<Rightarrow> Done (Inl e, t)
     | Inr i \<Rightarrow>
         on_store CeStore (ds_get_meta D i) t (\<lambda>m.
         case render m of
           Inl e \<Rightarrow> Done (Inl e, t)
         | Inr text \<Rightarrow> on_tty (tt_print text t) (\<lambda>_ t. Done (Inr (), t))))"

text \<open>\<open>is_dir\<close> is what the metadata of the path says, or why it cannot be read.\<close>

definition run_file ::
  "'z ext_scheme \<Rightarrow> dyn_store \<Rightarrow> path \<Rightarrow> io_error + bool \<Rightarrow> ustring \<Rightarrow> os_run \<Rightarrow> tty \<Rightarrow> ((cli_error + unit) \<times> tty \<times> os_run) prog" where
  "run_file E D path is_dir device w t =
     (let stop = (\<lambda>e w. Done (Inl e, t, w)) in
      case is_dir of
        Inl e \<Rightarrow> stop (CeIo e) w
      | Inr True \<Rightarrow> stop (CeMessage (path @ ustr '' is a directory; only files can be sent'')) w
      | Inr False \<Rightarrow>
          (case os_file_name path of
             None \<Rightarrow> stop (CeMessage (path @ ustr '' has no file name'')) w
           | Some name \<Rightarrow>
               (case fs_open path w of
                  (Inl e, w) \<Rightarrow> stop (CeIo e) w
                | (Inr rd, w) \<Rightarrow>
                    bind (ds_put D (new_file E name device) rd) (\<lambda>r.
                    case r of
                      Inl e \<Rightarrow> stop (CeStore e) w
                    | Inr out \<Rightarrow>
                        (case tt_print (ustr (id_repr (meta_id (po_meta out)))) t of
                           (Inl e, t) \<Rightarrow> Done (Inl (CeIo e), t, w)
                         | (Inr _, t) \<Rightarrow> Done (Inr (), t, w))))))"

datatype 'c text_source = TsClipboard "'c clipboard" 'c | TsReader "io_error + bytes"

definition to_send ::
  "'z ext_scheme \<Rightarrow> png \<Rightarrow> 'c text_source \<Rightarrow> ustring \<Rightarrow> datetime \<Rightarrow> cli_error + new_item \<times> bytes" where
  "to_send E P source device now =
     (let empty = Inl (CeMessage (ustr ''clipboard is empty'')) in
      case source of
        TsClipboard B c \<Rightarrow>
          (case fst (read_payload B True c) of
             Inl e \<Rightarrow> Inl (CeClipboard e)
           | Inr (_, Some im) \<Rightarrow> map_sum CeImage (\<lambda>b. (new_clipboard_image E device now, b)) (encode_png P im)
           | Inr (Some t, None) \<Rightarrow>
               if trim_ws t \<noteq> [] then Inr (new_text device, utf8_encode t) else empty
           | Inr (None, None) \<Rightarrow> empty)
      | TsReader (Inl e) \<Rightarrow> Inl (CeIo e)
      | TsReader (Inr b) \<Rightarrow>
          (case from_utf8 b of
             None \<Rightarrow> Inl (CeIo (IoError IoInvalidData ''stream did not contain valid UTF-8''))
           | Some t \<Rightarrow> if trim_ws t = [] then empty else Inr (new_text device, utf8_encode t)))"

definition run_clipboard ::
  "'z ext_scheme \<Rightarrow> png \<Rightarrow> dyn_store \<Rightarrow> 'c text_source \<Rightarrow> ustring \<Rightarrow> datetime \<Rightarrow> tty \<Rightarrow> unit command" where
  "run_clipboard E P D source device now t =
     (case to_send E P source device now of
        Inl e \<Rightarrow> Done (Inl e, t)
      | Inr (item, b) \<Rightarrow>
          on_store CeStore (ds_put D item (reader_of b)) t (\<lambda>out.
          on_tty (tt_print (ustr (id_repr (meta_id (po_meta out)))) t) (\<lambda>_ t. Done (Inr (), t))))"

text \<open>
  \<open>usable\<close> is what a usable cache holds; reading through a cache or from the store alone is the
  argument \<open>read\<close>.
\<close>

definition run_list ::
  "(store_error + dyn_store) prog \<Rightarrow> (dyn_store \<Rightarrow> bool \<Rightarrow> (store_error + item_meta list) prog) \<Rightarrow> item_meta list option
   \<Rightarrow> bool \<Rightarrow> (item_meta list \<Rightarrow> cli_error + ustring) \<Rightarrow> tty \<Rightarrow> unit command" where
  "run_list open_store read usable nocache render t =
     (let print = (\<lambda>items.
        case render items of
          Inl e \<Rightarrow> Done (Inl e, t)
        | Inr text \<Rightarrow> on_tty (tt_print text t) (\<lambda>_ t. Done (Inr (), t))) in
      case (if nocache then None else usable) of
        Some items \<Rightarrow> print items
      | None \<Rightarrow>
          on_store CeStore open_store t (\<lambda>D.
          on_store CeStore (read D (\<not> nocache)) t print))"

end
