(* ===== verification/Upload_Laws.thy ===== *)
theory Upload_Laws
  imports Uploading Store_Claims
begin

text \<open>
  What the uploader guarantees: a dropped file leaves its place only once the store holds it.
\<close>

section \<open>Every way a program can end\<close>

primrec ends :: "('a \<Rightarrow> bool) \<Rightarrow> 'a prog \<Rightarrow> bool" where
  "ends P (Done a) = P a"
| "ends P (CreateDirAll p k) = (\<forall>r. ends P (k r))"
| "ends P (ReadDir p k) = (\<forall>r. ends P (k r))"
| "ends P (OpenRead p k) = (\<forall>r. ends P (k r))"
| "ends P (OpenWrite p k) = (\<forall>r. ends P (k r))"
| "ends P (WriteAll p b k) = (\<forall>r. ends P (k r))"
| "ends P (Shutdown p k) = (\<forall>r. ends P (k r))"
| "ends P (Rename p q k) = (\<forall>r. ends P (k r))"
| "ends P (RemoveDirAll p k) = (\<forall>r. ends P (k r))"
| "ends P (Stat p k) = (\<forall>r. ends P (k r))"
| "ends P (CreateDir p k) = (\<forall>r. ends P (k r))"
| "ends P (RemoveFile p k) = (\<forall>r. ends P (k r))"
| "ends P (Now k) = (\<forall>r. ends P (k r))"
| "ends P (NextU64 k) = (\<forall>r. ends P (k r))"
| "ends P (RandomBytes n k) = (\<forall>r. ends P (k r))"

lemma ends_bind: "(\<And>a. ends P (g a)) \<Longrightarrow> ends P (bind m g)"
  by (induction m) simp_all

lemma ends_then: "ends Q m \<Longrightarrow> (\<And>a. Q a \<Longrightarrow> ends P (g a)) \<Longrightarrow> ends P (bind m g)"
  by (induction m) simp_all

lemma ends_any: "(\<And>a. P a) \<Longrightarrow> ends P m"
  by (induction m) simp_all

lemma ends_mono: "ends Q m \<Longrightarrow> (\<And>a. Q a \<Longrightarrow> P a) \<Longrightarrow> ends P m"
  by (induction m) simp_all

lemma safe_ends: "safe S I m Q v \<Longrightarrow> ends P m \<Longrightarrow> safe S I m (\<lambda>r u. Q r u \<and> P r) v"
  by (induction m arbitrary: v) (auto simp: safe.simps)

lemma safe_cut: "quiet S \<Longrightarrow> safe S I m Q v \<Longrightarrow> safe S I (cut m n) (\<lambda>a u. \<forall>r. a = Some r \<longrightarrow> Q r u) v"
proof (induction m arbitrary: n v)
qed (auto simp: safe.simps quiet_def split: nat.split)

text \<open>Programs that fail, whatever they are answered.\<close>

definition fails :: "('e + 'a) prog \<Rightarrow> bool" where
  "fails m \<longleftrightarrow> ends (\<lambda>r. \<exists>e. r = Inl e) m"

lemma fails_simps [simp]:
  "fails (Done r) \<longleftrightarrow> (\<exists>e. r = Inl e)" "fails (NextU64 f) \<longleftrightarrow> (\<forall>r. fails (f r))"
  "fails (RemoveDirAll p g) \<longleftrightarrow> (\<forall>r. fails (g r))"
  by (simp_all add: fails_def)

lemma fails_try: "(\<And>x. fails (g x)) \<Longrightarrow> fails (try_as c m g)"
  unfolding fails_def try_as_def by (rule ends_bind) (auto split: sum.splits)

lemma fails_first: "fails m \<Longrightarrow> fails (try_as c m g)"
  unfolding fails_def try_as_def by (erule ends_then) (auto split: sum.splits)

lemma fails_try_res: "(\<And>x. fails (g x)) \<Longrightarrow> fails (try_res c r g)"
  by (simp add: try_res_def split: sum.split)

lemma copy_plain_fails: "br_end content \<noteq> None \<Longrightarrow> fails (copy_plain content p kept)"
proof (induction content p kept rule: copy_plain.induct)
  case (1 content p kept)
  show ?case
  proof (cases "rd_read COPY_CHUNK content")
    case (Pair res rest)
    note rd = rd_read_result [OF Pair]
    show ?thesis
      unfolding copy_plain.simps [of content] Pair
      using rd 1 Pair by (auto simp: COPY_CHUNK_def split: sum.splits intro!: fails_try)
  qed
qed

lemma copy_sealed_fails:
  "br_end content \<noteq> None \<Longrightarrow> ends_if_short current content \<Longrightarrow> fails (copy_sealed E current content p s kept)"
proof (induction E current content p s kept rule: copy_sealed.induct)
  case (1 E current content p s kept)
  show ?case
  proof (cases "read_next current content")
    case (Pair res rest)
    note rd = read_next_result [OF Pair 1(3)]
    have short: "following \<noteq> []" if "res = Inr following" for following
      using rd 1(2) that by (auto simp: ends_if_short_def CHUNK_LEN_def)
    show ?thesis
      unfolding copy_sealed.simps [of E current content] Pair
      using rd 1 Pair short by (auto split: sum.splits prod.splits intro!: fails_try)
  qed
qed

lemma write_content_fails:
  assumes "br_end content \<noteq> None"
  shows "fails (write_content E content p sealer)"
proof -
  have "fails (copy_content E content p s)" for s
  proof (cases s)
    case None
    then show ?thesis unfolding copy_content_def by (auto intro!: fails_first copy_plain_fails assms)
  next
    case (Some cs)
    obtain res rest where r: "read_full CHUNK_LEN content [] = (res, rest)" by fastforce
    have "fails (case res of Inl e \<Rightarrow> Done (Inl (CopyRead e))
        | Inr current \<Rightarrow> tryP (copy_sealed E current rest p cs (hasher_new, [])) (\<lambda>kept. Done (Inr (kept, Some (cs_salt cs)))))"
      using read_full_chunk [OF r] assms by (cases res) (auto intro!: fails_first copy_sealed_fails)
    then show ?thesis
      unfolding copy_content_def Some option.case r prod.case by (intro fails_first fails_try)
  qed
  then show ?thesis by (auto simp: write_content_def split: option.split intro!: fails_try)
qed

lemma put_fails:
  assumes "br_end content \<noteq> None"
  shows "fails (put E st item content)"
proof -
  have s: "fails (stage_and_publish E st item content items staging)" for items staging
    unfolding stage_and_publish_def store_content_def
    by (intro fails_try_res fails_first fails_try write_content_fails assms)
  have "fails (bind (stage_and_publish E st item content items staging) (\<lambda>result. RemoveDirAll staging (\<lambda>_. Done result)))"
    for items staging
    unfolding fails_def by (rule ends_then [OF s [unfolded fails_def]]) simp
  then show ?thesis unfolding put_def by (auto intro!: fails_try fails_try_res)
qed

section \<open>What is delivered\<close>

text \<open>The store \<open>s\<close> holds a whole item with the content key of \<open>b\<close>.\<close>

definition holds :: "'z hext_scheme \<Rightarrow> fs_store \<Rightarrow> fsview \<Rightarrow> bytes \<Rightarrow> bool" where
  "holds E st s b \<longleftrightarrow>
     (\<exists>i m c. id_wf i \<and> id_key i = keyed E st (digest_of E b) \<and> item_at E st s i m c \<and> describes E st i m c)"

text \<open>What finishing the file at \<open>p\<close> may do to the local files.\<close>

definition finished :: "uploader \<Rightarrow> path \<Rightarrow> files \<Rightarrow> files \<Rightarrow> bool" where
  "finished u p x y \<longleftrightarrow>
     (\<exists>c. x p = Some c
        \<and> (case up_after_send u of
              AsDelete \<Rightarrow> y = x(p := None)
            | AsMove \<Rightarrow> \<exists>name. y = (x(p := None))(path_join (up_sent_dir u) name \<mapsto> c)))"

definition untouched :: "os_run \<Rightarrow> os_run \<Rightarrow> bool" where
  "untouched w w' \<longleftrightarrow> (\<exists>log. or_log w' = log @ or_log w \<and> (\<forall>(x, y) \<in> set log. y = x))"

text \<open>The content of a job, for a file what it was when a call of the run \<open>log\<close> looked at it.\<close>

definition job_content :: "png \<Rightarrow> job \<Rightarrow> (files \<times> files) list \<Rightarrow> bytes \<Rightarrow> bool" where
  "job_content P j log b \<longleftrightarrow>
     (case j of
        JobText t \<Rightarrow> b = utf8_encode t
      | JobImage im \<Rightarrow> encode_png P im = Inr b
      | JobFile p \<Rightarrow> \<exists>x. (x, x) \<in> set log \<and> x p = Some b)"

definition delivered ::
  "(fsview \<Rightarrow> bytes \<Rightarrow> bool) \<Rightarrow> png \<Rightarrow> uploader \<Rightarrow> job \<Rightarrow> os_run \<Rightarrow> os_run \<Rightarrow> fsview \<Rightarrow> bool" where
  "delivered H P u j w w' s \<longleftrightarrow>
     (\<exists>log b. or_log w' = log @ or_log w \<and> job_content P j log b \<and> H s b
        \<and> (\<forall>(x, y) \<in> set log. y = x \<or> (\<exists>p. j = JobFile p \<and> finished u p x y)))"

definition sent :: "job_outcome \<Rightarrow> bool" where
  "sent out \<longleftrightarrow> (case out of JSent _ \<Rightarrow> True | JAlreadyPresent \<Rightarrow> True | _ \<Rightarrow> False)"

lemma sent_simps [simp]:
  "sent (JSent i)" "sent JAlreadyPresent" "\<not> sent JSkipped" "\<not> sent JAbandoned" "\<not> sent (JDenied message)"
  by (simp_all add: sent_def)

lemma untouched_refl [simp]: "untouched w w"
  by (simp add: untouched_def)

lemma untouched_trans: "untouched w w1 \<Longrightarrow> untouched w1 w2 \<Longrightarrow> untouched w w2"
proof -
  assume "untouched w w1" "untouched w1 w2"
  then obtain l1 l2 where "or_log w1 = l1 @ or_log w" "\<forall>(x, y) \<in> set l1. y = x"
    "or_log w2 = l2 @ or_log w1" "\<forall>(x, y) \<in> set l2. y = x" unfolding untouched_def by blast
  then show ?thesis unfolding untouched_def by (intro exI [of _ "l2 @ l1"]) auto
qed

lemma untouched_delivered: "untouched w w1 \<Longrightarrow> delivered H P u j w1 w2 s \<Longrightarrow> delivered H P u j w w2 s"
proof -
  assume "untouched w w1" "delivered H P u j w1 w2 s"
  then obtain l1 l2 b where l: "or_log w1 = l1 @ or_log w" "\<forall>(x, y) \<in> set l1. y = x"
    "or_log w2 = l2 @ or_log w1" "job_content P j l2 b" "H s b"
    "\<forall>(x, y) \<in> set l2. y = x \<or> (\<exists>p. j = JobFile p \<and> finished u p x y)" unfolding untouched_def delivered_def by blast
  moreover have "job_content P j (l2 @ l1) b" using l(4) by (auto simp: job_content_def split: job.splits)
  ultimately show ?thesis unfolding delivered_def by (intro exI [of _ "l2 @ l1"] exI [of _ b]) auto
qed

section \<open>The local calls\<close>

lemma os_call_log:
  assumes "os_call f broken w = (r, w')"
  obtains x n where "or_log w' = (x, or_files w') # or_log w"
    "(\<exists>e. r = Inl e \<and> or_files w' = broken n x) \<or> r = fst (f x) \<and> or_files w' = snd (f x)"
proof -
  obtain ev plan where p: "(case or_plan w of [] \<Rightarrow> (os_quiet, []) | e # es \<Rightarrow> (e, es)) = (ev, plan)" by fastforce
  show ?thesis
    by (rule that [of "ev_others ev (or_files w)" "ev_written ev"])
      (use assms p in \<open>auto simp: os_call_def Let_def split: option.splits prod.splits\<close>)
qed

lemma fs_open_log:
  assumes "fs_open p w = (r, w')"
  shows "\<exists>x. or_log w' = (x, x) # or_log w
    \<and> (\<forall>rd. r = Inr rd \<longrightarrow> br_end rd = None \<longrightarrow> x p = Some (br_bytes rd))"
proof -
  obtain r1 w1 where c: "os_call (\<lambda>fs. case fs p of None \<Rightarrow> (Inl no_such_file, fs) | Some b \<Rightarrow> (Inr b, fs)) (\<lambda>_ fs. fs) w = (r1, w1)"
    by fastforce
  obtain x n where x: "or_log w1 = (x, or_files w1) # or_log w"
    "(\<exists>e. r1 = Inl e \<and> or_files w1 = x)
      \<or> r1 = fst (case x p of None \<Rightarrow> (Inl no_such_file, x) | Some b \<Rightarrow> (Inr b, x))
         \<and> or_files w1 = snd (case x p of None \<Rightarrow> (Inl no_such_file, x) | Some b \<Rightarrow> (Inr b, x))"
    by (rule os_call_log [OF c]) blast
  have w1: "or_files w1 = x" "\<And>b. r1 = Inr b \<Longrightarrow> x p = Some b" using x(2) by (auto split: option.splits)
  have "or_log w' = or_log w1" using assms by (auto simp: fs_open_def c split: sum.splits list.splits)
  moreover have "x p = Some (br_bytes rd)" if "r = Inr rd" "br_end rd = None" for rd
    using assms that w1(2)
    by (auto simp: fs_open_def c reader_of_def br_bytes_def split: sum.splits list.splits option.splits)
  ultimately show ?thesis using x(1) w1(1) by auto
qed

lemma finish_file_log: "\<exists>x y. or_log (finish_file u p w) = (x, y) # or_log w \<and> (y = x \<or> finished u p x y)"
proof (cases "up_after_send u")
  case AsMove
  obtain target name where t: "finish_file u p w = snd (fs_rename p target w)" "target = path_join (up_sent_dir u) name"
    unfolding finish_file_def AsMove by (auto simp: Let_def)
  obtain r w' where c: "fs_rename p target w = (r, w')" by fastforce
  show ?thesis
    by (rule os_call_log [OF c [unfolded fs_rename_def]])
      (use t c in \<open>auto simp: finished_def AsMove split: option.splits\<close>)
next
  case AsDelete
  obtain r w' where c: "fs_remove_file p w = (r, w')" by fastforce
  show ?thesis
    by (rule os_call_log [OF c [unfolded fs_remove_file_def]])
      (use c in \<open>auto simp: finish_file_def finished_def AsDelete split: if_splits\<close>)
qed

section \<open>Attempts\<close>

text \<open>
  What sending relies on: a store \<open>D\<close> that, while nobody else works on it, keeps \<open>good\<close> and holds
  what it says it stored or found.
\<close>

locale delivery =
  fixes E :: "'z ext_scheme" and D :: dyn_store and F :: bool and good :: "fsview \<Rightarrow> bool"
    and H :: "fsview \<Rightarrow> bytes \<Rightarrow> bool"
  assumes put_stored: "good s \<Longrightarrow> safe (alone F) good (ds_put D item content)
      (\<lambda>r s. \<forall>out. r = Inr out \<longrightarrow> br_end content = None \<and> H s (br_bytes content)) s"
    and find_stored: "good s \<Longrightarrow> safe (alone F) good (ds_find D (ds_content_key D (digest_of E b)))
      (\<lambda>r s. \<forall>m. r = Inr (Some m) \<longrightarrow> H s b) s"

lemma done_here: "I s \<Longrightarrow> Q a s \<Longrightarrow> safe (alone F) I (Done a) Q s"
  by (simp add: safe.simps)

lemma refl_alone: "st_others (alone F) u u"
  by simp

definition attempted :: "(fsview \<Rightarrow> bytes \<Rightarrow> bool) \<Rightarrow> png \<Rightarrow> uploader \<Rightarrow> job \<Rightarrow> os_run \<Rightarrow> (failure + job_outcome) \<times> os_run \<Rightarrow> fsview \<Rightarrow> bool" where
  "attempted H P u j w a s \<longleftrightarrow>
     (case a of (r, w') \<Rightarrow>
        case r of Inl _ \<Rightarrow> untouched w w' | Inr out \<Rightarrow> sent out \<and> delivered H P u j w w' s)"

lemma sent_outcome [simp]: "sent (outcome_of out)"
  by (simp add: outcome_of_def)

lemma attempted_either: "attempted H P u j w (r, w') s \<Longrightarrow> untouched w w' \<or> delivered H P u j w w' s"
  by (cases r) (auto simp: attempted_def)

text \<open>Opening the store again leaves it as it is and gives the same store.\<close>

definition reopens :: "bool \<Rightarrow> (fsview \<Rightarrow> bool) \<Rightarrow> dyn_store \<Rightarrow> (store_error + dyn_store) prog \<Rightarrow> bool" where
  "reopens F good D open_store \<longleftrightarrow>
     (\<forall>s. good s \<longrightarrow> safe (alone F) good open_store (\<lambda>r s. \<forall>D'. r = Inr D' \<longrightarrow> D' = D) s)"

definition handled_as :: "(fsview \<Rightarrow> bytes \<Rightarrow> bool) \<Rightarrow> png \<Rightarrow> uploader \<Rightarrow> job \<Rightarrow> os_run \<Rightarrow> job_outcome option \<Rightarrow> os_run \<Rightarrow> fsview \<Rightarrow> bool" where
  "handled_as H P u j w out w' s \<longleftrightarrow>
     (case out of
        Some out \<Rightarrow>
          if sent out then delivered H P u j w w' s
          else untouched w w' \<or> out = JAbandoned \<and> delivered H P u j w w' s
      | None \<Rightarrow> untouched w w')"

lemma handled_as_later: "untouched w w1 \<Longrightarrow> handled_as H P u j w1 out w2 s \<Longrightarrow> handled_as H P u j w out w2 s"
  using untouched_trans [of w w1 w2] untouched_delivered [of w w1 H P u j w2 s]
  by (auto simp: handled_as_def split: option.splits if_splits)

lemma finished_store: "finished (u\<lparr>up_store := D\<rparr>) = finished u"
  by (intro ext) (simp add: finished_def split: after_send.split)

lemma delivered_store [simp]: "delivered H P (u\<lparr>up_store := D\<rparr>) j w w' s = delivered H P u j w w' s"
  by (simp add: delivered_def finished_store)

lemma handled_as_store [simp]: "handled_as H P (u\<lparr>up_store := D\<rparr>) j w out w' s = handled_as H P u j w out w' s"
  by (simp add: handled_as_def split: option.split)


context delivery
begin

lemma send_new_stored:
  assumes u: "up_store u = D" and s: "good s" and item: "\<And>Q s. good s \<Longrightarrow> (\<And>i. Q i s) \<Longrightarrow> safe (alone F) good item Q s"
  shows "safe (alone F) good (send_new E u b item) (\<lambda>r s. \<forall>out. r = Inr out \<longrightarrow> sent out \<and> H s b) s"
proof -
  have k: "hasher_finalize E (hasher_update b hasher_new) = digest_of E b"
    by (simp add: hasher_finalize_def digest_of_def hasher_update_def hashed_def)
  show ?thesis
    unfolding send_new_def Let_def k u try_as_def
  proof (rule safe_bind [OF find_stored [OF s] _ refl_alone], goal_cases)
    case (1 r s')
    show ?case
    proof (cases "\<exists>e. r = Inl e \<or> (\<exists>m. r = Inr (Some m))")
      case True
      then show ?thesis using 1 by (auto intro!: done_here simp: sent_def)
    next
      case False
      then have r: "r = Inr None" by (metis option.exhaust sum.exhaust)
      show ?thesis
        unfolding r sum.case option.case
      proof (rule safe_bind [OF item [OF 1(1)] _ refl_alone])
        show "True" for i :: new_item by simp
        fix i s1 assume "good s1"
        from put_stored [OF this]
        show "safe (alone F) good (bind (ds_put D i (reader_of b)) (\<lambda>r. case r of Inl e \<Rightarrow> Done (Inl (FaStore e))
             | Inr out \<Rightarrow> Done (Inr (outcome_of out)))) (\<lambda>r s. \<forall>out. r = Inr out \<longrightarrow> sent out \<and> H s b) s1"
          by (rule safe_bind [OF _ _ refl_alone])
            (auto intro!: done_here simp: reader_of_def br_bytes_def split: sum.splits)
      qed
    qed
  qed
qed

lemma send_file_stored:
  assumes u: "up_store u = D" and s: "good s"
  shows "safe (alone F) good (send_file E u p w) (attempted H P u (JobFile p) w) s"
proof (cases "os_file_name p")
  case None
  then show ?thesis by (auto simp: send_file_def attempted_def intro!: done_here s)
next
  case (Some name)
  obtain r w1 where o: "fs_open p w = (r, w1)" by fastforce
  obtain x where x: "or_log w1 = (x, x) # or_log w" "\<And>rd. r = Inr rd \<Longrightarrow> br_end rd = None \<Longrightarrow> x p = Some (br_bytes rd)"
    using fs_open_log [OF o] by blast
  have un: "untouched w w1" using x(1) by (simp add: untouched_def)
  show ?thesis
  proof (cases r)
    case (Inl e)
    then show ?thesis using un by (auto simp: send_file_def Some o attempted_def intro!: done_here s)
  next
    case (Inr rd)
    obtain y z where f: "or_log (finish_file u p w1) = (y, z) # or_log w1" "z = y \<or> finished u p y z"
      using finish_file_log by blast
    have "delivered H P u (JobFile p) w (finish_file u p w1) s'" if "br_end rd = None" "H s' (br_bytes rd)" for s'
      unfolding delivered_def using that x f Inr
      by (intro exI [of _ "[(y, z), (x, x)]"] exI [of _ "br_bytes rd"]) (auto simp: job_content_def)
    then show ?thesis
      unfolding send_file_def Some option.case o prod.case Inr sum.case u
      by (intro safe_bind [OF put_stored [OF s] _ refl_alone])
        (auto intro!: done_here un simp: attempted_def split: sum.splits store_error.splits)
  qed
qed

lemma attempt_stored:
  assumes u: "up_store u = D" and s: "good s"
  shows "safe (alone F) good (attempt E P u j w) (attempted H P u j w) s"
proof -
  have plainly: "delivered H P u j w w s'" if "job_content P j [] b" "H s' b" for b s'
    unfolding delivered_def using that by (intro exI [of _ "[]"] exI [of _ b]) simp
  show ?thesis
  proof (cases j)
    case (JobText t)
    show ?thesis
      unfolding attempt_def JobText job.case send_text_def
      by (rule safe_bind [OF send_new_stored [OF u s] _ refl_alone])
        (use plainly in \<open>auto intro!: done_here simp: attempted_def JobText job_content_def split: sum.splits\<close>)
  next
    case (JobFile p)
    then show ?thesis using send_file_stored [OF assms] by (simp add: attempt_def)
  next
    case (JobImage im)
    show ?thesis
    proof (cases "encode_png P im")
      case (Inl e)
      then show ?thesis by (auto simp: attempt_def JobImage send_image_def attempted_def intro!: done_here s)
    next
      case (Inr b)
      have "safe (alone F) good (Now (\<lambda>now. Done (new_clipboard_image E (up_device u) now))) Q s"
        if "good s" "\<And>i. Q i s" for Q s
        using that by (simp add: safe.simps)
      note sent_new = send_new_stored [OF u s this]
      show ?thesis
        unfolding attempt_def JobImage job.case send_image_def Inr sum.case
        by (rule safe_bind [OF sent_new _ refl_alone])
          (use plainly Inr in \<open>auto intro!: done_here simp: attempted_def JobImage job_content_def split: sum.splits\<close>)
    qed
  qed
qed

lemma attempted_until:
  assumes u: "up_store u = D" and s: "good s"
  shows "safe (alone F) good (attempt_until E P u j w sig)
    (\<lambda>(result, w') s. case result of
        None \<Rightarrow> untouched w w' \<or> delivered H P u j w w' s
      | Some r \<Rightarrow> attempted H P u j w (r, w') s) s"
proof -
  note a = attempt_stored [OF u s, of P j w]
  have whole: "safe (alone F) good (bind (attempt E P u j w) (\<lambda>(r, w). Done (Some r, w)))
    (\<lambda>(result, w') s. case result of
        None \<Rightarrow> untouched w w' \<or> delivered H P u j w w' s
      | Some r \<Rightarrow> attempted H P u j w (r, w') s) s"
    by (rule safe_bind [OF a _ refl_alone]) (auto intro!: done_here)
  show ?thesis
  proof (cases sig)
    case (StopsDuring n)
    show ?thesis
      unfolding attempt_until_def StopsDuring stop_signal.case
      by (rule safe_bind [OF safe_cut [OF quiet_alone(1) a] _ refl_alone]) (auto intro!: done_here split: option.splits)
  next
    case StopsFinishing
    show ?thesis
      unfolding attempt_until_def StopsFinishing stop_signal.case
      by (rule safe_bind [OF a _ refl_alone]) (auto intro!: done_here dest: attempted_either)
  qed (use whole in \<open>simp_all add: attempt_until_def\<close>)
qed

lemma retries_handled:
  assumes o: "reopens F good D open_store"
  shows "up_store u = D \<Longrightarrow> good s \<Longrightarrow>
    safe (alone F) good (handle_with_retries E P open_store j ss b waits u w)
      (\<lambda>(out, waits', u', w') s. handled_as H P u j w out w' s) s"
proof (induction ss arbitrary: b waits u w s)
  case Nil
  then show ?case by (auto simp: handled_as_def intro!: done_here)
next
  case (Cons sig ss)
  note u = Cons.prems(1)
  show ?case
    unfolding handle_with_retries.simps
  proof (rule safe_bind [OF attempted_until [OF Cons.prems] _ refl_alone], goal_cases)
    case (1 a s1)
    obtain result w1 where a: "a = (result, w1)" by (cases a)
    have later: "safe (alone F) good (handle_with_retries E P open_store j ss b' waits' u' w1)
        (\<lambda>(out, waits', u', w') s. handled_as H P u j w out w' s) s2"
      if "untouched w w1" "good s2" "u' = u \<or> u' = u\<lparr>up_store := D\<rparr>" for b' waits' u' s2
      by (rule safe_post [OF Cons.IH [of u' s2 b' waits' w1]])
        (use that u handled_as_later [OF that(1), of H P u j] in auto)
    have unsent: "handled_as H P u j w (Some out) w1 s2" if "untouched w w1" "\<not> sent out" for out s2
      using that by (simp add: handled_as_def)
    have again: "safe (alone F) good (bind open_store (\<lambda>r. case r of
          Inr store \<Rightarrow> handle_with_retries E P open_store j ss b' waits' (u\<lparr>up_store := store\<rparr>) w1
        | Inl (SeDenied message) \<Rightarrow> Done (Some (JDenied message), waits', u, w1)
        | Inl e \<Rightarrow> handle_with_retries E P open_store j ss b' waits' u w1))
        (\<lambda>(out, waits', u', w') s. handled_as H P u j w out w' s) s1" if "untouched w w1" for b' waits'
      by (rule safe_bind [OF o [unfolded reopens_def, rule_format, OF 1(1)] _ refl_alone])
        (use later [OF that] unsent [OF that] in \<open>auto intro!: done_here split: sum.splits store_error.splits\<close>)
    show ?case
    proof (cases result)
      case None
      then show ?thesis using 1 a by (auto simp: handled_as_def sent_def intro!: done_here)
    next
      case (Some r)
      show ?thesis
      proof (cases r)
        case (Inr out)
        then show ?thesis using 1 a Some by (auto simp: handled_as_def attempted_def intro!: done_here)
      next
        case (Inl f)
        then have un: "untouched w w1" using 1 a Some by (simp add: attempted_def)
        have ended: "safe (alone F) good (Done (Some out, waits', u', w1))
            (\<lambda>(out, waits', u', w') s. handled_as H P u j w out w' s) s1" if "\<not> sent out" for out waits' u'
          using 1(1) un that by (auto simp: handled_as_def intro!: done_here)
        show ?thesis
          unfolding a Some Inl prod.case option.case sum.case
          by (cases f) (auto intro!: again [OF un] ended simp: Let_def split: store_error.split prod.split)
      qed
    qed
  qed
qed

end

section \<open>An FsStore delivers\<close>

text \<open>An \<open>FsStore\<close> in order, with items that fit what it reads back; \<open>v0\<close> are the files before.\<close>

definition deliverable :: "'z hext_scheme \<Rightarrow> fs_store \<Rightarrow> fsview \<Rightarrow> fsview \<Rightarrow> bool" where
  "deliverable E st v0 s \<longleftrightarrow>
     fext_laws E \<and> (st_plain_guard st \<longrightarrow> st_sealer st = None)
     \<and> (\<forall>item m. completes E item m \<longrightarrow> fits E (st_sealer st) m) \<and> store_inv E st {} UNIV v0 s"

lemma fs_put_stored:
  assumes "deliverable E st v0 s"
  shows "safe (alone F) (deliverable E st v0) (put E st item content)
    (\<lambda>r s. \<forall>out. r = Inr out \<longrightarrow> br_end content = None \<and> holds E st s (br_bytes content)) s"
proof -
  note a = assms [unfolded deliverable_def]
  have p: "safe (alone F) (store_inv E st {} UNIV v0) (put E st item content)
    (\<lambda>r u. store_inv E st {} UNIV v0 u
       \<and> put_done E st (alone F) {} (names_in st s) (br_bytes content) (put_may_fail E st (alone F) item content s) r u) s"
    by (rule put_safe [OF _ quiet_client [OF quiet_alone(1)]]) (use a in simp_all)
  have "ends (\<lambda>r. \<forall>out. r = Inr out \<longrightarrow> br_end content = None) (put E st item content)"
  proof (cases "br_end content")
    case None
    then show ?thesis by (simp add: ends_any)
  next
    case (Some e)
    then show ?thesis
      by (intro ends_mono [OF put_fails [of content E st item, unfolded fails_def]]) auto
  qed
  from safe_ends [OF p this] have "safe (alone F) (store_inv E st {} UNIV v0) (put E st item content)
    (\<lambda>r s. \<forall>out. r = Inr out \<longrightarrow> br_end content = None \<and> holds E st s (br_bytes content)) s"
    by (rule safe_post) (auto simp: put_done_def Let_def holds_def split: sum.splits)
  then show ?thesis by (rule safe_inv) (use a in \<open>simp add: deliverable_def\<close>)
qed

lemma fs_find_stored:
  assumes "deliverable E st v0 s"
  shows "safe (alone F) (deliverable E st v0) (find_by_content_key E st (keyed E st (digest_of E b)))
    (\<lambda>r u. \<forall>m. r = Inr (Some m) \<longrightarrow> holds E st u b) s"
proof (rule safe_post)
  have "items_in_dir st s" using assms by (simp add: deliverable_def store_inv_def)
  then have "answers (st_faulty (alone F)) s (find_by_content_key E st (keyed E st (digest_of E b)))
      (found_key F E st s (keyed E st (digest_of E b)))"
    using find_by_key_answer [of st s F E "keyed E st (digest_of E b)"] by simp
  then show "safe (alone F) (deliverable E st v0) (find_by_content_key E st (keyed E st (digest_of E b)))
    (\<lambda>r u. u = s \<and> found_key F E st s (keyed E st (digest_of E b)) r) s"
    by (rule answers_safe) (simp_all only: reads_only_ops quiet_alone assms)
  fix r u assume u: "u = s \<and> found_key F E st s (keyed E st (digest_of E b)) r"
  have whole:  "holds E st s b" if "id_wf i" "s (item_path st i) = Some VDir" "id_key i = keyed E st (digest_of E b)" for i
  proof -
    have "whole E st s i" using assms that(1,2) by (simp add: deliverable_def store_inv_def store_ok_def)
    then show ?thesis using that unfolding whole_def holds_def by blast
  qed
  show "\<forall>m. r = Inr (Some m) \<longrightarrow> holds E st u b"
  proof (intro allI impI)
    fix m assume "r = Inr (Some m)"
    with u obtain i where "id_wf i" "s (item_path st i) = Some VDir" "id_key i = keyed E st (digest_of E b)"
      by (auto simp: found_key_def)
    from whole [OF this] u show "holds E st u b" by simp
  qed
qed

interpretation fs_delivery: delivery E "fs_dyn E st" F "deliverable E st v0" "holds E st"
  by unfold_locales (unfold fs_dyn_def dyn_store.simps, (rule fs_put_stored fs_find_stored, assumption)+)


lemma sample_deliverable: "deliverable sample_ext store_new [[] \<mapsto> VDir] [[] \<mapsto> VDir]"
proof -
  have "store_inv sample_ext store_new {} UNIV [[] \<mapsto> VDir] [[] \<mapsto> VDir]"
    by (rule own_inv [OF empty_files(2,1)]) simp_all
  then show ?thesis by (simp add: deliverable_def sample_ext_laws(1) sample_fits) (simp add: store_new_def)
qed

definition sample_uploader :: uploader where
  "sample_uploader =
     \<lparr>up_store = fs_dyn sample_ext store_new, up_device = ustr ''laptop'', up_after_send = AsDelete,
      up_sent_dir = ustr ''d/sent''\<rparr>"


end
