(* ===== verification/Command_Laws.thy ===== *)
theory Command_Laws
  imports Commands Rewrite_Laws Upload_Laws
begin

text \<open>
  What the commands that delete guarantee. The locale \<open>deletions\<close> is what they rely on: deleting an
  item and cleaning up leave the other items alone, and a listing is exact.
\<close>

section \<open>Deleting, for any store\<close>

locale deletions =
  fixes D :: dyn_store and clean :: "nat \<Rightarrow> (store_error + nat) prog" and good :: "fsview \<Rightarrow> bool"
    and there :: "fsview \<Rightarrow> item_meta list" and K :: "item_id set \<Rightarrow> fsview \<Rightarrow> fsview \<Rightarrow> bool"
  assumes kept_refl: "K X v v"
    and listed_all: "good v \<Longrightarrow> answers False v (ds_list D) (\<lambda>r. \<forall>ms. r = Inr ms \<longrightarrow> ms = there v)"
    and deletes: "good v \<Longrightarrow> i \<in> meta_id ` set (there v) \<Longrightarrow> i \<in> X \<Longrightarrow> K X v u \<Longrightarrow>
      safe (alone False) (K X v) (ds_delete D i) (\<lambda>_. K X v) u"
    and cleans: "K X v u \<Longrightarrow> safe (alone False) (K X v) (clean n) (\<lambda>_. K X v) u"

lemma quietly: "I u \<Longrightarrow> Q a u \<Longrightarrow> safe (alone F) I (Done a) Q u"
  by (simp add: safe.simps)

lemma quiet_refl: "st_others (alone F) u u"
  by simp

text \<open>Commands end at a failing step, so what holds before a step holds after the command stopped.\<close>

lemma safe_on_store:
  assumes "safe (alone F) I m P u" "\<And>x u. I u \<Longrightarrow> P (Inr x) u \<Longrightarrow> safe (alone F) I (k x) Q u"
    and "\<And>e u. I u \<Longrightarrow> P (Inl e) u \<Longrightarrow> Q (Inl (c e), t) u"
  shows "safe (alone F) I (on_store c m t k) Q u"
  unfolding on_store_def
  by (rule safe_bind [OF assms(1) _ quiet_refl]) (auto intro: assms(2,3) quietly split: sum.split)

lemma safe_on_tty:
  assumes "I u" "\<And>x t. rt = (Inr x, t) \<Longrightarrow> safe (alone F) I (k x t) Q u" "\<And>e t. rt = (Inl e, t) \<Longrightarrow> Q (Inl (CeIo e), t) u"
  shows "safe (alone F) I (on_tty rt k) Q u"
  using assms by (auto simp: on_tty_def intro!: quietly split: prod.splits sum.splits)

text \<open>Whether \<open>prune\<close> was told to go on: with \<open>--yes\<close>, or by the answer to its question.\<close>

definition agreed :: "prune_options \<Rightarrow> tty \<Rightarrow> bool" where
  "agreed opts t \<longleftrightarrow>
     \<not> pr_dry_run opts
     \<and> (pr_yes opts
        \<or> tt_interactive t \<and> (case tt_answers t of Inr a # _ \<Rightarrow> is_yes a | _ \<Rightarrow> False))"

definition doomed :: "datetime \<Rightarrow> prune_options \<Rightarrow> datetime \<Rightarrow> tty \<Rightarrow> item_meta list \<Rightarrow> item_id set" where
  "doomed min_utc opts now t ms =
     (if agreed opts t then set (select min_utc ms now (pr_older_than opts) (pr_keep opts)) else {})"

lemma not_yes_empty: "\<not> is_yes []"
  by (simp add: is_yes_def trim_ws_def trim_both_def trim_start_def trim_end_def ascii_lowercase_def ustr_def)

lemma printed: "tt_print x t = (r, t') \<Longrightarrow> tt_interactive t' = tt_interactive t \<and> tt_answers t' = tt_answers t"
  by (auto simp: tt_print_def split: option.splits)

lemma shown_there: "tt_show x t = (r, t') \<Longrightarrow> tt_interactive t' = tt_interactive t \<and> tt_answers t' = tt_answers t"
  by (auto simp: tt_show_def split: option.splits)

lemma confirmed:
  assumes "tt_confirm q t = (Inr True, t')"
  shows "case tt_answers t of Inr a # _ \<Rightarrow> is_yes a | _ \<Rightarrow> False"
  using assms not_yes_empty
  by (auto simp: tt_confirm_def tt_read_def Let_def split: prod.splits sum.splits list.splits)

context deletions
begin

lemma delete_ids_kept:
  assumes "good v" "set ids \<subseteq> meta_id ` set (there v)" "set ids \<subseteq> X"
  shows "K X v u \<Longrightarrow> safe (alone False) (K X v) (delete_ids D line ids t) (\<lambda>_. K X v) u"
  using assms(2,3)
proof (induction ids arbitrary: t u)
  case Nil
  then show ?case by (auto intro: quietly)
next
  case (Cons i ids)
  have rest: "safe (alone False) (K X v) (delete_ids D line ids t) (\<lambda>_. K X v) u" if "K X v u" for t u
    by (rule Cons.IH [OF that]) (use Cons.prems in auto)
  show ?case
    unfolding delete_ids.simps
    by (rule safe_on_store [OF deletes [OF assms(1) _ _ Cons.prems(1)]])
      (use Cons.prems rest in \<open>auto intro!: safe_on_tty split: option.split\<close>)
qed

lemma prune_staging_kept: "K X v u \<Longrightarrow> safe (alone False) (K X v) (prune_staging D clean dry t) (\<lambda>_. K X v) u"
  unfolding prune_staging_def
  by (auto intro!: quietly safe_on_store [OF cleans] safe_on_tty)

lemma prune_selected_kept:
  assumes "good v" "meta_id ` set selected \<subseteq> X" "set selected \<subseteq> set (there v)" "K X v u"
  shows "safe (alone False) (K X v) (prune_selected D clean opts selected t) (\<lambda>_. K X v) u"
  unfolding prune_selected_def
  by (rule safe_bind [OF delete_ids_kept [OF assms(1) _ _ assms(4)] _ quiet_refl])
    (use assms(2,3) in \<open>auto split: sum.splits intro!: quietly safe_on_tty prune_staging_kept\<close>)

lemma prune_asking_kept:
  assumes v: "good v" "set selected \<subseteq> set (there v)" and X: "agreed opts t \<Longrightarrow> meta_id ` set selected \<subseteq> X"
    and u: "K X v u"
  shows "safe (alone False) (K X v) (prune_asking D clean opts shown_list selected t) (\<lambda>_. K X v) u"
proof -
  have stop: "safe (alone False) (K X v) (on_tty (tt_print l t') (\<lambda>_ t'. Done (Inr (), t'))) (\<lambda>_. K X v) u" for l t'
    by (rule safe_on_tty) (auto intro: u quietly)
  have go: "safe (alone False) (K X v) (prune_selected D clean opts selected t') (\<lambda>_. K X v) u" if "agreed opts t" for t'
    by (rule prune_selected_kept [OF v(1) X [OF that] v(2) u])
  have asked: "safe (alone False) (K X v) (on_tty (tt_confirm q t') (\<lambda>yes t.
        if \<not> yes then on_tty (tt_print (ustr ''nothing deleted'') t) (\<lambda>_ t. Done (Inr (), t))
        else prune_selected D clean opts selected t)) (\<lambda>_. K X v) u"
    if "\<not> pr_dry_run opts" "tt_interactive t" and same: "tt_answers t' = tt_answers t" for q t'
  proof (rule safe_on_tty)
    show "K X v u" by (rule u)
  next
    fix yes t2 assume c: "tt_confirm q t' = (Inr yes, t2)"
    show "safe (alone False) (K X v) (if \<not> yes then on_tty (tt_print (ustr ''nothing deleted'') t2) (\<lambda>_ t. Done (Inr (), t))
        else prune_selected D clean opts selected t2) (\<lambda>_. K X v) u"
    proof (cases yes)
      case True
      with confirmed [of q t' t2] c same have "case tt_answers t of Inr a # _ \<Rightarrow> is_yes a | _ \<Rightarrow> False" by metis
      then have "agreed opts t" using that by (simp add: agreed_def)
      from go [OF this] True show ?thesis by simp
    qed (use stop in simp)
  qed (use u in simp)
  have quietly_asked: "safe (alone False) (K X v)
      (on_tty (if pr_quiet opts then tt_show shown_list t else (Inr (), t)) (\<lambda>_ t. on_tty (tt_confirm q t) (\<lambda>yes t.
        if \<not> yes then on_tty (tt_print (ustr ''nothing deleted'') t) (\<lambda>_ t. Done (Inr (), t))
        else prune_selected D clean opts selected t))) (\<lambda>_. K X v) u"
    if "\<not> pr_dry_run opts" "tt_interactive t" for q
    by (rule safe_on_tty [OF u asked]) (use that u in \<open>auto split: if_splits dest: shown_there\<close>)
  show ?thesis
    unfolding prune_asking_def Let_def
    using stop go quietly_asked by (auto simp: agreed_def intro: quietly u)
qed

lemma prune_kept:
  assumes v: "good v"
  shows "safe (alone False) (K (doomed min_utc opts now t (there v)) v) (run_prune min_utc D clean render opts now t)
    (\<lambda>_. K (doomed min_utc opts now t (there v)) v) v"
proof (cases "pr_older_than opts = None \<and> pr_keep opts = None")
  case True
  then show ?thesis by (auto simp: run_prune_def fails_with_def intro: quietly kept_refl)
next
  case some: False
  let ?X = "doomed min_utc opts now t (there v)"
  let ?ids = "select min_utc (there v) now (pr_older_than opts) (pr_keep opts)"
  note k = kept_refl [of ?X v]
  have l: "safe (alone False) (K ?X v) (ds_list D) (\<lambda>r u. u = v \<and> (\<forall>ms. r = Inr ms \<longrightarrow> ms = there v)) v"
    by (rule safe_inv [OF safe_post [OF listed_all [OF v, unfolded answers_def]]]) (use k in auto)
  have asking: "safe (alone False) (K ?X v)
      (prune_asking D clean opts shown_list (filter (\<lambda>m. meta_id m \<in> set ?ids) (there v)) t') (\<lambda>_. K ?X v) v"
    if "tt_interactive t' = tt_interactive t \<and> tt_answers t' = tt_answers t" for shown_list t'
    by (rule prune_asking_kept [OF v _ _ k]) (use that in \<open>auto simp: doomed_def agreed_def\<close>)
  show ?thesis
    unfolding run_prune_def if_not_P [OF some]
  proof (rule safe_on_store [OF l])
    fix x u assume "u = v \<and> (\<forall>ms. (Inr x :: store_error + item_meta list) = Inr ms \<longrightarrow> ms = there v)"
    then have x: "x = there v" "u = v" by simp_all
    show "safe (alone False) (K ?X v)
       (let ids = select min_utc x now (pr_older_than opts) (pr_keep opts);
            selected = filter (\<lambda>m. meta_id m \<in> set ids) x; n = length selected;
            shown_list = decimal n @ ustr '' '' @ items_word n @ ustr '' to delete:'' @ [10] @ render selected in
        if selected = []
        then on_tty (tt_print (ustr ''nothing to prune'') t) (\<lambda>_ t. prune_staging D clean (pr_dry_run opts) t)
        else on_tty (tt_print shown_list t) (\<lambda>_ t. prune_asking D clean opts shown_list selected t)) (\<lambda>_. K ?X v) u"
      unfolding Let_def x
      by (auto intro!: safe_on_tty k prune_staging_kept asking dest: printed)
  qed (use k in simp)
qed

end

section \<open>An FsStore provides it\<close>

text \<open>The listing of a store, and everything of the items other than \<open>X\<close> being as before.\<close>

definition fs_listed :: "'z hext_scheme \<Rightarrow> fs_store \<Rightarrow> fsview \<Rightarrow> item_meta list" where
  "fs_listed E st v =
     (if \<exists>l. sorted_wrt (>) l \<and> set l = fs_ids st v
      then List.map_filter (fs_there E st v) (SOME l. sorted_wrt (>) l \<and> set l = fs_ids st v) else [])"

definition kept_items :: "fs_store \<Rightarrow> item_id set \<Rightarrow> fsview \<Rightarrow> fsview \<Rightarrow> bool" where
  "kept_items st X v u \<longleftrightarrow>
     (\<forall>n s. n \<notin> id_repr ` X \<longrightarrow> u (items_path st @ n # s) = v (items_path st @ n # s))"

lemma same_ids:
  "sorted_wrt (>) l \<Longrightarrow> sorted_wrt (>) l' \<Longrightarrow> set l = set l' \<Longrightarrow> l = (l' :: item_id list)"
proof (induction l arbitrary: l')
  case (Cons i l)
  then obtain j k where l': "l' = j # k" by (cases l') auto
  have "i = j"
  proof (rule ccontr)
    assume "i \<noteq> j"
    then have "j < i" "i < j" using Cons.prems l' by auto
    then show False by simp
  qed
  moreover have "set l = set k" using Cons.prems l' \<open>i = j\<close> by auto
  ultimately show ?case using Cons l' by auto
qed simp

lemma fs_listed_is:
  assumes "sorted_wrt (>) l" "set l = fs_ids st v"
  shows "fs_listed E st v = List.map_filter (fs_there E st v) l"
proof -
  have "(SOME l. sorted_wrt (>) l \<and> set l = fs_ids st v) = l"
    by (rule some_equality) (use assms same_ids in \<open>blast+\<close>)
  then show ?thesis using assms unfolding fs_listed_def by auto
qed

lemma fs_listed_wf: "m \<in> set (fs_listed E st v) \<Longrightarrow> id_wf (meta_id m)"
proof (cases "\<exists>l. sorted_wrt (>) l \<and> set l = fs_ids st v")
  case True
  then obtain l where "sorted_wrt (>) l" "set l = fs_ids st v" by blast
  then show "m \<in> set (fs_listed E st v) \<Longrightarrow> id_wf (meta_id m)"
    by (auto simp: fs_listed_is List.map_filter_def fs_ids_def fs_there_def dest: readable_id)
qed (simp add: fs_listed_def)

lemma items_apart: "\<not> is_under (items_path st @ n # s) (tmp_path st)" "\<not> is_under (tmp_path st) (items_path st @ n # s)"
  "\<not> is_under [''tmp''] (items_path st @ n # s)"
  by (auto simp: is_under_def items_path_def tmp_path_def)

lemma kept_items_blind: "staging_blind st (alone F) (kept_items st X v)"
  unfolding staging_blind_def
proof (intro conjI allI impI)
  show "stable (alone F) (kept_items st X v)" by (rule quiet_stable) simp
  show "kept_items st X v u'" if "kept_items st X v u" "\<forall>q. \<not> is_under (tmp_path st) q \<and> \<not> is_under [''tmp''] q \<longrightarrow> u' q = u q" for u u'
    using that items_apart by (simp add: kept_items_def)
  show "kept_items st X v (mk_dirs q u)" if "kept_items st X v u" "is_under q (tmp_path st)" for u q
  proof -
    have "\<not> is_under (items_path st @ n # s) q" for n s
      using items_apart(1) under_trans [OF _ that(2)] by blast
    then show ?thesis using that(1) by (simp add: kept_items_def mk_dirs_def)
  qed
qed

definition delete_paths :: "fs_store \<Rightarrow> item_id \<Rightarrow> string list \<Rightarrow> bool" where
  "delete_paths st i p \<longleftrightarrow> is_under (item_path st i) p \<or> is_under (tmp_path st) p"

lemma changes_delete: "id_wf i \<Longrightarrow> changes (delete_paths st i) (delete_item E st i)"
  unfolding delete_item_def dirs_are item_dir_is try_res_simps
  by (auto intro!: changes_simps changes_reads [OF reads_only_ops(1)] changes_reads [OF reads_only_ops(3)]
      simp: delete_paths_def is_under_def dest!: join_wf split: sum.splits)

lemma spared_kept_items:
  assumes "i \<in> X"
  shows "spared (delete_paths st i) (kept_items st X v)"
  unfolding spared_def kept_items_def
proof (intro allI impI)
  fix u u' n s assume k: "\<forall>n s. n \<notin> id_repr ` X \<longrightarrow> u (items_path st @ n # s) = v (items_path st @ n # s)"
    and t: "touched (delete_paths st i) u u'" and n: "n \<notin> id_repr ` X"
  have "u' (items_path st @ n # s) = u (items_path st @ n # s)"
  proof (rule ccontr)
    assume "u' (items_path st @ n # s) \<noteq> u (items_path st @ n # s)"
    then obtain p where p: "delete_paths st i p"
      "is_under p (items_path st @ n # s) \<or> is_under (items_path st @ n # s) p"
      using t unfolding touched_def by blast
    have "n \<noteq> id_repr i" using n assms by blast
    then have a: "\<not> is_under (item_path st i) (items_path st @ n # s)" by (auto simp: item_path_def is_under_def)
    have b: "\<not> is_under (item_path st i) p" "\<not> is_under (tmp_path st) p" if "is_under (items_path st @ n # s) p"
      using under_linear [OF _ that, of "item_path st i"] under_linear [OF _ that, of "tmp_path st"] a
        items_apart [of st n s] \<open>n \<noteq> id_repr i\<close> by (auto simp: item_path_def is_under_def)
    show False
      using p a b items_apart(2) [of st n s] unfolding delete_paths_def by (meson under_trans)
  qed
  then show "u' (items_path st @ n # s) = v (items_path st @ n # s)" using k n by simp
qed

interpretation fs_deletions: deletions "fs_dyn E st" "clean_staging min_utc st" "fs_good E st" "fs_listed E st" "kept_items st"
proof unfold_locales
  show "kept_items st X v v" for X v by (simp add: kept_items_def)
  show "answers False v (ds_list (fs_dyn E st)) (\<lambda>r. \<forall>ms. r = Inr ms \<longrightarrow> ms = fs_listed E st v)" if "fs_good E st v" for v
    unfolding fs_dyn_def dyn_store.simps
    by (rule answers_mono [OF list_items_answer [OF that]]) (auto simp: fs_listed_is)
  show "safe (alone False) (kept_items st X v) (clean_staging min_utc st n) (\<lambda>_. kept_items st X v) u"
    if "kept_items st X v u" for X v n u
    by (rule clean_staging_blind [OF kept_items_blind that])
  show "safe (alone False) (kept_items st X v) (ds_delete (fs_dyn E st) i) (\<lambda>_. kept_items st X v) u"
    if g: "fs_good E st v" and i: "i \<in> meta_id ` set (fs_listed E st v)" "i \<in> X" and u: "kept_items st X v u" for X v i u
  proof -
    have "id_wf i" using fs_listed_wf i(1) by blast
    then show ?thesis
      unfolding fs_dyn_def dyn_store.simps
      by (intro changes_safe [OF changes_delete spared_kept_items [OF i(2)] _ u])
        (simp_all add: delete_paths_def item_path_def items_path_def tmp_path_def is_under_def)
  qed
qed

text \<open>C27: Pruning changes only the items both rules leave unprotected among those the store lists, at every moment,
  also when a deletion fails half-way; and it changes no item at all when it is a dry run, when
  nobody can be asked and \<open>--yes\<close> was not given, or when the answer is not yes.\<close>

theorem prune_spares_the_rest:
  assumes "fs_good E st v" "sorted_wrt (>) l" "set l = fs_ids st v"
    and "items = List.map_filter (fs_there E st v) l"
    and "X = (if agreed opts t then set (select min_utc items now (pr_older_than opts) (pr_keep opts)) else {})"
  shows "safe (alone False) (kept_items st X v)
    (run_prune min_utc (fs_dyn E st) (clean_staging min_utc st) render opts now t) (\<lambda>_. kept_items st X v) v"
  using fs_deletions.prune_kept [OF assms(1), where min_utc = min_utc and opts = opts and now = now and t = t and render = render]
  unfolding fs_listed_is [OF assms(2,3)] doomed_def assms(4) [symmetric] assms(5) [symmetric] .

definition sample_tty :: tty where
  "sample_tty =
     \<lparr>tt_interactive = True, tt_answers = [Inr (ustr ''no'')], tt_asked = [], tt_out = [], tt_err = [],
      tt_fault = (\<lambda>_. None), tt_err_fault = (\<lambda>_. None)\<rparr>"

definition sample_prune :: prune_options where
  "sample_prune =
     \<lparr>pr_older_than = None, pr_keep = Some 0, pr_dry_run = False, pr_yes = False, pr_quiet = False\<rparr>"

lemma sample_good: "fs_good sample_ext store_new [[] \<mapsto> VDir]" "fs_ids store_new [[] \<mapsto> VDir] = {}"
  using empty_files(4) [of sample_ext]
  by (auto simp: fs_good_def wf_items_in_dir empty_files(1) metas_are_files_def meta_file_def
      item_path_def fs_ids_def store_new_def items_path_def)

theorem prune_spares_the_rest_witness:
  "safe (alone False) (kept_items store_new {} [[] \<mapsto> VDir])
    (run_prune 0 (fs_dyn sample_ext store_new) (clean_staging 0 store_new) (\<lambda>_. []) sample_prune 9 sample_tty)
    (\<lambda>_. kept_items store_new {} [[] \<mapsto> VDir]) [[] \<mapsto> VDir]"
  by (rule prune_spares_the_rest [OF sample_good(1), of "[]"])
    (simp_all add: sample_good(2) List.map_filter_def agreed_def sample_prune_def sample_tty_def select_def
      is_yes_def trim_ws_def trim_both_def trim_start_def trim_end_def ascii_lowercase_def ustr_def is_whitespace_def)

section \<open>Nothing is deleted when an id is not found\<close>

text \<open>Asking does not change whether somebody can be asked.\<close>

lemma asked_same: "tt_ask q d t = (r, t') \<Longrightarrow> tt_interactive t' = tt_interactive t"
  by (auto simp: tt_ask_def tt_read_def Let_def split: prod.splits sum.splits list.splits if_splits)

lemma all_shown: "tt_show_all ls t = (r, t') \<Longrightarrow> tt_interactive t' = tt_interactive t"
  by (induction ls arbitrary: t) (auto split: prod.splits sum.splits dest!: shown_there)

lemma choose_same: "choose_among ids n t = (r, t') \<Longrightarrow> tt_interactive t' = tt_interactive t"
proof (induction n arbitrary: t)
  case (Suc n)
  have again: "tt_interactive t' = tt_interactive u"
    if "tt_show l u = (Inr x, u')" "choose_among ids n u' = (r, t')" for l u x u'
    using Suc.IH [OF that(2)] shown_there [OF that(1)] by simp
  show ?case
    using Suc.prems
    by (auto simp: Let_def dest: again asked_same shown_there split: prod.splits sum.splits option.splits if_splits)
qed simp

lemma resolve_item_same: "ends (\<lambda>(r, t'). tt_interactive t' = tt_interactive t) (resolve_item D now can_ask input t)"
  unfolding resolve_item_def
  by (rule ends_bind)
    (auto simp: on_store_def on_tty_def Let_def simp del: tt_show_all.simps intro!: ends_bind
      dest!: choose_same all_shown split: sum.splits store_error.split prod.splits)

text \<open>An input the store does not resolve to one item, with nobody to ask about it.\<close>

definition unresolved :: "bool \<Rightarrow> bool \<Rightarrow> store_error + item_id \<Rightarrow> bool" where
  "unresolved can_ask interactive r \<longleftrightarrow>
     (case r of Inl (SeAmbiguous _ _) \<Rightarrow> \<not> (can_ask \<and> interactive) | Inl _ \<Rightarrow> True | Inr _ \<Rightarrow> False)"

lemma reads_resolve: "reads_only (resolve st input)"
  unfolding resolve_def by (auto intro!: reads_simps split: sum.splits list.splits option.splits simp: Let_def)

lemma fs_dyn_reads:
  "ds_resolve (fs_dyn E st) = resolve st" "reads_only (ds_get_meta (fs_dyn E st) i)"
  by (simp_all add: fs_dyn_def reads_source)

lemma reads_metas: "reads_only (shown_metas (fs_dyn E st) ids ms)"
  by (induction ids arbitrary: ms)
    (auto intro!: reads_only_bind fs_dyn_reads split: sum.splits store_error.splits)

lemma reads_resolve_item: "reads_only (resolve_item (fs_dyn E st) now can_ask input t)"
  unfolding resolve_item_def on_store_def on_tty_def Let_def fs_dyn_reads(1)
  by (rule reads_only_bind [OF reads_resolve])
    (auto intro!: reads_only_bind [OF reads_metas] split: sum.splits store_error.splits prod.splits)

lemma unresolved_stops:
  assumes "answers F v (resolve st input) (unresolved can_ask (tt_interactive t))"
  shows "answers F v (resolve_item (fs_dyn E st) now can_ask input t) (\<lambda>(r, t'). \<exists>e. r = Inl e)"
  unfolding resolve_item_def fs_dyn_reads(1)
  by (rule answers_bind [OF assms]) (auto simp: unresolved_def split: sum.splits store_error.splits)

lemma asked_is_asked:
  "answers F v (resolve_item (fs_dyn E st) now can_ask input t) (\<lambda>(r, t'). tt_interactive t' = tt_interactive t)"
  using safe_ends [OF answers_True [OF reads_resolve_item, unfolded answers_def] resolve_item_same]
  unfolding answers_def by (rule safe_post) simp

lemma resolve_all_stops:
  assumes "\<exists>input \<in> set inputs. answers F v (resolve st input) (unresolved can_ask (tt_interactive t))"
  shows "answers F v (resolve_all (fs_dyn E st) now can_ask inputs ids t) (\<lambda>(r, t'). \<exists>e. r = Inl e)"
  using assms
proof (induction inputs arbitrary: ids t)
  case (Cons input inputs)
  show ?case
  proof (cases "answers F v (resolve st input) (unresolved can_ask (tt_interactive t))")
    case True
    show ?thesis
      unfolding resolve_all.simps by (rule answers_bind [OF unresolved_stops [OF True]]) auto
  next
    case False
    have later: "answers F v (resolve_all (fs_dyn E st) now can_ask inputs ids' t') (\<lambda>(r, t'). \<exists>e. r = Inl e)"
      if "tt_interactive t' = tt_interactive t" for ids' t'
      by (rule Cons.IH) (use Cons.prems False that in auto)
    show ?thesis
      unfolding resolve_all.simps
      by (rule answers_bind [OF asked_is_asked]) (auto split: sum.splits intro!: later)
  qed
qed simp

text \<open>C28: \<open>delete\<close> finds every item it was given before it deletes the first: when one of the ids names no item,
  or several and nobody can choose, the command fails and no file has been changed at any moment.\<close>

theorem delete_all_or_nothing:
  assumes "input \<in> set inputs" "answers F v (resolve st input) (unresolved can_ask (tt_interactive t))"
  shows "answers F v (run_delete (fs_dyn E st) now can_ask inputs t) (\<lambda>(r, t'). \<exists>e. r = Inl e)"
  unfolding run_delete_def
  by (rule answers_bind [OF resolve_all_stops]) (use assms in auto)

theorem delete_all_or_nothing_witness:
  "answers True [[] \<mapsto> VDir]
     (run_delete (fs_dyn sample_ext store_new) 9 True [ustr ''2cf24dba5fb0'', ustr ''ab''] sample_tty) (\<lambda>(r, t'). \<exists>e. r = Inl e)"
  by (rule delete_all_or_nothing [of "ustr ''ab''"])
    (simp_all add: resolve_def unresolved_def ustr_def trim_both_def trim_start_def trim_end_def is_whitespace_def
      ascii_lowercase_def MIN_PREFIX_LEN_def Let_def)

end
