(* ===== verification/Loading.thy ===== *)
theory Loading
  imports Commands Download Serving
begin

text \<open>
  \<^verbatim>\<open>commands/load.rs\<close>: an item to the clipboard, to the download directory or to a given
  destination. What the operating system says of folders is an argument, since \<open>Os_Files\<close> leaves them
  out: \<open>is_dir\<close> whether the destination is one, \<open>made\<close> the answer of creating the download directory.
\<close>

section \<open>The command\<close>

definition own_name :: "string \<Rightarrow> item_meta \<Rightarrow> cli_error + ustring" where
  "own_name advice m =
     map_err (\<lambda>e. CeModel advice e) (sanitise_file_name (case meta_name m of Some n \<Rightarrow> n | None \<Rightarrow> []))"

definition target_path :: "path \<Rightarrow> bool \<Rightarrow> item_meta \<Rightarrow> cli_error + path" where
  "target_path dest is_dir m =
     (if \<not> is_dir then Inr dest
      else
        and_then
          (case meta_kind m of
             KText \<Rightarrow> Inr (ustr (id_repr (meta_id m) @ ''.txt''))
           | KFile \<Rightarrow> own_name ''give a file path as the destination instead'' m)
          (\<lambda>name. Inr (path_join dest name)))"

definition load_download ::
  "'z ext_scheme \<Rightarrow> (nat \<Rightarrow> u64) \<Rightarrow> box_read \<Rightarrow> item_meta \<Rightarrow> path \<Rightarrow> io_error + unit \<Rightarrow> bool \<Rightarrow> os_run
   \<Rightarrow> (cli_error + path) \<times> os_run" where
  "load_download E rand content m dir made force w =
     (case own_name ''give a destination for this item instead'' m of
        Inl e \<Rightarrow> (Inl e, w)
      | Inr name \<Rightarrow>
          (case made of
             Inl e \<Rightarrow> (Inl (CeIo e), w)
           | Inr _ \<Rightarrow>
               if force
               then os_try CeDownload (write_verified E content m (path_join dir name) w) (\<lambda>_ w. (Inr (path_join dir name), w))
               else os_try CeDownload (download_into E rand content m dir name w) (\<lambda>p w. (Inr p, w))))"

definition load_into ::
  "'z ext_scheme \<Rightarrow> box_read \<Rightarrow> item_meta \<Rightarrow> path \<Rightarrow> bool \<Rightarrow> bool \<Rightarrow> os_run \<Rightarrow> (cli_error + path) \<times> os_run" where
  "load_into E content m dest is_dir force w =
     (case target_path dest is_dir m of
        Inl e \<Rightarrow> (Inl e, w)
      | Inr target \<Rightarrow>
          (let (there, w) = (if force then (Inr False, w) else fs_try_exists target w) in
           if there = Inr True
           then (Inl (CeMessage (target @ ustr '' already exists; use --force to overwrite it'')), w)
           else os_try CeDownload (write_verified E content m target w) (\<lambda>_ w. (Inr target, w))))"

text \<open>What is put on the clipboard, for the items that go there.\<close>

definition load_text :: "'z ext_scheme \<Rightarrow> box_read \<Rightarrow> item_meta \<Rightarrow> cli_error + ustring" where
  "load_text E content m =
     and_then (map_err CeDownload (read_verified E content m)) (\<lambda>b.
     ok_or (from_utf8 b) (CeMessage (ustr (''item '' @ id_repr (meta_id m) @ '' is not UTF-8 text''))))"

definition load_image :: "'z ext_scheme \<Rightarrow> png \<Rightarrow> box_read \<Rightarrow> item_meta \<Rightarrow> cli_error + rgba_image" where
  "load_image E P content m =
     and_then (map_err CeDownload (read_verified E content m)) (\<lambda>b. map_err CeImage (decode_png P b))"

text \<open>\<open>opened\<close> is the clipboard as it opens, or why it does not.\<close>

definition to_clipboard ::
  "('a \<Rightarrow> 'c \<Rightarrow> (clipboard_error + unit) \<times> 'c) \<Rightarrow> clipboard_error + 'c \<Rightarrow> cli_error + 'a
   \<Rightarrow> (cli_error + path option) \<times> (clipboard_error + 'c)" where
  "to_clipboard put_on opened value =
     (case (value, opened) of
        (Inl e, _) \<Rightarrow> (Inl e, opened)
      | (Inr _, Inl e) \<Rightarrow> (Inl (CeClipboard e), opened)
      | (Inr x, Inr c) \<Rightarrow>
          (case put_on x c of
             (Inl e, c) \<Rightarrow> (Inl (CeClipboard e), Inr c)
           | (Inr _, c) \<Rightarrow> (Inr None, Inr c)))"

record load_options =
  lo_dest :: "path option"
  lo_is_dir :: bool
  lo_force :: bool
  lo_dir :: path
  lo_made :: "io_error + unit"

text \<open>The part of \<open>run\<close> after the item was got; the path it answers is printed.\<close>

definition load_item ::
  "'z ext_scheme \<Rightarrow> png \<Rightarrow> (nat \<Rightarrow> u64) \<Rightarrow> 'c clipboard \<Rightarrow> load_options \<Rightarrow> item_meta \<Rightarrow> box_read
   \<Rightarrow> clipboard_error + 'c \<Rightarrow> os_run \<Rightarrow> (cli_error + path option) \<times> (clipboard_error + 'c) \<times> os_run" where
  "load_item E P rand B opts m content opened w =
     (let written = (\<lambda>(r, w). (map_sum id Some r, opened, w)) in
      case lo_dest opts of
        None \<Rightarrow>
          if meta_kind m = KText
          then (let (r, opened) = to_clipboard (cb_write_text B) opened (load_text E content m) in (r, opened, w))
          else if is_clipboard_image m
          then (let (r, opened) = to_clipboard (cb_write_image B) opened (load_image E P content m) in (r, opened, w))
          else written (load_download E rand content m (lo_dir opts) (lo_made opts) (lo_force opts) w)
      | Some dest \<Rightarrow> written (load_into E content m dest (lo_is_dir opts) (lo_force opts) w))"

definition run_load ::
  "'z ext_scheme \<Rightarrow> png \<Rightarrow> (nat \<Rightarrow> u64) \<Rightarrow> 'c clipboard \<Rightarrow> dyn_store \<Rightarrow> datetime \<Rightarrow> bool \<Rightarrow> ustring \<Rightarrow> load_options
   \<Rightarrow> clipboard_error + 'c \<Rightarrow> os_run \<Rightarrow> tty \<Rightarrow> ((cli_error + unit) \<times> (clipboard_error + 'c) \<times> os_run \<times> tty) prog" where
  "run_load E P rand B D now can_ask input opts opened w t =
     bind (resolve_item D now can_ask input t) (\<lambda>(r, t).
     case r of
       Inl e \<Rightarrow> Done (Inl e, opened, w, t)
     | Inr i \<Rightarrow>
         bind (ds_get D i) (\<lambda>r.
         case r of
           Inl e \<Rightarrow> Done (Inl (CeStore e), opened, w, t)
         | Inr (m, content) \<Rightarrow>
             (let (r, opened, w) = load_item E P rand B opts m content opened w in
              case r of
                Inl e \<Rightarrow> Done (Inl e, opened, w, t)
              | Inr None \<Rightarrow> Done (Inr (), opened, w, t)
              | Inr (Some target) \<Rightarrow>
                  (case tt_print target t of
                     (Inl e, t) \<Rightarrow> Done (Inl (CeIo e), opened, w, t)
                   | (Inr _, t) \<Rightarrow> Done (Inr (), opened, w, t)))))"

section \<open>What it writes is the item\<close>

text \<open>A step that gives files outside \<open>L\<close> only the whole content of the item, and none that existed without \<open>over\<close>.\<close>

definition loads_whole :: "'z ext_scheme \<Rightarrow> item_meta \<Rightarrow> path set \<Rightarrow> bool \<Rightarrow> files \<Rightarrow> files \<Rightarrow> bool" where
  "loads_whole E m L over a b \<longleftrightarrow>
     (\<forall>p. p \<notin> L \<longrightarrow> b p = a p \<or> (over \<or> a p = None) \<and> (\<exists>c. b p = Some c \<and> verified E m c))"

text \<open>The part files of a load.\<close>

definition load_parts :: "load_options \<Rightarrow> item_meta \<Rightarrow> path set" where
  "load_parts opts m =
     (case lo_dest opts of
        Some dest \<Rightarrow> (case target_path dest (lo_is_dir opts) m of Inr t \<Rightarrow> {t @ PART_SUFFIX} | Inl _ \<Rightarrow> {})
      | None \<Rightarrow>
          (case own_name [] m of
             Inr name \<Rightarrow> if lo_force opts then {path_join (lo_dir opts) name @ PART_SUFFIX} else range (part_name (lo_dir opts) name)
           | Inl _ \<Rightarrow> {}))"

lemma own_name_same: "own_name advice m = Inr n \<longleftrightarrow> own_name [] m = Inr n"
  by (simp add: own_name_def map_err_eq_Inr)

lemma steps_ok_weaken: "steps_ok P w w' \<Longrightarrow> (\<And>a b. P a b \<Longrightarrow> Q a b) \<Longrightarrow> steps_ok Q w w'"
  unfolding steps_ok_def by fast

lemma loads_created: "creates_whole E m L a b \<Longrightarrow> loads_whole E m L over a b"
  by (auto simp: creates_whole_def loads_whole_def)

lemma loads_replaced: "replaces_whole (verified E m) part target a b \<Longrightarrow> loads_whole E m {part} True a b"
  by (auto simp: replaces_whole_def loads_whole_def)

lemma load_download_steps:
  assumes "load_download E rand content m dir made force w = (r, w')"
    and "\<And>n. own_name [] m = Inr n \<Longrightarrow> L = (if force then {path_join dir n @ PART_SUFFIX} else range (part_name dir n))"
    and "calm L links w"
  shows "steps_ok (loads_whole E m L force) w w'"
  using assms(1)
proof (cases "own_name ''give a destination for this item instead'' m")
  case (Inr n)
  then have L: "L = (if force then {path_join dir n @ PART_SUFFIX} else range (part_name dir n))"
    using assms(2) own_name_same [of "''give a destination for this item instead''" m n] Inr by simp
  show ?thesis
  proof (cases force)
    case True
    obtain r1 w1 where v: "write_verified E content m (path_join dir n) w = (r1, w1)" by fastforce
    have "w' = w \<or> w' = w1" using assms(1) True Inr v by (auto simp: load_download_def os_try_def split: sum.splits)
    have c: "calm {path_join dir n @ PART_SUFFIX} links w" using assms(3) L True by simp
    have "steps_ok (loads_whole E m {path_join dir n @ PART_SUFFIX} True) w w1"
      by (rule steps_ok_weaken [OF write_verified_steps [OF v c, THEN conjunct1]]) (rule loads_replaced)
    then show ?thesis using \<open>w' = w \<or> w' = w1\<close> L True by auto
  next
    case False
    obtain r1 w1 where v: "download_into E rand content m dir n w = (r1, w1)" by fastforce
    have "w' = w \<or> w' = w1" using assms(1) False Inr v by (auto simp: load_download_def os_try_def split: sum.splits)
    have c: "calm (range (part_name dir n)) links w" using assms(3) L False by simp
    have "steps_ok (loads_whole E m (range (part_name dir n)) False) w w1"
      by (rule steps_ok_weaken [OF download_steps [OF v c]]) (rule loads_created)
    then show ?thesis using \<open>w' = w \<or> w' = w1\<close> L False by auto
  qed
qed (simp add: load_download_def)

lemma exists_step:
  assumes "fs_try_exists p w = (r, w')" "calm L K w" "\<And>a. P a a"
  shows "steps_ok P w w' \<and> calm L K w'"
  using os_call_steps [OF assms(1) [unfolded fs_try_exists_def] assms(2), of P True] assms(3) by auto

lemma load_into_steps:
  assumes "load_into E content m dest is_dir force w = (r, w')"
    and "\<And>t. target_path dest is_dir m = Inr t \<Longrightarrow> L = {t @ PART_SUFFIX}" "calm L links w"
  shows "steps_ok (loads_whole E m L True) w w'"
  using assms(1)
proof (cases "target_path dest is_dir m")
  case (Inr t)
  obtain there w1 where e: "(if force then (Inr False, w) else fs_try_exists t w) = (there, w1)" by fastforce
  have s: "steps_ok (loads_whole E m L True) w w1" "calm L links w1"
    using e exists_step [of t w there w1 L links "loads_whole E m L True"] assms(3)
    by (auto simp: loads_whole_def split: if_splits)
  show ?thesis
  proof (cases "there = Inr True")
    case False
    obtain r1 w2 where v: "write_verified E content m t w1 = (r1, w2)" by fastforce
    have "w' = w2" using v assms(1) Inr e False by (auto simp: load_into_def os_try_def split: sum.splits)
    have c: "calm {t @ PART_SUFFIX} links w1" using s(2) assms(2) [OF Inr] by simp
    have "steps_ok (loads_whole E m {t @ PART_SUFFIX} True) w1 w2"
      by (rule steps_ok_weaken [OF write_verified_steps [OF v c, THEN conjunct1]]) (rule loads_replaced)
    then show ?thesis using s(1) assms(2) [OF Inr] \<open>w' = w2\<close> steps_ok_trans by blast
  qed (use assms(1) Inr e s in \<open>simp add: load_into_def\<close>)
qed (simp add: load_into_def)

lemma read_verified_ok: "read_verified E content m = Inr b \<Longrightarrow> verified E m b"
  by (auto simp: read_verified_def and_then_eq_Inr check_integrity_def verified_def hashed_def digest_of_def
      hasher_update_def hasher_new_def hasher_finalize_def Let_def map_err_eq_Inr split: if_splits)

lemma clipboard_gets:
  assumes "to_clipboard put_on opened value = (r, opened')" "opened' \<noteq> opened"
  shows "\<exists>x c. value = Inr x \<and> opened = Inr c \<and> opened' = Inr (snd (put_on x c))"
  using assms by (auto simp: to_clipboard_def split: sum.splits prod.splits)

lemma loaded_values:
  "load_text E content m = Inr t \<Longrightarrow> \<exists>b. verified E m b \<and> from_utf8 b = Some t"
  "load_image E P content m = Inr im \<Longrightarrow> \<exists>b. verified E m b \<and> decode_png P b = Inr im"
  by (auto simp: load_text_def load_image_def and_then_eq_Inr map_err_eq_Inr ok_or_def split: option.splits
      dest!: read_verified_ok)


definition sample_load :: load_options where
  "sample_load = \<lparr>lo_dest = Some (ustr ''d/a''), lo_is_dir = False, lo_force = True, lo_dir = ustr ''d'', lo_made = Inr ()\<rparr>"


end
