(* ===== verification/Config_Text.thy ===== *)
theory Config_Text
  imports Retention Fs_Store
begin

text \<open>
  The texts a configuration is made of: the log levels of \<^verbatim>\<open>passalong-core/src/telemetry.rs\<close>, the
  pins, their base64 and the server's URL of \<^verbatim>\<open>config.rs\<close>, and the keys of \<^verbatim>\<open>api_key.rs\<close>.
\<close>

section \<open>Log levels\<close>

datatype log_level = LlError | LlWarning | LlInfo | LlVerbose | LlDebug

datatype level_filter = LfError | LfWarn | LfInfo | LfDebug | LfTrace

definition level_str :: "log_level \<Rightarrow> string" where
  "level_str l =
     (case l of
        LlError \<Rightarrow> ''error''
      | LlWarning \<Rightarrow> ''warning''
      | LlInfo \<Rightarrow> ''info''
      | LlVerbose \<Rightarrow> ''verbose''
      | LlDebug \<Rightarrow> ''debug'')"

definition level_filter :: "log_level \<Rightarrow> level_filter" where
  "level_filter l =
     (case l of
        LlError \<Rightarrow> LfError
      | LlWarning \<Rightarrow> LfWarn
      | LlInfo \<Rightarrow> LfInfo
      | LlVerbose \<Rightarrow> LfDebug
      | LlDebug \<Rightarrow> LfTrace)"

definition third_party_filter :: "log_level \<Rightarrow> level_filter" where
  "third_party_filter l =
     (case l of
        LlError \<Rightarrow> LfError
      | LlDebug \<Rightarrow> LfDebug
      | _ \<Rightarrow> LfWarn)"

definition level_syslog_name :: "log_level \<Rightarrow> string" where
  "level_syslog_name l =
     (case l of
        LlError \<Rightarrow> ''err''
      | LlWarning \<Rightarrow> ''warning''
      | LlInfo \<Rightarrow> ''info''
      | LlVerbose \<Rightarrow> ''notice''
      | LlDebug \<Rightarrow> ''debug'')"

text \<open>The error holds the text as it was given.\<close>

datatype parse_log_level_error = ParseLogLevelError ustring

definition level_from_str :: "ustring \<Rightarrow> parse_log_level_error + log_level" where
  "level_from_str s =
     (let t = ascii_lowercase s in
      if t = ustr ''error'' then Inr LlError
      else if t = ustr ''warning'' then Inr LlWarning
      else if t = ustr ''info'' then Inr LlInfo
      else if t = ustr ''verbose'' then Inr LlVerbose
      else if t = ustr ''debug'' then Inr LlDebug
      else Inl (ParseLogLevelError s))"

lemma level_reads_back: "level_from_str (ustr (level_str l)) = Inr l"
  by (cases l) (simp_all add: level_from_str_def level_str_def ustr_def ascii_lowercase_def)

section \<open>Base64\<close>

definition B64_ALPHABET :: bytes where
  "B64_ALPHABET = map of_char ''ABCDEFGHIJKLMNOPQRSTUVWXYZabcdefghijklmnopqrstuvwxyz0123456789+/''"

function chunks_of :: "nat \<Rightarrow> 'a list \<Rightarrow> 'a list list" where
  "chunks_of n xs = (if xs = [] \<or> n = 0 then [] else take n xs # chunks_of n (drop n xs))"
  by pat_completeness auto
termination by (relation "measure (\<lambda>(n, xs). length xs)") auto

declare chunks_of.simps [simp del]

definition b64_quad :: "bytes \<Rightarrow> bytes" where
  "b64_quad chunk =
     (let at = (\<lambda>i. ucast (if i < length chunk then chunk ! i else 0) :: u32);
          n = or (or (push_bit 16 (at 0)) (push_bit 8 (at 1))) (at 2) in
      map (\<lambda>i. if i \<le> length chunk then B64_ALPHABET ! unat (and (drop_bit (18 - 6 * i) n) 63) else 61) [0 ..< 4])"

definition b64_encode :: "bytes \<Rightarrow> bytes" where
  "b64_encode b = concat (map b64_quad (chunks_of 3 b))"

fun position :: "'a list \<Rightarrow> 'a \<Rightarrow> nat option" where
  "position [] c = None"
| "position (x # xs) c = (if x = c then Some 0 else map_option Suc (position xs c))"

fun b64_value :: "u32 \<Rightarrow> bytes \<Rightarrow> u32 option" where
  "b64_value n [] = Some n"
| "b64_value n (c # cs) =
     (case position B64_ALPHABET c of
        None \<Rightarrow> None
      | Some v \<Rightarrow> b64_value (or (push_bit 6 n) (of_nat v)) cs)"

definition b64_unquad :: "bool \<Rightarrow> bytes \<Rightarrow> bytes option" where
  "b64_unquad last_chunk chunk =
     (let pad = length (takeWhile (\<lambda>c. c = 61) (rev chunk)) in
      if pad > 2 \<or> (pad > 0 \<and> \<not> last_chunk) then None
      else
        (case b64_value 0 (take (4 - pad) chunk) of
           None \<Rightarrow> None
         | Some n \<Rightarrow>
             (let n = push_bit (6 * pad) n in
              Some (take (3 - pad) [ucast (drop_bit 16 n), ucast (drop_bit 8 n), ucast n]))))"

fun b64_decode_from :: "bytes list \<Rightarrow> bytes \<Rightarrow> bytes option" where
  "b64_decode_from [] out = Some out"
| "b64_decode_from (chunk # chunks) out =
     (case b64_unquad (chunks = []) chunk of
        None \<Rightarrow> None
      | Some d \<Rightarrow> b64_decode_from chunks (out @ d))"

definition b64_decode :: "bytes \<Rightarrow> bytes option" where
  "b64_decode b = (if b = [] \<or> length b mod 4 \<noteq> 0 then None else b64_decode_from (chunks_of 4 b) [])"

section \<open>Pins\<close>

text \<open>A pin is the 32 bytes of a digest.\<close>

type_synonym tls_pin = bytes

definition tls_pin_parse :: "ustring \<Rightarrow> ustring + tls_pin" where
  "tls_pin_parse text =
     (let text = trim_both is_whitespace text in
      if \<not> starts_with text (ustr ''sha256/'') then Inl (ustr ''a pin starts with `sha256/`'')
      else
        (let decoded = (\<lambda>encoded.
               case b64_decode (utf8_encode encoded) of
                 None \<Rightarrow> None
               | Some b \<Rightarrow> if length b = 32 then Some b else None);
             fits = List.map_filter (\<lambda>p. case strip_prefix p text of None \<Rightarrow> None | Some encoded \<Rightarrow> decoded encoded)
               [ustr ''sha256/'', ustr ''sha256//''] in
         case fits of
           pin # _ \<Rightarrow> Inr pin
         | [] \<Rightarrow> Inl (ustr ''a pin is `sha256/` and 32 bytes of base64, 44 characters'')))"

definition tls_pin_str :: "tls_pin \<Rightarrow> ustring" where
  "tls_pin_str pin = ustr ''sha256/'' @ map unat (b64_encode pin)"

section \<open>The server's URL\<close>

text \<open>\<open>u16::from_str\<close>: digits, perhaps after a plus.\<close>

definition parse_u16 :: "ustring \<Rightarrow> nat option" where
  "parse_u16 t =
     (let ds = (case t of c # cs \<Rightarrow> if c = 43 then cs else t | [] \<Rightarrow> t) in
      if ds = [] \<or> \<not> list_all (\<lambda>c. 48 \<le> c \<and> c \<le> 57) ds then None
      else (let n = foldl (\<lambda>a c. a * 10 + (c - 48)) 0 ds in if n < 2 ^ 16 then Some n else None))"

definition authority_host :: "ustring \<Rightarrow> ustring + ustring" where
  "authority_host authority =
     (case rsplit_once 58 authority of
        None \<Rightarrow> Inr authority
      | Some (host, port) \<Rightarrow>
          if \<not> ends_with host [93] \<and> 58 \<in> set host
          then Inl (ustr ''put the IPv6 address in brackets: https://['' @ host @ [58] @ port @ ustr '']'')
          else if 93 \<notin> set port
          then (case parse_u16 port of
                  Some n \<Rightarrow> if n \<noteq> 0 then Inr host else Inl (ustr ''the port must be between 1 and 65535'')
                | None \<Rightarrow> Inl (ustr ''the port must be between 1 and 65535''))
          else Inr authority)"

text \<open>\<open>text[..8]\<close> panics when the byte 8 of the text is inside a character.\<close>

definition https_url :: "ustring \<Rightarrow> (ustring + ustring) outcome" where
  "https_url text =
     (let text = trim_both is_whitespace text; bs = utf8_encode text;
          scheme = Inl (ustr ''must start with `https://`: over plain http the API key would travel unencrypted'') in
      if length bs < 8 then Returned scheme
      else if \<not> is_char_boundary bs 8 then Panicked
      else Returned
        (if ascii_lowercase (take 8 text) \<noteq> ustr ''https://'' then scheme
         else
           (let rest = drop 8 text in
            if list_ex (\<lambda>c. is_whitespace c \<or> is_control c) rest then Inl (ustr ''must not contain spaces'')
            else if 63 \<in> set rest \<or> 35 \<in> set rest then Inl (ustr ''must not have a query or a fragment'')
            else
              (let authority = takeWhile (\<lambda>c. c \<noteq> 47) rest; path = dropWhile (\<lambda>c. c \<noteq> 47) rest in
               if 64 \<in> set authority then Inl (ustr ''must not name a user; the API key authenticates'')
               else
                 and_then (authority_host authority) (\<lambda>host.
                 if host = [] then Inl (ustr ''must name a host'')
                 else Inr (ustr ''https://'' @ authority @ trim_end (\<lambda>c. c = 47) path))))))"

section \<open>API keys\<close>

datatype api_key_error = AkPrefix | AkShape | AkCharacters

record api_key =
  ak_text :: ustring
  ak_secret_at :: nat

definition AK_PREFIX :: ustring where "AK_PREFIX = ustr ''pal_''"

definition is_key_char :: "uchar \<Rightarrow> bool" where
  "is_key_char c \<longleftrightarrow>
     (48 \<le> c \<and> c \<le> 57) \<or> (65 \<le> c \<and> c \<le> 90) \<or> (97 \<le> c \<and> c \<le> 122) \<or> c = 45 \<or> c = 95"

definition api_key_parse :: "ustring \<Rightarrow> api_key_error + api_key" where
  "api_key_parse text =
     (let text = trim_both is_whitespace text in
      and_then (ok_or (strip_prefix AK_PREFIX text) AkPrefix) (\<lambda>rest.
      if \<not> list_all is_key_char text then Inl AkCharacters
      else
        and_then (ok_or (split_once 95 rest) AkShape) (\<lambda>(key_id, secret).
        if key_id = [] \<or> secret = [] then Inl AkShape
        else Inr \<lparr>ak_text = text, ak_secret_at = length AK_PREFIX + length key_id + 1\<rparr>)))"

definition api_key_id :: "api_key \<Rightarrow> ustring" where
  "api_key_id k = drop (length AK_PREFIX) (take (ak_secret_at k - 1) (ak_text k))"

definition api_key_expose :: "api_key \<Rightarrow> ustring" where
  "api_key_expose k = ak_text k"

end
