(* ===== verification/Config.thy ===== *)
theory Config
  imports Config_Text Uploading
begin

text \<open>
  Finding, reading and checking the configuration: \<^verbatim>\<open>passalong-core/src/config.rs\<close>. The environment
  and the answers of the file system are arguments, and so is the TOML reader, third-party code that
  gives the raw tables or an error. Paths are those of a Unix build; the locations of Windows are
  taken by the argument \<open>platform\<close>, as in the code.
\<close>

section \<open>The environment\<close>

record env_provider =
  en_var :: "string \<Rightarrow> ustring option"
  en_hostname :: ustring

definition APP_NAME :: ustring where "APP_NAME = ustr ''passalong''"
definition CONFIG_FILE_ENV :: string where "CONFIG_FILE_ENV = ''PASSALONG_CONFIG_FILE''"
definition PASSPHRASE_ENV :: string where "PASSPHRASE_ENV = ''PASSALONG_SSH_KEY_PASSPHRASE''"
definition LOG_LEVEL_ENV :: string where "LOG_LEVEL_ENV = ''PASSALONG_LOG_LEVEL''"
definition CONFIG_FILE_NAME :: ustring where "CONFIG_FILE_NAME = ustr ''config.toml''"
definition KEY_FILE_NAME :: ustring where "KEY_FILE_NAME = ustr ''store.key''"
definition API_KEY_FILE_NAME :: ustring where "API_KEY_FILE_NAME = ustr ''api.key''"
definition DEFAULT_SSH_PORT :: int where "DEFAULT_SSH_PORT = 22"
definition DEFAULT_CONNECT_TIMEOUT_SECS :: nat where "DEFAULT_CONNECT_TIMEOUT_SECS = 10"
definition DEFAULT_DROP_FOLDER :: ustring where "DEFAULT_DROP_FOLDER = ustr ''~/PassAlong''"
definition DEFAULT_DOWNLOAD_DIR :: ustring where "DEFAULT_DOWNLOAD_DIR = ustr ''~/Downloads''"
definition DEFAULT_PULL_INTERVAL_MS :: nat where "DEFAULT_PULL_INTERVAL_MS = 5000"
definition DEFAULT_LIST_CACHE_CHECK_SECS :: nat where "DEFAULT_LIST_CACHE_CHECK_SECS = 60"
definition MIN_LIST_CACHE_CHECK_SECS :: nat where "MIN_LIST_CACHE_CHECK_SECS = 10"
definition MAX_LIST_CACHE_CHECK_SECS :: nat where "MAX_LIST_CACHE_CHECK_SECS = 86400"
definition MIN_PULL_INTERVAL_MS :: nat where "MIN_PULL_INTERVAL_MS = 1000"
definition DEFAULT_CLIPBOARD_POLL_INTERVAL_MS :: nat where "DEFAULT_CLIPBOARD_POLL_INTERVAL_MS = 750"
definition DEFAULT_FILE_STABLE_WAIT_MS :: nat where "DEFAULT_FILE_STABLE_WAIT_MS = 1000"
definition MAX_CONNECT_TIMEOUT_SECS :: nat where "MAX_CONNECT_TIMEOUT_SECS = 3600"
definition MAX_INTERVAL_MS :: nat where "MAX_INTERVAL_MS = 3600000"

definition non_empty :: "env_provider \<Rightarrow> string \<Rightarrow> ustring option" where
  "non_empty env key = (case en_var env key of Some v \<Rightarrow> if v = [] then None else Some v | None \<Rightarrow> None)"

datatype platform = PfUnix | PfWindows

definition windows_dir :: "env_provider \<Rightarrow> platform \<Rightarrow> string \<Rightarrow> path option" where
  "windows_dir env pf key = (if pf = PfWindows then non_empty env key else None)"

section \<open>Paths\<close>

text \<open>\<open>Path::has_root\<close>, \<open>Path::components\<close>, \<open>Path::starts_with\<close> and \<open>Path::with_file_name\<close>, the last for a
  path that ends in a name.\<close>

definition has_root :: "path \<Rightarrow> bool" where
  "has_root p = starts_with p [47]"

datatype path_comp = PcRoot | PcCur | PcParent | PcNormal ustring

definition path_comps :: "path \<Rightarrow> path_comp list" where
  "path_comps p =
     (let parts = split_by (\<lambda>c. c = 47) p in
      (if has_root p then [PcRoot] else if hd parts = [46] then [PcCur] else [])
      @ map (\<lambda>c. if c = [46, 46] then PcParent else PcNormal c) (filter (\<lambda>c. c \<noteq> [] \<and> c \<noteq> [46]) parts))"

definition path_starts_with :: "path \<Rightarrow> path \<Rightarrow> bool" where
  "path_starts_with p base = starts_with (path_comps p) (path_comps base)"

definition with_file_name :: "path \<Rightarrow> ustring \<Rightarrow> path" where
  "with_file_name p name =
     (case rsplit_once 47 p of
        Some (before, _) \<Rightarrow> (if before = [] then 47 # name else path_join before name)
      | None \<Rightarrow> name)"

section \<open>Errors\<close>

datatype config_origin = CoExplicit | CoEnvVar | CoXdgConfigHome | CoHomeConfig | CoSystem | CoWorkingDir

datatype config_error =
    CfNotFound "path list"
  | CfMissing path config_origin
  | CfUnreadable path ustring
  | CfRead path io_error
  | CfParse path ustring
  | CfMissingKey string
  | CfInvalidValue string ustring

definition invalid :: "string \<Rightarrow> string \<Rightarrow> config_error" where
  "invalid key reason = CfInvalidValue key (ustr reason)"

section \<open>Discovery\<close>

record located_config =
  lc_path :: path
  lc_origin :: config_origin

record search_roots =
  sr_system_config_dir :: path
  sr_working_dir :: path

text \<open>What \<open>fs::metadata\<close> says of a path: whether it is a file, or why it does not.\<close>

datatype metadata_answer = MaFile bool | MaNotFound | MaNotADirectory | MaPermissionDenied | MaOther ustring

definition probe :: "(path \<Rightarrow> metadata_answer) \<Rightarrow> path \<Rightarrow> config_error + bool" where
  "probe stat p =
     (case stat p of
        MaFile b \<Rightarrow> Inr b
      | MaNotFound \<Rightarrow> Inr False
      | MaNotADirectory \<Rightarrow> Inr False
      | MaPermissionDenied \<Rightarrow> Inl (CfUnreadable p (ustr ''permission denied''))
      | MaOther reason \<Rightarrow> Inl (CfUnreadable p reason))"

definition absolute :: "search_roots \<Rightarrow> path \<Rightarrow> path" where
  "absolute roots p = (if has_root p then p else path_join (sr_working_dir roots) p)"

definition config_in :: "path \<Rightarrow> path" where
  "config_in dir = path_join (path_join dir APP_NAME) CONFIG_FILE_NAME"

definition xdg_home :: "env_provider \<Rightarrow> path option" where
  "xdg_home env =
     (case non_empty env ''XDG_CONFIG_HOME'' of Some p \<Rightarrow> if has_root p then Some p else None | None \<Rightarrow> None)"

definition candidates :: "env_provider \<Rightarrow> search_roots \<Rightarrow> platform \<Rightarrow> (path \<times> config_origin) list" where
  "candidates env roots pf =
     (case windows_dir env pf ''APPDATA'' of
        Some appdata \<Rightarrow> [(config_in appdata, CoHomeConfig)]
      | None \<Rightarrow>
          (case xdg_home env of Some xdg \<Rightarrow> [(config_in xdg, CoXdgConfigHome)] | None \<Rightarrow> [])
          @ (case non_empty env ''HOME'' of
               Some home \<Rightarrow> [(config_in (path_join home (ustr ''.config'')), CoHomeConfig)]
             | None \<Rightarrow> []))
     @ [(config_in (sr_system_config_dir roots), CoSystem), (path_join (sr_working_dir roots) CONFIG_FILE_NAME, CoWorkingDir)]"

fun probe_all ::
  "(path \<Rightarrow> metadata_answer) \<Rightarrow> path list \<Rightarrow> (path \<times> config_origin) list \<Rightarrow> config_error + located_config" where
  "probe_all stat searched [] = Inl (CfNotFound searched)"
| "probe_all stat searched ((p, origin) # rest) =
     and_then (probe stat p) (\<lambda>there.
     if there then Inr \<lparr>lc_path = p, lc_origin = origin\<rparr> else probe_all stat searched rest)"

definition locate_on ::
  "path option \<Rightarrow> env_provider \<Rightarrow> search_roots \<Rightarrow> platform \<Rightarrow> (path \<Rightarrow> metadata_answer) \<Rightarrow> config_error + located_config" where
  "locate_on explicit env roots pf stat =
     (let pinned = (case explicit of
            Some p \<Rightarrow> Some (absolute roots p, CoExplicit)
          | None \<Rightarrow> map_option (\<lambda>p. (absolute roots p, CoEnvVar)) (non_empty env CONFIG_FILE_ENV)) in
      case pinned of
        Some (p, origin) \<Rightarrow>
          and_then (probe stat p) (\<lambda>there.
          if there then Inr \<lparr>lc_path = p, lc_origin = origin\<rparr> else Inl (CfMissing p origin))
      | None \<Rightarrow>
          (let cs = candidates env roots pf in probe_all stat (map fst cs) cs))"

definition default_config_path_on :: "env_provider \<Rightarrow> platform \<Rightarrow> path option" where
  "default_config_path_on env pf =
     (case windows_dir env pf ''APPDATA'' of
        Some appdata \<Rightarrow> Some (config_in appdata)
      | None \<Rightarrow>
          (case xdg_home env of
             Some xdg \<Rightarrow> Some (config_in xdg)
           | None \<Rightarrow> map_option (\<lambda>home. config_in (path_join home (ustr ''.config''))) (non_empty env ''HOME'')))"

definition default_key_path :: "env_provider \<Rightarrow> path option" where
  "default_key_path env = map_option (\<lambda>c. with_file_name c KEY_FILE_NAME) (default_config_path_on env PfUnix)"

definition default_api_key_path :: "env_provider \<Rightarrow> path option" where
  "default_api_key_path env = map_option (\<lambda>c. with_file_name c API_KEY_FILE_NAME) (default_config_path_on env PfUnix)"

definition expand_tilde_on :: "ustring \<Rightarrow> string \<Rightarrow> env_provider \<Rightarrow> platform \<Rightarrow> config_error + path" where
  "expand_tilde_on p key env pf =
     (let rest = (if p = ustr ''~'' then Some []
                  else if pf = PfWindows then
                    (case strip_prefix (ustr ''~/'') p of Some r \<Rightarrow> Some r | None \<Rightarrow> strip_prefix [126, 92] p)
                  else strip_prefix (ustr ''~/'') p) in
      case rest of
        None \<Rightarrow> Inr p
      | Some rest \<Rightarrow>
          (case (case windows_dir env pf ''USERPROFILE'' of Some h \<Rightarrow> Some h | None \<Rightarrow> non_empty env ''HOME'') of
             None \<Rightarrow> Inl (invalid key ''starts with `~` but HOME is not set'')
           | Some home \<Rightarrow> Inr (if rest = [] then home else path_join home rest)))"

definition expand_tilde :: "ustring \<Rightarrow> string \<Rightarrow> env_provider \<Rightarrow> config_error + path" where
  "expand_tilde p key env = expand_tilde_on p key env PfUnix"

section \<open>The sections\<close>

record client_config =
  cc_device_name :: ustring
  cc_log_level :: log_level
  cc_download_dir :: path
  cc_key_file :: "path option"

record ssh_config =
  sh_host :: ustring
  sh_port :: nat
  sh_user :: ustring
  sh_host_key :: ustring
  sh_identity_file :: path
  sh_remote_path :: ustring
  sh_connect_timeout_secs :: nat
  sh_passphrase :: "ustring option"

record https_config =
  hc_url :: ustring
  hc_tls_pin :: "tls_pin option"
  hc_api_key_file :: path

record local_config =
  lf_path :: path

record serve_config =
  sv_drop_folder :: path
  sv_clipboard_poll_interval_ms :: nat
  sv_file_stable_wait_ms :: nat
  sv_after_send :: after_send
  sv_clipboard_images :: bool
  sv_pull :: bool
  sv_pull_interval_ms :: nat
  sv_list_cache :: bool
  sv_list_cache_check_secs :: nat

record server_config =
  sc_kind :: ustring
  sc_ssh :: "ssh_config option"
  sc_local :: "local_config option"
  sc_https :: "https_config option"

record config =
  cf_client :: client_config
  cf_server :: server_config
  cf_serve :: serve_config

text \<open>The raw tables: every key is optional, an absent table holds none.\<close>

record raw_client =
  rc_device_name :: "ustring option"
  rc_log_level :: "ustring option"
  rc_download_dir :: "ustring option"
  rc_key_file :: "ustring option"

record raw_ssh =
  rs_host :: "ustring option"
  rs_port :: "int option"
  rs_user :: "ustring option"
  rs_host_key :: "ustring option"
  rs_identity_file :: "ustring option"
  rs_remote_path :: "ustring option"
  rs_connect_timeout_secs :: "int option"

record raw_local =
  rl_path :: "ustring option"

record raw_https =
  rh_url :: "ustring option"
  rh_tls_pin :: "ustring option"
  rh_api_key_file :: "ustring option"

record raw_server =
  rv_kind :: "ustring option"
  rv_ssh :: "raw_ssh option"
  rv_local :: "raw_local option"
  rv_https :: "raw_https option"

record raw_serve =
  re_drop_folder :: "ustring option"
  re_clipboard_poll_interval_ms :: "int option"
  re_file_stable_wait_ms :: "int option"
  re_after_send :: "ustring option"
  re_clipboard_images :: "bool option"
  re_pull :: "bool option"
  re_pull_interval_ms :: "int option"
  re_list_cache :: "bool option"
  re_list_cache_check_secs :: "int option"

record raw_config =
  ra_client :: raw_client
  ra_server :: "raw_server option"
  ra_serve :: raw_serve

definition raw_ssh_default :: raw_ssh where
  "raw_ssh_default =
     \<lparr>rs_host = None, rs_port = None, rs_user = None, rs_host_key = None, rs_identity_file = None,
      rs_remote_path = None, rs_connect_timeout_secs = None\<rparr>"

definition raw_https_default :: raw_https where
  "raw_https_default = \<lparr>rh_url = None, rh_tls_pin = None, rh_api_key_file = None\<rparr>"

definition raw_server_default :: raw_server where
  "raw_server_default = \<lparr>rv_kind = None, rv_ssh = None, rv_local = None, rv_https = None\<rparr>"

section \<open>Validation\<close>

definition required :: "ustring option \<Rightarrow> string \<Rightarrow> config_error + ustring" where
  "required value key =
     (case value of
        None \<Rightarrow> Inl (CfMissingKey key)
      | Some v \<Rightarrow> if trim_both is_whitespace v = [] then Inl (invalid key ''must not be empty'') else Inr v)"

definition bounded :: "int option \<Rightarrow> nat \<Rightarrow> nat \<Rightarrow> nat \<Rightarrow> string \<Rightarrow> config_error + nat" where
  "bounded value d lo hi key =
     (case value of
        None \<Rightarrow> Inr d
      | Some v \<Rightarrow>
          if 0 \<le> v \<and> lo \<le> nat v \<and> nat v \<le> hi then Inr (nat v)
          else Inl (CfInvalidValue key (ustr ''must be between '' @ decimal lo @ ustr '' and '' @ decimal hi)))"

definition level_message :: "parse_log_level_error \<Rightarrow> ustring" where
  "level_message e =
     (case e of ParseLogLevelError s \<Rightarrow>
        ustr ''invalid log level `'' @ s @ ustr ''`: expected one of error, warning, info, verbose, debug'')"

definition rooted :: "string \<Rightarrow> path \<Rightarrow> config_error + path" where
  "rooted key p = (if has_root p then Inr p else Inl (invalid key ''must be an absolute path or start with `~/`''))"

definition validate_client :: "env_provider \<Rightarrow> raw_client \<Rightarrow> config_error + client_config" where
  "validate_client env raw =
     and_then (case rc_device_name raw of
         Some name \<Rightarrow> required (Some name) ''client.device_name''
       | None \<Rightarrow> Inr (en_hostname env)) (\<lambda>device_name.
     and_then (case rc_log_level raw of
         Some level \<Rightarrow> map_err (\<lambda>e. CfInvalidValue ''client.log_level'' (level_message e)) (level_from_str level)
       | None \<Rightarrow> Inr LlInfo) (\<lambda>log_level.
     and_then (case rc_download_dir raw of
         Some dir \<Rightarrow> required (Some dir) ''client.download_dir''
       | None \<Rightarrow> Inr DEFAULT_DOWNLOAD_DIR) (\<lambda>dir.
     and_then (expand_tilde dir ''client.download_dir'' env) (\<lambda>dir.
     and_then (rooted ''client.download_dir'' dir) (\<lambda>download_dir.
     and_then (case rc_key_file raw of
         Some p \<Rightarrow>
           and_then (required (Some p) ''client.key_file'') (\<lambda>p.
           and_then (expand_tilde p ''client.key_file'' env) (\<lambda>p.
           and_then (rooted ''client.key_file'' p) (\<lambda>p. Inr (Some p))))
       | None \<Rightarrow> Inr (default_key_path env)) (\<lambda>key_file.
     Inr \<lparr>cc_device_name = device_name, cc_log_level = log_level, cc_download_dir = download_dir,
          cc_key_file = key_file\<rparr>))))))"

definition validate_ssh :: "env_provider \<Rightarrow> raw_ssh \<Rightarrow> config_error + ssh_config" where
  "validate_ssh env raw =
     and_then (required (rs_host raw) ''server.ssh.host'') (\<lambda>host.
     and_then (required (rs_user raw) ''server.ssh.user'') (\<lambda>user.
     and_then (required (rs_host_key raw) ''server.ssh.host_key'') (\<lambda>host_key.
     and_then (required (rs_identity_file raw) ''server.ssh.identity_file'') (\<lambda>identity_file.
     and_then (expand_tilde identity_file ''server.ssh.identity_file'' env) (\<lambda>identity_file.
     and_then (required (rs_remote_path raw) ''server.ssh.remote_path'') (\<lambda>remote_path.
     and_then (let port = (case rs_port raw of Some p \<Rightarrow> p | None \<Rightarrow> DEFAULT_SSH_PORT) in
         if 0 \<le> port \<and> port < 2 ^ 16 \<and> port \<noteq> 0 then Inr (nat port)
         else Inl (invalid ''server.ssh.port'' ''must be between 1 and 65535'')) (\<lambda>port.
     and_then (bounded (rs_connect_timeout_secs raw) DEFAULT_CONNECT_TIMEOUT_SECS 1 MAX_CONNECT_TIMEOUT_SECS
         ''server.ssh.connect_timeout_secs'') (\<lambda>timeout.
     Inr \<lparr>sh_host = host, sh_port = port, sh_user = user, sh_host_key = host_key,
          sh_identity_file = identity_file, sh_remote_path = remote_path, sh_connect_timeout_secs = timeout,
          sh_passphrase = non_empty env PASSPHRASE_ENV\<rparr>))))))))"

text \<open>\<open>?\<close> in code that may panic.\<close>

definition returned_then :: "('e + 'a) outcome \<Rightarrow> ('a \<Rightarrow> ('e + 'b) outcome) \<Rightarrow> ('e + 'b) outcome" where
  "returned_then m k =
     (case m of Panicked \<Rightarrow> Panicked | Returned (Inl e) \<Rightarrow> Returned (Inl e) | Returned (Inr x) \<Rightarrow> k x)"

definition map_outcome_err :: "('e \<Rightarrow> 'f) \<Rightarrow> ('e + 'a) outcome \<Rightarrow> ('f + 'a) outcome" where
  "map_outcome_err f m = (case m of Panicked \<Rightarrow> Panicked | Returned r \<Rightarrow> Returned (map_err f r))"

definition validate_https :: "env_provider \<Rightarrow> raw_https \<Rightarrow> (config_error + https_config) outcome" where
  "validate_https env raw =
     returned_then (Returned (required (rh_url raw) ''server.https.url'')) (\<lambda>url.
     returned_then (map_outcome_err (CfInvalidValue ''server.https.url'') (https_url url)) (\<lambda>url.
     Returned
       (and_then (case rh_tls_pin raw of
           Some pin \<Rightarrow> and_then (map_err (CfInvalidValue ''server.https.tls_pin'') (tls_pin_parse pin)) (\<lambda>p. Inr (Some p))
         | None \<Rightarrow> Inr None) (\<lambda>pin.
        and_then (case rh_api_key_file raw of
           Some p \<Rightarrow>
             and_then (required (Some p) ''server.https.api_key_file'') (\<lambda>p.
             expand_tilde p ''server.https.api_key_file'' env)
         | None \<Rightarrow> ok_or (default_api_key_path env) (CfMissingKey ''server.https.api_key_file'')) (\<lambda>p.
        and_then (rooted ''server.https.api_key_file'' p) (\<lambda>p.
        Inr \<lparr>hc_url = url, hc_tls_pin = pin, hc_api_key_file = p\<rparr>))))))"

definition validate_local :: "env_provider \<Rightarrow> raw_local \<Rightarrow> config_error + local_config" where
  "validate_local env raw =
     and_then (required (rl_path raw) ''server.local.path'') (\<lambda>p.
     and_then (expand_tilde p ''server.local.path'' env) (\<lambda>p. Inr \<lparr>lf_path = p\<rparr>))"

definition validate_serve :: "env_provider \<Rightarrow> raw_serve \<Rightarrow> config_error + serve_config" where
  "validate_serve env raw =
     and_then (case re_drop_folder raw of
         Some folder \<Rightarrow> required (Some folder) ''serve.drop_folder''
       | None \<Rightarrow> Inr DEFAULT_DROP_FOLDER) (\<lambda>folder.
     and_then (case re_after_send raw of
         None \<Rightarrow> Inr AsMove
       | Some t \<Rightarrow>
           if t = ustr ''move'' then Inr AsMove
           else if t = ustr ''delete'' then Inr AsDelete
           else Inl (invalid ''serve.after_send'' ''expected `move` or `delete`'')) (\<lambda>after_send.
     and_then (expand_tilde folder ''serve.drop_folder'' env) (\<lambda>folder.
     and_then (bounded (re_clipboard_poll_interval_ms raw) DEFAULT_CLIPBOARD_POLL_INTERVAL_MS 1 MAX_INTERVAL_MS
         ''serve.clipboard_poll_interval_ms'') (\<lambda>clipboard_poll.
     and_then (bounded (re_file_stable_wait_ms raw) DEFAULT_FILE_STABLE_WAIT_MS 0 MAX_INTERVAL_MS
         ''serve.file_stable_wait_ms'') (\<lambda>stable_wait.
     and_then (bounded (re_pull_interval_ms raw) DEFAULT_PULL_INTERVAL_MS MIN_PULL_INTERVAL_MS MAX_INTERVAL_MS
         ''serve.pull_interval_ms'') (\<lambda>pull_interval.
     and_then (bounded (re_list_cache_check_secs raw) DEFAULT_LIST_CACHE_CHECK_SECS MIN_LIST_CACHE_CHECK_SECS
         MAX_LIST_CACHE_CHECK_SECS ''serve.list_cache_check_secs'') (\<lambda>check.
     Inr \<lparr>sv_drop_folder = folder, sv_clipboard_poll_interval_ms = clipboard_poll,
          sv_file_stable_wait_ms = stable_wait, sv_after_send = after_send,
          sv_clipboard_images = (case re_clipboard_images raw of Some b \<Rightarrow> b | None \<Rightarrow> True),
          sv_pull = (case re_pull raw of Some b \<Rightarrow> b | None \<Rightarrow> False),
          sv_pull_interval_ms = pull_interval,
          sv_list_cache = (case re_list_cache raw of Some b \<Rightarrow> b | None \<Rightarrow> True),
          sv_list_cache_check_secs = check\<rparr>)))))))"

text \<open>The section of the chosen kind; those of the others are not looked at.\<close>

definition validate_server :: "env_provider \<Rightarrow> raw_server \<Rightarrow> (config_error + server_config) outcome" where
  "validate_server env raw =
     returned_then (Returned (required (rv_kind raw) ''server.kind'')) (\<lambda>kind.
     if kind = ustr ''ssh'' then
       returned_then (Returned (validate_ssh env (case rv_ssh raw of Some s \<Rightarrow> s | None \<Rightarrow> raw_ssh_default))) (\<lambda>s.
       Returned (Inr \<lparr>sc_kind = kind, sc_ssh = Some s, sc_local = None, sc_https = None\<rparr>))
     else if kind = ustr ''local'' then
       returned_then (Returned (validate_local env (case rv_local raw of Some l \<Rightarrow> l | None \<Rightarrow> \<lparr>rl_path = None\<rparr>))) (\<lambda>l.
       Returned (Inr \<lparr>sc_kind = kind, sc_ssh = None, sc_local = Some l, sc_https = None\<rparr>))
     else if kind = ustr ''https'' then
       returned_then (validate_https env (case rv_https raw of Some h \<Rightarrow> h | None \<Rightarrow> raw_https_default)) (\<lambda>h.
       Returned (Inr \<lparr>sc_kind = kind, sc_ssh = None, sc_local = None, sc_https = Some h\<rparr>))
     else Returned (Inr \<lparr>sc_kind = kind, sc_ssh = None, sc_local = None, sc_https = None\<rparr>))"

definition validate_config :: "env_provider \<Rightarrow> raw_config \<Rightarrow> (config_error + config) outcome" where
  "validate_config env raw =
     returned_then (validate_server env (case ra_server raw of Some s \<Rightarrow> s | None \<Rightarrow> raw_server_default)) (\<lambda>server.
     returned_then (Returned (validate_client env (ra_client raw))) (\<lambda>client.
     returned_then (Returned (validate_serve env (ra_serve raw))) (\<lambda>serve.
     if sv_pull serve \<and> path_starts_with (cc_download_dir client) (sv_drop_folder serve)
     then Returned (Inl (invalid ''client.download_dir''
            ''must not be serve.drop_folder or inside it when serve.pull is true''))
     else Returned (Inr \<lparr>cf_client = client, cf_server = server, cf_serve = serve\<rparr>))))"

section \<open>Loading\<close>

text \<open>What the TOML reader reports: its message and where, as a byte offset.\<close>

record toml_error =
  te_message :: ustring
  te_span :: "nat option"

text \<open>\<open>str::lines\<close>: a carriage return before a line feed is dropped, and so is an empty last line.\<close>

definition text_lines :: "ustring \<Rightarrow> ustring list" where
  "text_lines t =
     (let parts = split_by (\<lambda>c. c = 10) t in
      map (\<lambda>l. case strip_suffix [13] l of Some l \<Rightarrow> l | None \<Rightarrow> l) (butlast parts)
      @ (if last parts = [] then [] else [last parts]))"

definition describe_toml_error :: "ustring \<Rightarrow> toml_error \<Rightarrow> ustring" where
  "describe_toml_error text err =
     (let message = map (\<lambda>c. if c = 10 then 32 else c) (trim_both is_whitespace (te_message err)) in
      case te_span err of
        None \<Rightarrow> message
      | Some start \<Rightarrow>
          (let bs = utf8_encode text;
               before = (if is_char_boundary bs start then take start bs else bs);
               line_number = length (filter (\<lambda>b. b = 10) before) + 1;
               ls = text_lines text;
               line = trim_both is_whitespace (if line_number - 1 < length ls then ls ! (line_number - 1) else []) in
           ustr ''line '' @ decimal line_number @ ustr '' (`'' @ line @ ustr ''`): '' @ message))"

definition parse_config ::
  "(ustring \<Rightarrow> toml_error + raw_config) \<Rightarrow> ustring \<Rightarrow> path \<Rightarrow> env_provider \<Rightarrow> (config_error + config) outcome" where
  "parse_config toml text p env =
     returned_then (Returned (map_err (\<lambda>e. CfParse p (describe_toml_error text e)) (toml text))) (validate_config env)"

definition load_config ::
  "(ustring \<Rightarrow> toml_error + raw_config) \<Rightarrow> (path \<Rightarrow> io_error + ustring) \<Rightarrow> path \<Rightarrow> env_provider
   \<Rightarrow> (config_error + config) outcome" where
  "load_config toml read p env =
     returned_then (Returned (map_err (CfRead p) (read p))) (\<lambda>text. parse_config toml text p env)"

definition effective_log_level :: "log_level option \<Rightarrow> env_provider \<Rightarrow> config \<Rightarrow> config_error + log_level" where
  "effective_log_level flag env c =
     (case flag of
        Some level \<Rightarrow> Inr level
      | None \<Rightarrow>
          (case non_empty env LOG_LEVEL_ENV of
             Some value \<Rightarrow> map_err (\<lambda>e. CfInvalidValue LOG_LEVEL_ENV (level_message e)) (level_from_str value)
           | None \<Rightarrow> Inr (cc_log_level (cf_client c))))"

end
