(* ===== verification/Config_Laws.thy ===== *)
theory Config_Laws
  imports Config
begin

text \<open>
  What the configuration is trusted for: pins and keys read back, a server's URL is in normal form,
  what was read is within its bounds, and the file that is written first is the one found.
\<close>

section \<open>Base64 reads back\<close>

lemma chunks_of_Nil [simp]: "chunks_of n [] = []" "chunks_of n xs = [] \<longleftrightarrow> xs = [] \<or> n = 0"
  by (simp_all add: chunks_of.simps)

lemma chunks_of_append:
  assumes "length xs = n" "n \<noteq> 0"
  shows "chunks_of n (xs @ ys) = xs # chunks_of n ys"
  using assms by (subst chunks_of.simps) auto

lemma alphabet:
  assumes "k < 64"
  shows "position B64_ALPHABET (B64_ALPHABET ! k) = Some k" "B64_ALPHABET ! k \<noteq> 61"
    "byte_of (unat (B64_ALPHABET ! k)) = B64_ALPHABET ! k" "unat (B64_ALPHABET ! k) < 128"
    "\<not> is_whitespace (unat (B64_ALPHABET ! k))"
proof -
  have "\<forall>k \<in> set [0 ..< 64]. position B64_ALPHABET (B64_ALPHABET ! k) = Some k" by code_simp
  then show "position B64_ALPHABET (B64_ALPHABET ! k) = Some k" using assms by simp
  have "\<forall>k \<in> set [0 ..< 64]. B64_ALPHABET ! k \<noteq> 61" by code_simp
  then show "B64_ALPHABET ! k \<noteq> 61" using assms by simp
  have "list_all (\<lambda>c. 32 < c \<and> c < 123) B64_ALPHABET" by code_simp
  moreover have "B64_ALPHABET ! k \<in> set B64_ALPHABET" using assms by (intro nth_mem) (simp add: B64_ALPHABET_def)
  ultimately have "32 < B64_ALPHABET ! k" "B64_ALPHABET ! k < 123" by (auto simp: list_all_iff)
  then have "32 < unat (B64_ALPHABET ! k)" "unat (B64_ALPHABET ! k) < 123" by (simp_all add: word_less_nat_alt)
  then show "unat (B64_ALPHABET ! k) < 128" "\<not> is_whitespace (unat (B64_ALPHABET ! k))" by (auto simp: is_whitespace_def)
  show "byte_of (unat (B64_ALPHABET ! k)) = B64_ALPHABET ! k" by (simp add: byte_of_def)
qed

lemma and_63: "and w 63 = take_bit 6 (w :: u32)"
  by (simp add: take_bit_eq_mask mask_eq_exp_minus_1)

lemma six_bits: "unat (take_bit 6 (w :: u32)) < 64"
  by (simp add: unsigned_take_bit_eq take_bit_nat_less_exp [of 6, simplified])

lemma value_step:
  "b64_value m (B64_ALPHABET ! unat (take_bit 6 w) # cs) = b64_value (or (push_bit 6 m) (take_bit 6 w)) cs"
  by (simp add: alphabet(1) six_bits)

text \<open>Three bytes in a word, and a word cut into four sextets.\<close>

definition packed :: "byte \<Rightarrow> byte \<Rightarrow> byte \<Rightarrow> u32" where
  "packed a b c = or (or (push_bit 16 (ucast a)) (push_bit 8 (ucast b))) (ucast c)"

definition sextets :: "u32 \<Rightarrow> u32" where
  "sextets n = or (push_bit 6 (or (push_bit 6 (or (push_bit 6 (take_bit 6 (drop_bit 18 n)))
    (take_bit 6 (drop_bit 12 n)))) (take_bit 6 (drop_bit 6 n)))) (take_bit 6 n)"

lemma bit_packed: "bit (packed a b c) k \<longleftrightarrow>
   (if k < 8 then bit c k else if k < 16 then bit b (k - 8) else if k < 24 then bit a (k - 16) else False)"
  by (auto simp: packed_def bit_simps dest: bit_imp_le_length)

lemma bit_sextets: "bit (sextets n) k \<longleftrightarrow> k < 24 \<and> bit n k"
proof -
  have "bit (sextets n) k \<longleftrightarrow> k < 32 \<and> ((k \<ge> 18 \<and> k - 18 < 6 \<or> k \<ge> 12 \<and> k - 12 < 6 \<or> k \<ge> 6 \<and> k - 6 < 6 \<or> k < 6) \<and> bit n k)"
    unfolding sextets_def bit_or_iff bit_push_bit_iff bit_take_bit_iff bit_drop_bit_eq
    by (auto dest: bit_imp_le_length simp: algebra_simps)
  then show ?thesis by (auto dest: bit_imp_le_length)
qed

lemma sextets_packed: "sextets (packed a b c) = packed a b c"
  by (rule bit_word_eqI) (auto simp: bit_sextets bit_packed)

lemma packed_parts: "ucast (drop_bit 16 (packed a b c)) = a" "ucast (drop_bit 8 (packed a b c)) = b" "ucast (packed a b c) = c"
  by (rule bit_word_eqI; simp add: bit_simps bit_packed)+

lemma packed_ends: "take_bit 6 (packed a b 0) = 0" "take_bit 6 (drop_bit 6 (packed a 0 0)) = 0"
  by (rule bit_word_eqI; simp add: bit_simps bit_packed)+

lemma upto4: "[0 ..< 4] = [0, 1, 2, 3]"
  by (simp add: upt_rec)

lemma quad:
  "b64_quad [a, b, c] = map (\<lambda>i. B64_ALPHABET ! unat (take_bit 6 (drop_bit (18 - 6 * i) (packed a b c)))) [0, 1, 2, 3]"
  "b64_quad [a, b] = map (\<lambda>i. B64_ALPHABET ! unat (take_bit 6 (drop_bit (18 - 6 * i) (packed a b 0)))) [0, 1, 2] @ [61]"
  "b64_quad [a] = map (\<lambda>i. B64_ALPHABET ! unat (take_bit 6 (drop_bit (18 - 6 * i) (packed a 0 0)))) [0, 1] @ [61, 61]"
  by (simp_all add: b64_quad_def upto4 packed_def and_63 Let_def)

lemma unquad_3: "b64_unquad l (b64_quad [a, b, c]) = Some [a, b, c]"
proof -
  have m: "or (push_bit 6 (or (push_bit 6 (or (push_bit 6 (take_bit 6 (drop_bit 18 (packed a b c))))
      (take_bit 6 (drop_bit 12 (packed a b c))))) (take_bit 6 (drop_bit 6 (packed a b c))))) (take_bit 6 (packed a b c))
    = packed a b c"
    using sextets_packed unfolding sextets_def .
  have "b64_value 0 (b64_quad [a, b, c]) = Some (packed a b c)"
    by (simp only: quad list.map value_step) (simp add: m del: push_bit_or)
  then show ?thesis
    by (simp add: b64_unquad_def Let_def quad alphabet(2) six_bits packed_parts del: b64_value.simps)
qed

lemma unquad_2: "b64_unquad True (b64_quad [a, b]) = Some [a, b]"
proof -
  have m: "push_bit 6 (or (push_bit 6 (or (push_bit 6 (take_bit 6 (drop_bit 18 (packed a b 0))))
      (take_bit 6 (drop_bit 12 (packed a b 0))))) (take_bit 6 (drop_bit 6 (packed a b 0)))) = packed a b 0"
    using sextets_packed [of a b 0] unfolding sextets_def packed_ends by simp
  have "\<exists>x. b64_value 0 (take 3 (b64_quad [a, b])) = Some x \<and> push_bit 6 x = packed a b 0"
    by (simp only: quad list.map append.simps take_Suc_Cons numeral_3_eq_3 take_0 value_step) (use m in simp)
  then show ?thesis
    by (auto simp add: b64_unquad_def Let_def quad alphabet(2) six_bits packed_parts simp del: b64_value.simps)
qed

lemma unquad_1: "b64_unquad True (b64_quad [a]) = Some [a]"
proof -
  have m: "push_bit 12 (or (push_bit 6 (take_bit 6 (drop_bit 18 (packed a 0 0))))
      (take_bit 6 (drop_bit 12 (packed a 0 0)))) = packed a 0 0"
    using sextets_packed [of a 0 0] unfolding sextets_def packed_ends by simp
  have "\<exists>x. b64_value 0 (take 2 (b64_quad [a])) = Some x \<and> push_bit 12 x = packed a 0 0"
    by (simp only: quad list.map append.simps take_Suc_Cons numeral_2_eq_2 take_0 value_step) (use m in simp)
  then show ?thesis
    by (auto simp add: b64_unquad_def Let_def quad alphabet(2) six_bits packed_parts simp del: b64_value.simps)
qed

lemma unquad: "chunk \<noteq> [] \<Longrightarrow> length chunk \<le> 3 \<Longrightarrow> (length chunk < 3 \<Longrightarrow> l) \<Longrightarrow> b64_unquad l (b64_quad chunk) = Some chunk"
  by (cases chunk rule: remdups_adj.cases; cases l)
    (auto simp: unquad_1 unquad_2 unquad_3 length_Suc_conv le_Suc_eq numeral_eq_Suc)

lemma length_quad [simp]: "length (b64_quad chunk) = 4" "b64_quad chunk \<noteq> []"
  by (simp_all add: b64_quad_def Let_def upto4)

lemma decode_quads: "b64_decode_from (map b64_quad (chunks_of 3 b)) out = Some (out @ b)"
proof (induction "length b" arbitrary: b out rule: less_induct)
  case less
  show ?case
  proof (cases "b = []")
    case False
    then have "length (drop 3 b) < length b" by simp
    note ih = less [OF this]
    have "b64_unquad (drop 3 b = []) (b64_quad (take 3 b)) = Some (take 3 b)"
      by (rule unquad) (use False in auto)
    moreover have "chunks_of 3 b = take 3 b # chunks_of 3 (drop 3 b)" using False by (subst chunks_of.simps) simp
    ultimately show ?thesis using ih by simp
  qed simp
qed

lemma chunks_of_quads: "chunks_of 4 (concat (map b64_quad cs)) = map b64_quad cs"
  by (induction cs) (simp_all add: chunks_of_append)

lemma length_quads: "length (concat (map b64_quad cs)) = 4 * length cs"
  by (induction cs) simp_all

lemma b64_reads_back: "b \<noteq> [] \<Longrightarrow> b64_decode (b64_encode b) = Some b"
  by (simp add: b64_decode_def b64_encode_def length_quads chunks_of_quads decode_quads [of b "[]", simplified])

section \<open>Pins read back\<close>

lemma b64_chars: "c \<in> set (b64_encode b) \<Longrightarrow> unat c < 128 \<and> \<not> is_whitespace (unat c)"
proof -
  assume "c \<in> set (b64_encode b)"
  then obtain chunk where "c \<in> set (b64_quad chunk)" by (auto simp: b64_encode_def)
  then obtain w :: u32 where "c = B64_ALPHABET ! unat (and w 63) \<or> c = 61"
    by (simp only: b64_quad_def Let_def set_map image_iff) (metis (no_types, lifting))
  then have "c = B64_ALPHABET ! unat (take_bit 6 w) \<or> c = 61" by (simp add: and_63)
  then show ?thesis using alphabet(4,5) [OF six_bits [of w]] by (auto simp: is_whitespace_def)
qed

lemma ascii_bytes: "\<forall>c \<in> set b. unat (c :: byte) < 128 \<Longrightarrow> utf8_encode (map unat b) = b"
  by (induction b) (auto simp: utf8_encode_def utf8_char_def byte_of_def)

lemma b64_text: "utf8_encode (map unat (b64_encode b)) = b64_encode b"
  by (rule ascii_bytes) (use b64_chars in blast)

lemma trim_id: "(\<forall>c \<in> set t. \<not> P c) \<Longrightarrow> trim_both P t = t"
proof -
  have d: "(\<forall>c \<in> set u. \<not> P c) \<Longrightarrow> dropWhile P u = u" for u by (cases u) auto
  show "(\<forall>c \<in> set t. \<not> P c) \<Longrightarrow> trim_both P t = t"
    using d [of t] d [of "rev t"] by (simp add: trim_both_def trim_start_def trim_end_def)
qed

lemma length_b64: "length (b64_encode b) mod 4 = 0"
  by (simp add: b64_encode_def length_quads)

lemma b64_of_text: "length t mod 4 \<noteq> 0 \<Longrightarrow> \<forall>c \<in> set t. c < 128 \<Longrightarrow> b64_decode (utf8_encode t) = None"
proof -
  assume t: "length t mod 4 \<noteq> 0" "\<forall>c \<in> set t. c < 128"
  have "length (utf8_encode t) = length t" using t(2) by (induction t) (auto simp: utf8_encode_def utf8_char_def)
  with t(1) show "b64_decode (utf8_encode t) = None" by (simp add: b64_decode_def)
qed

lemma prefix_stripped [simp]: "starts_with (xs @ ys) xs" "strip_prefix xs (xs @ ys) = Some ys"
  by (simp_all add: starts_with_def strip_prefix_def)

lemma trim_around:
  assumes "t \<noteq> []" "\<forall>c \<in> set t. \<not> P c" "\<forall>c \<in> set (b @ a). P c"
  shows "trim_both P (b @ t @ a) = t"
proof -
  have d: "dropWhile P (u @ x @ y) = x @ y" if "x \<noteq> []" "\<forall>c \<in> set x. \<not> P c" "\<forall>c \<in> set u. P c" for u x y
    using that by (cases x) (simp_all add: dropWhile_append)
  have "dropWhile P (b @ t @ a) = t @ a" by (rule d) (use assms in auto)
  moreover have "dropWhile P (rev a @ rev t @ []) = rev t @ []" by (rule d) (use assms in auto)
  ultimately show ?thesis by (simp add: trim_both_def trim_start_def trim_end_def)
qed

lemma pin_chars:
  "\<forall>c \<in> set (ustr ''sha256/''). \<not> is_whitespace c" "\<forall>c \<in> set (ustr ''sha256//''). \<not> is_whitespace c"
  "\<forall>c \<in> set (map unat (b64_encode d)). \<not> is_whitespace c"
  by (auto simp: ustr_def is_whitespace_def dest: b64_chars)

lemma pin_decodes:
  "length d = 32 \<Longrightarrow> b64_decode (utf8_encode (map unat (b64_encode d))) = Some d"
  "b64_decode (utf8_encode (47 # map unat (b64_encode d))) = None"
proof -
  show "length d = 32 \<Longrightarrow> b64_decode (utf8_encode (map unat (b64_encode d))) = Some d"
    unfolding b64_text by (rule b64_reads_back) auto
  have "length (47 # map unat (b64_encode d)) mod 4 \<noteq> 0" using length_b64 [of d] by simp presburger
  then show "b64_decode (utf8_encode (47 # map unat (b64_encode d))) = None"
    by (rule b64_of_text) (auto dest: b64_chars)
qed

lemma pin_parts:
  "ustr ''sha256//'' = ustr ''sha256/'' @ [47]"
  by (simp add: ustr_def)

text \<open>C33: A TLS pin reads back from what is printed of it, and as well from the form \<open>curl\<close> takes, with
  any white space around it.\<close>

theorem tls_pin_reads_back:
  assumes "length d = 32" "\<forall>c \<in> set (before @ after). is_whitespace c"
  shows "tls_pin_parse (before @ tls_pin_str d @ after) = Inr d
    \<and> tls_pin_parse (before @ (ustr ''sha256//'' @ map unat (b64_encode d)) @ after) = Inr d"
proof -
  let ?E = "map unat (b64_encode d)"
  have t: "trim_both is_whitespace (before @ tls_pin_str d @ after) = ustr ''sha256/'' @ ?E"
    "trim_both is_whitespace (before @ (ustr ''sha256//'' @ ?E) @ after) = ustr ''sha256//'' @ ?E"
    unfolding tls_pin_str_def by (rule trim_around; use pin_chars assms(2) in \<open>auto simp: ustr_def\<close>)+
  have s: "strip_prefix (ustr ''sha256/'') (ustr ''sha256//'' @ ?E) = Some (47 # ?E)" "starts_with (ustr ''sha256//'' @ ?E) (ustr ''sha256/'')"
    unfolding pin_parts by simp_all
  show ?thesis
    unfolding tls_pin_parse_def t Let_def
    using s pin_decodes [of d] assms(1) by (simp add: List.map_filter_def)
qed

theorem tls_pin_reads_back_witness:
  "tls_pin_parse ([32] @ tls_pin_str (replicate 32 7) @ [10]) = Inr (replicate 32 7)"
  using tls_pin_reads_back [of "replicate 32 7" "[32]" "[10]"] by (simp add: is_whitespace_def)

section \<open>Server URLs\<close>

text \<open>A server's URL in normal form.\<close>

definition is_base_url :: "ustring \<Rightarrow> bool" where
  "is_base_url u \<longleftrightarrow>
     (\<exists>a p. u = ustr ''https://'' @ a @ p
        \<and> 47 \<notin> set a \<and> 64 \<notin> set a \<and> (\<exists>h. authority_host a = Inr h \<and> h \<noteq> [])
        \<and> (p = [] \<or> hd p = 47 \<and> last p \<noteq> 47)
        \<and> (\<forall>c \<in> set (a @ p). \<not> is_whitespace c \<and> \<not> is_control c \<and> c \<noteq> 63 \<and> c \<noteq> 35))"

lemma trim_end_slash:
  assumes "p = [] \<or> hd p = 47"
  shows "trim_end (\<lambda>c. c = 47) p = [] \<or> hd (trim_end (\<lambda>c. c = 47) p) = 47 \<and> last (trim_end (\<lambda>c. c = 47) p) \<noteq> 47"
proof (cases "trim_end (\<lambda>c. c = 47) p = []")
  case False
  let ?r = "dropWhile (\<lambda>c. c = 47) (rev p)"
  have r: "?r \<noteq> []" using False by (simp add: trim_end_def)
  obtain q where "rev p = q @ ?r" by (metis takeWhile_dropWhile_id)
  then have "p = rev ?r @ rev q" by (metis rev_append rev_rev_ident)
  moreover have "p \<noteq> []" using calculation r by auto
  ultimately have "hd (rev ?r) = 47" using assms r by (metis hd_append2 rev_is_Nil_conv)
  moreover have "last (rev ?r) \<noteq> 47" using hd_dropWhile [OF r] by (simp add: last_rev)
  ultimately show ?thesis by (simp add: trim_end_def)
qed simp

lemma https_url_base:
  assumes "https_url t = Returned (Inr u)"
  shows "is_base_url u"
proof -
  define rest where "rest = drop 8 (trim_both is_whitespace t)"
  define a where "a = takeWhile (\<lambda>c. c \<noteq> 47) rest"
  define p where "p = dropWhile (\<lambda>c. c \<noteq> 47) rest"
  define q where "q = trim_end (\<lambda>c. c = 47) p"
  have *: "\<not> list_ex (\<lambda>c. is_whitespace c \<or> is_control c) rest" "63 \<notin> set rest" "35 \<notin> set rest" "64 \<notin> set a"
    "\<exists>h. authority_host a = Inr h \<and> h \<noteq> []" "u = ustr ''https://'' @ a @ q"
    using assms unfolding https_url_def Let_def rest_def [symmetric] a_def [symmetric] p_def [symmetric] q_def [symmetric]
    by (auto simp: and_then_eq_Inr split: if_splits)
  have "47 \<notin> set a" unfolding a_def by (metis (full_types) set_takeWhileD)
  moreover have "q = [] \<or> hd q = 47 \<and> last q \<noteq> 47"
    unfolding q_def by (rule trim_end_slash) (metis (full_types) hd_dropWhile p_def)
  moreover have "set q \<subseteq> set rest" "set a \<subseteq> set rest"
    by (auto simp: q_def p_def a_def trim_end_def dest!: set_dropWhileD set_takeWhileD)
  then have "\<forall>c \<in> set (a @ q). \<not> is_whitespace c \<and> \<not> is_control c \<and> c \<noteq> 63 \<and> c \<noteq> 35"
    using *(1,2,3) by (auto simp: list_ex_iff)
  ultimately show ?thesis unfolding is_base_url_def using *(4,5,6) by blast
qed

lemma utf8_append: "utf8_encode (x @ y) = utf8_encode x @ utf8_encode y"
  by (simp add: utf8_encode_def)

lemma utf8_scheme: "utf8_encode (ustr ''https://'') = map of_char ''https://''"
  by (simp add: utf8_encode_def ustr_def utf8_char_def byte_of_def)

lemma utf8_first:
  assumes "is_scalar c"
  shows "utf8_char c \<noteq> [] \<and> \<not> is_cont (hd (utf8_char c))"
proof -
  have b: "unat (byte_of n) = n" if "n < 256" for n
    using that by (simp add: byte_of_def unat_of_nat take_bit_nat_def)
  consider "c < 0x80" | "0x80 \<le> c" "c < 0x800" | "0x800 \<le> c" "c < 0x10000" | "0x10000 \<le> c" "c < 0x110000"
    using assms unfolding is_scalar_def by linarith
  then show ?thesis
  proof cases
    case 2
    then have "c div 64 < 32" by linarith
    with 2 show ?thesis by (simp add: utf8_char_def is_cont_def b)
  next
    case 3
    then have "c div 4096 < 16" by linarith
    with 3 show ?thesis by (simp add: utf8_char_def is_cont_def b)
  next
    case 4
    then have "c div 262144 < 5" by linarith
    with 4 show ?thesis by (simp add: utf8_char_def is_cont_def b)
  qed (simp add: utf8_char_def is_cont_def b)
qed

lemma base_url_same:
  assumes "is_base_url u" "\<forall>c \<in> set u. is_scalar c"
  shows "https_url u = Returned (Inr u)"
proof -
  obtain a p h where u: "u = ustr ''https://'' @ a @ p" and a: "47 \<notin> set a" "64 \<notin> set a" "authority_host a = Inr h" "h \<noteq> []"
    and p: "p = [] \<or> hd p = 47 \<and> last p \<noteq> 47"
    and c: "\<forall>c \<in> set (a @ p). \<not> is_whitespace c \<and> \<not> is_control c \<and> c \<noteq> 63 \<and> c \<noteq> 35"
    using assms(1) unfolding is_base_url_def by blast
  have "\<forall>c \<in> set (ustr ''https://''). \<not> is_whitespace c" by (simp add: ustr_def is_whitespace_def)
  then have t: "trim_both is_whitespace u = u" by (intro trim_id) (use u c in auto)
  have "a \<noteq> []" using a(3,4) by (auto simp: authority_host_def rsplit_once_def split_once_def)
  then obtain x y where x: "a = x # y" by (cases a) auto
  have bs: "utf8_encode u = map of_char ''https://'' @ utf8_char x @ utf8_encode (y @ p)"
    by (simp add: u utf8_append utf8_scheme x) (simp add: utf8_encode_def)
  have "is_scalar x" using assms(2) u x by simp
  then obtain b r where "utf8_char x = b # r" "\<not> is_cont b" using utf8_first [of x] by (cases "utf8_char x") auto
  then have boundary: "8 \<le> length (utf8_encode u)" "is_char_boundary (utf8_encode u) 8"
    by (simp_all add: bs is_char_boundary_def)
  have d: "drop 8 u = a @ p" "take 8 u = ustr ''https://''" by (simp_all add: u ustr_def)
  have l: "ascii_lowercase (ustr ''https://'') = ustr ''https://''" by (simp add: ascii_lowercase_def ustr_def)
  have s: "takeWhile (\<lambda>c. c \<noteq> 47) (a @ p) = a" "dropWhile (\<lambda>c. c \<noteq> 47) (a @ p) = p"
    using a(1) p by (cases p; auto simp: takeWhile_append dropWhile_append)+
  have e: "trim_end (\<lambda>c. c = 47) p = p"
    using p by (cases p rule: rev_cases) (auto simp: trim_end_def)
  show ?thesis
    unfolding https_url_def Let_def t d l s e
    using boundary c a(2,3,4) u by (auto simp: list_ex_iff and_then_def)
qed

lemma https_url_panics:
  "https_url t = Panicked \<longleftrightarrow>
     (let bs = utf8_encode (trim_both is_whitespace t) in 8 < length bs \<and> is_cont (bs ! 8))"
  by (auto simp: https_url_def Let_def is_char_boundary_def split: if_splits)



text \<open>So a typing mistake in the configuration can end the program.\<close>

lemma https_url_panics_at: "https_url (ustr ''https:/'' @ [0xE9]) = Panicked"
  unfolding https_url_panics
  by (simp add: ustr_def trim_both_def trim_start_def trim_end_def is_whitespace_def utf8_encode_def utf8_char_def
      byte_of_def is_cont_def Let_def)

section \<open>API keys\<close>

text \<open>What is accepted is a prefix, an id without underscores and a secret, and it reads back.\<close>

lemma api_key_parts:
  assumes "api_key_parse t = Inr k"
  shows "\<exists>secret. api_key_expose k = AK_PREFIX @ api_key_id k @ [95] @ secret \<and> secret \<noteq> []
    \<and> api_key_id k \<noteq> [] \<and> 95 \<notin> set (api_key_id k) \<and> list_all is_key_char (api_key_expose k)"
proof -
  let ?t = "trim_both is_whitespace t"
  obtain rest i s where r: "strip_prefix AK_PREFIX ?t = Some rest" "list_all is_key_char ?t" "split_once 95 rest = Some (i, s)"
    "i \<noteq> []" "s \<noteq> []" "k = \<lparr>ak_text = ?t, ak_secret_at = length AK_PREFIX + length i + 1\<rparr>"
    using assms by (auto simp: api_key_parse_def Let_def and_then_eq_Inr ok_or_def split: option.splits if_splits)
  have t: "?t = AK_PREFIX @ rest"
    using r(1) by (auto simp: strip_prefix_def starts_with_def split: if_splits) (metis append_take_drop_id)
  obtain x where i1: "i = takeWhile (\<lambda>c. c \<noteq> 95) rest" and x: "dropWhile (\<lambda>c. c \<noteq> 95) rest = x # s"
    using r(3) by (auto simp: split_once_def split: list.splits)
  have "x = 95" using hd_dropWhile [of "\<lambda>c. c \<noteq> 95" rest] x by simp
  then have "rest = takeWhile (\<lambda>c. c \<noteq> 95) rest @ 95 # s" using takeWhile_dropWhile_id [of "\<lambda>c. c \<noteq> 95" rest] x by simp
  note i = i1 this [folded i1]
  have "api_key_id k = i" by (simp add: api_key_id_def r(6) t i(2))
  moreover have "95 \<notin> set i" unfolding i(1) by (metis (full_types) set_takeWhileD)
  ultimately show ?thesis using r(2,4,5) t i(2) by (intro exI [of _ s]) (simp add: api_key_expose_def r(6))
qed

section \<open>Validated configurations\<close>

definition client_ok :: "env_provider \<Rightarrow> client_config \<Rightarrow> bool" where
  "client_ok env c \<longleftrightarrow>
     (cc_device_name c = en_hostname env \<or> trim_both is_whitespace (cc_device_name c) \<noteq> [])
     \<and> has_root (cc_download_dir c)
     \<and> (cc_key_file c = default_key_path env \<or> (\<exists>p. cc_key_file c = Some p \<and> has_root p))"

definition ssh_ok :: "ssh_config \<Rightarrow> bool" where
  "ssh_ok s \<longleftrightarrow>
     (\<forall>t \<in> {sh_host s, sh_user s, sh_host_key s, sh_remote_path s}. trim_both is_whitespace t \<noteq> [])
     \<and> 1 \<le> sh_port s \<and> sh_port s < 65536
     \<and> 1 \<le> sh_connect_timeout_secs s \<and> sh_connect_timeout_secs s \<le> 3600"

definition https_ok :: "https_config \<Rightarrow> bool" where
  "https_ok h \<longleftrightarrow>
     is_base_url (hc_url h) \<and> has_root (hc_api_key_file h) \<and> (\<forall>d. hc_tls_pin h = Some d \<longrightarrow> length d = 32)"

definition server_ok :: "server_config \<Rightarrow> bool" where
  "server_ok s \<longleftrightarrow>
     trim_both is_whitespace (sc_kind s) \<noteq> []
     \<and> (sc_ssh s \<noteq> None \<longleftrightarrow> sc_kind s = ustr ''ssh'') \<and> (\<forall>x. sc_ssh s = Some x \<longrightarrow> ssh_ok x)
     \<and> (sc_local s \<noteq> None \<longleftrightarrow> sc_kind s = ustr ''local'')
     \<and> (sc_https s \<noteq> None \<longleftrightarrow> sc_kind s = ustr ''https'') \<and> (\<forall>x. sc_https s = Some x \<longrightarrow> https_ok x)"

definition serve_ok :: "serve_config \<Rightarrow> bool" where
  "serve_ok s \<longleftrightarrow>
     1 \<le> sv_clipboard_poll_interval_ms s \<and> sv_clipboard_poll_interval_ms s \<le> 3600000
     \<and> sv_file_stable_wait_ms s \<le> 3600000
     \<and> 1000 \<le> sv_pull_interval_ms s \<and> sv_pull_interval_ms s \<le> 3600000
     \<and> 10 \<le> sv_list_cache_check_secs s \<and> sv_list_cache_check_secs s \<le> 86400"

definition config_ok :: "env_provider \<Rightarrow> config \<Rightarrow> bool" where
  "config_ok env c \<longleftrightarrow>
     client_ok env (cf_client c) \<and> server_ok (cf_server c) \<and> serve_ok (cf_serve c)
     \<and> (sv_pull (cf_serve c) \<longrightarrow> \<not> path_starts_with (cc_download_dir (cf_client c)) (sv_drop_folder (cf_serve c)))"

lemma returned_then_eq: "returned_then m k = Returned (Inr y) \<longleftrightarrow> (\<exists>x. m = Returned (Inr x) \<and> k x = Returned (Inr y))"
  by (auto simp: returned_then_def split: outcome.splits sum.splits)

lemma map_outcome_err_eq: "map_outcome_err f m = Returned (Inr x) \<longleftrightarrow> m = Returned (Inr x)"
  by (auto simp: map_outcome_err_def map_err_eq_Inr split: outcome.splits)

lemma required_eq: "required v key = Inr t \<longleftrightarrow> v = Some t \<and> trim_both is_whitespace t \<noteq> []"
  by (auto simp: required_def split: option.splits)

lemma rooted_eq: "rooted key p = Inr q \<longleftrightarrow> q = p \<and> has_root p"
  by (auto simp: rooted_def)

lemma bounded_range: "bounded v d lo hi key = Inr n \<Longrightarrow> lo \<le> d \<Longrightarrow> d \<le> hi \<Longrightarrow> lo \<le> n \<and> n \<le> hi"
  by (auto simp: bounded_def split: option.splits if_splits)

lemmas validated = returned_then_eq and_then_eq_Inr required_eq rooted_eq map_err_eq_Inr map_outcome_err_eq

lemma client_validated: "validate_client env raw = Inr c \<Longrightarrow> client_ok env c"
  by (auto simp: validate_client_def client_ok_def validated split: option.splits)

lemma ssh_validated: "validate_ssh env raw = Inr s \<Longrightarrow> ssh_ok s"
  by (auto simp: validate_ssh_def ssh_ok_def validated Let_def split: if_splits
      dest!: bounded_range simp: DEFAULT_CONNECT_TIMEOUT_SECS_def MAX_CONNECT_TIMEOUT_SECS_def)

lemma pin_parsed: "tls_pin_parse t = Inr d \<Longrightarrow> length d = 32"
  by (auto simp: tls_pin_parse_def Let_def List.map_filter_def split: if_splits option.splits list.splits)

lemma https_validated: "validate_https env raw = Returned (Inr h) \<Longrightarrow> https_ok h"
  by (auto simp: validate_https_def https_ok_def validated ok_or_def pin_parsed
      split: option.splits dest!: https_url_base)

lemma server_validated: "validate_server env raw = Returned (Inr s) \<Longrightarrow> server_ok s"
  by (auto simp: validate_server_def server_ok_def validated ustr_def ssh_validated https_validated split: if_splits)

lemma serve_validated:
  assumes "validate_serve env raw = Inr s"
  shows "serve_ok s"
proof -
  obtain a b c d where "bounded (re_clipboard_poll_interval_ms raw) DEFAULT_CLIPBOARD_POLL_INTERVAL_MS 1 MAX_INTERVAL_MS
         ''serve.clipboard_poll_interval_ms'' = Inr a"
      "bounded (re_file_stable_wait_ms raw) DEFAULT_FILE_STABLE_WAIT_MS 0 MAX_INTERVAL_MS ''serve.file_stable_wait_ms'' = Inr b"
      "bounded (re_pull_interval_ms raw) DEFAULT_PULL_INTERVAL_MS MIN_PULL_INTERVAL_MS MAX_INTERVAL_MS ''serve.pull_interval_ms'' = Inr c"
      "bounded (re_list_cache_check_secs raw) DEFAULT_LIST_CACHE_CHECK_SECS MIN_LIST_CACHE_CHECK_SECS
         MAX_LIST_CACHE_CHECK_SECS ''serve.list_cache_check_secs'' = Inr d"
    and s: "sv_clipboard_poll_interval_ms s = a" "sv_file_stable_wait_ms s = b" "sv_pull_interval_ms s = c" "sv_list_cache_check_secs s = d"
    using assms unfolding validate_serve_def and_then_eq_Inr by fastforce
  then show ?thesis
    unfolding serve_ok_def s
    by (auto dest!: bounded_range simp: DEFAULT_CLIPBOARD_POLL_INTERVAL_MS_def MAX_INTERVAL_MS_def DEFAULT_FILE_STABLE_WAIT_MS_def
        DEFAULT_PULL_INTERVAL_MS_def MIN_PULL_INTERVAL_MS_def DEFAULT_LIST_CACHE_CHECK_SECS_def MIN_LIST_CACHE_CHECK_SECS_def
        MAX_LIST_CACHE_CHECK_SECS_def)
qed


definition sample_env :: env_provider where
  "sample_env = \<lparr>en_var = [''HOME'' \<mapsto> ustr ''/h''], en_hostname = ustr ''me''\<rparr>"

definition sample_raw :: raw_config where
  "sample_raw =
     \<lparr>ra_client = \<lparr>rc_device_name = None, rc_log_level = None, rc_download_dir = None, rc_key_file = None\<rparr>,
      ra_server = Some (raw_server_default\<lparr>rv_kind := Some (ustr ''local''), rv_local := Some \<lparr>rl_path = Some (ustr ''/s'')\<rparr>\<rparr>),
      ra_serve =
        \<lparr>re_drop_folder = None, re_clipboard_poll_interval_ms = None, re_file_stable_wait_ms = None, re_after_send = None,
         re_clipboard_images = None, re_pull = Some True, re_pull_interval_ms = Some 2000, re_list_cache = None,
         re_list_cache_check_secs = None\<rparr>\<rparr>"

lemma sample_paths:
  "expand_tilde DEFAULT_DOWNLOAD_DIR k sample_env = Inr (ustr ''/h/Downloads'')"
  "expand_tilde DEFAULT_DROP_FOLDER k sample_env = Inr (ustr ''/h/PassAlong'')"
  "\<not> path_starts_with (ustr ''/h/Downloads'') (ustr ''/h/PassAlong'')"
  by (simp_all add: expand_tilde_def expand_tilde_on_def sample_env_def windows_dir_def non_empty_def Let_def
      DEFAULT_DOWNLOAD_DIR_def DEFAULT_DROP_FOLDER_def strip_prefix_def starts_with_def path_join_def ends_with_def ustr_def
      path_starts_with_def path_comps_def has_root_def)

lemma sample_sections:
  "\<exists>s. validate_server sample_env (raw_server_default\<lparr>rv_kind := Some (ustr ''local''), rv_local := Some \<lparr>rl_path = Some (ustr ''/s'')\<rparr>\<rparr>)
     = Returned (Inr s)"
  "\<exists>c. validate_client sample_env (ra_client sample_raw) = Inr c \<and> cc_download_dir c = ustr ''/h/Downloads''"
  "\<exists>s. validate_serve sample_env (ra_serve sample_raw) = Inr s \<and> sv_drop_folder s = ustr ''/h/PassAlong''"
proof -
  have other: "ustr ''local'' \<noteq> ustr ''ssh''" by (simp add: ustr_def)
  have blank: "trim_both is_whitespace (ustr ''local'') \<noteq> []" "trim_both is_whitespace (ustr ''/s'') \<noteq> []"
    by (simp_all add: ustr_def trim_both_def trim_start_def trim_end_def is_whitespace_def)
  have "expand_tilde (ustr ''/s'') k sample_env = Inr (ustr ''/s'')" for k
    by (simp add: expand_tilde_def expand_tilde_on_def Let_def strip_prefix_def starts_with_def ustr_def)
  then show "\<exists>s. validate_server sample_env (raw_server_default\<lparr>rv_kind := Some (ustr ''local''), rv_local := Some \<lparr>rl_path = Some (ustr ''/s'')\<rparr>\<rparr>)
     = Returned (Inr s)"
    by (simp add: validate_server_def required_def blank other returned_then_def validate_local_def and_then_def raw_server_default_def)
  show "\<exists>c. validate_client sample_env (ra_client sample_raw) = Inr c \<and> cc_download_dir c = ustr ''/h/Downloads''"
    by (simp add: validate_client_def sample_raw_def and_then_def sample_paths rooted_def has_root_def starts_with_def ustr_def [of "''/h/Downloads''"])
  show "\<exists>s. validate_serve sample_env (ra_serve sample_raw) = Inr s \<and> sv_drop_folder s = ustr ''/h/PassAlong''"
    by (simp add: validate_serve_def sample_raw_def and_then_def sample_paths bounded_def MIN_PULL_INTERVAL_MS_def MAX_INTERVAL_MS_def)
qed


section \<open>Where the configuration is found\<close>

lemma first_Cons:
  "(\<exists>b a. c # cs = b @ x # a \<and> A \<and> (\<forall>y \<in> set b. P y))
     \<longleftrightarrow> c = x \<and> A \<or> P c \<and> (\<exists>b a. cs = b @ x # a \<and> A \<and> (\<forall>y \<in> set b. P y))" (is "?l \<longleftrightarrow> ?r")
proof
  assume ?l
  then obtain b a where b: "c # cs = b @ x # a" "A" "\<forall>y \<in> set b. P y" by blast
  then show ?r by (cases b) auto
next
  assume ?r
  then show ?l
  proof
    assume "c = x \<and> A"
    then have "c # cs = [] @ x # cs \<and> A \<and> (\<forall>y \<in> set []. P y)" by simp
    then show ?l by blast
  next
    assume "P c \<and> (\<exists>b a. cs = b @ x # a \<and> A \<and> (\<forall>y \<in> set b. P y))"
    then obtain b a where "cs = b @ x # a" "A" "\<forall>y \<in> set b. P y" "P c" by blast
    then have "c # cs = (c # b) @ x # a \<and> A \<and> (\<forall>y \<in> set (c # b). P y)" by simp
    then show ?l by blast
  qed
qed

lemma probe_all_first:
  "probe_all stat searched cs = Inr l \<longleftrightarrow>
     (\<exists>before after. cs = before @ (lc_path l, lc_origin l) # after \<and> probe stat (lc_path l) = Inr True
        \<and> (\<forall>(p, _) \<in> set before. probe stat p = Inr False))"
proof (induction cs)
  case (Cons c cs)
  obtain p origin where c: "c = (p, origin)" by fastforce
  have "probe_all stat searched (c # cs) = Inr l \<longleftrightarrow>
      c = (lc_path l, lc_origin l) \<and> probe stat (lc_path l) = Inr True
      \<or> probe stat p = Inr False \<and> probe_all stat searched cs = Inr l"
    by (cases l) (auto simp: c and_then_def split: sum.splits)
  then show ?case unfolding first_Cons Cons.IH by (simp add: c)
qed simp

lemma default_is_candidate:
  "default_config_path_on env pf = Some p \<Longrightarrow> \<exists>origin rest. candidates env roots pf = (p, origin) # rest"
  by (auto simp: default_config_path_on_def candidates_def split: option.splits)



end
