(* ===== verification/Spec2Isabelle.thy ===== *)
theory Spec2Isabelle
  imports Retention Sub_Fs Sample_Json Store_Claims Header_Laws Cache_File Rewrite_Laws Opening_Laws
    Pull_Laws Serving Command_Laws Loading Config_Laws
begin

text \<open>
  A verification library for passalong, a tool that passes text and files between devices through
  a shared folder, an SSH server or a web service, optionally encrypted on the client.

  \<^bold>\<open>The program.\<close> Devices put items (text, files, clipboard images) into a store and take them out
  again. A store is a folder of a remote file system: \<^verbatim>\<open>items/<id>/\<close> holds an item's content and its
  metadata, \<^verbatim>\<open>tmp/\<close> what is being written or thrown away, \<^verbatim>\<open>encryption/\<close> the header of an encrypted
  store, and \<^verbatim>\<open>.rewrite/\<close> the journal of a change to its encryption, which is also the lock. The
  commands work on the store directly; \<open>serve\<close> watches the clipboard and a drop folder, queues what
  it sees for an uploader, and in pull mode applies what other devices sent.

  \<^bold>\<open>How code becomes theory.\<close> Pure Rust functions are functions here, with \<open>'e + 'a\<close> for
  \<open>Result\<close>, options for \<open>Option\<close>, words for machine integers where their width matters, and \<open>outcome\<close>
  where a call may panic. Text is a list of scalar values (\<open>ustring\<close>) where it may be anything, a
  \<open>string\<close> where it is ASCII. An \<open>async\<close> function over a \<open>RemoteFs\<close> is a value of type \<open>'a prog\<close>, the
  tree of the calls it makes (\<open>Remote_Fs\<close>); \<open>safe\<close> states what holds at every moment of one, for
  every answer the contract of a file system allows, failures and cut writes included, and
  whatever other clients do in between; \<open>answers\<close> states what it answers while nobody changes the files. Code
  on local files runs over \<open>Os_Files\<close>, whose plan says what fails and what others do, and whose log
  keeps every step. Third-party code is a parameter: hashes, ciphers, key derivation and hex
  (\<open>ext\<close>, \<open>cext\<close>), JSON (\<open>fext\<close>, \<open>hext\<close>, \<open>jext\<close>), PNG, TOML, \<open>to_lowercase\<close>, rendering of tables. Laws
  named \<open>..._laws\<close> state what their documentation promises; the \<open>Sample_\<close> theories satisfy each of
  them by concrete functions, on which the witnesses rest.

  \<^bold>\<open>Core data.\<close> \<open>Prelude\<close> and \<open>Utf8\<close>: what the sources use of the standard library. \<open>Model\<close> and
  \<open>Item\<close>: \<^verbatim>\<open>model.rs\<close>, identifiers that sort by time, metadata, previews, safe file names. \<open>Retention\<close>:
  \<^verbatim>\<open>retention.rs\<close>, ages and the selection of \<open>prune\<close>. \<open>Crypto\<close>, \<open>Sealed_Stream\<close>: \<^verbatim>\<open>crypto/\<close>, keys,
  wrapping and the record format of sealed content, which opens exactly when nothing was changed,
  moved, cut or added. \<open>Format\<close>, \<open>Format_Laws\<close>: \<^verbatim>\<open>store/format.rs\<close>.

  \<^bold>\<open>File systems.\<close> \<open>Remote_Path\<close>, \<open>Remote_Fs\<close>, \<open>Sub_Fs\<close>, \<open>Sub_Prog\<close>: \<^verbatim>\<open>fs/mod.rs\<close>, paths that cannot leave
  the root, the interface, its contract (locales \<open>remote_fs\<close> and \<open>timed_fs\<close>) and a file system rooted
  at a folder of another. \<open>Local_Fs\<close>: \<^verbatim>\<open>fs/local.rs\<close> and the fault injection of \<^verbatim>\<open>testing.rs\<close>; both
  are shown to meet the contract. \<open>Safe_Rules\<close>, \<open>Confined\<close> and \<open>Slots\<close> are the rules of the program proofs:
  programs that only look, programs that write below given paths, trees moved by a rename.

  \<^bold>\<open>The store.\<close> \<open>Store_Error\<close>, \<open>Fs_Store\<close>: \<^verbatim>\<open>store/fs_store.rs\<close>, every operation. \<open>Store_Inv\<close>: an item is
  whole or not there. \<open>Store_Read\<close>, \<open>Store_Write\<close>, \<open>Store_Delete\<close>: each operation keeps that at every
  moment. \<open>Store_Map\<close>: the store seen as a finite map, which the operations act on as their
  specification says. \<open>Store_Trait\<close>: \<^verbatim>\<open>store/mod.rs\<close>, the trait its clients use (locale \<open>listing\<close>).
  \<open>Store_Claims\<close>: the properties.

  \<^bold>\<open>Encryption of a store.\<close> \<open>Header\<close>, \<open>Header_Laws\<close>: \<^verbatim>\<open>encryption/header.rs\<close>. \<open>Journal\<close>, \<open>Journal_Laws\<close>:
  \<^verbatim>\<open>journal.rs\<close>, the lock that appears whole or not at all. \<open>Header_Change\<close>, \<open>Change_Laws\<close>:
  \<^verbatim>\<open>header_change.rs\<close> and \<^verbatim>\<open>admin.rs\<close>, a change of words at every moment, completed or undone from every state
  it can stop in. \<open>Store_Layout\<close>, \<open>Opening_Laws\<close>: \<^verbatim>\<open>open.rs\<close> and \<^verbatim>\<open>mod.rs\<close>, the table by which a store is
  opened. \<open>Rewrite\<close>, \<open>Rewrite_Laws\<close>: \<^verbatim>\<open>rewrite.rs\<close>, a re-encryption that never loses an item.

  \<^bold>\<open>On this device.\<close> \<open>Os_Files\<close>, \<open>Download\<close>: \<^verbatim>\<open>download.rs\<close>, verified writes and free names. \<open>List_Cache\<close>,
  \<open>Cache_File\<close>: \<^verbatim>\<open>cache.rs\<close> and \<^verbatim>\<open>list_cache.rs\<close>, a cache that equals the listing. \<open>Clipboard_Read\<close>:
  \<^verbatim>\<open>clipboard/\<close>. \<open>Config_Text\<close>, \<open>Config\<close>, \<open>Config_Laws\<close>: \<^verbatim>\<open>config.rs\<close>, \<^verbatim>\<open>api_key.rs\<close> and the levels of
  \<^verbatim>\<open>telemetry.rs\<close>.

  \<^bold>\<open>Serving.\<close> \<open>Watching\<close>: \<^verbatim>\<open>serve/retry.rs\<close>, \<^verbatim>\<open>clipboard_watcher.rs\<close> and \<^verbatim>\<open>drop_watcher.rs\<close>. \<open>Uploading\<close>,
  \<open>Upload_Laws\<close>: \<^verbatim>\<open>serve/upload.rs\<close> (locale \<open>delivery\<close>). \<open>Pulling\<close>, \<open>Pull_Laws\<close>: \<^verbatim>\<open>serve/pull.rs\<close> (locale
  \<open>pull_source\<close>). \<open>Serving\<close>: the tasks of \<^verbatim>\<open>serve/mod.rs\<close> as steps on the events they wait for.

  \<^bold>\<open>Commands.\<close> \<open>Picking\<close>: \<^verbatim>\<open>commands/choose/\<close> and the labels of \<^verbatim>\<open>output.rs\<close>. \<open>Commands\<close>,
  \<open>Command_Laws\<close>: \<^verbatim>\<open>resolve.rs\<close>, \<^verbatim>\<open>prompt.rs\<close> and the commands \<open>delete\<close>, \<open>prune\<close>, \<open>cat\<close>, \<open>get\<close>, \<open>file\<close>, \<open>clipboard\<close> and
  \<open>list\<close> (locale \<open>deletions\<close>). \<open>Loading\<close>: \<open>load\<close>.

  \<^bold>\<open>Interfaces.\<close> Each locale above states what a client relies on and is interpreted on the model's
  own store or file system (\<open>lfs\<close>, \<open>ltfs\<close>, \<open>flfs\<close>, \<open>plain_fs\<close>, \<open>fs_listing\<close>, \<open>fs_delivery\<close>, \<open>fs_pull\<close>,
  \<open>fs_deletions\<close>).

  \<^bold>\<open>Bounds and fuel.\<close> Loops that the sources bound keep their bound: 16 part names and 999 numbered names of a
  download, 9 choices and 3 attempts of a prompt. The search for a name to move a sent file to counts
  in 32 bits; it is shown to end while fewer names are taken. The loop of the item list takes one
  round per key of the screen. Programs are finite trees; a retrying upload is
  given what the stop signal does in each attempt, and answers \<open>None\<close> if it is not through after those.

  \<^bold>\<open>Not modelled.\<close> Bindings and network I/O: the desktop clipboard, SSH and SFTP, the HTTPS client
  (its server is not part of the repository), drawing on the terminal, hidden input. The operating
  system's permissions of key files, processes, services and their logs. Parsing of the command
  line by clap, the dialogues of \<open>init\<close> and \<open>encrypt\<close>, the report of \<open>check\<close>, and the texts \<open>init\<close> writes.
  Timers, channels and spawning of tasks belong to the async runtime: \<open>Serving\<close> takes the order of
  events as given. Log lines are left out everywhere, as is erasing keys from memory.
\<close>

end
